(* ===== verification/Prelude.thy ===== *)
theory Prelude
  imports Main "HOL-Library.Word"
begin

text \<open>
  Shared material of the development: names for the machine types of the C
  sources, the lemmas on counters kept at their width, the loop over readers
  with an early exit on error, and the locale for invariants of step relations
  that the components instantiate.
\<close>

named_theorems frame_simps \<open>which fields an operation leaves unchanged\<close>
named_theorems loop_simps \<open>closed forms of the loops of the sources\<close>

type_synonym byte = "8 word"
type_synonym u8 = "8 word"
type_synonym u32 = "32 word"
type_synonym u64 = "64 word"

section \<open>Counters at their width\<close>

text \<open>Conversion of an \<open>int\<close> argument to the C types \<open>short\<close> and \<open>int64_t\<close>.\<close>

definition c_short :: "int \<Rightarrow> int" where
  "c_short n = signed_take_bit 15 n"

definition c_int64 :: "u64 \<Rightarrow> int" where
  "c_int64 w = sint w"

lemma c_short_small: "- 32768 \<le> n \<Longrightarrow> n < 32768 \<Longrightarrow> c_short n = n"
  unfolding c_short_def by (rule signed_take_bit_int_eq_self) auto

lemma c_short_minus_one [simp]: "c_short (- 1) = - 1"
  and c_short_one [simp]: "c_short 1 = 1"
  and c_short_zero [simp]: "c_short 0 = 0"
  by (simp_all add: c_short_small)

lemma unat_succ_bound:
  fixes a :: "'a::len word"
  assumes "Suc (unat a) < 2 ^ LENGTH('a)"
  shows "unat (a + 1) = Suc (unat a)"
  using assms by (simp add: unat_word_ariths)

lemma unat_less_length: "unat (a :: 'a::len word) < 2 ^ LENGTH('a)"
  by (rule unsigned_less)

lemma unat_succ_less:
  fixes a b :: "'a::len word"
  assumes "a < b"
  shows "unat (a + 1) = Suc (unat a)"
proof (rule unat_succ_bound)
  show "Suc (unat a) < 2 ^ LENGTH('a)"
    using assms unat_less_length [of b] unfolding word_less_nat_alt by linarith
qed

lemma unat_pred: "(a :: 'a::len word) \<noteq> 0 \<Longrightarrow> unat (a - 1) = unat a - 1"
  by (simp add: unat_minus_one)

lemma unat_diff: "(b :: 'a::len word) \<le> a \<Longrightarrow> unat (a - b) = unat a - unat b"
  by (simp add: unat_sub)

lemmas word_cmp = word_less_nat_alt word_le_nat_alt

section \<open>A loop with an early exit\<close>

text \<open>
  \<open>each f is s\<close> runs \<open>f i\<close> for the indices of the list in turn. \<open>None\<close>
  is a call that sleeps, \<open>Some (Some e, s')\<close> a call that failed with
  \<open>e\<close> (the loops of the sources return at the first failure), and
  \<open>Some (None, s')\<close> success.
\<close>

primrec each :: "('i \<Rightarrow> 's \<Rightarrow> ('e option \<times> 's) option) \<Rightarrow> 'i list \<Rightarrow> 's \<Rightarrow> ('e option \<times> 's) option" where
  "each f [] s = Some (None, s)"
| "each f (i # is) s =
     (case f i s of
        None \<Rightarrow> None
      | Some (Some e, s') \<Rightarrow> Some (Some e, s')
      | Some (None, s') \<Rightarrow> each f is s')"

lemma each_append:
  "each f (is @ js) s =
     (case each f is s of
        None \<Rightarrow> None
      | Some (Some e, s') \<Rightarrow> Some (Some e, s')
      | Some (None, s') \<Rightarrow> each f js s')"
  by (induction "is" arbitrary: s) (auto split: option.splits)

text \<open>What every iteration keeps, the loop keeps, wherever it stops.\<close>

lemma each_invariant:
  assumes "each f is s = Some (e, s')" and "P s"
    and "\<And>i s e s'. i \<in> set is \<Longrightarrow> P s \<Longrightarrow> f i s = Some (e, s') \<Longrightarrow> P s'"
  shows "P s'"
  using assms by (induction "is" arbitrary: s) (auto split: option.splits, blast+)

section \<open>Invariants of step relations\<close>

text \<open>
  The contract of every state machine of the development: an invariant that
  each step keeps holds after any number of steps. Two states are related by
  \<open>step\<^sup>*\<^sup>*\<close> when a finite run leads from one to the other.
\<close>

locale invariant_system =
  fixes step :: "'s \<Rightarrow> 's \<Rightarrow> bool"
    and inv :: "'s \<Rightarrow> bool"
  assumes step_inv: "step s t \<Longrightarrow> inv s \<Longrightarrow> inv t"
begin

lemma run_inv:
  assumes "step\<^sup>*\<^sup>* s t" and "inv s"
  shows "inv t"
  using assms by (induction rule: rtranclp_induct) (auto intro: step_inv)

lemma run_consequence:
  assumes "step\<^sup>*\<^sup>* s t" and "inv s" and "\<And>u. inv u \<Longrightarrow> Q u"
  shows "Q t"
  using assms run_inv by blast

end

end
