(* ===== verification/Semaphores.thy ===== *)
theory Semaphores
  imports Prelude
begin

text \<open>
  System V semaphores as the library uses them (\<^verbatim>\<open>src/ipcutil.c\<close>). A semaphore
  set is a function from the semaphore's number to its value. An operation that
  the kernel would put to sleep is \<open>None\<close>; an operation that fails gives the
  error number and leaves the set unchanged.
\<close>

datatype errno = EAGAIN | ERANGE | EEXIST | ENOENT

datatype sem_result = SemOk nat | SemErr errno | SemWait

text \<open>The largest value of a System V semaphore.\<close>

definition SEMVMX :: nat where
  "SEMVMX = 32767"

text \<open>
  \<open>semop\<close> on one semaphore: a positive operation adds and fails with
  \<open>ERANGE\<close> beyond \<open>SEMVMX\<close>; a negative one subtracts when the value is large
  enough and otherwise sleeps (fails with \<open>EAGAIN\<close> under \<open>IPC_NOWAIT\<close>); the
  operation 0 waits for the value zero.
\<close>

definition semop_val :: "nat \<Rightarrow> int \<Rightarrow> bool \<Rightarrow> sem_result" where
  "semop_val v op nowait =
     (if 0 < op then (if v + nat op \<le> SEMVMX then SemOk (v + nat op) else SemErr ERANGE)
      else if op = 0 then
        (if v = 0 then SemOk 0 else if nowait then SemErr EAGAIN else SemWait)
      else
        (if nat (- op) \<le> v then SemOk (v - nat (- op))
         else if nowait then SemErr EAGAIN else SemWait))"

text \<open>
  \<open>ipc_semop\<close>: one operation on semaphore \<open>num\<close> of a set. The operation is a
  C \<open>short\<close>, so the caller's count is converted to 16 bits first.
\<close>

definition ipc_semop :: "(nat \<Rightarrow> nat) \<Rightarrow> nat \<Rightarrow> int \<Rightarrow> bool \<Rightarrow> (errno option \<times> (nat \<Rightarrow> nat)) option" where
  "ipc_semop ss num op nowait =
     (case semop_val (ss num) (c_short op) nowait of
        SemOk v \<Rightarrow> Some (None, ss(num := v))
      | SemErr e \<Rightarrow> Some (Some e, ss)
      | SemWait \<Rightarrow> None)"

lemma ipc_semop_down:
  "ipc_semop ss num (- 1) False =
     (if 0 < ss num then Some (None, ss(num := ss num - 1)) else None)"
  by (simp add: ipc_semop_def semop_val_def)

lemma ipc_semop_try_down:
  "ipc_semop ss num (- 1) True =
     (if 0 < ss num then Some (None, ss(num := ss num - 1)) else Some (Some EAGAIN, ss))"
  by (simp add: ipc_semop_def semop_val_def)

lemma ipc_semop_up:
  "ipc_semop ss num 1 nowait =
     (if ss num < SEMVMX then Some (None, ss(num := ss num + 1)) else Some (Some ERANGE, ss))"
  by (simp add: ipc_semop_def semop_val_def)

lemmas ipc_semop_unit = ipc_semop_down ipc_semop_try_down ipc_semop_up

lemma ipc_semop_add:
  assumes "0 < n" and "n \<le> SEMVMX"
  shows "ipc_semop ss num (int n) nowait =
     (if ss num + n \<le> SEMVMX then Some (None, ss(num := ss num + n))
      else Some (Some ERANGE, ss))"
  using assms by (simp add: ipc_semop_def semop_val_def c_short_small SEMVMX_def)

lemma ipc_semop_sub:
  assumes "0 < n" and "n \<le> SEMVMX"
  shows "ipc_semop ss num (- int n) False =
     (if n \<le> ss num then Some (None, ss(num := ss num - n)) else None)"
  using assms by (simp add: ipc_semop_def semop_val_def c_short_small SEMVMX_def)

lemma ipc_semop_other:
  "ipc_semop ss num op nowait = Some (e, ss') \<Longrightarrow> n \<noteq> num \<Longrightarrow> ss' n = ss n"
  by (auto simp: ipc_semop_def split: sem_result.splits)

text \<open>A failed operation changes nothing.\<close>

lemma ipc_semop_error: "ipc_semop ss num op nowait = Some (Some e, ss') \<Longrightarrow> ss' = ss"
  by (auto simp: ipc_semop_def split: sem_result.splits)

end
