(* ===== verification/Ring_State.thy ===== *)
theory Ring_State
  imports Semaphores "HOL-Library.Monad_Syntax"
begin

text \<open>
  The data of \<^verbatim>\<open>src/ipcbuf.h\<close> and \<^verbatim>\<open>src/ipcbuf.c\<close>: the record every
  process shares through shared memory (\<open>ipcsync\<close>), the ring it belongs to
  (\<open>ring\<close>: the shared record, the pending counts, the semaphores and the
  sub-blocks), and the private handle of one process (\<open>ipcbuf\<close>). Arrays of the
  sources are functions from the index; every index the code uses is below 8,
  below the number of readers or below the number of sub-blocks.
\<close>

section \<open>States and constants\<close>

datatype ipcstate =
    DISCON | VIEWER | WRITER | WRITING | WCHANGE
  | READER | READING | RSTOP | VIEWING | VSTOP

abbreviation (input) IPCBUF_WRITE :: nat where "IPCBUF_WRITE \<equiv> 0"
abbreviation (input) IPCBUF_READ :: nat where "IPCBUF_READ \<equiv> 1"

abbreviation (input) IPCBUF_SODACK :: nat where "IPCBUF_SODACK \<equiv> 0"
abbreviation (input) IPCBUF_EODACK :: nat where "IPCBUF_EODACK \<equiv> 1"
abbreviation (input) IPCBUF_FULL :: nat where "IPCBUF_FULL \<equiv> 2"
abbreviation (input) IPCBUF_CLEAR :: nat where "IPCBUF_CLEAR \<equiv> 3"
abbreviation (input) IPCBUF_READER_CONN :: nat where "IPCBUF_READER_CONN \<equiv> 4"

abbreviation (input) IPCBUF_XFERS :: "'a::numeral" where "IPCBUF_XFERS \<equiv> 8"
abbreviation (input) IPCBUF_READERS :: nat where "IPCBUF_READERS \<equiv> 8"

section \<open>The shared record, the ring and the handle\<close>

record ipcsync =
  semkey_connect :: u32
  semkey_data :: "nat \<Rightarrow> u32"
  nbufs :: u64
  bufsz :: u64
  w_buf_next :: u64
  w_buf_curr :: u64
  w_state :: ipcstate
  w_xfer :: u64
  r_bufs :: "nat \<Rightarrow> u64"
  r_states :: "nat \<Rightarrow> ipcstate"
  r_xfers :: "nat \<Rightarrow> u64"
  n_readers :: u32
  s_buf :: "nat \<Rightarrow> u64"
  s_byte :: "nat \<Rightarrow> u64"
  eod :: "nat \<Rightarrow> bool"
  e_buf :: "nat \<Rightarrow> u64"
  e_byte :: "nat \<Rightarrow> u64"
  on_device_id :: int

text \<open>
  What the processes of one ring share: \<open>count\<close> is the array behind the shared
  record (a C \<open>char\<close> per sub-block), \<open>sem_connect\<close> and \<open>sem_data\<close> the
  semaphore sets (the latter one set per reader), \<open>mem\<close> the bytes of the
  sub-blocks.
\<close>

record ring =
  sync :: ipcsync
  count :: "nat \<Rightarrow> u8"
  shmkey :: "nat \<Rightarrow> u32"
  sem_connect :: "nat \<Rightarrow> nat"
  sem_data :: "nat \<Rightarrow> nat \<Rightarrow> nat"
  mem :: "nat \<Rightarrow> byte list"

text \<open>
  The fields of \<open>ipcbuf_t\<close> that are not identifiers or addresses of the shared
  objects: those are the link to the ring, which the operations take as an
  argument.
\<close>

record ipcbuf =
  state :: ipcstate
  viewbuf :: u64
  xfer :: u64
  soclock_buf :: u64
  iread :: int

definition IPCBUF_INIT :: ipcbuf where
  "IPCBUF_INIT = \<lparr>state = DISCON, viewbuf = 0, xfer = 0, soclock_buf = 0, iread = - 1\<rparr>"

text \<open>
  The result of an operation: \<open>None\<close> when the call sleeps (it cannot complete
  in this state of the ring and another process has to move first), otherwise
  the returned value, the ring and the handle.
\<close>

type_synonym 'a ipc = "('a \<times> ring \<times> ipcbuf) option"

text \<open>A pointer into the ring: the number of the sub-block and the byte offset.\<close>

type_synonym ptr = "nat \<times> u64"

abbreviation readers :: "ring \<Rightarrow> nat list" where
  "readers r \<equiv> [0..<unat (n_readers (sync r))]"

abbreviation cur_xfer :: "ipcbuf \<Rightarrow> nat" where
  "cur_xfer p \<equiv> unat (xfer p)"

section \<open>Semaphores of a ring\<close>

definition data_semop :: "nat \<Rightarrow> int \<Rightarrow> bool \<Rightarrow> nat \<Rightarrow> ring \<Rightarrow> (errno option \<times> ring) option" where
  "data_semop num op nowait i r =
     (case ipc_semop (sem_data r i) num op nowait of
        None \<Rightarrow> None
      | Some (e, ss) \<Rightarrow> Some (e, r\<lparr>sem_data := (sem_data r)(i := ss)\<rparr>))"

definition connect_semop :: "nat \<Rightarrow> int \<Rightarrow> ring \<Rightarrow> (errno option \<times> ring) option" where
  "connect_semop num op r =
     (case ipc_semop (sem_connect r) num op False of
        None \<Rightarrow> None
      | Some (e, ss) \<Rightarrow> Some (e, r\<lparr>sem_connect := ss\<rparr>))"

text \<open>
  The effect of one operation on semaphore \<open>num\<close> of several readers, in closed
  form.
\<close>

definition map_sems :: "(nat \<Rightarrow> nat) \<Rightarrow> nat \<Rightarrow> nat list \<Rightarrow> ring \<Rightarrow> ring" where
  "map_sems f num is r =
     r\<lparr>sem_data := (\<lambda>i. if i \<in> set is then (sem_data r i)(num := f (sem_data r i num))
                       else sem_data r i)\<rparr>"

lemma map_sems_frame [simp, frame_simps]:
  "sync (map_sems f num is r) = sync r"
  "count (map_sems f num is r) = count r"
  "shmkey (map_sems f num is r) = shmkey r"
  "sem_connect (map_sems f num is r) = sem_connect r"
  "mem (map_sems f num is r) = mem r"
  by (simp_all add: map_sems_def)

lemma sem_data_map_sems:
  "sem_data (map_sems f num is r) i n =
     (if i \<in> set is \<and> n = num then f (sem_data r i n) else sem_data r i n)"
  by (simp add: map_sems_def)

lemma map_sems_Nil [simp]: "map_sems f num [] r = r"
  by (simp add: map_sems_def)

lemma map_sems_id [simp]: "map_sems (\<lambda>v. v) num is r = r"
  by (simp add: map_sems_def cong: if_cong)

lemma map_sems_Cons:
  "i \<notin> set is \<Longrightarrow>
   map_sems f num is (r\<lparr>sem_data := (sem_data r)(i := (sem_data r i)(num := f (sem_data r i num)))\<rparr>)
     = map_sems f num (i # is) r"
  by (simp add: map_sems_def fun_eq_iff)

lemma data_semop_down:
  "data_semop num (- 1) False i r =
     (if 0 < sem_data r i num then Some (None, map_sems (\<lambda>v. v - 1) num [i] r) else None)"
  by (auto simp: data_semop_def ipc_semop_unit map_sems_def fun_eq_iff)

lemma data_semop_up:
  "data_semop num 1 nowait i r =
     (if sem_data r i num < SEMVMX then Some (None, map_sems Suc num [i] r)
      else Some (Some ERANGE, r))"
  by (auto simp: data_semop_def ipc_semop_unit map_sems_def fun_eq_iff)

text \<open>
  The loops \<open>for (iread = 0; iread < n_readers; iread++) ipc_semop (...)\<close> in
  closed form: the loop of decrements completes only when every reader's
  semaphore is positive, the loop of increments fails at the limit of the
  semaphore and never sleeps.
\<close>

lemma each_map_sems:
  assumes "distinct is"
    and "\<And>i s. i \<in> set is \<Longrightarrow> ok (sem_data s i num) \<Longrightarrow> f i s = Some (None, map_sems g num [i] s)"
    and "\<And>i. i \<in> set is \<Longrightarrow> ok (sem_data r i num)"
  shows "each f is r = Some (None, map_sems g num is r)"
  using assms
proof (induction "is" arbitrary: r)
  case (Cons i "is")
  have "each f is (map_sems g num [i] r) = Some (None, map_sems g num is (map_sems g num [i] r))"
    using Cons.prems by (intro Cons.IH) (auto simp: sem_data_map_sems)
  moreover have "map_sems g num is (map_sems g num [i] r) = map_sems g num (i # is) r"
    using Cons.prems(1) by (auto simp: map_sems_def fun_eq_iff)
  ultimately show ?case using Cons.prems by simp
qed simp

lemma each_down_blocks:
  assumes "i \<in> set is" and "sem_data r i num = 0"
  shows "each (data_semop num (- 1) False) is r = None"
  using assms
proof (induction "is" arbitrary: r)
  case (Cons j "is")
  show ?case
  proof (cases "0 < sem_data r j num")
    case True
    with Cons.prems have "i \<in> set is" by auto
    then have "each (data_semop num (- 1) False) is (map_sems (\<lambda>v. v - 1) num [j] r) = None"
      using Cons.prems by (intro Cons.IH) (auto simp: sem_data_map_sems)
    with True show ?thesis by (simp add: data_semop_down [of num j r])
  qed (simp add: data_semop_down [of num j r])
qed simp

lemma each_down [loop_simps]:
  assumes "distinct is"
  shows "each (data_semop num (- 1) False) is r =
    (if \<forall>i\<in>set is. 0 < sem_data r i num then Some (None, map_sems (\<lambda>v. v - 1) num is r) else None)"
proof (cases "\<forall>i\<in>set is. 0 < sem_data r i num")
  case True
  then show ?thesis
    using assms each_map_sems [where ok = "\<lambda>v. 0 < v" and g = "\<lambda>v. v - 1" and f = "data_semop num (- 1) False"]
    by (simp add: data_semop_down)
next
  case False
  then show ?thesis using each_down_blocks by auto
qed

lemma each_up_ok:
  assumes "distinct is" and "\<forall>i\<in>set is. sem_data r i num < SEMVMX"
  shows "each (data_semop num 1 nowait) is r = Some (None, map_sems Suc num is r)"
  using assms
  by (intro each_map_sems [where ok = "\<lambda>v. v < SEMVMX"]) (simp_all add: data_semop_up)

lemma data_semop_add:
  assumes "0 < n" and "n \<le> SEMVMX" and "sem_data r i num + n \<le> SEMVMX"
  shows "data_semop num (int n) nowait i r = Some (None, map_sems (\<lambda>v. v + n) num [i] r)"
  using assms by (auto simp: data_semop_def ipc_semop_add map_sems_def fun_eq_iff)

lemma each_add_ok:
  assumes "distinct is" and "0 < n" and "n \<le> SEMVMX" and "\<forall>i\<in>set is. sem_data r i num + n \<le> SEMVMX"
  shows "each (data_semop num (int n) nowait) is r = Some (None, map_sems (\<lambda>v. v + n) num is r)"
  using assms
  by (intro each_map_sems [where ok = "\<lambda>v. v + n \<le> SEMVMX"]) (simp_all add: data_semop_add)

text \<open>A loop of increments that completes met no reader at the limit.\<close>

lemma data_semop_add_iff:
  assumes "0 < n" and "n \<le> SEMVMX"
  shows "data_semop num (int n) nowait i r =
    (if sem_data r i num + n \<le> SEMVMX then Some (None, map_sems (\<lambda>v. v + n) num [i] r)
     else Some (Some ERANGE, r))"
  using assms by (auto simp: data_semop_def ipc_semop_add map_sems_def fun_eq_iff)

lemma each_add_fits:
  assumes "each (data_semop num (int n) nowait) is r = Some (None, r')" and "distinct is"
    and "0 < n" and "n \<le> SEMVMX"
  shows "\<forall>i\<in>set is. sem_data r i num + n \<le> SEMVMX"
  using assms
proof (induction "is" arbitrary: r)
  case (Cons j "is")
  then have j: "sem_data r j num + n \<le> SEMVMX"
    and rest: "each (data_semop num (int n) nowait) is (map_sems (\<lambda>v. v + n) num [j] r) = Some (None, r')"
    by (auto simp: data_semop_add_iff [of n num nowait j r] split: if_splits)
  then have "\<forall>i\<in>set is. sem_data (map_sems (\<lambda>v. v + n) num [j] r) i num + n \<le> SEMVMX"
    using Cons.IH Cons.prems by simp
  with j Cons.prems(2) show ?case by (auto simp: sem_data_map_sems split: if_splits)
qed simp

lemma each_add_Some:
  assumes "each (data_semop num (int n) nowait) is r = Some (None, r')" and "distinct is"
    and "0 < n" and "n \<le> SEMVMX"
  shows "r' = map_sems (\<lambda>v. v + n) num is r"
  using assms each_add_fits [OF assms] each_add_ok [of "is" n r num nowait] by simp

lemma each_up_Some:
  assumes "each (data_semop num 1 nowait) is r = Some (None, r')" and "distinct is"
  shows "r' = map_sems Suc num is r" and "\<forall>i\<in>set is. sem_data r i num < SEMVMX"
  using assms each_add_Some [of num 1 nowait "is" r r'] each_add_fits [of num 1 nowait "is" r r']
  by (auto simp: SEMVMX_def)

text \<open>Whatever a semaphore operation returns, it writes nothing but semaphores.\<close>

lemma data_semop_frame:
  assumes "data_semop num op nowait i r = Some (e, r')"
  shows "sync r' = sync r \<and> count r' = count r \<and> shmkey r' = shmkey r
    \<and> sem_connect r' = sem_connect r \<and> mem r' = mem r
    \<and> (\<forall>n. n \<noteq> num \<longrightarrow> (\<forall>j. sem_data r' j n = sem_data r j n))
    \<and> (\<forall>j. j \<noteq> i \<longrightarrow> sem_data r' j = sem_data r j)"
  using assms by (auto simp: data_semop_def ipc_semop_other split: option.splits)

lemma each_data_semop_frame:
  assumes "each (data_semop num op nowait) is r = Some (e, r')"
  shows "sync r' = sync r \<and> count r' = count r \<and> shmkey r' = shmkey r
    \<and> sem_connect r' = sem_connect r \<and> mem r' = mem r
    \<and> (\<forall>n. n \<noteq> num \<longrightarrow> (\<forall>j. sem_data r' j n = sem_data r j n))"
proof -
  let ?P = "\<lambda>s. sync s = sync r \<and> count s = count r \<and> shmkey s = shmkey r
    \<and> sem_connect s = sem_connect r \<and> mem s = mem r
    \<and> (\<forall>n. n \<noteq> num \<longrightarrow> (\<forall>j. sem_data s j n = sem_data r j n))"
  show ?thesis
  proof (rule each_invariant [where P = ?P, OF assms])
    show "?P r" by simp
  next
    fix i s e s'
    assume "?P s" and "data_semop num op nowait i s = Some (e, s')"
    then show "?P s'" using data_semop_frame by metis
  qed
qed

end
