(* ===== verification/Ipcbuf_Write.thy ===== *)
theory Ipcbuf_Write
  imports Ring_State
begin

text \<open>
  The operations of the process that writes to the ring (\<^verbatim>\<open>src/ipcbuf.c\<close>):
  taking and giving back the writer's lock, raising start and end of data,
  opening the next sub-block and marking it filled.
\<close>

section \<open>The writer's lock\<close>

definition ipcbuf_is_writer :: "ipcbuf \<Rightarrow> bool" where
  "ipcbuf_is_writer p \<longleftrightarrow> state p = WRITER \<or> state p = WCHANGE \<or> state p = WRITING"

definition ipcbuf_is_writing :: "ipcbuf \<Rightarrow> bool" where
  "ipcbuf_is_writing p \<longleftrightarrow> state p = WRITING"

definition ipcbuf_lock_write :: "ring \<Rightarrow> ipcbuf \<Rightarrow> int ipc" where
  "ipcbuf_lock_write r p =
     (if state p \<noteq> VIEWER then Some (- 1, r, p)
      else do {
        (e, r) \<leftarrow> connect_semop IPCBUF_WRITE (- 1) r;
        if e \<noteq> None then Some (- 1, r, p)
        else Some (0, r,
          p\<lparr>state := (if w_state (sync r) = DISCON then WCHANGE else WRITING),
            xfer := w_xfer (sync r) mod IPCBUF_XFERS\<rparr>)
      })"

definition ipcbuf_unlock_write :: "ring \<Rightarrow> ipcbuf \<Rightarrow> int ipc" where
  "ipcbuf_unlock_write r p =
     (if \<not> ipcbuf_is_writer p then Some (- 1, r, p)
      else do {
        (e, r) \<leftarrow> connect_semop IPCBUF_WRITE 1 r;
        if e \<noteq> None then Some (- 1, r, p)
        else Some (0, r, p\<lparr>state := VIEWER\<rparr>)
      })"

definition ipcbuf_enable_eod :: "ipcbuf \<Rightarrow> int \<times> ipcbuf" where
  "ipcbuf_enable_eod p =
     (if state p \<noteq> WRITING then (- 1, p) else (0, p\<lparr>state := WCHANGE\<rparr>))"

definition ipcbuf_disable_sod :: "ipcbuf \<Rightarrow> int \<times> ipcbuf" where
  "ipcbuf_disable_sod p =
     (if state p \<noteq> WCHANGE then (- 1, p) else (0, p\<lparr>state := WRITER\<rparr>))"

section \<open>Start of data\<close>

text \<open>
  The subtraction of two \<open>uint64_t\<close> counters wraps, as it does in the source.
\<close>

definition ipcbuf_get_sod_minbuf :: "ring \<Rightarrow> ipcbuf \<Rightarrow> u64" where
  "ipcbuf_get_sod_minbuf r p =
     (let s = sync r; new_bufs_written = w_buf_next s - soclock_buf p
      in if new_bufs_written < nbufs s then soclock_buf p
         else w_buf_next s - nbufs s + 1)"

text \<open>
  \<open>for (new_bufs = s_buf; new_bufs < w_buf_curr; new_bufs++) count[new_bufs % nbufs] ++\<close>
\<close>

function count_written :: "u64 \<Rightarrow> u64 \<Rightarrow> u64 \<Rightarrow> (nat \<Rightarrow> u8) \<Rightarrow> (nat \<Rightarrow> u8)" where
  "count_written new_bufs w_curr nb cnt =
     (if new_bufs < w_curr
      then count_written (new_bufs + 1) w_curr nb
             (cnt(unat (new_bufs mod nb) := cnt (unat (new_bufs mod nb)) + 1))
      else cnt)"
  by pat_completeness auto
termination
  by (relation "measure (\<lambda>(new_bufs, w_curr, nb, cnt). unat w_curr - unat new_bufs)")
    (auto simp: unat_succ_less word_less_nat_alt)

declare count_written.simps [simp del]

text \<open>
  The four checks with which \<open>ipcbuf_enable_sod\<close> starts; each returns -1 when it
  fails.
\<close>

definition sod_allowed :: "ring \<Rightarrow> ipcbuf \<Rightarrow> u64 \<Rightarrow> u64 \<Rightarrow> bool" where
  "sod_allowed r p start_buf start_byte \<longleftrightarrow>
     (state p = WRITER \<or> state p = WCHANGE) \<and> start_buf \<le> w_buf_next (sync r)
     \<and> ipcbuf_get_sod_minbuf r p \<le> start_buf \<and> start_byte \<le> bufsz (sync r)"

text \<open>
  The writes to the shared record: start of data of the transfer in its slot of
  the table; the end-of-data flag of the slot is lowered only when nothing has
  been written yet.
\<close>

definition sod_sync :: "ipcsync \<Rightarrow> u64 \<Rightarrow> u64 \<Rightarrow> ipcsync" where
  "sod_sync s start_buf start_byte =
     (let x = unat (w_xfer s mod IPCBUF_XFERS)
      in s\<lparr>s_buf := (s_buf s)(x := start_buf), s_byte := (s_byte s)(x := start_byte),
           eod := (if w_buf_curr s = 0 then (eod s)(x := False) else eod s), w_state := WRITING\<rparr>)"

definition ipcbuf_enable_sod :: "ring \<Rightarrow> ipcbuf \<Rightarrow> u64 \<Rightarrow> u64 \<Rightarrow> int ipc" where
  "ipcbuf_enable_sod r p start_buf start_byte =
     (if \<not> sod_allowed r p start_buf start_byte then Some (- 1, r, p)
      else do {
        (e, r) \<leftarrow> each (data_semop IPCBUF_SODACK (- 1) False) (readers r) r;
        if e \<noteq> None then Some (- 1, r, p)
        else
          let p = p\<lparr>xfer := w_xfer (sync r) mod IPCBUF_XFERS, state := WRITING\<rparr>;
              new_bufs = w_buf_curr (sync r) - start_buf;
              r = r\<lparr>sync := sod_sync (sync r) start_buf start_byte,
                    count := count_written start_buf (w_buf_curr (sync r)) (nbufs (sync r)) (count r)\<rparr>
          in if new_bufs = 0 then Some (0, r, p)
             else do {
               (e, r) \<leftarrow> each (data_semop IPCBUF_FULL (uint new_bufs) False) (readers r) r;
               if e \<noteq> None then Some (- 1, r, p) else Some (0, r, p)
             }
      })"

section \<open>Opening and filling a sub-block\<close>

text \<open>
  The loop \<open>while (id->count[bufnum])\<close> of \<open>ipcbuf_get_next_write\<close>: one round
  takes one CLEAR from every reader and decrements the count, so the number of
  rounds is the count itself.
\<close>

primrec drain_count :: "nat \<Rightarrow> nat \<Rightarrow> ring \<Rightarrow> (errno option \<times> ring) option" where
  "drain_count 0 bufnum r = Some (None, r)"
| "drain_count (Suc n) bufnum r =
     do {
       (e, r) \<leftarrow> each (data_semop IPCBUF_CLEAR (- 1) False) (readers r) r;
       if e \<noteq> None then Some (e, r)
       else drain_count n bufnum (r\<lparr>count := (count r)(bufnum := count r bufnum - 1)\<rparr>)
     }"

text \<open>From here on the handle's state decides what happens.\<close>

definition ipcbuf_get_next_write :: "ring \<Rightarrow> ipcbuf \<Rightarrow> nat option ipc" where
  "ipcbuf_get_next_write r p =
     (if \<not> ipcbuf_is_writer p then Some (None, r, p)
      else do {
        (rc, r, p) \<leftarrow> (if state p = WCHANGE
                      then ipcbuf_enable_sod r p (w_buf_curr (sync r)) 0
                      else Some (0, r, p));
        if rc < 0 then Some (None, r, p)
        else
          let bufnum = unat (w_buf_next (sync r) mod nbufs (sync r))
          in do {
            (e, r) \<leftarrow> drain_count (unat (count r bufnum)) bufnum r;
            if e \<noteq> None then Some (None, r, p)
            else Some (Some bufnum, r\<lparr>sync := (sync r)\<lparr>w_buf_next := w_buf_next (sync r) + 1\<rparr>\<rparr>, p)
          }
      })"

text \<open>
  \<open>ipcbuf_zero_next_write\<close> polls until every reader's CLEAR is positive: a
  state in which one is zero is a state in which the call does not return.
\<close>

definition ipcbuf_zero_next_write :: "ring \<Rightarrow> ipcbuf \<Rightarrow> int ipc" where
  "ipcbuf_zero_next_write r p =
     (if \<not> ipcbuf_is_writer p then Some (- 1, r, p)
      else
        let next_buf = unat (w_buf_next (sync r) mod nbufs (sync r))
        in if \<exists>i\<in>set (readers r). sem_data r i IPCBUF_CLEAR = 0 then None
           else Some (0, r\<lparr>mem := (mem r)(next_buf := replicate (unat (bufsz (sync r))) 0)\<rparr>, p))"

text \<open>
  End of data in \<open>ipcbuf_mark_filled\<close>: every reader's EODACK is taken, the slot of
  the transfer records the last sub-block and its bytes, and the writer moves to
  the next transfer. When the data ended on the first byte of a sub-block one
  more sub-block is opened, to be closed at once.
\<close>

definition eod_sync :: "ipcsync \<Rightarrow> nat \<Rightarrow> u64 \<Rightarrow> ipcsync" where
  "eod_sync s x nbytes =
     s\<lparr>e_buf := (e_buf s)(x := w_buf_curr s), e_byte := (e_byte s)(x := nbytes),
       eod := (eod s)(x := True), w_xfer := w_xfer s + 1, w_state := DISCON\<rparr>"

definition end_transfer :: "ring \<Rightarrow> ipcbuf \<Rightarrow> u64 \<Rightarrow> int ipc" where
  "end_transfer r p nbytes =
     do {
       (e, r) \<leftarrow> each (data_semop IPCBUF_EODACK (- 1) False) (readers r) r;
       if e \<noteq> None then Some (- 1, r, p)
       else
         let r = r\<lparr>sync := eod_sync (sync r) (cur_xfer p) nbytes\<rparr>;
             p = p\<lparr>xfer := w_xfer (sync r) mod IPCBUF_XFERS, state := WRITER\<rparr>
         in if nbytes = 0
            then do { (_, r, p) \<leftarrow> ipcbuf_get_next_write r p; Some (0, r, p) }
            else Some (0, r, p)
     }"

text \<open>The sub-block counts as written, and every reader's FULL is raised.\<close>

definition count_filled :: "ring \<Rightarrow> ring" where
  "count_filled r =
     (let bufnum = unat (w_buf_curr (sync r) mod nbufs (sync r))
      in r\<lparr>count := (count r)(bufnum := count r bufnum + 1),
           sync := (sync r)\<lparr>w_buf_curr := w_buf_curr (sync r) + 1\<rparr>\<rparr>)"

definition ipcbuf_mark_filled :: "ring \<Rightarrow> ipcbuf \<Rightarrow> u64 \<Rightarrow> int ipc" where
  "ipcbuf_mark_filled r p nbytes =
     (if \<not> ipcbuf_is_writer p then Some (- 1, r, p)
      else if state p = WRITER then
        Some (0, r\<lparr>sync := (sync r)\<lparr>w_buf_curr := w_buf_curr (sync r) + 1\<rparr>\<rparr>, p)
      else do {
        (rc, r, p) \<leftarrow> (if state p = WCHANGE \<or> nbytes < bufsz (sync r) then end_transfer r p nbytes
                      else Some (0, r, p));
        if rc < 0 then Some (- 1, r, p)
        else do {
          (e, r) \<leftarrow> each (data_semop IPCBUF_FULL 1 False) (readers r) (count_filled r);
          if e \<noteq> None then Some (- 1, r, p) else Some (0, r, p)
        }
      })"

definition ipcbuf_set_soclock_buf :: "ring \<Rightarrow> ipcbuf \<Rightarrow> u64 \<times> ipcbuf" where
  "ipcbuf_set_soclock_buf r p =
     (let b = (if 0 < w_xfer (sync r)
               then e_buf (sync r) (unat ((w_xfer (sync r) - 1) mod IPCBUF_XFERS)) + 1
               else 0)
      in (b, p\<lparr>soclock_buf := b\<rparr>))"

end
