(* ===== verification/Ipcbuf_Read.thy ===== *)
theory Ipcbuf_Read
  imports Ring_State
begin

text \<open>
  The operations of the processes that read from the ring, as locked readers or
  as viewers without a lock (\<^verbatim>\<open>src/ipcbuf.c\<close>).
\<close>

section \<open>The reader's lock\<close>

definition ipcbuf_is_reader :: "ipcbuf \<Rightarrow> bool" where
  "ipcbuf_is_reader p \<longleftrightarrow> state p = READER \<or> state p = READING \<or> state p = RSTOP"

definition ipcbuf_eod :: "ipcbuf \<Rightarrow> bool" where
  "ipcbuf_eod p \<longleftrightarrow> state p = RSTOP \<or> state p = VSTOP"

definition ipcbuf_sod :: "ipcbuf \<Rightarrow> bool" where
  "ipcbuf_sod p \<longleftrightarrow> state p = READING \<or> state p = WRITING"

text \<open>
  One pass of the selection loop of \<open>ipcbuf_lock_read\<close>: the reader with the
  smallest count of buffers read (below \<open>UINT64_MAX\<close>) that has not been used
  yet; \<open>None\<close> when no reader qualifies and the entry stays uninitialised.
\<close>

definition pick_oldest :: "(nat \<Rightarrow> u64) \<Rightarrow> nat \<Rightarrow> nat option list \<Rightarrow> u64 \<times> nat option" where
  "pick_oldest bufs n used =
     fold (\<lambda>i (val, pos). if bufs i < val \<and> Some i \<notin> set used then (bufs i, Some i) else (val, pos))
       [0..<n] (- 1, None)"

definition reader_order :: "(nat \<Rightarrow> u64) \<Rightarrow> nat \<Rightarrow> nat option list" where
  "reader_order bufs n = fold (\<lambda>ipos xfers_pos. xfers_pos @ [snd (pick_oldest bufs n xfers_pos)]) [0..<n] []"

text \<open>
  The attempts in that order to take a reader's connection without sleeping.
  The result is the reader index, \<open>-1\<close> when every attempt met \<open>EAGAIN\<close>;
  another error ends the loop (as does an uninitialised entry).
\<close>

primrec claim_reader :: "nat option list \<Rightarrow> ring \<Rightarrow> (bool \<times> int \<times> ring) option" where
  "claim_reader [] r = Some (True, - 1, r)"
| "claim_reader (pos # rest) r =
     (case pos of
        None \<Rightarrow> Some (False, - 1, r)
      | Some oldest \<Rightarrow>
          do {
            (e, r) \<leftarrow> data_semop IPCBUF_READER_CONN (- 1) True oldest r;
            if e = None then Some (True, int oldest, r)
            else if e = Some EAGAIN then claim_reader rest r
            else Some (False, - 1, r)
          })"

definition ipcbuf_lock_read :: "ring \<Rightarrow> ipcbuf \<Rightarrow> int ipc" where
  "ipcbuf_lock_read r p =
     (if state p \<noteq> VIEWER then Some (- 1, r, p)
      else if iread p \<noteq> - 1 then Some (- 1, r, p)
      else do {
        (e, r) \<leftarrow> connect_semop IPCBUF_READ (- 1) r;
        if e \<noteq> None then Some (- 1, r, p)
        else do {
          (ok, i, r) \<leftarrow> claim_reader (reader_order (r_bufs (sync r)) (unat (n_readers (sync r)))) r;
          if \<not> ok \<or> i = - 1 then Some (- 1, r, p)
          else Some (0, r,
            p\<lparr>iread := i,
              state := (if r_states (sync r) (nat i) = DISCON then READER else READING),
              xfer := r_xfers (sync r) (nat i) mod IPCBUF_XFERS\<rparr>)
        }
      })"

definition ipcbuf_unlock_read :: "ring \<Rightarrow> ipcbuf \<Rightarrow> int ipc" where
  "ipcbuf_unlock_read r p =
     (if \<not> ipcbuf_is_reader p then Some (- 1, r, p)
      else if iread p < 0 \<or> int (unat (n_readers (sync r))) \<le> iread p then Some (- 1, r, p)
      else do {
        (e, r) \<leftarrow> data_semop IPCBUF_READER_CONN 1 False (nat (iread p)) r;
        if e \<noteq> None then Some (- 1, r, p)
        else do {
          (e, r) \<leftarrow> connect_semop IPCBUF_READ 1 r;
          if e \<noteq> None then Some (- 1, r, p)
          else Some (0, r, p\<lparr>state := VIEWER, iread := - 1\<rparr>)
        }
      })"

section \<open>Opening and clearing a sub-block\<close>

text \<open>
  The number of bytes a reader is told: to the end of the sub-block, or to the
  end of data when this is the last sub-block of the transfer.
\<close>

definition at_end_of_data :: "ring \<Rightarrow> ipcbuf \<Rightarrow> nat \<Rightarrow> bool" where
  "at_end_of_data r p i \<longleftrightarrow>
     eod (sync r) (cur_xfer p) \<and> r_bufs (sync r) i = e_buf (sync r) (cur_xfer p)"

definition read_bytes :: "ring \<Rightarrow> ipcbuf \<Rightarrow> nat \<Rightarrow> u64 \<Rightarrow> u64" where
  "read_bytes r p i start_byte =
     (if at_end_of_data r p i then e_byte (sync r) (cur_xfer p) - start_byte
      else bufsz (sync r) - start_byte)"

text \<open>
  The branch of a locked reader: wait for FULL, on the first sub-block of a
  transfer take the start of data and acknowledge it. The result is the
  sub-block's counter and the start byte.
\<close>

definition next_read_reader :: "ring \<Rightarrow> ipcbuf \<Rightarrow> (u64 \<times> u64) option ipc" where
  "next_read_reader r p =
     (let i = nat (iread p) in do {
        (e, r) \<leftarrow> data_semop IPCBUF_FULL (- 1) False i r;
        if e \<noteq> None then Some (None, r, p)
        else if state p = READER then
          let p = p\<lparr>xfer := r_xfers (sync r) i mod IPCBUF_XFERS, state := READING\<rparr>;
              x = cur_xfer p;
              start_byte = s_byte (sync r) x;
              r = r\<lparr>sync := (sync r)\<lparr>r_states := (r_states (sync r))(i := READING),
                                     r_bufs := (r_bufs (sync r))(i := s_buf (sync r) x)\<rparr>\<rparr>
          in do {
            (e, r) \<leftarrow> data_semop IPCBUF_SODACK 1 False i r;
            if e \<noteq> None then Some (None, r, p)
            else Some (Some (r_bufs (sync r) i, start_byte), r, p)
          }
        else Some (Some (r_bufs (sync r) i, 0), r, p)
      })"

text \<open>
  The branch of a viewer. It starts at the start of data of reader 0's transfer,
  seeks to the last written sub-block, and polls until there is one to look at
  or the transfer has ended; a state in which it would keep polling gives
  \<open>None\<close>.
\<close>

definition next_read_viewer :: "ring \<Rightarrow> ipcbuf \<Rightarrow> (u64 \<times> u64) option ipc" where
  "next_read_viewer r p =
     (let s = sync r;
          (p, start_byte) =
            (if state p = VIEWER then
               let p = p\<lparr>xfer := r_xfers s 0 mod IPCBUF_XFERS, state := VIEWING\<rparr>;
                   p = p\<lparr>viewbuf := s_buf s (cur_xfer p)\<rparr>
               in if viewbuf p + 1 < w_buf_curr s then (p\<lparr>viewbuf := w_buf_curr s - 1\<rparr>, 0)
                  else (p, s_byte s (cur_xfer p))
             else (p, 0));
          ended = (eod s (cur_xfer p) \<and> r_bufs s 0 \<noteq> 0 \<and> r_bufs s 0 = e_buf s (cur_xfer p))
      in if w_buf_curr s \<le> viewbuf p \<and> \<not> ended then None
         else
           let p = (if w_buf_curr s \<le> viewbuf p then p\<lparr>state := VSTOP\<rparr> else p);
               p = (if viewbuf p + nbufs s < w_buf_curr s
                    then p\<lparr>viewbuf := w_buf_curr s - nbufs s + 1\<rparr> else p)
           in Some (Some (viewbuf p, start_byte), r, p\<lparr>viewbuf := viewbuf p + 1\<rparr>))"

text \<open>
  \<open>ipcbuf_get_next_read_work\<close>: \<open>None\<close> inside the result is the null pointer;
  otherwise the pointer and the value stored through \<open>bytes\<close>. The \<open>flag\<close>
  argument (\<open>SEM_UNDO\<close> of \<open>ipcbuf_get_next_readable\<close>) only matters when the
  process exits.
\<close>

definition ipcbuf_get_next_read_work :: "ring \<Rightarrow> ipcbuf \<Rightarrow> (ptr \<times> u64) option ipc" where
  "ipcbuf_get_next_read_work r p =
     (if ipcbuf_eod p then Some (None, r, p)
      else do {
        (res, r, p) \<leftarrow> (if ipcbuf_is_reader p then next_read_reader r p else next_read_viewer r p);
        case res of
          None \<Rightarrow> Some (None, r, p)
        | Some (bufnum, start_byte) \<Rightarrow>
            let i = (if ipcbuf_is_reader p then nat (iread p) else 0)
            in Some (Some ((unat (bufnum mod nbufs (sync r)), start_byte),
                           read_bytes r p i start_byte), r, p)
      })"

definition ipcbuf_get_next_read :: "ring \<Rightarrow> ipcbuf \<Rightarrow> (ptr \<times> u64) option ipc" where
  "ipcbuf_get_next_read r p = ipcbuf_get_next_read_work r p"

definition ipcbuf_get_next_readable :: "ring \<Rightarrow> ipcbuf \<Rightarrow> (ptr \<times> u64) option ipc" where
  "ipcbuf_get_next_readable r p = ipcbuf_get_next_read_work r p"

definition ipcbuf_mark_cleared :: "ring \<Rightarrow> ipcbuf \<Rightarrow> int ipc" where
  "ipcbuf_mark_cleared r p =
     (if state p \<noteq> READING then Some (- 1, r, p)
      else
        let i = nat (iread p) in do {
          (e, r) \<leftarrow> data_semop IPCBUF_CLEAR 1 False i r;
          if e \<noteq> None then Some (- 1, r, p)
          else if at_end_of_data r p i then
            let s = (sync r)\<lparr>r_states := (r_states (sync r))(i := DISCON),
                             r_xfers := (r_xfers (sync r))(i := r_xfers (sync r) i + 1)\<rparr>;
                r = r\<lparr>sync := s\<rparr>;
                p = p\<lparr>state := RSTOP, xfer := r_xfers s i mod IPCBUF_XFERS\<rparr>
            in do {
              (e, r) \<leftarrow> data_semop IPCBUF_EODACK 1 False i r;
              if e \<noteq> None then Some (- 1, r, p) else Some (0, r, p)
            }
          else Some (0, r\<lparr>sync := (sync r)\<lparr>r_bufs := (r_bufs (sync r))(i := r_bufs (sync r) i + 1)\<rparr>\<rparr>, p)
        })"

section \<open>Positions\<close>

definition ipcbuf_tell :: "ring \<Rightarrow> ipcbuf \<Rightarrow> u64 \<Rightarrow> u64" where
  "ipcbuf_tell r p bufnum =
     (let s = sync r; x = cur_xfer p
      in if bufnum \<le> s_buf s x then 0
         else (bufnum - s_buf s x) * bufsz s - s_byte s x)"

definition ipcbuf_tell_read :: "ring \<Rightarrow> ipcbuf \<Rightarrow> int" where
  "ipcbuf_tell_read r p =
     (if ipcbuf_eod p then - 1
      else if state p = READING then c_int64 (ipcbuf_tell r p (r_bufs (sync r) (nat (iread p))))
      else if state p = VIEWING then c_int64 (ipcbuf_tell r p (viewbuf p))
      else 0)"

end
