(* ===== verification/Ipcbuf_Admin.thy ===== *)
theory Ipcbuf_Admin
  imports Ipcbuf_Write Ipcbuf_Read
begin

text \<open>
  Resetting a ring and asking for its state (\<^verbatim>\<open>src/ipcbuf.c\<close>): the operations
  that are neither the writer's nor the readers' data path.
\<close>

section \<open>Reset\<close>

text \<open>
  The first loop of \<open>ipcbuf_reset\<close>: for every sub-block, take back one CLEAR
  from every reader until its count is zero.
\<close>

definition drain_all :: "ring \<Rightarrow> (errno option \<times> ring) option" where
  "drain_all r = each (\<lambda>ibuf r. drain_count (unat (count r ibuf)) ibuf r) [0..<unat (nbufs (sync r))] r"

text \<open>
  The second loop: every reader must have acknowledged every start and end of
  data (the decrements by \<open>IPCBUF_XFERS\<close> sleep otherwise); the counters of the
  reader go back to zero.
\<close>

definition reset_reader :: "nat \<Rightarrow> ring \<Rightarrow> (errno option \<times> ring) option" where
  "reset_reader i r =
     do {
       (e, r) \<leftarrow> data_semop IPCBUF_SODACK (- IPCBUF_XFERS) False i r;
       if e \<noteq> None then Some (e, r) else do {
       (e, r) \<leftarrow> data_semop IPCBUF_EODACK (- IPCBUF_XFERS) False i r;
       if e \<noteq> None then Some (e, r) else do {
       (e, r) \<leftarrow> data_semop IPCBUF_SODACK IPCBUF_XFERS False i r;
       if e \<noteq> None then Some (e, r) else do {
       (e, r) \<leftarrow> data_semop IPCBUF_EODACK IPCBUF_XFERS False i r;
       if e \<noteq> None then Some (e, r)
       else Some (None, r\<lparr>sync := (sync r)\<lparr>r_bufs := (r_bufs (sync r))(i := 0),
                                           r_xfers := (r_xfers (sync r))(i := 0)\<rparr>\<rparr>) }}}
     }"

definition ipcbuf_reset :: "ring \<Rightarrow> ipcbuf \<Rightarrow> int ipc" where
  "ipcbuf_reset r p =
     (if state p = RSTOP then Some (0, r, p\<lparr>state := READER\<rparr>)
      else if \<not> ipcbuf_is_writer p then Some (- 1, r, p)
      else if w_buf_curr (sync r) = 0 \<and> w_buf_next (sync r) = 0 then Some (0, r, p)
      else do {
        (e, r) \<leftarrow> drain_all r;
        if e \<noteq> None then Some (- 1, r, p)
        else do {
          (e, r) \<leftarrow> each reset_reader (readers r) r;
          if e \<noteq> None then Some (- 1, r, p)
          else Some (0, r\<lparr>sync := (sync r)\<lparr>w_buf_curr := 0, w_buf_next := 0, w_xfer := 0,
                                           eod := (\<lambda>ix. if ix < IPCBUF_XFERS then True else eod (sync r) ix)\<rparr>\<rparr>, p)
        }
      })"

text \<open>
  \<open>semctl (SETVAL)\<close> sets a semaphore outright. \<open>ipcbuf_hard_reset\<close> does not
  look at the handle's state and leaves the pending counts alone.
\<close>

definition hard_reset_reader :: "nat \<Rightarrow> ring \<Rightarrow> ring" where
  "hard_reset_reader i r =
     r\<lparr>sync := (sync r)\<lparr>r_bufs := (r_bufs (sync r))(i := 0), r_xfers := (r_xfers (sync r))(i := 0)\<rparr>,
       sem_data := (sem_data r)(i := (sem_data r i)(IPCBUF_FULL := 0, IPCBUF_CLEAR := 0))\<rparr>"

definition ipcbuf_hard_reset :: "ring \<Rightarrow> ipcbuf \<Rightarrow> int \<times> ring \<times> ipcbuf" where
  "ipcbuf_hard_reset r p =
     (let r = r\<lparr>sync := (sync r)\<lparr>w_buf_curr := 0, w_buf_next := 0, w_xfer := 0,
                                 eod := (\<lambda>ix. if ix < IPCBUF_XFERS then True else eod (sync r) ix)\<rparr>\<rparr>
      in (0, fold hard_reset_reader (readers r) r, p))"

text \<open>\<open>ipcbuf_page\<close> fills every sub-block with zeros.\<close>

definition ipcbuf_page :: "ring \<Rightarrow> ring" where
  "ipcbuf_page r =
     r\<lparr>mem := (\<lambda>i. if i < unat (nbufs (sync r)) then replicate (unat (bufsz (sync r))) 0 else mem r i)\<rparr>"

section \<open>Positions and counts\<close>

definition ipcbuf_tell_write :: "ring \<Rightarrow> ipcbuf \<Rightarrow> int" where
  "ipcbuf_tell_write r p =
     (if ipcbuf_eod p then - 1
      else if \<not> ipcbuf_is_writer p then - 1
      else c_int64 (ipcbuf_tell r p (w_buf_curr (sync r))))"

definition ipcbuf_get_write_byte_xfer :: "ring \<Rightarrow> ipcbuf \<Rightarrow> u64" where
  "ipcbuf_get_write_byte_xfer r p =
     (if eod (sync r) (cur_xfer p) then e_byte (sync r) (cur_xfer p)
      else ipcbuf_tell r p (w_buf_curr (sync r)))"

definition ipcbuf_get_write_count_xfer :: "ring \<Rightarrow> ipcbuf \<Rightarrow> u64" where
  "ipcbuf_get_write_count_xfer r p =
     (if w_xfer (sync r) = xfer p then w_buf_curr (sync r) else e_byte (sync r) (cur_xfer p))"

definition ipcbuf_get_write_count :: "ring \<Rightarrow> u64" where
  "ipcbuf_get_write_count r = w_buf_curr (sync r)"

definition ipcbuf_get_write_index :: "ring \<Rightarrow> u64" where
  "ipcbuf_get_write_index r =
     (if w_buf_curr (sync r) < w_buf_next (sync r)
      then (w_buf_next (sync r) - 1) mod nbufs (sync r)
      else w_buf_curr (sync r) mod nbufs (sync r))"

definition ipcbuf_get_read_count_iread :: "ring \<Rightarrow> nat \<Rightarrow> u64" where
  "ipcbuf_get_read_count_iread r i = r_bufs (sync r) i"

definition ipcbuf_get_read_count :: "ring \<Rightarrow> ipcbuf \<Rightarrow> u64" where
  "ipcbuf_get_read_count r p =
     (if iread p = - 1 then ipcbuf_get_read_count_iread r 0
      else ipcbuf_get_read_count_iread r (nat (iread p)))"

definition ipcbuf_get_read_index :: "ring \<Rightarrow> ipcbuf \<Rightarrow> u64" where
  "ipcbuf_get_read_index r p = ipcbuf_get_read_count r p mod nbufs (sync r)"

definition ipcbuf_get_nbufs :: "ring \<Rightarrow> u64" where
  "ipcbuf_get_nbufs r = nbufs (sync r)"

definition ipcbuf_get_bufsz :: "ring \<Rightarrow> u64" where
  "ipcbuf_get_bufsz r = bufsz (sync r)"

section \<open>Semaphore values\<close>

text \<open>
  The getters for FULL, CLEAR, SODACK and EODACK share one shape: an explicit
  reader index, reader 0 for a process that is not a reader, and otherwise a
  loop over all readers that computes a maximum and returns the last value read.
  The loop keeps the pair of the maximum and the last value, as the source does.
\<close>

definition scan_max :: "nat \<Rightarrow> ring \<Rightarrow> nat \<times> nat" where
  "scan_max num r =
     fold (\<lambda>i (m, v). let v = sem_data r i num in (if m < v then v else m, v)) (readers r) (0, 0)"

definition get_sem_iread :: "nat \<Rightarrow> ring \<Rightarrow> ipcbuf \<Rightarrow> int \<Rightarrow> nat" where
  "get_sem_iread num r p i =
     (if 0 \<le> i then sem_data r (nat i) num
      else if iread p = - 1 then sem_data r 0 num
      else snd (scan_max num r))"

definition ipcbuf_get_nfull_iread :: "ring \<Rightarrow> ipcbuf \<Rightarrow> int \<Rightarrow> nat" where
  "ipcbuf_get_nfull_iread = get_sem_iread IPCBUF_FULL"

definition ipcbuf_get_nfull :: "ring \<Rightarrow> ipcbuf \<Rightarrow> nat" where
  "ipcbuf_get_nfull r p = ipcbuf_get_nfull_iread r p (- 1)"

definition ipcbuf_get_nclear_iread :: "ring \<Rightarrow> ipcbuf \<Rightarrow> int \<Rightarrow> nat" where
  "ipcbuf_get_nclear_iread = get_sem_iread IPCBUF_CLEAR"

definition ipcbuf_get_nclear :: "ring \<Rightarrow> ipcbuf \<Rightarrow> nat" where
  "ipcbuf_get_nclear r p = ipcbuf_get_nclear_iread r p (- 1)"

definition ipcbuf_get_sodack_iread :: "ring \<Rightarrow> ipcbuf \<Rightarrow> int \<Rightarrow> nat" where
  "ipcbuf_get_sodack_iread = get_sem_iread IPCBUF_SODACK"

definition ipcbuf_get_sodack :: "ring \<Rightarrow> ipcbuf \<Rightarrow> nat" where
  "ipcbuf_get_sodack r p = ipcbuf_get_sodack_iread r p (- 1)"

definition ipcbuf_get_eodack_iread :: "ring \<Rightarrow> ipcbuf \<Rightarrow> int \<Rightarrow> nat" where
  "ipcbuf_get_eodack_iread = get_sem_iread IPCBUF_EODACK"

definition ipcbuf_get_eodack :: "ring \<Rightarrow> ipcbuf \<Rightarrow> nat" where
  "ipcbuf_get_eodack r p = ipcbuf_get_eodack_iread r p (- 1)"

text \<open>The getter of the connection semaphores has a minimum that starts at 1.\<close>

definition scan_min :: "nat \<Rightarrow> ring \<Rightarrow> nat \<times> nat" where
  "scan_min num r =
     fold (\<lambda>i (m, v). let v = sem_data r i num in (if v < m then v else m, v)) (readers r) (1, 0)"

definition ipcbuf_get_reader_conn_iread :: "ring \<Rightarrow> ipcbuf \<Rightarrow> int \<Rightarrow> nat" where
  "ipcbuf_get_reader_conn_iread r p i =
     (if 0 \<le> i then sem_data r (nat i) IPCBUF_READER_CONN
      else if iread p = - 1 then sem_data r 0 IPCBUF_READER_CONN
      else snd (scan_min IPCBUF_READER_CONN r))"

definition ipcbuf_get_reader_conn :: "ring \<Rightarrow> ipcbuf \<Rightarrow> nat" where
  "ipcbuf_get_reader_conn r p = ipcbuf_get_reader_conn_iread r p (- 1)"

definition ipcbuf_get_nreaders :: "ring \<Rightarrow> int" where
  "ipcbuf_get_nreaders r = uint (n_readers (sync r))"

definition ipcbuf_get_read_semaphore_count :: "ring \<Rightarrow> nat" where
  "ipcbuf_get_read_semaphore_count r = sem_connect r IPCBUF_READ"

end
