(* ===== verification/Ipcbuf_Create.thy ===== *)
theory Ipcbuf_Create
  imports Ring_State
begin

text \<open>
  Creating, connecting to, disconnecting from and destroying a ring
  (\<^verbatim>\<open>src/ipcbuf.c\<close>, with \<open>ipc_alloc\<close> of \<^verbatim>\<open>src/ipcutil.c\<close>), over a model of
  the System V namespace: keys name shared memory segments and semaphore sets.
  Memory does not run out in this model; the ways to fail are the ones
  the flags ask for.
\<close>

section \<open>The namespace\<close>

text \<open>
  A segment holds the shared record with the arrays behind it, or one sub-block.
  An object outlives its key: a removed segment stays with the processes that
  have it attached.
\<close>

datatype segment = SyncSeg ipcsync "nat \<Rightarrow> u8" "nat \<Rightarrow> u32" | BlockSeg "byte list"

record os =
  next_id :: nat
  shm_of :: "u32 \<Rightarrow> nat option"
  sem_of :: "u32 \<Rightarrow> nat option"
  segment_at :: "nat \<Rightarrow> segment option"
  sem_set :: "nat \<Rightarrow> (nat \<Rightarrow> nat) option"

text \<open>
  \<open>shmget\<close> and \<open>semget\<close>: with \<open>IPC_CREAT | IPC_EXCL\<close> the object must not exist,
  without it must. The key 0 is \<open>IPC_PRIVATE\<close>, which always makes a new object.
\<close>

definition shmget :: "u32 \<Rightarrow> bool \<Rightarrow> segment \<Rightarrow> os \<Rightarrow> nat option \<times> os" where
  "shmget key excl new w =
     (let ident = next_id w;
          made = w\<lparr>next_id := ident + 1, segment_at := (segment_at w)(ident \<mapsto> new)\<rparr>
      in if key = 0 then (Some ident, made)
         else case shm_of w key of
           Some old \<Rightarrow> (if excl then None else Some old, w)
         | None \<Rightarrow> if excl then (Some ident, made\<lparr>shm_of := (shm_of w)(key \<mapsto> ident)\<rparr>) else (None, w))"

definition semget :: "u32 \<Rightarrow> bool \<Rightarrow> os \<Rightarrow> nat option \<times> os" where
  "semget key excl w =
     (let ident = next_id w;
          made = w\<lparr>next_id := ident + 1, sem_set := (sem_set w)(ident \<mapsto> (\<lambda>_. 0))\<rparr>
      in if key = 0 then (Some ident, made)
         else case sem_of w key of
           Some old \<Rightarrow> (if excl then None else Some old, w)
         | None \<Rightarrow> if excl then (Some ident, made\<lparr>sem_of := (sem_of w)(key \<mapsto> ident)\<rparr>) else (None, w))"

text \<open>\<open>IPC_RMID\<close>: the key is free again; a semaphore set is gone at once.\<close>

definition shm_rmid :: "nat option \<Rightarrow> os \<Rightarrow> os" where
  "shm_rmid ident w =
     (if ident = None then w else w\<lparr>shm_of := (\<lambda>k. if shm_of w k = ident then None else shm_of w k)\<rparr>)"

definition sem_rmid :: "nat option \<Rightarrow> os \<Rightarrow> os" where
  "sem_rmid ident w =
     (case ident of None \<Rightarrow> w
      | Some i \<Rightarrow> w\<lparr>sem_of := (\<lambda>k. if sem_of w k = ident then None else sem_of w k),
                     sem_set := (sem_set w)(i := None)\<rparr>)"

section \<open>The handle's identifiers\<close>

record attached =
  syncid :: "nat option"
  semid_connect :: "nat option"
  semid_data :: "nat option list"
  shmid :: "nat option list"

definition ATTACHED_INIT :: attached where
  "ATTACHED_INIT = \<lparr>syncid = None, semid_connect = None, semid_data = [], shmid = []\<rparr>"

definition zero_sync :: ipcsync where
  "zero_sync = \<lparr>semkey_connect = 0, semkey_data = (\<lambda>_. 0), nbufs = 0, bufsz = 0, w_buf_next = 0,
     w_buf_curr = 0, w_state = DISCON, w_xfer = 0, r_bufs = (\<lambda>_. 0), r_states = (\<lambda>_. DISCON),
     r_xfers = (\<lambda>_. 0), n_readers = 0, s_buf = (\<lambda>_. 0), s_byte = (\<lambda>_. 0), eod = (\<lambda>_. False),
     e_buf = (\<lambda>_. 0), e_byte = (\<lambda>_. 0), on_device_id = 0\<rparr>"

text \<open>\<open>ipcsync_get\<close>: attach the shared record; a new segment holds zeros.\<close>

definition ipcsync_get :: "u32 \<Rightarrow> bool \<Rightarrow> attached \<Rightarrow> ipcbuf \<Rightarrow> os \<Rightarrow> int \<times> attached \<times> ipcbuf \<times> os" where
  "ipcsync_get key excl a p w =
     (let (ident, w) = shmget key excl (SyncSeg zero_sync (\<lambda>_. 0) (\<lambda>_. 0)) w
      in if ident = None then (- 1, a, p, w)
         else (0, a\<lparr>syncid := ident\<rparr>, p\<lparr>state := DISCON, viewbuf := 0\<rparr>, w))"

text \<open>The loops of \<open>ipcbuf_get\<close> over the readers and, up to the first failure, the sub-blocks.\<close>

primrec get_sems :: "u32 list \<Rightarrow> bool \<Rightarrow> os \<Rightarrow> nat option list \<times> os" where
  "get_sems [] excl w = ([], w)"
| "get_sems (k # ks) excl w =
     (let (ident, w) = semget k excl w; (ids, w) = get_sems ks excl w in (ident # ids, w))"

primrec get_blocks :: "u32 list \<Rightarrow> nat \<Rightarrow> bool \<Rightarrow> os \<Rightarrow> nat option list \<times> os" where
  "get_blocks [] bytes excl w = ([], w)"
| "get_blocks (k # ks) bytes excl w =
     (let (ident, w) = shmget k excl (BlockSeg (replicate bytes 0)) w
      in if ident = None then ([None], w)
         else let (ids, w) = get_blocks ks bytes excl w in (ident # ids, w))"

definition ipcbuf_get :: "ipcsync \<Rightarrow> (nat \<Rightarrow> u32) \<Rightarrow> bool \<Rightarrow> attached \<Rightarrow> os \<Rightarrow> int \<times> attached \<times> os" where
  "ipcbuf_get s keys excl a w =
     (let (conn, w) = semget (semkey_connect s) excl w;
          (data, w) = get_sems (map (semkey_data s) [0..<unat (n_readers s)]) excl w;
          (blocks, w) = get_blocks (map keys [0..<unat (nbufs s)]) (unat (bufsz s)) excl w
      in (if conn = None \<or> None \<in> set data \<or> None \<in> set blocks then - 1 else 0,
          a\<lparr>semid_connect := conn, semid_data := data, shmid := blocks\<rparr>, w))"

section \<open>Create\<close>

text \<open>The keys of a ring: \<open>key_increment\<close> apart, one after the other.\<close>

definition key_increment :: u32 where "key_increment = 0x10000"

definition key_at :: "u32 \<Rightarrow> nat \<Rightarrow> u32" where
  "key_at key i = key + of_nat i * key_increment"

text \<open>The assignments of \<open>ipcbuf_create_work\<close> to the shared record and the handle.\<close>

definition create_sync :: "u32 \<Rightarrow> u64 \<Rightarrow> u64 \<Rightarrow> u32 \<Rightarrow> ipcsync \<Rightarrow> ipcsync" where
  "create_sync key nb bs nr s =
     s\<lparr>nbufs := nb, bufsz := bs, n_readers := nr, on_device_id := - 1,
       s_buf := (\<lambda>x. if x < IPCBUF_XFERS then 0 else s_buf s x),
       s_byte := (\<lambda>x. if x < IPCBUF_XFERS then 0 else s_byte s x),
       e_buf := (\<lambda>x. if x < IPCBUF_XFERS then 0 else e_buf s x),
       e_byte := (\<lambda>x. if x < IPCBUF_XFERS then 0 else e_byte s x),
       eod := (\<lambda>x. if x < IPCBUF_XFERS then True else eod s x),
       semkey_connect := key_at key 1,
       semkey_data := (\<lambda>i. if i < IPCBUF_READERS then key_at key (2 + i) else semkey_data s i),
       w_buf_curr := 0, w_buf_next := 0, w_xfer := 0, w_state := DISCON,
       r_bufs := (\<lambda>i. if i < IPCBUF_READERS then 0 else r_bufs s i),
       r_xfers := (\<lambda>i. if i < IPCBUF_READERS then 0 else r_xfers s i),
       r_states := (\<lambda>i. if i < IPCBUF_READERS then DISCON else r_states s i)\<rparr>"

definition block_key :: "u32 \<Rightarrow> nat \<Rightarrow> u32" where
  "block_key key b = key_at key (2 + IPCBUF_READERS + b)"

text \<open>One operation on a semaphore set of the namespace.\<close>

definition os_semop :: "nat option \<Rightarrow> nat \<Rightarrow> int \<Rightarrow> os \<Rightarrow> (errno option \<times> os) option" where
  "os_semop ident num op w =
     (case Option.bind ident (sem_set w) of
        None \<Rightarrow> Some (Some ENOENT, w)
      | Some ss \<Rightarrow>
          (case ipc_semop ss num op False of
             None \<Rightarrow> None
           | Some (e, ss') \<Rightarrow> Some (e, w\<lparr>sem_set := (sem_set w)(the ident \<mapsto> ss')\<rparr>)))"

definition ready_reader :: "nat option \<Rightarrow> os \<Rightarrow> (errno option \<times> os) option" where
  "ready_reader ident w =
     do {
       (e, w) \<leftarrow> os_semop ident IPCBUF_SODACK IPCBUF_XFERS w;
       if e \<noteq> None then Some (e, w) else do {
       (e, w) \<leftarrow> os_semop ident IPCBUF_EODACK IPCBUF_XFERS w;
       if e \<noteq> None then Some (e, w)
       else os_semop ident IPCBUF_READER_CONN 1 w }
     }"

text \<open>The increments at the end of \<open>ipcbuf_create_work\<close>: ready to be locked by writer and readers.\<close>

definition create_ready :: "u32 \<Rightarrow> attached \<Rightarrow> ipcbuf \<Rightarrow> os \<Rightarrow> (int \<times> attached \<times> ipcbuf \<times> os) option" where
  "create_ready nr a p w =
     do {
       (e, w) \<leftarrow> os_semop (semid_connect a) IPCBUF_WRITE 1 w;
       if e \<noteq> None then Some (- 1, a, p, w) else do {
       (e, w) \<leftarrow> os_semop (semid_connect a) IPCBUF_READ (uint nr) w;
       if e \<noteq> None then Some (- 1, a, p, w) else do {
       (e, w) \<leftarrow> each ready_reader (semid_data a) w;
       if e \<noteq> None then Some (- 1, a, p, w)
       else Some (0, a, p\<lparr>state := VIEWER\<rparr>, w) }}
     }"

text \<open>
  \<open>ipcbuf_create\<close>, built without CUDA. \<open>None\<close> would be an increment that sleeps
  (a reader count that is negative as a \<open>short\<close>).
\<close>

definition ipcbuf_create ::
    "u32 \<Rightarrow> u64 \<Rightarrow> u64 \<Rightarrow> u32 \<Rightarrow> attached \<Rightarrow> ipcbuf \<Rightarrow> os \<Rightarrow> (int \<times> attached \<times> ipcbuf \<times> os) option" where
  "ipcbuf_create key nb bs nr a p w =
     (let (rc, a, p, w) = ipcsync_get key True a p w
      in if rc < 0 then Some (- 1, a, p, w)
         else
           let s = create_sync key nb bs nr zero_sync;
               w = w\<lparr>segment_at := (segment_at w)(the (syncid a) \<mapsto> SyncSeg s (\<lambda>_. 0)
                       (\<lambda>b. if b < unat nb then block_key key b else 0))\<rparr>;
               p = p\<lparr>viewbuf := 0, xfer := 0, soclock_buf := 0, iread := - 1\<rparr>;
               (rc, a, w) = ipcbuf_get s (block_key key) True a w
           in if rc < 0 then Some (- 1, a, p, w) else create_ready nr a p w)"

section \<open>Connect, disconnect, destroy\<close>

definition ipcbuf_connect :: "u32 \<Rightarrow> attached \<Rightarrow> ipcbuf \<Rightarrow> os \<Rightarrow> int \<times> attached \<times> ipcbuf \<times> os" where
  "ipcbuf_connect key a p w =
     (let (rc, a, p, w) = ipcsync_get key False a p w
      in if rc < 0 then (- 1, a, p, w)
         else case Option.bind (syncid a) (segment_at w) of
           Some (SyncSeg s cnt keys) \<Rightarrow>
             (let (rc, a, w) = ipcbuf_get s keys False a w
              in if rc < 0 then (- 1, a, p, w) else (0, a, p\<lparr>state := VIEWER\<rparr>, w))
         | _ \<Rightarrow> (- 1, a, p, w))"

text \<open>\<open>ipcbuf_disconnect\<close> detaches; the objects and their keys stay.\<close>

definition ipcbuf_disconnect :: "attached \<Rightarrow> ipcbuf \<Rightarrow> int \<times> attached \<times> ipcbuf" where
  "ipcbuf_disconnect a p =
     (0, a\<lparr>semid_data := [], shmid := []\<rparr>, p\<lparr>state := DISCON, iread := - 1\<rparr>)"

definition ipcbuf_destroy :: "attached \<Rightarrow> os \<Rightarrow> int \<times> attached \<times> os" where
  "ipcbuf_destroy a w =
     (let w = sem_rmid (semid_connect a) w;
          w = fold sem_rmid (semid_data a) w;
          w = fold shm_rmid (shmid a) w;
          w = shm_rmid (syncid a) w
      in (0, ATTACHED_INIT, w))"

text \<open>The ring a process works on: the objects its identifiers name.\<close>

definition ring_of :: "os \<Rightarrow> attached \<Rightarrow> ring option" where
  "ring_of w a =
     (case Option.bind (syncid a) (segment_at w) of
        Some (SyncSeg s cnt keys) \<Rightarrow>
          Some \<lparr>sync = s, count = cnt, shmkey = keys,
                sem_connect = the (Option.bind (semid_connect a) (sem_set w)),
                sem_data = (\<lambda>i. if i < length (semid_data a)
                               then the (Option.bind (semid_data a ! i) (sem_set w)) else (\<lambda>_. 0)),
                mem = (\<lambda>b. if b < length (shmid a)
                            then (case Option.bind (shmid a ! b) (segment_at w) of
                                    Some (BlockSeg d) \<Rightarrow> d | _ \<Rightarrow> [])
                            else [])\<rparr>
      | _ \<Rightarrow> None)"

definition ipcbuf_get_device :: "ring \<Rightarrow> int" where
  "ipcbuf_get_device r = on_device_id (sync r)"

section \<open>The keys of a ring\<close>

lemma unat_key_at: "unat (key_at key i) = (unat key + i * 65536) mod 4294967296"
  by (simp add: key_at_def key_increment_def unat_word_ariths unat_of_nat mod_simps)

lemma key_at_inj:
  assumes "key_at key i = key_at key j" and "i < 65536" and "j < 65536"
  shows "i = j"
proof -
  have "key_at 0 i = key_at 0 j" using assms(1) by (simp add: key_at_def)
  then have "unat (key_at 0 i) = unat (key_at 0 j)" by simp
  with assms(2,3) show ?thesis by (simp add: unat_key_at)
qed

text \<open>
  The low half of a key is the low half of the key the ring was made with, so
  rings whose keys differ there share no object.
\<close>

lemma key_at_low: "unat (key_at key i) mod 65536 = unat key mod 65536"
proof -
  have "(m mod 4294967296) mod 65536 = m mod (65536 :: nat)" for m
    by (rule mod_mod_cancel) simp
  then show ?thesis by (simp add: unat_key_at)
qed

section \<open>What the loops over keys return\<close>

text \<open>Identifiers are handed out in order; every key in use names an older object.\<close>

definition os_ok :: "os \<Rightarrow> bool" where
  "os_ok w \<longleftrightarrow> (\<forall>k i. shm_of w k = Some i \<longrightarrow> i < next_id w) \<and> (\<forall>k i. sem_of w k = Some i \<longrightarrow> i < next_id w)"

text \<open>New objects for keys that are free, one identifier after the other.\<close>

definition named :: "(u32 \<Rightarrow> nat option) \<Rightarrow> (u32 \<Rightarrow> nat option) \<Rightarrow> u32 list \<Rightarrow> nat \<Rightarrow> bool" where
  "named m m' ks n \<longleftrightarrow> (\<forall>k. k \<notin> set ks \<longrightarrow> m' k = m k) \<and> (\<forall>j<length ks. m' (ks ! j) = Some (n + j))"

lemma named_Cons:
  assumes "named (m(k \<mapsto> n)) m' ks (Suc n)" and "k \<notin> set ks"
  shows "named m m' (k # ks) n"
  using assms by (auto simp: named_def nth_Cons split: nat.splits)

lemma get_sems_new:
  assumes "distinct ks" and "0 \<notin> set ks" and "\<forall>k\<in>set ks. sem_of w k = None"
  shows "\<exists>m. get_sems ks True w =
      (map Some [next_id w..<next_id w + length ks],
       w\<lparr>next_id := next_id w + length ks, sem_of := m,
         sem_set := (\<lambda>i. if next_id w \<le> i \<and> i < next_id w + length ks then Some (\<lambda>_. 0) else sem_set w i)\<rparr>)
    \<and> named (sem_of w) m ks (next_id w)"
  using assms
proof (induction ks arbitrary: w)
  case Nil
  have "(\<lambda>i. if next_id w \<le> i \<and> i < next_id w + 0 then Some (\<lambda>_. 0) else sem_set w i) = sem_set w"
    by (rule ext) auto
  then show ?case by (intro exI [of _ "sem_of w"]) (simp add: named_def)
next
  case (Cons k ks)
  let ?w = "w\<lparr>next_id := next_id w + 1, sem_set := (sem_set w)(next_id w \<mapsto> (\<lambda>_. 0)),
    sem_of := (sem_of w)(k \<mapsto> next_id w)\<rparr>"
  have step: "semget k True w = (Some (next_id w), ?w)" using Cons.prems by (simp add: semget_def Let_def)
  have "\<exists>m. get_sems ks True ?w =
      (map Some [next_id ?w..<next_id ?w + length ks],
       ?w\<lparr>next_id := next_id ?w + length ks, sem_of := m,
         sem_set := (\<lambda>i. if next_id ?w \<le> i \<and> i < next_id ?w + length ks then Some (\<lambda>_. 0) else sem_set ?w i)\<rparr>)
    \<and> named (sem_of ?w) m ks (next_id ?w)"
    using Cons.prems by (intro Cons.IH) auto
  then obtain m where m: "get_sems ks True ?w =
      (map Some [next_id ?w..<next_id ?w + length ks],
       ?w\<lparr>next_id := next_id ?w + length ks, sem_of := m,
         sem_set := (\<lambda>i. if next_id ?w \<le> i \<and> i < next_id ?w + length ks then Some (\<lambda>_. 0) else sem_set ?w i)\<rparr>)"
    and n: "named (sem_of ?w) m ks (next_id ?w)" by blast
  have "named (sem_of w) m (k # ks) (next_id w)" using n Cons.prems by (intro named_Cons) auto
  moreover have "(\<lambda>i. if next_id ?w \<le> i \<and> i < next_id ?w + length ks then Some (\<lambda>_. 0) else sem_set ?w i)
     = (\<lambda>i. if next_id w \<le> i \<and> i < next_id w + length (k # ks) then Some (\<lambda>_. 0) else sem_set w i)"
    by (auto simp: fun_eq_iff)
  ultimately show ?case
    using m by (intro exI [of _ m]) (simp add: step upt_conv_Cons del: upt_Suc)
qed

lemma get_blocks_new:
  assumes "distinct ks" and "0 \<notin> set ks" and "\<forall>k\<in>set ks. shm_of w k = None"
  shows "\<exists>m. get_blocks ks bytes True w =
      (map Some [next_id w..<next_id w + length ks],
       w\<lparr>next_id := next_id w + length ks, shm_of := m,
         segment_at := (\<lambda>i. if next_id w \<le> i \<and> i < next_id w + length ks
                            then Some (BlockSeg (replicate bytes 0)) else segment_at w i)\<rparr>)
    \<and> named (shm_of w) m ks (next_id w)"
  using assms
proof (induction ks arbitrary: w)
  case Nil
  have "(\<lambda>i. if next_id w \<le> i \<and> i < next_id w + 0 then Some (BlockSeg (replicate bytes 0)) else segment_at w i)
      = segment_at w" by (rule ext) auto
  then show ?case by (intro exI [of _ "shm_of w"]) (simp add: named_def)
next
  case (Cons k ks)
  let ?b = "BlockSeg (replicate bytes 0)"
  let ?w = "w\<lparr>next_id := next_id w + 1, segment_at := (segment_at w)(next_id w \<mapsto> ?b),
    shm_of := (shm_of w)(k \<mapsto> next_id w)\<rparr>"
  have step: "shmget k True ?b w = (Some (next_id w), ?w)" using Cons.prems by (simp add: shmget_def Let_def)
  have "\<exists>m. get_blocks ks bytes True ?w =
      (map Some [next_id ?w..<next_id ?w + length ks],
       ?w\<lparr>next_id := next_id ?w + length ks, shm_of := m,
         segment_at := (\<lambda>i. if next_id ?w \<le> i \<and> i < next_id ?w + length ks then Some ?b else segment_at ?w i)\<rparr>)
    \<and> named (shm_of ?w) m ks (next_id ?w)"
    using Cons.prems by (intro Cons.IH) auto
  then obtain m where m: "get_blocks ks bytes True ?w =
      (map Some [next_id ?w..<next_id ?w + length ks],
       ?w\<lparr>next_id := next_id ?w + length ks, shm_of := m,
         segment_at := (\<lambda>i. if next_id ?w \<le> i \<and> i < next_id ?w + length ks then Some ?b else segment_at ?w i)\<rparr>)"
    and n: "named (shm_of ?w) m ks (next_id ?w)" by blast
  have "named (shm_of w) m (k # ks) (next_id w)" using n Cons.prems by (intro named_Cons) auto
  moreover have "(\<lambda>i. if next_id ?w \<le> i \<and> i < next_id ?w + length ks then Some ?b else segment_at ?w i)
     = (\<lambda>i. if next_id w \<le> i \<and> i < next_id w + length (k # ks) then Some ?b else segment_at w i)"
    by (auto simp: fun_eq_iff)
  ultimately show ?case
    using m by (intro exI [of _ m]) (simp add: step upt_conv_Cons del: upt_Suc)
qed

text \<open>Without \<open>IPC_CREAT\<close> the loops find what the keys name and change nothing.\<close>

lemma get_sems_old:
  assumes "0 \<notin> set ks" and "\<forall>k\<in>set ks. sem_of w k \<noteq> None"
  shows "get_sems ks False w = (map (sem_of w) ks, w)"
  using assms by (induction ks) (auto simp: semget_def Let_def)

lemma get_blocks_old:
  assumes "0 \<notin> set ks" and "\<forall>k\<in>set ks. shm_of w k \<noteq> None"
  shows "get_blocks ks bytes False w = (map (shm_of w) ks, w)"
  using assms by (induction ks) (auto simp: shmget_def Let_def)

lemma ready_reader_new:
  assumes "sem_set w i = Some (\<lambda>_. 0)"
  shows "ready_reader (Some i) w =
    Some (None, w\<lparr>sem_set := (sem_set w)(i \<mapsto> (\<lambda>_. 0)(IPCBUF_SODACK := 8, IPCBUF_EODACK := 8, IPCBUF_READER_CONN := 1))\<rparr>)"
  using assms
  by (simp add: ready_reader_def os_semop_def ipc_semop_def semop_val_def c_short_small SEMVMX_def)

lemma ready_readers_new:
  assumes "distinct ids" and "\<forall>i\<in>set ids. sem_set w i = Some (\<lambda>_. 0)"
  shows "each ready_reader (map Some ids) w =
    Some (None, w\<lparr>sem_set := (\<lambda>i. if i \<in> set ids
       then Some ((\<lambda>_. 0)(IPCBUF_SODACK := 8, IPCBUF_EODACK := 8, IPCBUF_READER_CONN := 1)) else sem_set w i)\<rparr>)"
  using assms
proof (induction ids arbitrary: w)
  case (Cons i ids)
  let ?s = "(\<lambda>_. 0)(IPCBUF_SODACK := 8, IPCBUF_EODACK := 8, IPCBUF_READER_CONN := 1)"
  have "each ready_reader (map Some ids) (w\<lparr>sem_set := (sem_set w)(i \<mapsto> ?s)\<rparr>) =
    Some (None, w\<lparr>sem_set := (\<lambda>j. if j \<in> set ids then Some ?s else ((sem_set w)(i \<mapsto> ?s)) j)\<rparr>)"
    using Cons.prems by (subst Cons.IH) (auto cong: if_cong)
  moreover have "(\<lambda>j. if j \<in> set ids then Some ?s else ((sem_set w)(i \<mapsto> ?s)) j)
     = (\<lambda>j. if j \<in> set (i # ids) then Some ?s else sem_set w j)"
    by (auto simp: fun_eq_iff)
  ultimately show ?case using Cons.prems by (simp add: ready_reader_new)
qed simp

section \<open>A new ring\<close>

text \<open>The names a ring with \<open>nb\<close> sub-blocks needs are free.\<close>

definition keys_free :: "u32 \<Rightarrow> nat \<Rightarrow> os \<Rightarrow> bool" where
  "keys_free key nb w \<longleftrightarrow> nb + 10 \<le> 65536
     \<and> (\<forall>i<nb + 10. key_at key i \<noteq> 0 \<and> shm_of w (key_at key i) = None \<and> sem_of w (key_at key i) = None)"

definition new_attached :: "nat \<Rightarrow> nat \<Rightarrow> nat \<Rightarrow> attached" where
  "new_attached n nr nb =
     \<lparr>syncid = Some n, semid_connect = Some (n + 1), semid_data = map Some [n + 2..<n + 2 + nr],
      shmid = map Some [n + 2 + nr..<n + 2 + nr + nb]\<rparr>"

definition reader_keys :: "u32 \<Rightarrow> nat \<Rightarrow> u32 list" where
  "reader_keys key nr = map (\<lambda>i. key_at key (2 + i)) [0..<nr]"

definition block_keys :: "u32 \<Rightarrow> nat \<Rightarrow> u32 list" where
  "block_keys key nb = map (block_key key) [0..<nb]"

text \<open>The namespace with a new ring in it, whose identifiers start at \<open>n\<close>.\<close>

definition has_ring :: "os \<Rightarrow> os \<Rightarrow> u32 \<Rightarrow> u64 \<Rightarrow> u64 \<Rightarrow> u32 \<Rightarrow> bool" where
  "has_ring w w' key nb bs nr \<longleftrightarrow>
     (let n = next_id w; r = unat nr; b = unat nb in
        segment_at w' n = Some (SyncSeg (create_sync key nb bs nr zero_sync) (\<lambda>_. 0)
                                  (\<lambda>i. if i < b then block_key key i else 0))
      \<and> sem_set w' (n + 1) = Some ((\<lambda>_. 0)(IPCBUF_WRITE := 1, IPCBUF_READ := r))
      \<and> (\<forall>i<r. sem_set w' (n + 2 + i) =
               Some ((\<lambda>_. 0)(IPCBUF_SODACK := 8, IPCBUF_EODACK := 8, IPCBUF_READER_CONN := 1)))
      \<and> (\<forall>i<b. segment_at w' (n + 2 + r + i) = Some (BlockSeg (replicate (unat bs) 0)))
      \<and> named ((shm_of w)(key \<mapsto> n)) (shm_of w') (block_keys key b) (n + 2 + r)
      \<and> named ((sem_of w)(key_at key 1 \<mapsto> n + 1)) (sem_of w') (reader_keys key r) (n + 2)
      \<and> next_id w' = n + 2 + r + b
      \<and> (\<forall>i<n. segment_at w' i = segment_at w i \<and> sem_set w' i = sem_set w i))"

lemma key_at_0 [simp]: "key_at key 0 = key"
  by (simp add: key_at_def)

lemma keys_distinct:
  assumes "keys_free key nb w" and "i < nb + 10" and "j < nb + 10"
  shows "key_at key i = key_at key j \<longleftrightarrow> i = j"
  using assms key_at_inj [of key i j] by (auto simp: keys_free_def)

lemma distinct_keys:
  assumes "keys_free key nb w"
  shows "distinct (block_keys key nb)" and "nr \<le> 8 \<Longrightarrow> distinct (reader_keys key nr)"
    and "key \<notin> set (block_keys key nb)" and "nr \<le> 8 \<Longrightarrow> key_at key 1 \<notin> set (reader_keys key nr)"
    and "0 \<notin> set (block_keys key nb)" and "nr \<le> 8 \<Longrightarrow> 0 \<notin> set (reader_keys key nr)"
    and "key \<noteq> 0" and "key_at key 1 \<noteq> 0"
    and "\<forall>k\<in>set (block_keys key nb). shm_of w k = None" and "shm_of w key = None"
    and "nr \<le> 8 \<Longrightarrow> \<forall>k\<in>set (reader_keys key nr). sem_of w k = None" and "sem_of w (key_at key 1) = None"
proof -
  note inj = keys_distinct [OF assms]
  have free: "key_at key i \<noteq> 0 \<and> shm_of w (key_at key i) = None \<and> sem_of w (key_at key i) = None"
    if "i < nb + 10" for i using assms that by (simp add: keys_free_def)
  show "distinct (block_keys key nb)"
    by (auto simp: block_keys_def block_key_def distinct_map inj_on_def inj)
  show "distinct (reader_keys key nr)" if "nr \<le> 8"
    using that by (auto simp: reader_keys_def distinct_map inj_on_def inj)
  show "key \<notin> set (block_keys key nb)"
    using inj [of 0] by (auto simp: block_keys_def block_key_def)
  show "key_at key 1 \<notin> set (reader_keys key nr)" if "nr \<le> 8"
    using that by (auto simp: reader_keys_def inj)
  show "0 \<notin> set (block_keys key nb)" using free by (force simp: block_keys_def block_key_def)
  show "0 \<notin> set (reader_keys key nr)" if "nr \<le> 8" using that free by (force simp: reader_keys_def)
  show "key \<noteq> 0" "shm_of w key = None" using free [of 0] by simp_all
  show "key_at key 1 \<noteq> 0" "sem_of w (key_at key 1) = None" using free [of 1] by simp_all
  show "\<forall>k\<in>set (block_keys key nb). shm_of w k = None" using free by (auto simp: block_keys_def block_key_def)
  show "\<forall>k\<in>set (reader_keys key nr). sem_of w k = None" if "nr \<le> 8"
    using that free by (auto simp: reader_keys_def)
qed

lemma length_keys [simp]: "length (block_keys key n) = n" "length (reader_keys key n) = n"
  by (simp_all add: block_keys_def reader_keys_def)

lemma ipcbuf_get_new:
  assumes free: "keys_free key (unat nb) w0" and nr: "unat nr \<le> 8"
    and "semkey_connect s = key_at key 1" and "\<forall>i<8. semkey_data s i = key_at key (2 + i)"
    and "n_readers s = nr" and "nbufs s = nb" and "bufsz s = bs"
    and sem: "sem_of w = sem_of w0" and shm: "shm_of w = (shm_of w0)(key \<mapsto> n)"
  shows "\<exists>m m'. ipcbuf_get s (block_key key) True a w =
      (0, a\<lparr>semid_connect := Some (next_id w), semid_data := map Some [next_id w + 1..<next_id w + 1 + unat nr],
            shmid := map Some [next_id w + 1 + unat nr..<next_id w + 1 + unat nr + unat nb]\<rparr>,
       w\<lparr>next_id := next_id w + 1 + unat nr + unat nb, sem_of := m,
         sem_set := (\<lambda>i. if next_id w \<le> i \<and> i < next_id w + 1 + unat nr then Some (\<lambda>_. 0) else sem_set w i),
         shm_of := m',
         segment_at := (\<lambda>i. if next_id w + 1 + unat nr \<le> i \<and> i < next_id w + 1 + unat nr + unat nb
                            then Some (BlockSeg (replicate (unat bs) 0)) else segment_at w i)\<rparr>)
    \<and> named ((sem_of w0)(key_at key 1 \<mapsto> next_id w)) m (reader_keys key (unat nr)) (next_id w + 1)
    \<and> named (shm_of w) m' (block_keys key (unat nb)) (next_id w + 1 + unat nr)"
proof -
  note d = distinct_keys [OF free] and dr = distinct_keys(2,4,6,11) [OF free nr]
  let ?n = "next_id w"
  let ?w1 = "w\<lparr>next_id := ?n + 1, sem_set := (sem_set w)(?n \<mapsto> (\<lambda>_. 0)), sem_of := (sem_of w0)(key_at key 1 \<mapsto> ?n)\<rparr>"
  let ?S = "\<lambda>i. if ?n \<le> i \<and> i < ?n + 1 + unat nr then Some (\<lambda>_. 0) else sem_set w i"
  have conn: "semget (key_at key 1) True w = (Some ?n, ?w1)" using d by (simp add: semget_def Let_def sem)
  have rk: "map (semkey_data s) [0..<unat nr] = reader_keys key (unat nr)"
    using assms(4) nr by (simp add: reader_keys_def)
  have bk: "map (block_key key) [0..<unat nb] = block_keys key (unat nb)"
    by (simp add: block_keys_def)
  have "\<forall>k\<in>set (reader_keys key (unat nr)). sem_of ?w1 k = None" using dr by (auto simp: sem)
  then obtain m where sems: "get_sems (reader_keys key (unat nr)) True ?w1 =
      (map Some [next_id ?w1..<next_id ?w1 + unat nr],
       ?w1\<lparr>next_id := next_id ?w1 + unat nr, sem_of := m,
         sem_set := (\<lambda>i. if next_id ?w1 \<le> i \<and> i < next_id ?w1 + unat nr then Some (\<lambda>_. 0) else sem_set ?w1 i)\<rparr>)"
    and m: "named (sem_of ?w1) m (reader_keys key (unat nr)) (next_id ?w1)"
    using get_sems_new [of "reader_keys key (unat nr)" ?w1] dr by auto
  have S: "(\<lambda>i. if ?n + 1 \<le> i \<and> i < ?n + 1 + unat nr then Some (\<lambda>_. 0) else ((sem_set w)(?n \<mapsto> (\<lambda>_. 0))) i) = ?S"
    by (rule ext) auto
  let ?w2 = "w\<lparr>next_id := ?n + 1 + unat nr, sem_set := ?S, sem_of := m\<rparr>"
  have sems': "get_sems (reader_keys key (unat nr)) True ?w1 = (map Some [?n + 1..<?n + 1 + unat nr], ?w2)"
    using sems S by (simp del: upt_Suc cong: if_cong)
  have "\<forall>k\<in>set (block_keys key (unat nb)). shm_of ?w2 k = None" using d by (auto simp: shm)
  then obtain m' where blocks: "get_blocks (block_keys key (unat nb)) (unat bs) True ?w2 =
      (map Some [next_id ?w2..<next_id ?w2 + unat nb],
       ?w2\<lparr>next_id := next_id ?w2 + unat nb, shm_of := m',
         segment_at := (\<lambda>i. if next_id ?w2 \<le> i \<and> i < next_id ?w2 + unat nb
                            then Some (BlockSeg (replicate (unat bs) 0)) else segment_at ?w2 i)\<rparr>)"
    and m': "named (shm_of ?w2) m' (block_keys key (unat nb)) (next_id ?w2)"
    using get_blocks_new [of "block_keys key (unat nb)" ?w2 "unat bs"] d by auto
  show ?thesis
    by (rule exI [of _ m], rule exI [of _ m'], insert m m')
      (auto simp add: ipcbuf_get_def assms(3,5-7) rk bk conn sems' blocks sem
        simp del: upt_Suc One_nat_def cong: if_cong)
qed

lemma ipc_semop_count:
  assumes "unat nr \<le> 8" and "ss num = 0"
  shows "ipc_semop ss num (uint (nr :: u32)) False = Some (None, ss(num := unat nr))"
proof -
  obtain n where n: "unat nr = n" and u: "uint nr = int n" by simp
  have "c_short (int n) = int n" using assms(1) n by (intro c_short_small) auto
  then show ?thesis using assms unfolding u n
    by (auto simp: ipc_semop_def semop_val_def SEMVMX_def)
qed

abbreviation (input) ready_sems :: "nat \<Rightarrow> nat" where
  "ready_sems \<equiv> (\<lambda>_. 0)(IPCBUF_SODACK := 8, IPCBUF_EODACK := 8, IPCBUF_READER_CONN := 1)"

lemma create_new:
  assumes free: "keys_free key (unat nb) w" and nr: "unat nr \<le> 8"
  shows "\<exists>w'. ipcbuf_create key nb bs nr a p w =
      Some (0, new_attached (next_id w) (unat nr) (unat nb),
            p\<lparr>state := VIEWER, viewbuf := 0, xfer := 0, soclock_buf := 0, iread := - 1\<rparr>, w')
    \<and> has_ring w w' key nb bs nr"
proof -
  note d = distinct_keys [OF free]
  let ?n = "next_id w"
  let ?r = "unat nr"
  let ?b = "unat nb"
  let ?s = "create_sync key nb bs nr zero_sync"
  let ?seg = "SyncSeg ?s (\<lambda>_. 0) (\<lambda>i. if i < ?b then block_key key i else 0)"
  let ?w1 = "w\<lparr>next_id := ?n + 1, shm_of := (shm_of w)(key \<mapsto> ?n), segment_at := (segment_at w)(?n \<mapsto> ?seg)\<rparr>"
  let ?a1 = "a\<lparr>syncid := Some ?n\<rparr>"
  have sync: "ipcsync_get key True a p w =
      (0, ?a1, p\<lparr>state := DISCON, viewbuf := 0\<rparr>,
       w\<lparr>next_id := ?n + 1, segment_at := (segment_at w)(?n \<mapsto> SyncSeg zero_sync (\<lambda>_. 0) (\<lambda>_. 0)),
         shm_of := (shm_of w)(key \<mapsto> ?n)\<rparr>)"
    using d by (simp add: ipcsync_get_def shmget_def Let_def)
  obtain m m' where get: "ipcbuf_get ?s (block_key key) True ?a1 ?w1 =
      (0, ?a1\<lparr>semid_connect := Some (next_id ?w1), semid_data := map Some [next_id ?w1 + 1..<next_id ?w1 + 1 + ?r],
            shmid := map Some [next_id ?w1 + 1 + ?r..<next_id ?w1 + 1 + ?r + ?b]\<rparr>,
       ?w1\<lparr>next_id := next_id ?w1 + 1 + ?r + ?b, sem_of := m,
         sem_set := (\<lambda>i. if next_id ?w1 \<le> i \<and> i < next_id ?w1 + 1 + ?r then Some (\<lambda>_. 0) else sem_set ?w1 i),
         shm_of := m',
         segment_at := (\<lambda>i. if next_id ?w1 + 1 + ?r \<le> i \<and> i < next_id ?w1 + 1 + ?r + ?b
                            then Some (BlockSeg (replicate (unat bs) 0)) else segment_at ?w1 i)\<rparr>)"
    and m: "named ((sem_of w)(key_at key 1 \<mapsto> next_id ?w1)) m (reader_keys key ?r) (next_id ?w1 + 1)"
    and m': "named (shm_of ?w1) m' (block_keys key ?b) (next_id ?w1 + 1 + ?r)"
    using ipcbuf_get_new [OF free nr, where s = ?s and bs = bs and w = ?w1 and n = ?n and a = ?a1] by (auto simp: create_sync_def)
  let ?S = "\<lambda>i. if ?n + 1 \<le> i \<and> i < ?n + 2 + ?r then Some (\<lambda>_. 0) else sem_set w i"
  let ?a2 = "new_attached ?n ?r ?b"
  let ?w2 = "\<lambda>S. w\<lparr>next_id := ?n + 2 + ?r + ?b, sem_of := m, sem_set := S, shm_of := m',
      segment_at := (\<lambda>i. if ?n + 2 + ?r \<le> i \<and> i < ?n + 2 + ?r + ?b
                        then Some (BlockSeg (replicate (unat bs) 0)) else ((segment_at w)(?n \<mapsto> ?seg)) i)\<rparr>"
  have get': "ipcbuf_get ?s (block_key key) True ?a1 ?w1 = (0, ?a2, ?w2 ?S)"
    unfolding get by (simp add: new_attached_def cong: if_cong)
  let ?c1 = "?S(?n + 1 \<mapsto> (\<lambda>_. 0)(IPCBUF_WRITE := 1))"
  let ?c2 = "?S(?n + 1 \<mapsto> (\<lambda>_. 0)(IPCBUF_WRITE := 1, IPCBUF_READ := ?r))"
  have w1: "os_semop (semid_connect ?a2) IPCBUF_WRITE 1 (?w2 ?S) = Some (None, ?w2 ?c1)"
    by (simp add: os_semop_def new_attached_def ipc_semop_up SEMVMX_def)
  have w2: "os_semop (semid_connect ?a2) IPCBUF_READ (uint nr) (?w2 ?c1) = Some (None, ?w2 ?c2)"
    by (simp add: os_semop_def new_attached_def ipc_semop_count [OF nr])
  let ?ids = "[?n + 2..<?n + 2 + ?r]"
  let ?c3 = "\<lambda>i. if i \<in> set ?ids then Some ready_sems else ?c2 i"
  have w3: "each ready_reader (semid_data ?a2) (?w2 ?c2) = Some (None, ?w2 ?c3)"
  proof -
    have "\<forall>i\<in>set ?ids. sem_set (?w2 ?c2) i = Some (\<lambda>_. 0)" by (auto simp del: upt_Suc)
    then have "each ready_reader (map Some ?ids) (?w2 ?c2) = Some (None, (?w2 ?c2)\<lparr>sem_set :=
        (\<lambda>i. if i \<in> set ?ids then Some ready_sems else sem_set (?w2 ?c2) i)\<rparr>)"
      by (intro ready_readers_new) (simp_all del: upt_Suc)
    then show ?thesis by (simp add: new_attached_def del: upt_Suc cong: if_cong)
  qed
  have "has_ring w (?w2 ?c3) key nb bs nr"
    using m m' by (auto simp: has_ring_def Let_def)
  moreover have "create_ready nr ?a2 q (?w2 ?S) = Some (0, ?a2, q\<lparr>state := VIEWER\<rparr>, ?w2 ?c3)" for q
    unfolding create_ready_def w1 w2 w3 bind.bind_lunit prod.case by simp
  moreover have "ipcbuf_create key nb bs nr a p w =
      create_ready nr ?a2 (p\<lparr>state := DISCON, viewbuf := 0, xfer := 0, soclock_buf := 0, iread := - 1\<rparr>) (?w2 ?S)"
    using get' by (simp add: ipcbuf_create_def sync Let_def cong: if_cong)
  ultimately show ?thesis by auto
qed

text \<open>The ring a creator sees: empty, with every acknowledgement available.\<close>

definition fresh_data :: "ring \<Rightarrow> bool" where
  "fresh_data r \<longleftrightarrow>
     w_buf_curr (sync r) = 0 \<and> w_buf_next (sync r) = 0 \<and> w_xfer (sync r) = 0 \<and> w_state (sync r) = DISCON
   \<and> (\<forall>b<unat (nbufs (sync r)). count r b = 0 \<and> length (mem r b) = unat (bufsz (sync r)))
   \<and> (\<forall>x<8. eod (sync r) x \<and> e_buf (sync r) x = 0)
   \<and> (\<forall>i<unat (n_readers (sync r)). r_xfers (sync r) i = 0 \<and> r_bufs (sync r) i = 0 \<and> r_states (sync r) i = DISCON
        \<and> sem_data r i IPCBUF_SODACK = 8 \<and> sem_data r i IPCBUF_EODACK = 8
        \<and> sem_data r i IPCBUF_FULL = 0 \<and> sem_data r i IPCBUF_CLEAR = 0)"

definition fresh_ring :: "ring \<Rightarrow> bool" where
  "fresh_ring r \<longleftrightarrow>
     fresh_data r \<and> (\<forall>i<unat (n_readers (sync r)). sem_data r i IPCBUF_READER_CONN = 1)
   \<and> sem_connect r IPCBUF_WRITE = 1 \<and> sem_connect r IPCBUF_READ = unat (n_readers (sync r))"

lemma has_ring_fresh:
  assumes "has_ring w w' key nb bs nr"
  shows "\<exists>r. ring_of w' (new_attached (next_id w) (unat nr) (unat nb)) = Some r \<and> fresh_ring r
      \<and> nbufs (sync r) = nb \<and> bufsz (sync r) = bs \<and> n_readers (sync r) = nr"
  using assms
  by (auto simp: has_ring_def ring_of_def new_attached_def Let_def fresh_ring_def fresh_data_def create_sync_def zero_sync_def
      simp del: upt_Suc)

text \<open>The keys lead another process to the same objects.\<close>

lemma connect_new:
  assumes free: "keys_free key (unat nb) w" and nr: "unat nr \<le> 8" and ring: "has_ring w w' key nb bs nr"
  shows "ipcbuf_connect key a p w' =
    (0, new_attached (next_id w) (unat nr) (unat nb), p\<lparr>state := VIEWER, viewbuf := 0\<rparr>, w')"
proof -
  note d = distinct_keys [OF free] and dr = distinct_keys(2,4,6,11) [OF free nr]
  let ?n = "next_id w"
  let ?s = "create_sync key nb bs nr zero_sync"
  have seg: "segment_at w' ?n = Some (SyncSeg ?s (\<lambda>_. 0) (\<lambda>i. if i < unat nb then block_key key i else 0))"
    and shm: "named ((shm_of w)(key \<mapsto> ?n)) (shm_of w') (block_keys key (unat nb)) (?n + 2 + unat nr)"
    and sem: "named ((sem_of w)(key_at key 1 \<mapsto> ?n + 1)) (sem_of w') (reader_keys key (unat nr)) (?n + 2)"
    using ring by (auto simp: has_ring_def Let_def)
  have k: "shm_of w' key = Some ?n" "sem_of w' (key_at key 1) = Some (?n + 1)"
    using shm sem d dr by (auto simp: named_def)
  have "semkey_connect ?s = key_at key 1" "n_readers ?s = nr" "nbufs ?s = nb" "bufsz ?s = bs"
    by (simp_all add: create_sync_def)
  moreover have "map (semkey_data ?s) [0..<unat nr] = reader_keys key (unat nr)"
    using nr by (simp add: reader_keys_def create_sync_def)
  moreover have "map (\<lambda>i. if i < unat nb then block_key key i else 0) [0..<unat nb] = block_keys key (unat nb)"
    by (simp add: block_keys_def)
  moreover have old: "map (sem_of w') (reader_keys key (unat nr)) = map Some [?n + 2..<?n + 2 + unat nr]"
    using sem by (intro nth_equalityI) (auto simp: named_def simp del: upt_Suc)
  moreover have old': "map (shm_of w') (block_keys key (unat nb)) = map Some [?n + 2 + unat nr..<?n + 2 + unat nr + unat nb]"
    using shm by (intro nth_equalityI) (auto simp: named_def simp del: upt_Suc)
  moreover have "get_sems (reader_keys key (unat nr)) False w' = (map Some [?n + 2..<?n + 2 + unat nr], w')"
    using dr sem by (subst get_sems_old) (auto simp: old named_def in_set_conv_nth simp del: upt_Suc)
  moreover have "get_blocks (block_keys key (unat nb)) (unat bs) False w' =
      (map Some [?n + 2 + unat nr..<?n + 2 + unat nr + unat nb], w')"
    using d shm by (subst get_blocks_old) (auto simp: old' named_def in_set_conv_nth simp del: upt_Suc)
  ultimately have "ipcbuf_get ?s (\<lambda>i. if i < unat nb then block_key key i else 0) False (a\<lparr>syncid := Some ?n\<rparr>) w'
      = (0, new_attached ?n (unat nr) (unat nb), w')"
    using d k by (simp add: ipcbuf_get_def semget_def new_attached_def Let_def del: upt_Suc map_map list.map)
  then show ?thesis
    using d k seg by (simp add: ipcbuf_connect_def ipcsync_get_def shmget_def)
qed

text \<open>A ring whose first key is taken is not made again.\<close>

lemma create_taken:
  assumes "key \<noteq> 0" and "shm_of w key \<noteq> None"
  shows "ipcbuf_create key nb bs nr a p w = Some (- 1, a, p, w)"
  using assms by (auto simp: ipcbuf_create_def ipcsync_get_def shmget_def Let_def)

text \<open>Destroying gives every name back.\<close>

lemma fold_sem_rmid:
  "sem_of (fold sem_rmid ids w) k = (if sem_of w k \<in> set ids then None else sem_of w k)
   \<and> shm_of (fold sem_rmid ids w) = shm_of w"
proof (induction ids arbitrary: w)
  case (Cons i ids)
  have "sem_of (sem_rmid i w) k = (if sem_of w k = i then None else sem_of w k)"
    and "shm_of (sem_rmid i w) = shm_of w"
    by (auto simp: sem_rmid_def split: option.splits)
  with Cons show ?case by auto
qed simp

lemma fold_shm_rmid:
  "shm_of (fold shm_rmid ids w) k = (if shm_of w k \<in> set ids then None else shm_of w k)
   \<and> sem_of (fold shm_rmid ids w) = sem_of w"
proof (induction ids arbitrary: w)
  case (Cons i ids)
  have "shm_of (shm_rmid i w) k = (if shm_of w k = i then None else shm_of w k)"
    and "sem_of (shm_rmid i w) = sem_of w"
    by (auto simp: shm_rmid_def)
  with Cons show ?case by auto
qed simp

lemma named_restore:
  assumes "named (m(k \<mapsto> n)) m' ks j" and "m k = None" and "\<forall>x\<in>set ks. m x = None"
    and "\<forall>x i. m x = Some i \<longrightarrow> i \<notin> S" and "n \<in> S" and "{j..<j + length ks} \<subseteq> S" and "k \<notin> set ks"
    and "\<And>i. i \<in> S \<Longrightarrow> Some i \<in> R" and "\<And>i. Some i \<in> R \<Longrightarrow> i \<in> S" and "None \<notin> R"
  shows "(if m' x \<in> R then None else m' x) = m x"
proof (cases "x \<in> set ks")
  case True
  then obtain l where "l < length ks" "x = ks ! l" by (metis in_set_conv_nth)
  moreover from this have "m' x = Some (j + l)" using assms(1) by (simp add: named_def)
  moreover have "j + l \<in> S" using assms(6) \<open>l < length ks\<close> by auto
  ultimately show ?thesis using assms(3,8) True by simp
next
  case False
  then have m': "m' x = (m(k \<mapsto> n)) x" using assms(1) by (simp add: named_def)
  show ?thesis
  proof (cases "x = k")
    case True
    then show ?thesis using m' assms(2,5,8) by simp
  next
    case False
    then have "m' x = m x" using m' by simp
    moreover have "m x \<notin> R" using assms(4,9,10) by (cases "m x") auto
    ultimately show ?thesis by simp
  qed
qed

lemma destroy_restores:
  assumes free: "keys_free key (unat nb) w" and nr: "unat nr \<le> 8" and ok: "os_ok w"
    and ring: "has_ring w w' key nb bs nr"
    and d: "ipcbuf_destroy (new_attached (next_id w) (unat nr) (unat nb)) w' = (rc, a', w'')"
  shows "rc = 0 \<and> a' = ATTACHED_INIT \<and> shm_of w'' = shm_of w \<and> sem_of w'' = sem_of w"
proof -
  note k = distinct_keys [OF free] and kr = distinct_keys(2,4,6,11) [OF free nr]
  let ?n = "next_id w"
  let ?a = "new_attached ?n (unat nr) (unat nb)"
  have shm: "named ((shm_of w)(key \<mapsto> ?n)) (shm_of w') (block_keys key (unat nb)) (?n + 2 + unat nr)"
    and sem: "named ((sem_of w)(key_at key 1 \<mapsto> ?n + 1)) (sem_of w') (reader_keys key (unat nr)) (?n + 2)"
    using ring by (auto simp: has_ring_def Let_def)
  have w'': "w'' = fold shm_rmid (shmid ?a @ [syncid ?a]) (fold sem_rmid (semid_connect ?a # semid_data ?a) w')"
    and rest: "rc = 0" "a' = ATTACHED_INIT"
    using d by (simp_all add: ipcbuf_destroy_def)
  have "shm_of w'' x = (if shm_of w' x \<in> set (shmid ?a @ [syncid ?a]) then None else shm_of w' x)"
    and "sem_of w'' x = (if sem_of w' x \<in> set (semid_connect ?a # semid_data ?a) then None else sem_of w' x)" for x
    unfolding w'' by (simp_all only: fold_shm_rmid fold_sem_rmid)
  moreover have "(if shm_of w' x \<in> set (shmid ?a @ [syncid ?a]) then None else shm_of w' x) = shm_of w x" for x
    by (rule named_restore [OF shm, where S = "insert ?n {?n + 2 + unat nr..<?n + 2 + unat nr + unat nb}"])
      (use k ok in \<open>auto simp: os_ok_def new_attached_def simp del: upt_Suc\<close>, fastforce+)
  moreover have "(if sem_of w' x \<in> set (semid_connect ?a # semid_data ?a) then None else sem_of w' x) = sem_of w x" for x
    by (rule named_restore [OF sem, where S = "insert (?n + 1) {?n + 2..<?n + 2 + unat nr}"])
      (use k kr ok in \<open>auto simp: os_ok_def new_attached_def simp del: upt_Suc\<close>, fastforce+)
  ultimately show ?thesis using rest by auto
qed

end
