(* ===== verification/Ipcio.thy ===== *)
theory Ipcio
  imports Ipcbuf_Admin Ipcbuf_Create
begin

text \<open>
  The byte stream on top of the ring (\<^verbatim>\<open>src/ipcio.c\<close>, \<^verbatim>\<open>src/ipcio.h\<close>), as
  built without CUDA. As for the ring, a result \<open>None\<close> is a call that does not
  return in this state: it sleeps in a semaphore operation, or its loop runs for
  ever. The loops are partial functions in the option monad, so that not
  returning is the value \<open>None\<close>.
\<close>

section \<open>The stream's handle\<close>

record ipcio =
  buf :: ipcbuf
  curbuf :: "ptr option"
  curbufsz :: u64
  bytes :: u64
  rdwrt :: char
  marked_filled :: bool
  sod_pending :: bool
  sod_buf :: u64
  sod_byte :: u64
  buf_ptrs :: "nat \<Rightarrow> ptr option"
  bufs_opened :: u32
  bufs_opened_max :: u32

type_synonym 'a io = "('a \<times> ring \<times> ipcio) option"

abbreviation (input) CLOSED :: char where "CLOSED \<equiv> CHR 0x00"

definition IPCIO_INIT :: ipcio where
  "IPCIO_INIT = \<lparr>buf = IPCBUF_INIT, curbuf = None, curbufsz = 0, bytes = 0, rdwrt = CLOSED,
     marked_filled = False, sod_pending = False, sod_buf = 0, sod_byte = 0,
     buf_ptrs = (\<lambda>_. None), bufs_opened = 0, bufs_opened_max = 0\<rparr>"

text \<open>An operation of the ring on the handle inside.\<close>

definition on_buf :: "(ring \<Rightarrow> ipcbuf \<Rightarrow> 'a ipc) \<Rightarrow> ring \<Rightarrow> ipcio \<Rightarrow> 'a io" where
  "on_buf f r c =
     (case f r (buf c) of None \<Rightarrow> None | Some (x, r, p) \<Rightarrow> Some (x, r, c\<lparr>buf := p\<rparr>))"

definition ipcio_init :: "ipcio \<Rightarrow> ipcio" where
  "ipcio_init c =
     c\<lparr>bytes := 0, rdwrt := CLOSED, curbuf := None, marked_filled := False, sod_pending := False,
       sod_buf := 0, sod_byte := 0, bufs_opened_max := 0, bufs_opened := 0, buf_ptrs := (\<lambda>_. None)\<rparr>"

text \<open>
  The limit is the number of sub-blocks less one, as an \<open>unsigned\<close>; the fresh
  array of pointers has no content yet.
\<close>

definition ipcio_alloc :: "ring \<Rightarrow> ipcio \<Rightarrow> ipcio" where
  "ipcio_alloc r c = c\<lparr>bufs_opened_max := ucast (ipcbuf_get_nbufs r - 1), buf_ptrs := (\<lambda>_. None)\<rparr>"

definition ipcio_dealloc :: "ipcio \<Rightarrow> ipcio" where
  "ipcio_dealloc c = c\<lparr>buf_ptrs := (\<lambda>_. None), bufs_opened_max := 0, bufs_opened := 0\<rparr>"

section \<open>Create, connect, disconnect, destroy\<close>

definition ipcio_create ::
    "u32 \<Rightarrow> u64 \<Rightarrow> u64 \<Rightarrow> u32 \<Rightarrow> attached \<Rightarrow> ipcio \<Rightarrow> os \<Rightarrow> (int \<times> attached \<times> ipcio \<times> os) option" where
  "ipcio_create key nb bs nr a c w =
     do {
       (rc, a, p, w) \<leftarrow> ipcbuf_create key nb bs nr a (buf c) w;
       if rc < 0 then Some (- 1, a, c\<lparr>buf := p\<rparr>, w) else Some (0, a, ipcio_init (c\<lparr>buf := p\<rparr>), w)
     }"

definition ipcio_connect :: "u32 \<Rightarrow> attached \<Rightarrow> ipcio \<Rightarrow> os \<Rightarrow> int \<times> attached \<times> ipcio \<times> os" where
  "ipcio_connect key a c w =
     (let (rc, a, p, w) = ipcbuf_connect key a (buf c) w
      in if rc < 0 then (- 1, a, c\<lparr>buf := p\<rparr>, w) else (0, a, ipcio_init (c\<lparr>buf := p\<rparr>), w))"

definition ipcio_disconnect :: "attached \<Rightarrow> ipcio \<Rightarrow> int \<times> attached \<times> ipcio" where
  "ipcio_disconnect a c =
     (let (rc, a, p) = ipcbuf_disconnect a (buf c)
      in if rc < 0 then (- 1, a, c\<lparr>buf := p\<rparr>) else (0, a, ipcio_init (c\<lparr>buf := p\<rparr>)))"

definition ipcio_destroy :: "attached \<Rightarrow> ipcio \<Rightarrow> os \<Rightarrow> int \<times> attached \<times> ipcio \<times> os" where
  "ipcio_destroy a c w =
     (let (rc, a, w) = ipcbuf_destroy a w in (rc, a, ipcio_init c, w))"

section \<open>Open and start\<close>

definition ipcio_open :: "ring \<Rightarrow> ipcio \<Rightarrow> char \<Rightarrow> int io" where
  "ipcio_open r c mode =
     (if mode \<notin> {CHR ''R'', CHR ''r'', CHR ''w'', CHR ''W''} then Some (- 1, r, c)
      else
        let c = c\<lparr>rdwrt := CLOSED, bytes := 0, curbuf := None\<rparr>
        in if mode = CHR ''w'' \<or> mode = CHR ''W'' then
             do {
               (rc, r, c) \<leftarrow> on_buf ipcbuf_lock_write r c;
               if rc < 0 then Some (- 1, r, c)
               else
                 let (rc, p) = (if mode = CHR ''w'' then ipcbuf_disable_sod (buf c) else (0, buf c));
                     c = c\<lparr>buf := p\<rparr>
                 in if rc < 0 then Some (- 1, r, c)
                    else Some (0, r, ipcio_alloc r (c\<lparr>rdwrt := mode\<rparr>))
             }
           else
             do {
               (rc, r, c) \<leftarrow> (if mode = CHR ''R'' then on_buf ipcbuf_lock_read r c else Some (0, r, c));
               if rc < 0 then Some (- 1, r, c)
               else Some (0, r, ipcio_alloc r (c\<lparr>rdwrt := mode\<rparr>))
             })"

definition ipcio_get_start_minimum :: "ring \<Rightarrow> ipcio \<Rightarrow> u64" where
  "ipcio_get_start_minimum r c = ipcbuf_get_sod_minbuf r (buf c) * ipcbuf_get_bufsz r"

definition ipcio_check_pending_sod :: "ring \<Rightarrow> ipcio \<Rightarrow> int io" where
  "ipcio_check_pending_sod r c =
     (if \<not> sod_pending c then Some (0, r, c)
      else if ipcbuf_get_write_count r \<le> sod_buf c then Some (0, r, c)
      else do {
        (rc, r, c) \<leftarrow> on_buf (\<lambda>r p. ipcbuf_enable_sod r p (sod_buf c) (sod_byte c)) r c;
        if rc < 0 then Some (- 1, r, c) else Some (0, r, c\<lparr>sod_pending := False\<rparr>)
      })"

definition ipcio_start :: "ring \<Rightarrow> ipcio \<Rightarrow> u64 \<Rightarrow> int io" where
  "ipcio_start r c byte =
     (if rdwrt c \<noteq> CHR ''w'' then Some (- 1, r, c)
      else
        let bs = ipcbuf_get_bufsz r
        in ipcio_check_pending_sod r
             (c\<lparr>sod_buf := byte div bs, sod_byte := byte mod bs, sod_pending := True, rdwrt := CHR ''W''\<rparr>))"

definition ipcio_is_open :: "ipcio \<Rightarrow> bool" where
  "ipcio_is_open c \<longleftrightarrow> rdwrt c = CHR ''R'' \<or> rdwrt c = CHR ''r'' \<or> rdwrt c = CHR ''w'' \<or> rdwrt c = CHR ''W''"

section \<open>Direct access to sub-blocks\<close>

text \<open>The null pointer is \<open>None\<close>; otherwise the pointer with the values of \<open>*curbufsz\<close> and \<open>*block_id\<close>.\<close>

definition ipcio_open_block_read :: "ring \<Rightarrow> ipcio \<Rightarrow> (ptr \<times> u64 \<times> u64) option io" where
  "ipcio_open_block_read r c =
     (if bytes c \<noteq> 0 \<or> curbuf c \<noteq> None then Some (None, r, c)
      else if rdwrt c \<noteq> CHR ''r'' \<and> rdwrt c \<noteq> CHR ''R'' then Some (None, r, c)
      else if ipcbuf_eod (buf c) then Some (None, r, c)
      else do {
        (res, r, c) \<leftarrow> on_buf ipcbuf_get_next_read r c;
        case res of
          None \<Rightarrow> Some (None, r, c\<lparr>curbuf := None\<rparr>)
        | Some (b, n) \<Rightarrow>
            Some (Some (b, n, ipcbuf_get_read_index r (buf c)), r, c\<lparr>curbuf := Some b, curbufsz := n, bytes := 0\<rparr>)
      })"

definition ipcio_close_block_read :: "ring \<Rightarrow> ipcio \<Rightarrow> u64 \<Rightarrow> int io" where
  "ipcio_close_block_read r c n =
     (if bytes c \<noteq> 0 \<or> curbuf c = None \<or> rdwrt c \<noteq> CHR ''R'' then Some (- 1, r, c)
      else
        let c = c\<lparr>bytes := bytes c + n\<rparr>
        in if bytes c = curbufsz c then
             do {
               (rc, r, c) \<leftarrow> on_buf ipcbuf_mark_cleared r c;
               if rc < 0 then Some (- 1, r, c) else Some (0, r, c\<lparr>curbuf := None, bytes := 0\<rparr>)
             }
           else Some (0, r, c))"

definition ipcio_open_block_write :: "ring \<Rightarrow> ipcio \<Rightarrow> (ptr \<times> u64) option io" where
  "ipcio_open_block_write r c =
     (if bytes c \<noteq> 0 \<or> curbuf c \<noteq> None \<and> bufs_opened c = 0 \<or> rdwrt c \<noteq> CHR ''W''
         \<or> bufs_opened_max c \<le> bufs_opened c then Some (None, r, c)
      else do {
        (res, r, c) \<leftarrow> on_buf ipcbuf_get_next_write r c;
        case res of
          None \<Rightarrow> Some (None, r, c)
        | Some b \<Rightarrow>
            let c = c\<lparr>buf_ptrs := (buf_ptrs c)(unat (bufs_opened c) := Some (b, 0))\<rparr>;
                c = (if bufs_opened c = 0
                     then c\<lparr>curbuf := buf_ptrs c 0, marked_filled := False, bytes := 0\<rparr> else c);
                c = c\<lparr>bufs_opened := bufs_opened c + 1\<rparr>
            in Some (Some ((b, 0), ipcbuf_get_write_index r), r, c)
      })"

definition ipcio_zero_next_block :: "ring \<Rightarrow> ipcio \<Rightarrow> int io" where
  "ipcio_zero_next_block r c =
     (if rdwrt c \<noteq> CHR ''W'' then Some (- 1, r, c) else on_buf ipcbuf_zero_next_write r c)"

definition ipcio_update_block_write :: "ring \<Rightarrow> ipcio \<Rightarrow> u64 \<Rightarrow> int \<times> ipcio" where
  "ipcio_update_block_write r c n =
     (if bytes c \<noteq> 0 \<or> curbuf c = None \<or> rdwrt c \<noteq> CHR ''W'' then (- 1, c)
      else if ipcbuf_get_bufsz r < bytes c + n then (- 1, c)
      else (0, c\<lparr>bytes := bytes c + n\<rparr>))"

text \<open>
  One block fewer is open; the pointers move down and the next one is current.
  The flag \<open>marked_filled\<close> is raised only when none is left.
\<close>

definition shift_open :: "ipcio \<Rightarrow> ipcio" where
  "shift_open c =
     (let n = bufs_opened c - 1; c = c\<lparr>bufs_opened := n\<rparr>
      in if n = 0
         then c\<lparr>buf_ptrs := (buf_ptrs c)(0 := None), curbuf := None, marked_filled := True, bytes := 0\<rparr>
         else
           let ptrs = (\<lambda>idx. if idx < unat n then buf_ptrs c (idx + 1)
                            else if idx = unat n then None else buf_ptrs c idx)
           in c\<lparr>buf_ptrs := ptrs, curbuf := ptrs 0, marked_filled := False, bytes := 0\<rparr>)"

definition ipcio_close_block_write :: "ring \<Rightarrow> ipcio \<Rightarrow> u64 \<Rightarrow> int io" where
  "ipcio_close_block_write r c n =
     (let (rc, c) = ipcio_update_block_write r c n
      in if rc < 0 then Some (- 1, r, c)
         else if marked_filled c then Some (0, r, c)
         else do {
           (rc, r, c) \<leftarrow> on_buf (\<lambda>r p. ipcbuf_mark_filled r p (bytes c)) r c;
           if rc < 0 then Some (- 2, r, c)
           else do {
             (rc, r, c) \<leftarrow> ipcio_check_pending_sod r c;
             if rc < 0 then Some (- 3, r, c) else Some (0, r, shift_open c)
           }
         })"

section \<open>Stop and close\<close>

text \<open>\<open>while (ipc->bufs_opened > 0) ipcio_close_block_write (ipc, bufsz)\<close>: results are ignored.\<close>

partial_function (option) close_open_blocks :: "ring \<Rightarrow> ipcio \<Rightarrow> (ring \<times> ipcio) option" where
  "close_open_blocks r c =
     (if bufs_opened c = 0 then Some (r, c)
      else do {
        (rc, r, c) \<leftarrow> ipcio_close_block_write r c (ipcbuf_get_bufsz r);
        close_open_blocks r c
      })"

text \<open>The part of \<open>ipcio_stop_close\<close> that ends a transfer; the flag says whether it went well.\<close>

definition end_writing :: "ring \<Rightarrow> ipcio \<Rightarrow> bool io" where
  "end_writing r c =
     (if \<not> ipcbuf_is_writing (buf c) then Some (True, r, c)
      else do {
        (r, c) \<leftarrow> close_open_blocks r c;
        let (rc, p) = ipcbuf_enable_eod (buf c); c = c\<lparr>buf := p\<rparr> in
        if rc < 0 then Some (False, r, c)
        else do {
          (rc, r, c) \<leftarrow> on_buf (\<lambda>r p. ipcbuf_mark_filled r p (bytes c)) r c;
          if rc < 0 then Some (False, r, c)
          else do {
            (rc, r, c) \<leftarrow> ipcio_check_pending_sod r c;
            if rc < 0 then Some (False, r, c)
            else
              let c = c\<lparr>marked_filled := True\<rparr>
              in Some (True, r, if bytes c = ipcbuf_get_bufsz r then c\<lparr>curbuf := None\<rparr> else c)
          }
        }
      })"

text \<open>
  The part that gives the writer's lock back: the counters go to the sub-block
  after the last end of data.
\<close>

definition rewind_writer :: "ring \<Rightarrow> ring" where
  "rewind_writer r =
     (let s = sync r
      in if 0 < w_xfer s
         then let w = e_buf s (unat ((w_xfer s - 1) mod IPCBUF_XFERS)) + 1
              in r\<lparr>sync := s\<lparr>w_buf_curr := w, w_buf_next := w\<rparr>\<rparr>
         else r)"

definition close_writer :: "ring \<Rightarrow> ipcio \<Rightarrow> int io" where
  "close_writer r c =
     do {
       (rc, r, c) \<leftarrow> on_buf ipcbuf_unlock_write (rewind_writer r) c;
       if rc < 0 then Some (- 1, r, c) else Some (0, r, c\<lparr>rdwrt := CLOSED\<rparr>)
     }"

definition ipcio_stop_close :: "ring \<Rightarrow> ipcio \<Rightarrow> bool \<Rightarrow> int io" where
  "ipcio_stop_close r c unlock =
     (if rdwrt c = CHR ''W'' then
        do {
          (ok, r, c) \<leftarrow> end_writing r c;
          if \<not> ok then Some (- 1, r, c)
          else
            let c = c\<lparr>rdwrt := CHR ''w''\<rparr>
            in if \<not> unlock then Some (0, r, c) else close_writer r c
        }
      else if rdwrt c = CHR ''w'' then close_writer r c
      else if rdwrt c = CHR ''R'' then
        do {
          (rc, r, c) \<leftarrow> on_buf ipcbuf_unlock_read r c;
          if rc < 0 then Some (- 1, r, c) else Some (0, r, c\<lparr>rdwrt := CLOSED\<rparr>)
        }
      else Some (- 1, r, c))"

definition ipcio_stop :: "ring \<Rightarrow> ipcio \<Rightarrow> int io" where
  "ipcio_stop r c = (if rdwrt c \<noteq> CHR ''W'' then Some (- 1, r, c) else ipcio_stop_close r c False)"

definition ipcio_close :: "ring \<Rightarrow> ipcio \<Rightarrow> int io" where
  "ipcio_close r c = ipcio_stop_close r c True"

section \<open>Writing bytes\<close>

text \<open>\<open>memcpy\<close> into a sub-block.\<close>

definition put_bytes :: "ptr \<Rightarrow> u64 \<Rightarrow> byte list \<Rightarrow> ring \<Rightarrow> ring" where
  "put_bytes b at d r =
     (let off = unat (snd b + at); old = mem r (fst b)
      in r\<lparr>mem := (mem r)(fst b := take off old @ d @ drop (off + length d) old)\<rparr>)"

definition get_bytes :: "ptr \<Rightarrow> u64 \<Rightarrow> u64 \<Rightarrow> ring \<Rightarrow> byte list" where
  "get_bytes b at n r = take (unat n) (drop (unat (snd b + at)) (mem r (fst b)))"

text \<open>The start of a round of the loop: a full sub-block is marked filled, a new one opened.\<close>

definition flush_full :: "ring \<Rightarrow> ipcio \<Rightarrow> int io" where
  "flush_full r c =
     (if bytes c \<noteq> ipcbuf_get_bufsz r then Some (0, r, c)
      else do {
        (rc, r, c) \<leftarrow>
          (if marked_filled c then Some (0, r, c)
           else do {
             (rc, r, c) \<leftarrow> on_buf (\<lambda>r p. ipcbuf_mark_filled r p (bytes c)) r c;
             if rc < 0 then Some (- 1, r, c) else ipcio_check_pending_sod r c
           });
        if rc < 0 then Some (- 1, r, c)
        else Some (0, r, c\<lparr>curbuf := None, bytes := 0, marked_filled := True\<rparr>)
      })"

definition write_prepare :: "ring \<Rightarrow> ipcio \<Rightarrow> int io" where
  "write_prepare r c =
     do {
       (rc, r, c) \<leftarrow> flush_full r c;
       if rc < 0 then Some (- 1, r, c)
       else if curbuf c \<noteq> None then Some (0, r, c)
       else do {
         (res, r, c) \<leftarrow> on_buf ipcbuf_get_next_write r c;
         case res of
           None \<Rightarrow> Some (- 1, r, c)
         | Some b \<Rightarrow> Some (0, r, c\<lparr>curbuf := Some (b, 0), marked_filled := False, bytes := 0\<rparr>)
       }
     }"

partial_function (option) write_loop :: "byte list \<Rightarrow> ring \<Rightarrow> ipcio \<Rightarrow> bool io" where
  "write_loop data r c =
     (if data = [] then Some (True, r, c)
      else do {
        (rc, r, c) \<leftarrow> write_prepare r c;
        if rc < 0 then Some (False, r, c)
        else
          let space = min (ipcbuf_get_bufsz r - bytes c) (of_nat (length data));
              r = put_bytes (the (curbuf c)) (bytes c) (take (unat space) data) r;
              c = c\<lparr>bytes := bytes c + space\<rparr>
          in write_loop (drop (unat space) data) r c
      })"

definition ipcio_write :: "ring \<Rightarrow> ipcio \<Rightarrow> byte list \<Rightarrow> int io" where
  "ipcio_write r c data =
     (if rdwrt c \<noteq> CHR ''W'' \<and> rdwrt c \<noteq> CHR ''w'' then Some (- 1, r, c)
      else do {
        (ok, r, c) \<leftarrow> write_loop data r c;
        Some (if ok then int (length data) else - 1, r, c)
      })"

section \<open>Reading bytes\<close>

text \<open>
  One round of the loop: open a sub-block if none is, take what is wanted and
  there, and clear the sub-block when it is used up. \<open>Inl\<close> is the end of the loop
  (the flag is false after an error), \<open>Inr\<close> the number of bytes still wanted.
\<close>

definition read_open :: "ring \<Rightarrow> ipcio \<Rightarrow> bool io" where
  "read_open r c =
     (if curbuf c \<noteq> None then Some (True, r, c)
      else do {
        (res, r, c) \<leftarrow> on_buf ipcbuf_get_next_read r c;
        case res of
          None \<Rightarrow> Some (False, r, c)
        | Some (b, n) \<Rightarrow> Some (True, r, c\<lparr>curbuf := Some b, curbufsz := n, bytes := 0\<rparr>)
      })"

definition read_done :: "ring \<Rightarrow> ipcio \<Rightarrow> u64 \<Rightarrow> (bool + u64) io" where
  "read_done r c want =
     (if bytes c = curbufsz c then
        do {
          (rc, r, c) \<leftarrow> (if rdwrt c = CHR ''R'' then on_buf ipcbuf_mark_cleared r c else Some (0, r, c));
          if rc < 0 then Some (Inl False, r, c)
          else Some (Inr want, r, c\<lparr>curbuf := None, bytes := 0\<rparr>)
        }
      else if want = 0 then Some (Inl True, r, c)
      else Some (Inr want, r, c))"

partial_function (option) read_loop :: "u64 \<Rightarrow> byte list \<Rightarrow> ring \<Rightarrow> ipcio \<Rightarrow> (bool \<times> byte list) io" where
  "read_loop want taken r c =
     (if ipcbuf_eod (buf c) then Some ((True, taken), r, c)
      else do {
        (ok, r, c) \<leftarrow> read_open r c;
        if \<not> ok then Some ((False, taken), r, c)
        else
          let space = min (curbufsz c - bytes c) want;
              d = get_bytes (the (curbuf c)) (bytes c) space r;
              c = c\<lparr>bytes := bytes c + space\<rparr>
          in do {
            (res, r, c) \<leftarrow> read_done r c (want - space);
            case res of
              Inl ok \<Rightarrow> Some ((ok, taken @ d), r, c)
            | Inr want \<Rightarrow> read_loop want (taken @ d) r c
          }
      })"

text \<open>The result is the returned count and the bytes stored through the pointer.\<close>

definition ipcio_read :: "ring \<Rightarrow> ipcio \<Rightarrow> u64 \<Rightarrow> (int \<times> byte list) io" where
  "ipcio_read r c want =
     (if rdwrt c \<noteq> CHR ''r'' \<and> rdwrt c \<noteq> CHR ''R'' then Some ((- 1, []), r, c)
      else do {
        ((ok, d), r, c) \<leftarrow> read_loop want [] r c;
        Some ((if ok then int (length d) else - 1, d), r, c)
      })"

section \<open>Positions\<close>

definition ipcio_tell :: "ring \<Rightarrow> ipcio \<Rightarrow> u64" where
  "ipcio_tell r c =
     (let current = (if rdwrt c = CHR ''R'' \<or> rdwrt c = CHR ''r'' then ipcbuf_tell_read r (buf c)
                     else if rdwrt c = CHR ''W'' \<or> rdwrt c = CHR ''w'' then ipcbuf_tell_write r (buf c)
                     else - 1)
      in if current < 0 then 0 else of_int current + bytes c)"

text \<open>
  The offset is an \<open>int64_t\<close>; in the comparisons with unsigned values it is
  converted to 64 bits, which is how it is kept here.
\<close>

definition ipcio_seek :: "ring \<Rightarrow> ipcio \<Rightarrow> u64 \<Rightarrow> bool \<Rightarrow> int io" where
  "ipcio_seek r c offset seek_cur =
     (let current = ipcio_tell r c;
          offset = (if seek_cur then offset + current else offset)
      in if current < offset then
           do {
             ((rc, d), r, c) \<leftarrow> ipcio_read r c (offset - current);
             if rc < 0 then Some (- 1, r, c) else Some (c_int64 (ipcio_tell r c), r, c)
           }
         else if offset < current then
           let back = current - offset
           in if bytes c < back then Some (- 1, r, c)
              else let c = c\<lparr>bytes := bytes c - back\<rparr> in Some (c_int64 (ipcio_tell r c), r, c)
         else Some (c_int64 (ipcio_tell r c), r, c))"

definition ipcio_space_left :: "ring \<Rightarrow> ipcio \<Rightarrow> int" where
  "ipcio_space_left r c =
     (let full = (of_nat (ipcbuf_get_nfull r (buf c)) :: u64)
      in c_int64 ((ipcbuf_get_nbufs r - full) * ipcbuf_get_bufsz r))"

definition ipcio_get_soclock_byte :: "ring \<Rightarrow> ipcio \<Rightarrow> u64" where
  "ipcio_get_soclock_byte r c = ipcbuf_get_bufsz r * soclock_buf (buf c)"

end
