(* ===== verification/C_String.thy ===== *)
theory C_String
  imports Prelude "HOL-Library.Sublist"
begin

text \<open>
  C strings as lists of characters without the terminating NUL, and the functions
  of the C library the sources use on them.
\<close>

definition nl :: char where "nl = CHR 0x0A"
definition tab :: char where "tab = CHR 0x09"

definition char_at :: "string \<Rightarrow> nat \<Rightarrow> char" where
  "char_at s i = (if i < length s then s ! i else CHR 0x00)"

text \<open>\<open>strstr\<close>: the offset of the first occurrence.\<close>

fun strstr :: "string \<Rightarrow> string \<Rightarrow> nat option" where
  "strstr [] w = (if w = [] then Some 0 else None)"
| "strstr (c # s) w = (if prefix w (c # s) then Some 0 else map_option Suc (strstr s w))"

text \<open>\<open>strcspn\<close>: the length of the part before the first of some characters.\<close>

definition strcspn :: "string \<Rightarrow> string \<Rightarrow> nat" where
  "strcspn s cs = length (takeWhile (\<lambda>c. c \<notin> set cs) s)"

text \<open>\<open>printf (\"%-ns\")\<close>: padded on the right.\<close>

definition ljust :: "nat \<Rightarrow> string \<Rightarrow> string" where
  "ljust n s = s @ replicate (n - length s) CHR '' ''"

text \<open>
  \<open>scanf\<close> skips the whitespace of the C locale; the conversion \<open>%s\<close> takes the
  characters up to the next whitespace. \<open>None\<close> is the end of input before a
  conversion.
\<close>

definition c_space :: "char \<Rightarrow> bool" where
  "c_space c \<longleftrightarrow> c \<in> {CHR '' '', CHR 0x09, CHR 0x0A, CHR 0x0B, CHR 0x0C, CHR 0x0D}"

definition scan_word :: "string \<Rightarrow> string option" where
  "scan_word s =
     (let w = takeWhile (\<lambda>c. \<not> c_space c) (dropWhile c_space s) in if w = [] then None else Some w)"

text \<open>
  The results of \<open>sscanf\<close> with the formats \<open>%s\<close> and \<open>%ld\<close>: the number of conversions
  done, or \<open>EOF\<close>. A long of 64 bits takes the value the digits stand for, cut off at its
  limits.
\<close>

definition sscanf_s :: "string \<Rightarrow> int \<times> string option" where
  "sscanf_s s = (case scan_word s of None \<Rightarrow> (- 1, None) | Some w \<Rightarrow> (1, Some w))"

definition is_digit :: "char \<Rightarrow> bool" where
  "is_digit c \<longleftrightarrow> of_char c \<ge> (48::nat) \<and> of_char c \<le> (57::nat)"

definition digit_value :: "char \<Rightarrow> nat" where
  "digit_value c = of_char c - 48"

fun digits_value :: "nat \<Rightarrow> string \<Rightarrow> nat" where
  "digits_value n [] = n"
| "digits_value n (c # s) = digits_value (10 * n + digit_value c) s"

definition scan_sign :: "string \<Rightarrow> int \<times> string" where
  "scan_sign s =
     (case s of
        c # r \<Rightarrow> if c = CHR ''-'' then (- 1, r) else if c = CHR ''+'' then (1, r) else (1, s)
      | [] \<Rightarrow> (1, []))"

definition sscanf_ld :: "string \<Rightarrow> int \<times> int option" where
  "sscanf_ld s =
     (let body = dropWhile c_space s; (sign, r) = scan_sign body; ds = takeWhile is_digit r
      in if body = [] then (- 1, None)
         else if ds = [] then (0, None)
         else (1, Some (max (- (2 ^ 63)) (min (2 ^ 63 - 1) (sign * int (digits_value 0 ds))))))"

text \<open>
  The unsigned formats: \<open>strtoul\<close> takes a sign, and a number that does not fit is the
  greatest one.
\<close>

definition scan_unsigned :: "string \<Rightarrow> (u64 \<times> string) option" where
  "scan_unsigned s =
     (let (sign, r) = scan_sign (dropWhile c_space s); ds = takeWhile is_digit r; n = digits_value 0 ds
      in if ds = [] then None
         else Some (if 2 ^ 64 \<le> n then - 1 else word_of_int (sign * int n), drop (length ds) r))"

definition sscanf_lu :: "string \<Rightarrow> int \<times> u64 option" where
  "sscanf_lu s =
     (case scan_unsigned s of
        Some (n, _) \<Rightarrow> (1, Some n)
      | None \<Rightarrow> (if dropWhile c_space s = [] then - 1 else 0, None))"

text \<open>\<open>printf (\"%lu\")\<close>.\<close>

fun decimal :: "nat \<Rightarrow> string" where
  "decimal n = (if n < 10 then [] else decimal (n div 10)) @ [char_of (48 + n mod 10)]"

declare decimal.simps [simp del]

lemma digits_value_append: "digits_value m (s @ t) = digits_value (digits_value m s) t"
  by (induction s arbitrary: m) simp_all

lemma digit_char:
  assumes "d < 10"
  shows "is_digit (char_of (48 + d))" and "digit_value (char_of (48 + d)) = d"
    and "\<not> c_space (char_of (48 + d))" and "char_of (48 + d) \<notin> {CHR ''-'', CHR ''+''}"
proof -
  have "d \<in> {0, 1, 2, 3, 4, 5, 6, 7, 8, 9}" using assms by auto
  then show "is_digit (char_of (48 + d))" "digit_value (char_of (48 + d)) = d"
    "\<not> c_space (char_of (48 + d))" "char_of (48 + d) \<notin> {CHR ''-'', CHR ''+''}"
    by (elim insertE emptyE; simp add: is_digit_def digit_value_def c_space_def; code_simp)+
qed

lemma decimal_value: "digits_value 0 (decimal n) = n"
proof (induction n rule: decimal.induct)
  case (1 n)
  then show ?case
    by (subst decimal.simps) (simp add: digits_value_append digit_char)
qed

lemma decimal_chars:
  "decimal n \<noteq> [] \<and> (\<forall>c\<in>set (decimal n). is_digit c \<and> \<not> c_space c \<and> c \<notin> {CHR ''-'', CHR ''+''})"
proof (induction n rule: decimal.induct)
  case (1 n)
  have "n mod 10 < 10" by simp
  note d = digit_char [OF this]
  show ?case
    using 1 d by (subst decimal.simps, subst (2) decimal.simps) auto
qed

lemma decimal_length: "n < 10 ^ k \<Longrightarrow> 0 < k \<Longrightarrow> length (decimal n) \<le> k"
proof (induction n arbitrary: k rule: decimal.induct)
  case (1 n)
  show ?case
  proof (cases "n < 10")
    case True
    then show ?thesis using "1.prems"(2) by (subst decimal.simps) simp
  next
    case False
    then obtain j where j: "k = Suc j" "0 < j" using "1.prems" by (cases k; cases "k - 1") auto
    then have "n div 10 < 10 ^ j" using "1.prems"(1) by (simp add: less_mult_imp_div_less mult.commute)
    then show ?thesis using "1.IH" [OF False] j False by (subst decimal.simps) simp
  qed
qed

text \<open>Reading back a number that was printed and padded.\<close>

lemma scan_decimal:
  assumes a: "\<forall>c\<in>set a. c_space c" and b: "b = [] \<or> c_space (hd b)"
  shows "dropWhile c_space (a @ decimal n @ b) = decimal n @ b"
    and "scan_sign (decimal n @ b) = (1, decimal n @ b)"
    and "takeWhile is_digit (decimal n @ b) = decimal n"
    and "decimal n \<noteq> []"
proof -
  obtain c r where cr: "decimal n = c # r" using decimal_chars [of n] by (cases "decimal n") auto
  have c: "\<not> c_space c" "c \<noteq> CHR ''-''" "c \<noteq> CHR ''+''" and all: "\<forall>x\<in>set (decimal n). is_digit x"
    using decimal_chars [of n] by (auto simp: cr)
  show "dropWhile c_space (a @ decimal n @ b) = decimal n @ b"
    using a c by (simp add: cr)
  have "\<not> is_digit x" if "c_space x" for x
    using that by (auto simp: c_space_def is_digit_def)
  then show "takeWhile is_digit (decimal n @ b) = decimal n"
    using all b by (cases b) auto
  show "scan_sign (decimal n @ b) = (1, decimal n @ b)" using c by (simp add: scan_sign_def cr)
  show "decimal n \<noteq> []" by (simp add: cr)
qed

lemma sscanf_ld_decimal:
  assumes n: "n < 2 ^ 63" and "\<forall>c\<in>set a. c_space c" and "b = [] \<or> c_space (hd b)"
  shows "sscanf_ld (a @ decimal n @ b) = (1, Some (int n))"
  using n scan_decimal [OF assms(2,3), of n] by (simp add: sscanf_ld_def decimal_value)

lemma sscanf_lu_decimal:
  assumes n: "n < 2 ^ 64" and "\<forall>c\<in>set a. c_space c" and "b = [] \<or> c_space (hd b)"
  shows "sscanf_lu (a @ decimal n @ b) = (1, Some (of_nat n))"
  using n scan_decimal [OF assms(2,3), of n] by (simp add: sscanf_lu_def scan_unsigned_def decimal_value)

lemma strstr_Some:
  "strstr s w = Some k \<longleftrightarrow> k \<le> length s \<and> prefix w (drop k s) \<and> (\<forall>j<k. \<not> prefix w (drop j s))"
proof (induction s arbitrary: k)
  case (Cons c s)
  show ?case
  proof (cases "prefix w (c # s)")
    case True
    then show ?thesis by (cases k) auto
  next
    case False
    then show ?thesis using Cons.IH by (cases k) (auto simp: less_Suc_eq_0_disj)
  qed
qed auto

lemma strstr_None: "strstr s w = None \<longleftrightarrow> (\<forall>j\<le>length s. \<not> prefix w (drop j s))"
proof (induction s)
  case (Cons c s)
  have "(\<forall>j\<le>Suc n. Q j) \<longleftrightarrow> Q 0 \<and> (\<forall>j\<le>n. Q (Suc j))" for n and Q :: "nat \<Rightarrow> bool"
  proof
    assume R: "Q 0 \<and> (\<forall>j\<le>n. Q (Suc j))"
    show "\<forall>j\<le>Suc n. Q j"
    proof (intro allI impI)
      fix j assume "j \<le> Suc n"
      with R show "Q j" by (cases j) auto
    qed
  qed auto
  from this [of "length s" "\<lambda>j. \<not> prefix w (drop j (c # s))"] show ?case using Cons.IH by simp
qed auto

lemma scan_word_padded:
  assumes "w \<noteq> []" and "\<forall>c\<in>set w. \<not> c_space c" and "\<forall>c\<in>set a. c_space c" and "b = [] \<or> c_space (hd b)"
  shows "scan_word (a @ w @ b) = Some w"
proof -
  have "dropWhile c_space (a @ w @ b) = w @ b"
  proof -
    have "dropWhile c_space (a @ w @ b) = dropWhile c_space (w @ b)" using assms(3) by simp
    also have "\<dots> = w @ b" using assms(1,2) by (cases w) auto
    finally show ?thesis .
  qed
  moreover have "takeWhile (\<lambda>c. \<not> c_space c) (w @ b) = w"
    using assms(2,4) by (cases b) auto
  ultimately show ?thesis using assms(1) by (simp add: scan_word_def Let_def)
qed

end
