(* ===== verification/Ascii_Header.thy ===== *)
theory Ascii_Header
  imports C_String
begin

text \<open>
  The ASCII header of a DADA file or header block (\<^verbatim>\<open>src/ascii_header.c\<close>):
  keywords at the start of a line, their values behind them, comments after
  \<open>#\<close>. A header is the string up to its NUL. The size of the buffer it lies in is
  the caller's business, in the sources as here.
\<close>

section \<open>Finding a keyword\<close>

text \<open>Behind a line end or a backslash, and followed by a tab or a space.\<close>

definition at_keyword :: "string \<Rightarrow> string \<Rightarrow> nat \<Rightarrow> bool" where
  "at_keyword h w k \<longleftrightarrow>
     (h ! (k - 1) = nl \<or> h ! (k - 1) = CHR 0x5C)
     \<and> (char_at h (k + length w) = tab \<or> char_at h (k + length w) = CHR '' '')"

text \<open>
  The loop of \<open>ascii_header_find\<close>, from the first byte not yet searched. An
  occurrence at the very start of the header ends it at once.
\<close>

function find_from :: "string \<Rightarrow> string \<Rightarrow> nat \<Rightarrow> nat option" where
  "find_from h w i =
     (if length h < i then None
      else case strstr (drop i h) w of
        None \<Rightarrow> None
      | Some d \<Rightarrow>
          let k = i + d
          in if k = 0 then Some 0
             else if at_keyword h w k then Some k
             else find_from h w (k + 1))"
  by pat_completeness auto
termination
  by (relation "measure (\<lambda>(h, w, i). Suc (length h) - i)") (auto simp: strstr_Some)

declare find_from.simps [simp del]

definition ascii_header_find :: "string \<Rightarrow> string \<Rightarrow> nat option" where
  "ascii_header_find h w = find_from h w 0"

section \<open>Set, get and delete\<close>

text \<open>\<open>sprintf (key, \"%-12s %-20s   \", keyword, value)\<close>\<close>

definition header_line :: "string \<Rightarrow> string \<Rightarrow> string" where
  "header_line w v = ljust 12 w @ '' '' @ ljust 20 v @ ''   ''"

text \<open>
  The value is what \<open>vsnprintf\<close> stores (at most 4095 characters), or \<open>None\<close> when it
  reports an error.
\<close>

definition ascii_header_set :: "string \<Rightarrow> string \<Rightarrow> string option \<Rightarrow> int \<times> string" where
  "ascii_header_set h w v =
     (let (key, eol) =
        (case ascii_header_find h w of
           Some k \<Rightarrow> (k, Some (k + strcspn (drop k h) [CHR ''#'', nl]))
         | None \<Rightarrow>
             (case strstr h (''DATA'' @ [nl]) of
                Some k \<Rightarrow> (k, Some k)
              | None \<Rightarrow> (length h, None)))
      in case v of
           None \<Rightarrow> (- 1, h)
         | Some value \<Rightarrow>
             (0, take key h @ header_line w (take 4095 value)
                 @ (case eol of Some e \<Rightarrow> drop e h | None \<Rightarrow> [nl])))"

text \<open>
  The text behind the keyword is what \<open>vsscanf\<close> parses; \<open>scan\<close> is the format: it gives
  the result of \<open>vsscanf\<close> and what it has stored, if anything.
\<close>

definition ascii_header_get :: "string \<Rightarrow> string \<Rightarrow> (string \<Rightarrow> int \<times> 'a option) \<Rightarrow> int \<times> 'a option" where
  "ascii_header_get h w scan =
     (case ascii_header_find h w of
        None \<Rightarrow> (- 1, None)
      | Some k \<Rightarrow> scan (drop (k + strcspn (drop k h) ('' '' @ [tab, nl])) h))"

definition ascii_header_del :: "string \<Rightarrow> string \<Rightarrow> int \<times> string" where
  "ascii_header_del h w =
     (case ascii_header_find h w of
        None \<Rightarrow> (- 1, h)
      | Some k \<Rightarrow> (0, take k h @ drop (k + strcspn (drop k h) [nl] + 1) h))"

text \<open>
  The size of the header of a file, from its first block, which is a memory page long
  (\<open>DADA_DEFAULT_HEADER_SIZE\<close> asks the system for its size). \<open>tail\<close> is what lies behind the
  bytes read, in a buffer that is not terminated.
\<close>

definition ascii_header_get_size_fd :: "nat \<Rightarrow> string \<Rightarrow> string \<Rightarrow> 64 word" where
  "ascii_header_get_size_fd page file tail =
     (let block = take page file
      in if length block \<noteq> page then - 1
         else case ascii_header_get (takeWhile (\<lambda>c. c \<noteq> CHR 0x00) (block @ tail)) ''HDR_SIZE'' sscanf_ld of
                (rc, v) \<Rightarrow> if rc \<noteq> 1 then - 1 else case v of Some n \<Rightarrow> word_of_int n | None \<Rightarrow> - 1)"

section \<open>What is found\<close>

text \<open>
  A keyword is found at the first place where it occurs at the start of a line, or
  at the start of the header.
\<close>

definition hit :: "string \<Rightarrow> string \<Rightarrow> nat \<Rightarrow> bool" where
  "hit h w k \<longleftrightarrow> k \<le> length h \<and> prefix w (drop k h) \<and> (k = 0 \<or> at_keyword h w k)"

lemma find_from_Some:
  "find_from h w i = Some k \<longleftrightarrow> i \<le> k \<and> hit h w k \<and> (\<forall>j. i \<le> j \<and> j < k \<longrightarrow> \<not> hit h w j)"
proof (induction h w i rule: find_from.induct)
  case (1 h w i)
  show ?case
  proof (cases "length h < i")
    case True
    then show ?thesis by (auto simp: find_from.simps [of h w i] hit_def)
  next
    case False
    show ?thesis
    proof (cases "strstr (drop i h) w")
      case None
      then have "\<not> hit h w j" if "i \<le> j" for j
        using that False strstr_None [of "drop i h" w] by (auto simp: hit_def dest!: spec [of _ "j - i"])
      then show ?thesis using None False by (auto simp: find_from.simps [of h w i])
    next
      case (Some d)
      let ?k = "i + d"
      have d: "d \<le> length h - i" "prefix w (drop ?k h)" and before: "\<forall>j<d. \<not> prefix w (drop (i + j) h)"
        using Some by (auto simp: strstr_Some add.commute)
      have no: "\<not> hit h w j" if "i \<le> j" "j < ?k" for j
        using that before by (auto simp: hit_def dest!: spec [of _ "j - i"])
      show ?thesis
      proof (cases "?k = 0 \<or> at_keyword h w ?k")
        case True
        then have h: "hit h w ?k" using d False by (auto simp: hit_def)
        have eq: "find_from h w i = Some ?k"
          using False Some True by (auto simp: find_from.simps [of h w i] Let_def)
        have "i \<le> ?k" by simp
        then show ?thesis using h no eq by (cases k ?k rule: linorder_cases) (auto intro!: exI [of _ ?k])
      next
        case no_hit: False
        then have "\<not> hit h w ?k" by (simp add: hit_def)
        then have no': "\<not> hit h w j" if "i \<le> j" "j < ?k + 1" for j
          using that no by (cases "j = ?k") auto
        have eq: "find_from h w i = find_from h w (?k + 1)"
          using False Some no_hit by (auto simp: find_from.simps [of h w i] Let_def)
        have "find_from h w (?k + 1) = Some k \<longleftrightarrow>
            ?k + 1 \<le> k \<and> hit h w k \<and> (\<forall>j. ?k + 1 \<le> j \<and> j < k \<longrightarrow> \<not> hit h w j)"
          by (rule "1.IH" [OF False Some refl]) (use no_hit in auto)
        moreover have "?k + 1 \<le> k" if "i \<le> k" "hit h w k" using no' that by (meson not_le)
        moreover have "\<forall>j. i \<le> j \<and> j < k \<longrightarrow> \<not> hit h w j" if "\<forall>j. ?k + 1 \<le> j \<and> j < k \<longrightarrow> \<not> hit h w j"
          using that no' by (meson not_le)
        ultimately show ?thesis unfolding eq by (meson add_leD1 le_add1 order.trans)
      qed
    qed
  qed
qed

lemma find_Some: "ascii_header_find h w = Some k \<longleftrightarrow> hit h w k \<and> (\<forall>j<k. \<not> hit h w j)"
  by (simp add: ascii_header_find_def find_from_Some)

lemma find_None: "ascii_header_find h w = None \<longleftrightarrow> (\<forall>k. \<not> hit h w k)"
proof
  assume none: "ascii_header_find h w = None"
  show "\<forall>k. \<not> hit h w k"
  proof
    fix k
    show "\<not> hit h w k"
    proof
      assume k: "hit h w k"
      then have "hit h w (LEAST k. hit h w k)" by (rule LeastI)
      moreover have "\<forall>j<(LEAST k. hit h w k). \<not> hit h w j" using not_less_Least by blast
      ultimately have "ascii_header_find h w = Some (LEAST k. hit h w k)" unfolding find_Some by blast
      with none show False by simp
    qed
  qed
next
  assume no: "\<forall>k. \<not> hit h w k"
  show "ascii_header_find h w = None"
  proof (rule ccontr)
    assume "ascii_header_find h w \<noteq> None"
    then obtain k where "ascii_header_find h w = Some k" by blast
    then have "hit h w k" by (simp only: find_Some)
    with no show False by blast
  qed
qed

section \<open>Setting and getting\<close>

text \<open>
  What a keyword and a value must be for the header to hold them: the keyword is not
  empty, and neither contains what ends it.
\<close>

definition plain_keyword :: "string \<Rightarrow> bool" where
  "plain_keyword w \<longleftrightarrow> w \<noteq> [] \<and> set w \<inter> {CHR '' '', tab, nl} = {}"

definition plain_value :: "string \<Rightarrow> bool" where
  "plain_value v \<longleftrightarrow> v \<noteq> [] \<and> length v \<le> 4095 \<and> (\<forall>c\<in>set v. \<not> c_space c)"

lemma header_line_split:
  "header_line w v = w @ CHR '' '' # (replicate (12 - length w) CHR '' '') @ v @ replicate (20 - length v) CHR '' '' @ ''   ''"
  by (simp add: header_line_def ljust_def replicate_append_same)

text \<open>The text behind a keyword holds a value: blanks, the value, and its end.\<close>

definition holds_value :: "string \<Rightarrow> string \<Rightarrow> bool" where
  "holds_value s v \<longleftrightarrow>
     (\<exists>a b. s = a @ v @ b \<and> (\<forall>c\<in>set a. c_space c) \<and> (b = [] \<or> c_space (hd b)))"

lemma sscanf_s_value: "holds_value s v \<Longrightarrow> plain_value v \<Longrightarrow> sscanf_s s = (1, Some v)"
  unfolding holds_value_def plain_value_def sscanf_s_def using scan_word_padded [of v] by fastforce

lemma sscanf_ld_value: "holds_value s (decimal n) \<Longrightarrow> n < 2 ^ 63 \<Longrightarrow> sscanf_ld s = (1, Some (int n))"
  unfolding holds_value_def using sscanf_ld_decimal by blast

lemma sscanf_lu_value: "holds_value s (decimal n) \<Longrightarrow> n < 2 ^ 64 \<Longrightarrow> sscanf_lu s = (1, Some (of_nat n))"
  unfolding holds_value_def using sscanf_lu_decimal by blast

text \<open>Where the text behind a keyword starts.\<close>

definition behind :: "string \<Rightarrow> nat \<Rightarrow> string" where
  "behind h k = drop (k + strcspn (drop k h) ('' '' @ [tab, nl])) h"

lemma get_behind: "ascii_header_find h w = Some k \<Longrightarrow> ascii_header_get h w scan = scan (behind h k)"
  by (simp add: ascii_header_get_def behind_def)

text \<open>The value behind a keyword, in a header that starts with a line of it.\<close>

lemma value_of_line:
  assumes "plain_keyword w"
  shows "holds_value (drop (strcspn (header_line w v @ rest) ('' '' @ [tab, nl])) (header_line w v @ rest)) v"
proof -
  let ?a = "CHR '' '' # replicate (12 - length w) CHR '' ''"
  let ?b = "replicate (20 - length v) CHR '' '' @ ''   '' @ rest"
  have line: "header_line w v @ rest = w @ ?a @ v @ ?b" by (simp add: header_line_split)
  have "takeWhile (\<lambda>c. c \<notin> set ('' '' @ [tab, nl])) (w @ ?a @ v @ ?b) = w"
    using assms(1) by (auto simp: plain_keyword_def takeWhile_append)
  then have "drop (strcspn (header_line w v @ rest) ('' '' @ [tab, nl])) (header_line w v @ rest) = ?a @ v @ ?b"
    unfolding strcspn_def line by simp
  moreover have "?b = [] \<or> c_space (hd ?b)"
    by (cases "20 - length v") (simp_all add: c_space_def)
  moreover have "\<forall>c\<in>set ?a. c_space c" by (simp add: c_space_def)
  ultimately show ?thesis unfolding holds_value_def by (intro exI [of _ ?a] exI [of _ ?b]) simp
qed

text \<open>
  Whether a place is a hit depends on the header up to one character behind the
  keyword.
\<close>

lemma hit_agree:
  assumes "take (k + length w + 1) h = take (k + length w + 1) h'" and "hit h w k" and "k + length w < length h"
  shows "hit h' w k"
proof -
  have len: "k + length w < length h'"
    using arg_cong [OF assms(1), of length] assms(3) by simp
  have at: "h ! j = h' ! j" if "j \<le> k + length w" for j
    using assms(1) that by (metis less_add_one nth_take order.strict_trans1 Suc_eq_plus1 less_Suc_eq_le)
  have "take (length w) (drop k h) = take (length w) (drop k h')"
    by (rule nth_equalityI) (use len assms(3) at in auto)
  moreover have "take (length w) (drop k h) = w" using assms(2) by (auto simp: hit_def prefix_def)
  ultimately have "prefix w (drop k h')" by (metis take_is_prefix)
  then show ?thesis
    using assms(2,3) len at by (auto simp: hit_def at_keyword_def char_at_def)
qed

text \<open>A line of the keyword at \<open>p\<close>, and no hit before it.\<close>

lemma found_line:
  assumes w: "plain_keyword w" and p: "p \<le> length h"
    and start: "p = 0 \<or> h ! (p - 1) = nl \<or> h ! (p - 1) = CHR 0x5C"
    and h': "h' = take p h @ header_line w v @ rest" and none: "\<forall>j<p. \<not> hit h' w j"
  shows "ascii_header_find h' w = Some p \<and> holds_value (behind h' p) v"
proof -
  have dp: "drop p h' = header_line w v @ rest" using p by (simp add: h')
  then have dp': "drop p h' = w @ CHR '' '' # (replicate (12 - length w) CHR '' '') @ v @ replicate (20 - length v) CHR '' '' @ ''   '' @ rest"
    by (simp add: header_line_split)
  have len: "p + length w < length h'"
  proof -
    have "length w < length (drop p h')" by (simp add: dp')
    then show ?thesis by simp
  qed
  have "h' ! (p + length w) = drop p h' ! length w" using len by simp
  then have sep: "char_at h' (p + length w) = CHR '' ''" using len by (simp add: char_at_def dp')
  have prev: "h' ! (p - 1) = h ! (p - 1)" if "p \<noteq> 0" using that p by (simp add: h' nth_append)
  have "hit h' w p"
    using len sep prev start by (auto simp: hit_def at_keyword_def dp')
  then have find: "ascii_header_find h' w = Some p" using none unfolding find_Some by blast
  have "drop (p + strcspn (drop p h') ('' '' @ [tab, nl])) h' = drop (strcspn (drop p h') ('' '' @ [tab, nl])) (drop p h')"
    by (simp add: add.commute)
  with find show ?thesis
    using value_of_line [OF w, of v rest] by (simp add: behind_def dp del: drop_drop)
qed

lemma set_present:
  assumes w: "plain_keyword w" and v: "plain_value v" and find: "ascii_header_find h w = Some k"
    and set: "ascii_header_set h w (Some v) = (rc, h')"
  shows "rc = 0 \<and> ascii_header_find h' w = Some k \<and> holds_value (behind h' k) v"
proof -
  let ?rest = "drop (k + strcspn (drop k h) [CHR ''#'', nl]) h"
  have hk: "hit h w k" and first: "\<forall>j<k. \<not> hit h w j" using find unfolding find_Some by auto
  have h': "h' = take k h @ header_line w v @ ?rest" and rc: "rc = 0"
    using set find v by (simp_all add: ascii_header_set_def plain_value_def)
  have pre: "prefix w (drop k h)" and kl: "k \<le> length h" using hk by (auto simp: hit_def)
  then have len: "k + length w \<le> length h" by (metis length_drop prefix_length_le le_diff_conv2 add.commute)
  have "take (k + length w) h = take k h @ w"
    using pre by (auto simp: take_add prefix_def)
  moreover have "take (k + length w) h' = take k h @ w" using kl by (simp add: h' header_line_split)
  ultimately have same: "take (k + length w) h = take (k + length w) h'" by simp
  have "\<not> hit h' w j" if "j < k" for j
  proof
    assume "hit h' w j"
    moreover have "take (j + length w + 1) h' = take (j + length w + 1) h"
    proof -
      have "min (j + length w + 1) (k + length w) = j + length w + 1" using that by simp
      then show ?thesis using arg_cong [OF same, of "take (j + length w + 1)"] by (simp only: take_take)
    qed
    moreover have "j + length w < length h'" using that kl by (simp add: h' header_line_split)
    ultimately have "hit h w j" by (intro hit_agree [of j w h' h])
    with first that show False by blast
  qed
  then have "ascii_header_find h' w = Some k \<and> holds_value (behind h' k) v"
    using hk kl by (intro found_line [OF w kl _ h']) (auto simp: hit_def at_keyword_def)
  with rc show ?thesis by simp
qed

text \<open>A keyword that is absent goes in front of the \<open>DATA\<close> line, or at the end.\<close>

definition insertion_point :: "string \<Rightarrow> nat" where
  "insertion_point h = (case strstr h (''DATA'' @ [nl]) of Some k \<Rightarrow> k | None \<Rightarrow> length h)"

lemma set_absent:
  assumes w: "plain_keyword w" and v: "plain_value v" and find: "ascii_header_find h w = None"
    and line: "insertion_point h = 0 \<or> h ! (insertion_point h - 1) = nl"
    and set: "ascii_header_set h w (Some v) = (rc, h')"
  shows "rc = 0 \<and> ascii_header_find h' w = Some (insertion_point h) \<and> holds_value (behind h' (insertion_point h)) v"
proof -
  let ?p = "insertion_point h"
  have p: "?p \<le> length h" by (auto simp: insertion_point_def strstr_Some split: option.splits)
  obtain rest where h': "h' = take ?p h @ header_line w v @ rest" and rc: "rc = 0"
    using set find v by (auto simp: ascii_header_set_def insertion_point_def plain_value_def split: option.splits)
  have nohit: "\<not> hit h w j" for j using find unfolding find_None by blast
  have "\<not> hit h' w j" if j: "j < ?p" for j
  proof
    assume hj: "hit h' w j"
    have pre: "prefix w (drop j h')" using hj by (simp add: hit_def)
    have "j + length w < ?p"
    proof (rule ccontr)
      assume far: "\<not> j + length w < ?p"
      then have "?p - 1 - j < length w" using j w by (auto simp: plain_keyword_def)
      then have "w ! (?p - 1 - j) = drop j h' ! (?p - 1 - j)" using pre by (metis prefix_def nth_append)
      also have "\<dots> = h' ! (?p - 1)"
      proof -
        have "j \<le> length h'" and "j + (?p - 1 - j) = ?p - 1" using j p by (simp_all add: h')
        then show ?thesis by (metis nth_drop)
      qed
      also have "\<dots> = h ! (?p - 1)"
      proof -
        have "?p - 1 < length (take ?p h)" using j p by simp
        then show ?thesis unfolding h' using j by (simp add: nth_append)
      qed
      finally have "w ! (?p - 1 - j) = nl" using line j by simp
      then have "nl \<in> set w" using \<open>?p - 1 - j < length w\<close> by (metis nth_mem)
      then show False using w by (auto simp: plain_keyword_def)
    qed
    then have "take (j + length w + 1) h' = take (j + length w + 1) h" "j + length w < length h'"
      using p by (simp_all add: h')
    then have "hit h w j" by (rule hit_agree [OF _ hj])
    with nohit show False by blast
  qed
  then have "ascii_header_find h' w = Some ?p \<and> holds_value (behind h' ?p) v"
    using line by (intro found_line [OF w p _ h']) auto
  with rc show ?thesis by simp
qed

text \<open>Together: where a value that was set is found.\<close>

definition can_hold :: "string \<Rightarrow> string \<Rightarrow> bool" where
  "can_hold h w \<longleftrightarrow>
     ascii_header_find h w \<noteq> None \<or> insertion_point h = 0 \<or> h ! (insertion_point h - 1) = nl"

lemma set_value:
  assumes "plain_keyword w" and "plain_value v" and "ascii_header_set h w (Some v) = (rc, h')" and "can_hold h w"
  obtains k where "rc = 0" and "ascii_header_find h' w = Some k" and "holds_value (behind h' k) v"
proof (cases "ascii_header_find h w")
  case (Some k)
  then show ?thesis using set_present [OF assms(1,2) _ assms(3)] that by blast
next
  case None
  then show ?thesis using set_absent [OF assms(1,2) _ _ assms(3)] assms(4) that by (auto simp: can_hold_def)
qed

lemma set_chars:
  assumes "ascii_header_set h w (Some v) = (rc, h')"
  shows "set h' \<subseteq> set h \<union> set w \<union> set v \<union> {CHR '' '', nl}"
proof -
  have line: "set (header_line w (take 4095 v)) \<subseteq> set w \<union> set v \<union> {CHR '' ''}"
    unfolding header_line_split by (auto dest: in_set_takeD)
  show ?thesis
    using assms line by (auto simp: ascii_header_set_def split: option.splits dest!: in_set_takeD in_set_dropD)
qed

text \<open>A keyword is found where it first occurs at the start of a line, preceded by a
  line end or a backslash and followed by a tab or a space; only at the very start of the
  header is the following character not looked at.\<close>

theorem header_find_first:
  "ascii_header_find h w = Some k \<longleftrightarrow> hit h w k \<and> (\<forall>j<k. \<not> hit h w j)"
  by (rule find_Some)

lemma header_find_first_witness:
  "hit (''AFREQ 1'' @ [nl] @ ''FREQ 2'' @ [nl]) ''FREQ'' 8
   \<and> ascii_header_find (''AFREQ 1'' @ [nl] @ ''FREQ 2'' @ [nl]) ''FREQ'' = Some 8"
proof -
  have "ascii_header_find (''AFREQ 1'' @ [nl] @ ''FREQ 2'' @ [nl]) ''FREQ'' = Some 8" by code_simp
  then show ?thesis using header_find_first by blast
qed

text \<open>C15. What is set is what is got: after \<open>ascii_header_set\<close> of a value without
  whitespace, whether the keyword was in the header or is added in front of the \<open>DATA\<close> line or
  at the end, reading the keyword as a word gives the value.\<close>

theorem header_get_after_set:
  assumes "plain_keyword w" and "plain_value v" and "ascii_header_set h w (Some v) = (rc, h')"
    and "can_hold h w"
  shows "rc = 0 \<and> ascii_header_get h' w sscanf_s = (1, Some v)"
proof -
  obtain k where k: "rc = 0" "ascii_header_find h' w = Some k" "holds_value (behind h' k) v"
    using set_value [OF assms] .
  then show ?thesis using sscanf_s_value [OF k(3) assms(2)] by (simp add: get_behind)
qed

lemma header_get_after_set_witness:
  "ascii_header_get (snd (ascii_header_set (''NCHAN 4'' @ [nl]) ''FREQ'' (Some ''1400''))) ''FREQ'' sscanf_s = (1, Some ''1400'')"
proof -
  have "plain_keyword ''FREQ''" "plain_value ''1400''" by code_simp+
  moreover have "can_hold (''NCHAN 4'' @ [nl]) ''FREQ''" by code_simp
  ultimately show ?thesis
    using header_get_after_set [OF _ _ surjective_pairing, of "''FREQ''" "''1400''" "''NCHAN 4'' @ [nl]"] by blast
qed

text \<open>A file that starts with a header shorter than a page, in which \<open>HDR_SIZE\<close>
  was set to \<open>n\<close>, padded with NULs, is reported to have a header of \<open>n\<close> bytes, whatever lies
  behind the buffer.\<close>

theorem header_size_of_file:
  assumes "n < 2 ^ 63" and "ascii_header_set h ''HDR_SIZE'' (Some (decimal n)) = (rc, h')"
    and "can_hold h ''HDR_SIZE''" and "CHR 0x00 \<notin> set h" and "length h' < page"
  shows "ascii_header_get_size_fd page (h' @ replicate (page - length h') CHR 0x00 @ data) tail = of_nat n"
proof -
  let ?file = "h' @ replicate (page - length h') CHR 0x00 @ data"
  have "length (decimal n) \<le> 19" by (rule decimal_length) (use assms(1) in auto)
  then have pv: "plain_value (decimal n)" using decimal_chars [of n] by (auto simp: plain_value_def)
  have "\<not> is_digit (CHR 0x00)" by (simp add: is_digit_def)
  then have "CHR 0x00 \<notin> set (decimal n)" using decimal_chars [of n] by blast
  moreover have "CHR 0x00 \<notin> set ''HDR_SIZE'' \<union> {CHR '' '', nl}" by (simp add: nl_def)
  ultimately have nonul: "CHR 0x00 \<notin> set h'" using set_chars [OF assms(2)] assms(4) by blast
  then have str: "takeWhile (\<lambda>c. c \<noteq> CHR 0x00) (take page ?file @ tail) = h'"
    using assms(5) nonul
    by (cases "page - length h'") (auto simp: takeWhile_append takeWhile_eq_all_conv)
  obtain k where k: "rc = 0" "ascii_header_find h' ''HDR_SIZE'' = Some k" "holds_value (behind h' k) (decimal n)"
    using set_value [OF _ pv assms(2,3)] by (auto simp: plain_keyword_def tab_def nl_def)
  then have "ascii_header_get h' ''HDR_SIZE'' sscanf_ld = (1, Some (int n))"
    using sscanf_ld_value [OF k(3) assms(1)] by (simp add: get_behind)
  then show ?thesis
    using assms(5) str by (simp add: ascii_header_get_size_fd_def Let_def)
qed

lemma header_size_of_file_witness:
  "ascii_header_get_size_fd 4096
     (snd (ascii_header_set [] ''HDR_SIZE'' (Some (decimal 4096)))
      @ replicate (4096 - length (snd (ascii_header_set [] ''HDR_SIZE'' (Some (decimal 4096))))) CHR 0x00 @ []) [] = of_nat 4096"
proof (rule header_size_of_file [OF _ surjective_pairing])
  have "(char_of (52::nat) :: char) = CHR ''4''" "(char_of (48::nat) :: char) = CHR ''0''"
    "(char_of (57::nat) :: char) = CHR ''9''" "(char_of (54::nat) :: char) = CHR ''6''" by code_simp+
  then have d: "decimal 4096 = ''4096''" by (simp add: decimal.simps)
  show "can_hold [] ''HDR_SIZE''" by code_simp
  show "length (snd (ascii_header_set [] ''HDR_SIZE'' (Some (decimal 4096)))) < 4096"
    unfolding d
    by (simp add: ascii_header_set_def ascii_header_find_def find_from.simps header_line_def ljust_def)
qed simp_all

end
