(* ===== verification/Ipcbuf_Facts.thy ===== *)
theory Ipcbuf_Facts
  imports Ipcbuf_Admin
begin

text \<open>
  What the ring operations do when they succeed, in closed form. The lemmas here
  carry the invariants of the later theories: each says which fields an
  operation writes and what it needed to get past its semaphores.
\<close>

section \<open>Draining a sub-block\<close>

lemma map_sems_readers [simp]: "readers (map_sems f num is r) = readers r"
  by simp

lemma drain_count_closed:
  assumes "drain_count n b r = Some (e, r')" and "n \<le> unat (count r b)"
  shows "e = None \<and> (\<forall>i\<in>set (readers r). n \<le> sem_data r i IPCBUF_CLEAR)
    \<and> r' = (map_sems (\<lambda>v. v - n) IPCBUF_CLEAR (readers r) r)\<lparr>count := (count r)(b := count r b - of_nat n)\<rparr>"
  using assms
proof (induction n arbitrary: r)
  case 0
  then show ?case by (simp add: map_sems_def fun_eq_iff)
next
  case (Suc n)
  let ?s = "(map_sems (\<lambda>v. v - 1) IPCBUF_CLEAR (readers r) r)\<lparr>count := (count r)(b := count r b - 1)\<rparr>"
  have pos: "\<forall>i\<in>set (readers r). 0 < sem_data r i IPCBUF_CLEAR"
    and rest: "drain_count n b ?s = Some (e, r')"
    using Suc.prems(1) by (auto simp: each_down split: if_splits)
  have "n \<le> unat (count ?s b)"
    using Suc.prems(2) by (simp add: unat_pred unat_gt_0 [symmetric])
  then have ih: "e = None \<and> (\<forall>i\<in>set (readers ?s). n \<le> sem_data ?s i IPCBUF_CLEAR)
    \<and> r' = (map_sems (\<lambda>v. v - n) IPCBUF_CLEAR (readers ?s) ?s)\<lparr>count := (count ?s)(b := count ?s b - of_nat n)\<rparr>"
    using Suc.IH rest by blast
  have "Suc n \<le> sem_data r i IPCBUF_CLEAR" if "i \<in> set (readers r)" for i
    using that pos ih by (force simp: sem_data_map_sems)
  moreover have "r' = (map_sems (\<lambda>v. v - Suc n) IPCBUF_CLEAR (readers r) r)
      \<lparr>count := (count r)(b := count r b - of_nat (Suc n))\<rparr>"
    using ih by (auto simp: map_sems_def fun_eq_iff)
  ultimately show ?case using ih by blast
qed

lemma drain_count_enough:
  assumes "\<forall>i\<in>set (readers r). n \<le> sem_data r i IPCBUF_CLEAR" and "n \<le> unat (count r b)"
  shows "\<exists>r'. drain_count n b r = Some (None, r')"
  using assms
proof (induction n arbitrary: r)
  case (Suc n)
  let ?s = "(map_sems (\<lambda>v. v - 1) IPCBUF_CLEAR (readers r) r)\<lparr>count := (count r)(b := count r b - 1)\<rparr>"
  have "\<forall>i\<in>set (readers r). 0 < sem_data r i IPCBUF_CLEAR"
    using Suc.prems(1) by fastforce
  moreover have "\<exists>r'. drain_count n b ?s = Some (None, r')"
    using Suc.prems by (intro Suc.IH) (force simp: sem_data_map_sems unat_pred unat_gt_0 [symmetric])+
  ultimately show ?case by (simp add: each_down)
qed simp

text \<open>The loop of the source, as an equation: test the count, take one round, repeat.\<close>

lemma drain_count_loop:
  "drain_count (unat (count r b)) b r =
     (if count r b = 0 then Some (None, r)
      else do {
        (e, r1) \<leftarrow> each (data_semop IPCBUF_CLEAR (- 1) False) (readers r) r;
        if e \<noteq> None then Some (e, r1)
        else let r2 = r1\<lparr>count := (count r1)(b := count r1 b - 1)\<rparr>
             in drain_count (unat (count r2 b)) b r2
      })"
proof (cases "count r b = 0")
  case False
  then obtain n where n: "unat (count r b) = Suc n"
    by (metis unat_eq_zero not0_implies_Suc)
  then have "unat (count r b - 1) = n" using False by (simp add: unat_pred)
  then show ?thesis using n False
    by (auto simp: each_down split: if_splits)
qed simp

lemma drain_count_blocks:
  assumes "i \<in> set (readers r)" and "sem_data r i IPCBUF_CLEAR = 0" and "count r b \<noteq> 0"
  shows "drain_count (unat (count r b)) b r = None"
proof -
  have "each (data_semop IPCBUF_CLEAR (- 1) False) (readers r) r = None"
    by (rule each_down_blocks [OF assms(1,2)])
  then show ?thesis using assms(3) by (subst drain_count_loop) simp
qed

section \<open>Start of data\<close>

lemma count_written_empty [simp]: "\<not> a < b \<Longrightarrow> count_written a b nb cnt = cnt"
  by (simp add: count_written.simps [of a])

lemma sod_sync_frame [simp, frame_simps]:
  "nbufs (sod_sync s a b) = nbufs s" "bufsz (sod_sync s a b) = bufsz s"
  "w_buf_next (sod_sync s a b) = w_buf_next s" "w_buf_curr (sod_sync s a b) = w_buf_curr s"
  "w_xfer (sod_sync s a b) = w_xfer s" "n_readers (sod_sync s a b) = n_readers s"
  "r_bufs (sod_sync s a b) = r_bufs s" "r_states (sod_sync s a b) = r_states s"
  "r_xfers (sod_sync s a b) = r_xfers s" "e_buf (sod_sync s a b) = e_buf s"
  "e_byte (sod_sync s a b) = e_byte s" "w_state (sod_sync s a b) = WRITING"
  by (simp_all add: sod_sync_def Let_def)

lemma enable_sod_rejects:
  "\<not> sod_allowed r p a b \<Longrightarrow> ipcbuf_enable_sod r p a b = Some (- 1, r, p)"
  by (simp add: ipcbuf_enable_sod_def)

text \<open>A start of data sleeps while a reader has all its acknowledgements outstanding.\<close>

lemma enable_sod_sleeps:
  assumes "sod_allowed r p a b" and "i \<in> set (readers r)" and "sem_data r i IPCBUF_SODACK = 0"
  shows "ipcbuf_enable_sod r p a b = None"
  using assms each_down_blocks [OF assms(2,3)] by (simp add: ipcbuf_enable_sod_def)

abbreviation (input) after_sodack :: "ring \<Rightarrow> ring" where
  "after_sodack r \<equiv> map_sems (\<lambda>v. v - 1) IPCBUF_SODACK (readers r) r"

abbreviation (input) sod_ring :: "ring \<Rightarrow> u64 \<Rightarrow> u64 \<Rightarrow> ring" where
  "sod_ring r a b \<equiv> (after_sodack r)\<lparr>sync := sod_sync (sync r) a b,
      count := count_written a (w_buf_curr (sync r)) (nbufs (sync r)) (count r)\<rparr>"

abbreviation (input) sod_handle :: "ring \<Rightarrow> ipcbuf \<Rightarrow> ipcbuf" where
  "sod_handle r p \<equiv> p\<lparr>xfer := w_xfer (sync r) mod IPCBUF_XFERS, state := WRITING\<rparr>"

lemma enable_sod_run:
  assumes "sod_allowed r p a b" and "\<forall>i\<in>set (readers r). 0 < sem_data r i IPCBUF_SODACK"
  shows "ipcbuf_enable_sod r p a b =
    (if w_buf_curr (sync r) - a = 0 then Some (0, sod_ring r a b, sod_handle r p)
     else do { (e, r2) \<leftarrow> each (data_semop IPCBUF_FULL (uint (w_buf_curr (sync r) - a)) False) (readers r) (sod_ring r a b);
               if e \<noteq> None then Some (- 1, r2, sod_handle r p) else Some (0, r2, sod_handle r p) })"
  using assms by (simp add: ipcbuf_enable_sod_def each_down Let_def cong: if_cong)

lemma enable_sod_none_written:
  assumes "sod_allowed r p (w_buf_curr (sync r)) b"
    and "\<forall>i\<in>set (readers r). 0 < sem_data r i IPCBUF_SODACK"
  shows "ipcbuf_enable_sod r p (w_buf_curr (sync r)) b =
     Some (0, (after_sodack r)\<lparr>sync := sod_sync (sync r) (w_buf_curr (sync r)) b\<rparr>, sod_handle r p)"
  using assms by (simp add: enable_sod_run)

lemma enable_sod_Some:
  assumes run: "ipcbuf_enable_sod r p a b = Some (0, r', p')"
    and le: "unat (w_buf_curr (sync r) - a) \<le> SEMVMX"
  shows "sod_allowed r p a b \<and> (\<forall>i\<in>set (readers r). 0 < sem_data r i IPCBUF_SODACK)
    \<and> p' = sod_handle r p
    \<and> r' = map_sems (\<lambda>v. v + unat (w_buf_curr (sync r) - a)) IPCBUF_FULL (readers r) (sod_ring r a b)"
proof -
  have ok: "sod_allowed r p a b"
    using run enable_sod_rejects [of r p a b] by (cases "sod_allowed r p a b") auto
  have pos: "\<forall>i\<in>set (readers r). 0 < sem_data r i IPCBUF_SODACK"
    using run ok enable_sod_sleeps [of r p a b] by force
  show ?thesis
  proof (cases "w_buf_curr (sync r) - a = 0")
    case True
    then have "w_buf_curr (sync r) = a" by simp
    with run ok pos show ?thesis by (auto simp: enable_sod_run)
  next
    case False
    with run ok pos have each: "each (data_semop IPCBUF_FULL (int (unat (w_buf_curr (sync r) - a))) False)
        (readers r) (sod_ring r a b) = Some (None, r')" and p': "p' = sod_handle r p"
      by (auto simp: enable_sod_run split: if_splits bind_splits)
    have "0 < unat (w_buf_curr (sync r) - a)" using False by (simp add: unat_gt_0)
    then have "r' = map_sems (\<lambda>v. v + unat (w_buf_curr (sync r) - a)) IPCBUF_FULL (readers r) (sod_ring r a b)"
      using each_add_Some [OF each _ _ le] by simp
    with ok pos p' show ?thesis by blast
  qed
qed

section \<open>Opening a sub-block\<close>

lemma enable_sod_rc:
  "ipcbuf_enable_sod r p a b = Some (rc, r', p') \<Longrightarrow> rc = 0 \<or> rc = - 1"
  by (auto simp: ipcbuf_enable_sod_def Let_def split: if_splits bind_splits)

text \<open>The ring after a sub-block has been drained and opened.\<close>

definition opened :: "ring \<Rightarrow> nat \<Rightarrow> ring" where
  "opened r b =
     (map_sems (\<lambda>v. v - unat (count r b)) IPCBUF_CLEAR (readers r) r)
       \<lparr>count := (count r)(b := 0), sync := (sync r)\<lparr>w_buf_next := w_buf_next (sync r) + 1\<rparr>\<rparr>"

lemma opened_frame [simp, frame_simps]:
  "sync (opened r b) = (sync r)\<lparr>w_buf_next := w_buf_next (sync r) + 1\<rparr>"
  "count (opened r b) = (count r)(b := 0)" "mem (opened r b) = mem r"
  "sem_connect (opened r b) = sem_connect r"
  by (simp_all add: opened_def)

lemma sem_data_opened:
  "sem_data (opened r b) i n =
     (if i \<in> set (readers r) \<and> n = IPCBUF_CLEAR then sem_data r i n - unat (count r b) else sem_data r i n)"
  by (simp add: opened_def sem_data_map_sems)

abbreviation next_slot :: "ring \<Rightarrow> nat" where
  "next_slot r \<equiv> unat (w_buf_next (sync r) mod nbufs (sync r))"

abbreviation curr_slot :: "ring \<Rightarrow> nat" where
  "curr_slot r \<equiv> unat (w_buf_curr (sync r) mod nbufs (sync r))"

lemma get_next_write_opens:
  assumes "ipcbuf_is_writer p" and "state p \<noteq> WCHANGE"
  shows "ipcbuf_get_next_write r p =
    (if \<forall>i\<in>set (readers r). unat (count r (next_slot r)) \<le> sem_data r i IPCBUF_CLEAR
     then Some (Some (next_slot r), opened r (next_slot r), p) else None)"
proof -
  let ?b = "next_slot r"
  have run: "ipcbuf_get_next_write r p =
    do { (e, r1) \<leftarrow> drain_count (unat (count r ?b)) ?b r;
         if e \<noteq> None then Some (None, r1, p)
         else Some (Some ?b, r1\<lparr>sync := (sync r1)\<lparr>w_buf_next := w_buf_next (sync r1) + 1\<rparr>\<rparr>, p) }"
    using assms by (simp add: ipcbuf_get_next_write_def Let_def)
  show ?thesis
  proof (cases "drain_count (unat (count r ?b)) ?b r")
    case None
    then have "\<not> (\<forall>i\<in>set (readers r). unat (count r ?b) \<le> sem_data r i IPCBUF_CLEAR)"
      using drain_count_enough [of r "unat (count r ?b)" ?b] by fastforce
    with None run show ?thesis by auto
  next
    case (Some er)
    then obtain e r1 where er: "drain_count (unat (count r ?b)) ?b r = Some (e, r1)" by (cases er) auto
    from drain_count_closed [OF er] have "e = None"
      and "\<forall>i\<in>set (readers r). unat (count r ?b) \<le> sem_data r i IPCBUF_CLEAR"
      and "r1 = (map_sems (\<lambda>v. v - unat (count r ?b)) IPCBUF_CLEAR (readers r) r)\<lparr>count := (count r)(?b := 0)\<rparr>"
      by simp_all
    with er run show ?thesis by (simp add: opened_def)
  qed
qed

lemma get_next_write_first:
  assumes "state p = WCHANGE"
  shows "ipcbuf_get_next_write r p =
    (case ipcbuf_enable_sod r p (w_buf_curr (sync r)) 0 of
       None \<Rightarrow> None
     | Some (rc, r1, p1) \<Rightarrow> if rc < 0 then Some (None, r1, p1) else ipcbuf_get_next_write r1 p1)"
proof (cases "ipcbuf_enable_sod r p (w_buf_curr (sync r)) 0")
  case (Some t)
  then obtain rc r1 p1 where t: "ipcbuf_enable_sod r p (w_buf_curr (sync r)) 0 = Some (rc, r1, p1)"
    by (cases t) auto
  have "state p1 = WRITING" if "\<not> rc < 0"
    using t that by (auto simp: ipcbuf_enable_sod_def Let_def split: if_splits bind_splits)
  then show ?thesis
    using assms t by (auto simp: ipcbuf_get_next_write_def ipcbuf_is_writer_def)
qed (use assms in \<open>simp add: ipcbuf_get_next_write_def ipcbuf_is_writer_def\<close>)

lemma get_next_write_Some:
  assumes "ipcbuf_get_next_write r p = Some (Some b, r', p')"
  obtains (cont) "ipcbuf_is_writer p" "state p \<noteq> WCHANGE" "p' = p" "b = next_slot r"
      "\<forall>i\<in>set (readers r). unat (count r b) \<le> sem_data r i IPCBUF_CLEAR" "r' = opened r b"
  | (first) r1 where "state p = WCHANGE" "ipcbuf_enable_sod r p (w_buf_curr (sync r)) 0 = Some (0, r1, p')"
      "state p' = WRITING" "b = next_slot r1"
      "\<forall>i\<in>set (readers r1). unat (count r1 b) \<le> sem_data r1 i IPCBUF_CLEAR" "r' = opened r1 b"
proof -
  have w: "ipcbuf_is_writer p"
    using assms by (auto simp: ipcbuf_get_next_write_def split: if_splits)
  show thesis
  proof (cases "state p = WCHANGE")
    case False
    with assms w show thesis
      by (intro cont) (auto simp: get_next_write_opens split: if_splits)
  next
    case True
    then obtain r1 p1 where sod: "ipcbuf_enable_sod r p (w_buf_curr (sync r)) 0 = Some (0, r1, p1)"
      and go: "ipcbuf_get_next_write r1 p1 = Some (Some b, r', p')"
      using assms enable_sod_rc [of r p "w_buf_curr (sync r)" 0]
      by (fastforce simp: get_next_write_first split: option.splits if_splits prod.splits)
    have "state p1 = WRITING"
      using sod by (auto simp: ipcbuf_enable_sod_def Let_def split: if_splits bind_splits)
    then have "p' = p1" "b = next_slot r1" "r' = opened r1 b"
      "\<forall>i\<in>set (readers r1). unat (count r1 b) \<le> sem_data r1 i IPCBUF_CLEAR"
      using go by (auto simp: get_next_write_opens ipcbuf_is_writer_def split: if_splits)
    with True sod \<open>state p1 = WRITING\<close> show thesis by (intro first [of r1]) simp_all
  qed
qed

section \<open>Marking a sub-block filled\<close>

lemma count_filled_frame [simp, frame_simps]:
  "sync (count_filled r) = (sync r)\<lparr>w_buf_curr := w_buf_curr (sync r) + 1\<rparr>"
  "count (count_filled r) = (count r)(curr_slot r := count r (curr_slot r) + 1)"
  "mem (count_filled r) = mem r" "sem_data (count_filled r) = sem_data r"
  "sem_connect (count_filled r) = sem_connect r"
  by (simp_all add: count_filled_def Let_def)

lemma eod_sync_frame [simp, frame_simps]:
  "nbufs (eod_sync s x n) = nbufs s" "bufsz (eod_sync s x n) = bufsz s"
  "w_buf_next (eod_sync s x n) = w_buf_next s" "w_buf_curr (eod_sync s x n) = w_buf_curr s"
  "w_xfer (eod_sync s x n) = w_xfer s + 1" "n_readers (eod_sync s x n) = n_readers s"
  "r_bufs (eod_sync s x n) = r_bufs s" "r_states (eod_sync s x n) = r_states s"
  "r_xfers (eod_sync s x n) = r_xfers s" "s_buf (eod_sync s x n) = s_buf s"
  "s_byte (eod_sync s x n) = s_byte s" "w_state (eod_sync s x n) = DISCON"
  "e_buf (eod_sync s x n) = (e_buf s)(x := w_buf_curr s)"
  "e_byte (eod_sync s x n) = (e_byte s)(x := n)" "eod (eod_sync s x n) = (eod s)(x := True)"
  by (simp_all add: eod_sync_def)

lemma mark_filled_clocking:
  "state p = WRITER \<Longrightarrow> ipcbuf_mark_filled r p n =
     Some (0, r\<lparr>sync := (sync r)\<lparr>w_buf_curr := w_buf_curr (sync r) + 1\<rparr>\<rparr>, p)"
  by (simp add: ipcbuf_mark_filled_def ipcbuf_is_writer_def)

lemma mark_filled_middle:
  assumes "ipcbuf_mark_filled r p n = Some (0, r', p')" and "state p = WRITING" and "bufsz (sync r) \<le> n"
  shows "p' = p \<and> r' = map_sems Suc IPCBUF_FULL (readers r) (count_filled r)"
  using assms each_up_Some [of IPCBUF_FULL False "readers r" "count_filled r" r']
  by (auto simp: ipcbuf_mark_filled_def ipcbuf_is_writer_def not_less split: if_splits bind_splits)

abbreviation (input) eod_ring :: "ring \<Rightarrow> ipcbuf \<Rightarrow> u64 \<Rightarrow> ring" where
  "eod_ring r p n \<equiv> (map_sems (\<lambda>v. v - 1) IPCBUF_EODACK (readers r) r)\<lparr>sync := eod_sync (sync r) (cur_xfer p) n\<rparr>"

abbreviation (input) eod_handle :: "ring \<Rightarrow> ipcbuf \<Rightarrow> ipcbuf" where
  "eod_handle r p \<equiv> p\<lparr>xfer := (w_xfer (sync r) + 1) mod IPCBUF_XFERS, state := WRITER\<rparr>"

lemma end_transfer_run:
  "end_transfer r p n =
     (if \<forall>i\<in>set (readers r). 0 < sem_data r i IPCBUF_EODACK
      then (if n = 0
            then (if \<forall>i\<in>set (readers r). unat (count r (next_slot r)) \<le> sem_data r i IPCBUF_CLEAR
                  then Some (0, opened (eod_ring r p n) (next_slot r), eod_handle r p) else None)
            else Some (0, eod_ring r p n, eod_handle r p))
      else None)"
  by (auto simp: end_transfer_def each_down Let_def get_next_write_opens ipcbuf_is_writer_def
      sem_data_map_sems cong: if_cong)

lemma mark_filled_end:
  assumes run: "ipcbuf_mark_filled r p n = Some (0, r', p')"
    and "state p = WCHANGE \<or> state p = WRITING \<and> n < bufsz (sync r)"
  shows "(\<forall>i\<in>set (readers r). 0 < sem_data r i IPCBUF_EODACK) \<and> p' = eod_handle r p
    \<and> (n = 0 \<longrightarrow> (\<forall>i\<in>set (readers r). unat (count r (next_slot r)) \<le> sem_data r i IPCBUF_CLEAR))
    \<and> r' = map_sems Suc IPCBUF_FULL (readers r)
            (count_filled (if n = 0 then opened (eod_ring r p n) (next_slot r) else eod_ring r p n))"
proof -
  have "\<exists>r1. end_transfer r p n = Some (0, r1, p')
      \<and> each (data_semop IPCBUF_FULL 1 False) (readers r1) (count_filled r1) = Some (None, r')"
    using assms
    by (auto simp: ipcbuf_mark_filled_def ipcbuf_is_writer_def split: if_splits bind_splits)
       (auto simp: end_transfer_run split: if_splits)
  then obtain r1 where et: "end_transfer r p n = Some (0, r1, p')"
    and up: "each (data_semop IPCBUF_FULL 1 False) (readers r1) (count_filled r1) = Some (None, r')"
    by blast
  have "readers r1 = readers r"
    using et by (auto simp: end_transfer_run split: if_splits)
  with up have "r' = map_sems Suc IPCBUF_FULL (readers r) (count_filled r1)"
    using each_up_Some(1) [OF up] by simp
  with et show ?thesis by (auto simp: end_transfer_run split: if_splits)
qed

section \<open>Reading and clearing\<close>

abbreviation (input) take_full :: "nat \<Rightarrow> ring \<Rightarrow> ring" where
  "take_full i r \<equiv> map_sems (\<lambda>v. v - 1) IPCBUF_FULL [i] r"

abbreviation (input) read_slot :: "ring \<Rightarrow> nat \<Rightarrow> nat" where
  "read_slot r i \<equiv> unat (r_bufs (sync r) i mod nbufs (sync r))"

lemma read_bytes_map_sems [simp]: "read_bytes (map_sems f n is r) p i b = read_bytes r p i b"
  by (simp add: read_bytes_def at_end_of_data_def)

lemma get_next_read_reading:
  assumes "state p = READING" and "iread p = int i"
  shows "ipcbuf_get_next_read r p =
    (if 0 < sem_data r i IPCBUF_FULL
     then Some (Some ((read_slot r i, 0), read_bytes r p i 0), take_full i r, p) else None)"
  using assms
  by (auto simp: ipcbuf_get_next_read_def ipcbuf_get_next_read_work_def ipcbuf_eod_def
      ipcbuf_is_reader_def next_read_reader_def data_semop_down Let_def)

text \<open>The shared record after a reader has taken the start of data of its transfer.\<close>

definition start_read_sync :: "ipcsync \<Rightarrow> nat \<Rightarrow> ipcsync" where
  "start_read_sync s i =
     s\<lparr>r_states := (r_states s)(i := READING),
       r_bufs := (r_bufs s)(i := s_buf s (unat (r_xfers s i mod IPCBUF_XFERS)))\<rparr>"

lemma start_read_sync_frame [simp, frame_simps]:
  "nbufs (start_read_sync s i) = nbufs s" "bufsz (start_read_sync s i) = bufsz s"
  "w_buf_next (start_read_sync s i) = w_buf_next s" "w_buf_curr (start_read_sync s i) = w_buf_curr s"
  "w_xfer (start_read_sync s i) = w_xfer s" "n_readers (start_read_sync s i) = n_readers s"
  "w_state (start_read_sync s i) = w_state s"
  "r_states (start_read_sync s i) = (r_states s)(i := READING)"
  "r_bufs (start_read_sync s i) = (r_bufs s)(i := s_buf s (unat (r_xfers s i mod IPCBUF_XFERS)))"
  "r_xfers (start_read_sync s i) = r_xfers s" "s_buf (start_read_sync s i) = s_buf s"
  "s_byte (start_read_sync s i) = s_byte s" "e_buf (start_read_sync s i) = e_buf s"
  "e_byte (start_read_sync s i) = e_byte s" "eod (start_read_sync s i) = eod s"
  by (simp_all add: start_read_sync_def)

lemma get_next_read_first:
  assumes "state p = READER" and "iread p = int i" and "sem_data r i IPCBUF_SODACK < SEMVMX"
  shows "ipcbuf_get_next_read r p =
    (if 0 < sem_data r i IPCBUF_FULL
     then let p' = p\<lparr>xfer := r_xfers (sync r) i mod IPCBUF_XFERS, state := READING\<rparr>;
              r' = map_sems Suc IPCBUF_SODACK [i] ((take_full i r)\<lparr>sync := start_read_sync (sync r) i\<rparr>);
              b = s_byte (sync r) (cur_xfer p')
          in Some (Some ((read_slot r' i, b), read_bytes r' p' i b), r', p')
     else None)"
  using assms
  by (auto simp: ipcbuf_get_next_read_def ipcbuf_get_next_read_work_def ipcbuf_eod_def
      ipcbuf_is_reader_def next_read_reader_def data_semop_down data_semop_up
      sem_data_map_sems start_read_sync_def Let_def)

lemma get_next_read_Some:
  assumes run: "ipcbuf_get_next_read r p = Some (Some d, r', p')" and "ipcbuf_is_reader p" and i: "iread p = int i"
  obtains (going) "state p = READING" "0 < sem_data r i IPCBUF_FULL" "r' = take_full i r" "p' = p"
      "d = ((read_slot r i, 0), read_bytes r p i 0)"
  | (begins) "state p = READER" "0 < sem_data r i IPCBUF_FULL" "sem_data r i IPCBUF_SODACK < SEMVMX"
      "r' = map_sems Suc IPCBUF_SODACK [i] ((take_full i r)\<lparr>sync := start_read_sync (sync r) i\<rparr>)"
      "p' = p\<lparr>xfer := r_xfers (sync r) i mod IPCBUF_XFERS, state := READING\<rparr>"
      "d = ((read_slot r' i, s_byte (sync r) (cur_xfer p')), read_bytes r' p' i (s_byte (sync r) (cur_xfer p')))"
proof -
  have "state p = READING \<or> state p = READER"
    using assms by (auto simp: ipcbuf_get_next_read_def ipcbuf_get_next_read_work_def ipcbuf_eod_def
        ipcbuf_is_reader_def)
  then show thesis
  proof
    assume "state p = READING"
    with run i show thesis by (intro going) (auto simp: get_next_read_reading split: if_splits)
  next
    assume rd: "state p = READER"
    have sod: "sem_data r i IPCBUF_SODACK < SEMVMX"
    proof (rule ccontr)
      assume "\<not> ?thesis"
      then show False using run rd i
        by (auto simp: ipcbuf_get_next_read_def ipcbuf_get_next_read_work_def ipcbuf_eod_def
            ipcbuf_is_reader_def next_read_reader_def data_semop_down data_semop_up
            sem_data_map_sems Let_def split: if_splits)
    qed
    with run rd i show thesis
      by (intro begins) (auto simp: get_next_read_first Let_def split: if_splits)
  qed
qed

text \<open>A reader that has to wait for data does not return; it cannot fail.\<close>

lemma get_next_read_waits:
  assumes "ipcbuf_is_reader p" and "\<not> ipcbuf_eod p" and "sem_data r (nat (iread p)) IPCBUF_FULL = 0"
  shows "ipcbuf_get_next_read r p = None"
  using assms
  by (simp add: ipcbuf_get_next_read_def ipcbuf_get_next_read_work_def next_read_reader_def
      data_semop_down Let_def)

definition clear_sync :: "ipcsync \<Rightarrow> nat \<Rightarrow> ipcsync" where
  "clear_sync s i = s\<lparr>r_bufs := (r_bufs s)(i := r_bufs s i + 1)\<rparr>"

definition stop_sync :: "ipcsync \<Rightarrow> nat \<Rightarrow> ipcsync" where
  "stop_sync s i = s\<lparr>r_states := (r_states s)(i := DISCON), r_xfers := (r_xfers s)(i := r_xfers s i + 1)\<rparr>"

lemma at_end_of_data_map_sems [simp]: "at_end_of_data (map_sems f n is r) p i = at_end_of_data r p i"
  by (simp add: at_end_of_data_def)

lemma mark_cleared_Some:
  assumes "ipcbuf_mark_cleared r p = Some (0, r', p')" and "iread p = int i"
  shows "state p = READING \<and> sem_data r i IPCBUF_CLEAR < SEMVMX
    \<and> (if at_end_of_data r p i
       then r' = map_sems Suc IPCBUF_EODACK [i]
                   ((map_sems Suc IPCBUF_CLEAR [i] r)\<lparr>sync := stop_sync (sync r) i\<rparr>)
            \<and> p' = p\<lparr>state := RSTOP, xfer := (r_xfers (sync r) i + 1) mod IPCBUF_XFERS\<rparr>
            \<and> sem_data r i IPCBUF_EODACK < SEMVMX
       else r' = (map_sems Suc IPCBUF_CLEAR [i] r)\<lparr>sync := clear_sync (sync r) i\<rparr> \<and> p' = p)"
  using assms
  by (auto simp: ipcbuf_mark_cleared_def data_semop_up sem_data_map_sems stop_sync_def clear_sync_def
      Let_def split: if_splits)

lemma stop_clear_sync_frame [simp, frame_simps]:
  "nbufs (stop_sync s i) = nbufs s" "bufsz (stop_sync s i) = bufsz s"
  "w_buf_next (stop_sync s i) = w_buf_next s" "w_buf_curr (stop_sync s i) = w_buf_curr s"
  "w_xfer (stop_sync s i) = w_xfer s" "n_readers (stop_sync s i) = n_readers s"
  "w_state (stop_sync s i) = w_state s" "r_states (stop_sync s i) = (r_states s)(i := DISCON)"
  "r_bufs (stop_sync s i) = r_bufs s" "r_xfers (stop_sync s i) = (r_xfers s)(i := r_xfers s i + 1)"
  "s_buf (stop_sync s i) = s_buf s" "s_byte (stop_sync s i) = s_byte s" "e_buf (stop_sync s i) = e_buf s"
  "e_byte (stop_sync s i) = e_byte s" "eod (stop_sync s i) = eod s"
  "nbufs (clear_sync s i) = nbufs s" "bufsz (clear_sync s i) = bufsz s"
  "w_buf_next (clear_sync s i) = w_buf_next s" "w_buf_curr (clear_sync s i) = w_buf_curr s"
  "w_xfer (clear_sync s i) = w_xfer s" "n_readers (clear_sync s i) = n_readers s"
  "w_state (clear_sync s i) = w_state s" "r_states (clear_sync s i) = r_states s"
  "r_bufs (clear_sync s i) = (r_bufs s)(i := r_bufs s i + 1)" "r_xfers (clear_sync s i) = r_xfers s"
  "s_buf (clear_sync s i) = s_buf s" "s_byte (clear_sync s i) = s_byte s" "e_buf (clear_sync s i) = e_buf s"
  "e_byte (clear_sync s i) = e_byte s" "eod (clear_sync s i) = eod s"
  by (simp_all add: stop_sync_def clear_sync_def)

end
