(* ===== verification/Ring_Ledger.thy ===== *)
theory Ring_Ledger
  imports Ipcbuf_Facts
begin

text \<open>
  One writer and the readers of a ring running side by side. The steps are the
  operations of \<^verbatim>\<open>src/ipcbuf.c\<close> that complete, in any order; an operation that
  would sleep is no step. The theory shows that the semaphores of every reader
  account for every sub-block and every transfer, in both writing modes (start of
  data raised by the first write, or raised later over sub-blocks that were only
  clocked), over any number of transfers.
\<close>

section \<open>The processes of a ring\<close>

text \<open>
  \<open>held w i\<close> records that reader \<open>i\<close> has a sub-block between
  \<open>ipcbuf_get_next_read\<close> and \<open>ipcbuf_mark_cleared\<close>.
\<close>

record world =
  the_ring :: ring
  writer :: ipcbuf
  reader :: "nat \<Rightarrow> ipcbuf"
  held :: "nat \<Rightarrow> bool"

text \<open>
  The rules follow the discipline of the callers in \<^verbatim>\<open>src/ipcio.c\<close>: a sub-block
  is marked filled outside the state between \<open>ipcbuf_enable_eod\<close> and the
  marking, end of data is raised and marked together, a start of data lies in
  what has been written, and a reader clears the sub-block it holds before it asks
  for the next. The bounds keep the one-byte pending counts and the semaphores in
  range.
\<close>

inductive ring_step :: "world \<Rightarrow> world \<Rightarrow> bool" where
  open_write: "ipcbuf_get_next_write (the_ring w) (writer w) = Some (Some b, r', p') \<Longrightarrow>
     ring_step w (w\<lparr>the_ring := r', writer := p'\<rparr>)"
| mark: "ipcbuf_mark_filled (the_ring w) (writer w) n = Some (0, r', p') \<Longrightarrow>
     state (writer w) \<noteq> WCHANGE \<Longrightarrow>
     unat (count (the_ring w) (curr_slot (the_ring w))) < 255 \<Longrightarrow>
     ring_step w (w\<lparr>the_ring := r', writer := p'\<rparr>)"
| finish: "ipcbuf_enable_eod (writer w) = (0, p1) \<Longrightarrow>
     ipcbuf_mark_filled (the_ring w) p1 n = Some (0, r', p') \<Longrightarrow>
     unat (count (the_ring w) (curr_slot (the_ring w))) < 255 \<Longrightarrow>
     ring_step w (w\<lparr>the_ring := r', writer := p'\<rparr>)"
| start: "ipcbuf_enable_sod (the_ring w) (writer w) a b = Some (0, r', p') \<Longrightarrow>
     a \<le> w_buf_curr (sync (the_ring w)) \<Longrightarrow>
     unat (w_buf_curr (sync (the_ring w)) - a) \<le> SEMVMX \<Longrightarrow>
     (\<forall>s. unat (count (the_ring w) s) + unat (w_buf_curr (sync (the_ring w)) - a) < 256) \<Longrightarrow>
     ring_step w (w\<lparr>the_ring := r', writer := p'\<rparr>)"
| clock: "ipcbuf_disable_sod (writer w) = (0, p') \<Longrightarrow> ring_step w (w\<lparr>writer := p'\<rparr>)"
| unlock: "ipcbuf_unlock_write (the_ring w) (writer w) = Some (0, r', p') \<Longrightarrow>
     ring_step w (w\<lparr>the_ring := r', writer := p'\<rparr>)"
| lock: "ipcbuf_lock_write (the_ring w) (writer w) = Some (0, r', p') \<Longrightarrow>
     ring_step w (w\<lparr>the_ring := r', writer := p'\<rparr>)"
| open_read: "i \<in> set (readers (the_ring w)) \<Longrightarrow> \<not> held w i \<Longrightarrow> ipcbuf_is_reader (reader w i) \<Longrightarrow>
     ipcbuf_get_next_read (the_ring w) (reader w i) = Some (Some d, r', p') \<Longrightarrow>
     ring_step w (w\<lparr>the_ring := r', reader := (reader w)(i := p'), held := (held w)(i := True)\<rparr>)"
| clear_read: "i \<in> set (readers (the_ring w)) \<Longrightarrow> held w i \<Longrightarrow>
     ipcbuf_mark_cleared (the_ring w) (reader w i) = Some (0, r', p') \<Longrightarrow>
     ring_step w (w\<lparr>the_ring := r', reader := (reader w)(i := p'), held := (held w)(i := False)\<rparr>)"
| again: "i \<in> set (readers (the_ring w)) \<Longrightarrow> state (reader w i) = RSTOP \<Longrightarrow>
     ipcbuf_reset (the_ring w) (reader w i) = Some (0, r', p') \<Longrightarrow>
     ring_step w (w\<lparr>the_ring := r', reader := (reader w)(i := p')\<rparr>)"

section \<open>The ledgers\<close>

text \<open>The sub-blocks whose data have been announced and not been taken back.\<close>

definition pending :: "ring \<Rightarrow> nat" where
  "pending r = (\<Sum>b<unat (nbufs (sync r)). unat (count r b))"

text \<open>
  For each reader, the announced sub-blocks are those it has yet to read, the one
  it holds and those it has cleared and the writer has not taken back.
\<close>

definition accounts :: "(nat \<Rightarrow> bool) \<Rightarrow> ring \<Rightarrow> bool" where
  "accounts h r \<longleftrightarrow>
     0 < nbufs (sync r)
     \<and> (\<forall>i\<in>set (readers r).
          sem_data r i IPCBUF_FULL + of_bool (h i) + sem_data r i IPCBUF_CLEAR = pending r)"

definition ledger_inv :: "world \<Rightarrow> bool" where
  "ledger_inv w \<longleftrightarrow>
     accounts (held w) (the_ring w)
     \<and> (\<forall>i\<in>set (readers (the_ring w)). iread (reader w i) = int i)"

section \<open>Sums of pending counts\<close>

lemma slot_less: "0 < nb \<Longrightarrow> unat (x mod nb) < unat (nb :: u64)"
  by (simp add: unat_mod word_less_nat_alt)

lemma pending_cong:
  "count r' = count r \<Longrightarrow> nbufs (sync r') = nbufs (sync r) \<Longrightarrow> pending r' = pending r"
  by (simp add: pending_def)

lemma sum_fun_upd:
  assumes "b < (n :: nat)"
  shows "(\<Sum>k<n. (f(b := x)) k) + f b = (\<Sum>k<n. f k) + (x :: nat)"
proof -
  have "(\<Sum>k<n. g k) = g b + (\<Sum>k\<in>{..<n} - {b}. g k)" for g :: "nat \<Rightarrow> nat"
    using assms by (subst sum.remove [of _ b]) auto
  moreover have "(\<Sum>k\<in>{..<n} - {b}. (f(b := x)) k) = (\<Sum>k\<in>{..<n} - {b}. f k)"
    by (rule sum.cong) auto
  ultimately show ?thesis by simp
qed

lemma sum_count_upd:
  assumes "b < (n :: nat)"
  shows "(\<Sum>k<n. unat ((c(b := x :: u8)) k)) + unat (c b) = (\<Sum>k<n. unat (c k)) + unat x"
  using sum_fun_upd [OF assms, of "\<lambda>k. unat (c k)" "unat x"]
  by (simp add: fun_upd_def if_distrib [of unat] cong: if_cong)

lemma unat_u8_succ: "unat (x :: u8) < 255 \<Longrightarrow> unat (x + 1) = unat x + 1"
  by (simp add: unat_succ_bound)

lemma pending_upd:
  assumes "count r' = (count r)(b := x)" and "nbufs (sync r') = nbufs (sync r)" and "b < unat (nbufs (sync r))"
  shows "pending r' + unat (count r b) = pending r + unat x"
  using assms sum_count_upd [of b "unat (nbufs (sync r))" "count r" x] by (simp add: pending_def)

lemma sum_count_written:
  assumes "a \<le> c" and "0 < nb" and "\<forall>s. unat (cnt s) + unat (c - a) < 256"
  shows "(\<Sum>k<unat nb. unat (count_written a c nb cnt k)) = (\<Sum>k<unat nb. unat (cnt k)) + unat (c - a)"
  using assms
proof (induction a c nb cnt rule: count_written.induct)
  case (1 a c nb cnt)
  show ?case
  proof (cases "a < c")
    case True
    let ?s = "unat (a mod nb)"
    let ?cnt = "cnt(?s := cnt ?s + 1)"
    have step: "unat (a + 1) = Suc (unat a)" using True by (rule unat_succ_less)
    have le: "a + 1 \<le> c" using True step by (simp add: word_cmp)
    have diff: "unat (c - a) = Suc (unat (c - (a + 1)))"
      using True le step by (simp add: unat_diff word_cmp)
    have "unat (cnt ?s) + unat (c - a) < 256" using "1.prems"(3) by blast
    then have "unat (cnt ?s) < 255" using diff by linarith
    then have bump: "unat (cnt ?s + 1) = unat (cnt ?s) + 1" by (rule unat_u8_succ)
    have "unat (?cnt s) + unat (c - (a + 1)) < 256" for s
      using "1.prems"(3) [rule_format, of s] diff bump by (cases "s = ?s") simp_all
    then have "(\<Sum>k<unat nb. unat (count_written (a + 1) c nb ?cnt k))
        = (\<Sum>k<unat nb. unat (?cnt k)) + unat (c - (a + 1))"
      using "1.IH" True le "1.prems"(2) by blast
    moreover have "(\<Sum>k<unat nb. unat (?cnt k)) = (\<Sum>k<unat nb. unat (cnt k)) + 1"
      using sum_count_upd [where c = cnt and x = "cnt ?s + 1", OF slot_less [OF "1.prems"(2), of a]] bump
      by simp
    ultimately show ?thesis using True diff by (simp add: count_written.simps [of a])
  next
    case False
    then show ?thesis using "1.prems"(1) by simp
  qed
qed

section \<open>Every step keeps the ledger\<close>

lemma accountsD:
  "accounts h r \<Longrightarrow> i \<in> set (readers r) \<Longrightarrow>
   sem_data r i IPCBUF_FULL + of_bool (h i) + sem_data r i IPCBUF_CLEAR = pending r"
  by (simp add: accounts_def)

text \<open>Operations that leave the two block semaphores and the counts alone.\<close>

lemma accounts_frame:
  assumes "accounts h r" and "count r' = count r" and "nbufs (sync r') = nbufs (sync r)"
    and "n_readers (sync r') = n_readers (sync r)"
    and "\<forall>i n. n = IPCBUF_FULL \<or> n = IPCBUF_CLEAR \<longrightarrow> sem_data r' i n = sem_data r i n"
  shows "accounts h r'"
  using assms pending_cong [of r' r] by (simp add: accounts_def)

lemma accounts_opened:
  assumes "accounts h r" and b: "b = next_slot r"
    and "\<forall>i\<in>set (readers r). unat (count r b) \<le> sem_data r i IPCBUF_CLEAR"
  shows "accounts h (opened r b)"
proof -
  have "pending (opened r b) + unat (count r b) = pending r"
    using assms(1) b pending_upd [of "opened r b" r b 0] slot_less [of "nbufs (sync r)"]
    by (simp add: accounts_def)
  with assms show ?thesis by (fastforce simp: accounts_def sem_data_opened)
qed

lemma accounts_filled:
  assumes "accounts h r" and "unat (count r (curr_slot r)) < 255"
  shows "accounts h (map_sems Suc IPCBUF_FULL (readers r) (count_filled r))"
proof -
  let ?r = "map_sems Suc IPCBUF_FULL (readers r) (count_filled r)"
  have "pending ?r + unat (count r (curr_slot r)) = pending r + unat (count r (curr_slot r) + 1)"
    using assms(1) slot_less by (intro pending_upd) (simp_all add: accounts_def)
  then have "pending ?r = pending r + 1" using unat_u8_succ [OF assms(2)] by simp
  with assms(1) show ?thesis by (auto simp: accounts_def sem_data_map_sems)
qed

lemma accounts_sod:
  assumes "accounts h r" and "ipcbuf_enable_sod r p a b = Some (0, r', p')"
    and "a \<le> w_buf_curr (sync r)" and "unat (w_buf_curr (sync r) - a) \<le> SEMVMX"
    and "\<forall>s. unat (count r s) + unat (w_buf_curr (sync r) - a) < 256"
  shows "accounts h r'"
proof -
  have r': "r' = map_sems (\<lambda>v. v + unat (w_buf_curr (sync r) - a)) IPCBUF_FULL (readers r) (sod_ring r a b)"
    using enable_sod_Some [OF assms(2,4)] by blast
  have "pending r' = pending r + unat (w_buf_curr (sync r) - a)"
    using assms sum_count_written [of a "w_buf_curr (sync r)" "nbufs (sync r)" "count r"]
    by (simp add: pending_def r' accounts_def)
  with assms(1) show ?thesis by (auto simp: accounts_def r' sem_data_map_sems)
qed

lemma accounts_get_next_write:
  assumes "accounts h r" and "ipcbuf_get_next_write r p = Some (Some b, r', p')"
  shows "accounts h r'"
  using assms(2)
proof (cases rule: get_next_write_Some)
  case cont
  with assms(1) show ?thesis using accounts_opened by simp
next
  case (first r1)
  have "accounts h r1"
    using enable_sod_Some [OF first(2)] assms(1) SEMVMX_def
    by (intro accounts_frame [OF assms(1)]) (auto simp: sem_data_map_sems)
  with first show ?thesis using accounts_opened by simp
qed

lemma accounts_end:
  assumes "accounts h r" and run: "ipcbuf_mark_filled r p n = Some (0, r', p')"
    and st: "state p = WCHANGE \<or> state p = WRITING \<and> n < bufsz (sync r)"
    and room: "unat (count r (curr_slot r)) < 255"
  shows "accounts h r'"
proof -
  let ?e = "eod_ring r p n"
  let ?o = "if n = 0 then opened ?e (next_slot r) else ?e"
  have r': "r' = map_sems Suc IPCBUF_FULL (readers r) (count_filled ?o)"
    and enough: "n = 0 \<longrightarrow> (\<forall>i\<in>set (readers r). unat (count r (next_slot r)) \<le> sem_data r i IPCBUF_CLEAR)"
    using mark_filled_end [OF run st] by auto
  have e: "accounts h ?e"
    by (rule accounts_frame [OF assms(1)]) (auto simp: sem_data_map_sems)
  have "accounts h ?o"
    using e enough accounts_opened [OF e, of "next_slot r"] by (cases "n = 0") (simp_all add: sem_data_map_sems)
  moreover have "unat (count ?o (curr_slot ?o)) < 255" using room by simp
  moreover have "readers ?o = readers r" by simp
  ultimately show ?thesis using accounts_filled [of h ?o] r' by presburger
qed

lemma accounts_mark_filled:
  assumes "accounts h r" and run: "ipcbuf_mark_filled r p n = Some (0, r', p')"
    and "unat (count r (curr_slot r)) < 255"
  shows "accounts h r'"
proof -
  have "ipcbuf_is_writer p" using run by (auto simp: ipcbuf_mark_filled_def split: if_splits)
  then consider "state p = WRITER" | "state p = WRITING" "bufsz (sync r) \<le> n"
    | "state p = WCHANGE \<or> state p = WRITING \<and> n < bufsz (sync r)"
    by (cases "bufsz (sync r) \<le> n") (auto simp: ipcbuf_is_writer_def not_le)
  then show ?thesis
  proof cases
    case 1
    then show ?thesis using run
      by (intro accounts_frame [OF assms(1)]) (auto simp: mark_filled_clocking)
  next
    case 2
    then show ?thesis using mark_filled_middle [OF run] accounts_filled [OF assms(1,3)] by simp
  next
    case 3
    then show ?thesis using accounts_end [OF assms(1) run] assms(3) by blast
  qed
qed

lemma get_next_write_readers:
  assumes "ipcbuf_get_next_write r p = Some (Some b, r', p')"
  shows "n_readers (sync r') = n_readers (sync r)"
  using assms
proof (cases rule: get_next_write_Some)
  case (first r1)
  then show ?thesis using enable_sod_Some [OF first(2)] by (auto simp: SEMVMX_def)
qed simp

lemma mark_filled_readers:
  assumes run: "ipcbuf_mark_filled r p n = Some (0, r', p')"
  shows "n_readers (sync r') = n_readers (sync r)"
proof -
  have "ipcbuf_is_writer p" using run by (auto simp: ipcbuf_mark_filled_def split: if_splits)
  then consider "state p = WRITER" | "state p = WRITING" "bufsz (sync r) \<le> n"
    | "state p = WCHANGE \<or> state p = WRITING \<and> n < bufsz (sync r)"
    by (cases "bufsz (sync r) \<le> n") (auto simp: ipcbuf_is_writer_def not_le)
  then show ?thesis
  proof cases
    case 1
    then show ?thesis using run by (auto simp: mark_filled_clocking)
  next
    case 2
    then show ?thesis using mark_filled_middle [OF run] by simp
  next
    case 3
    then show ?thesis using mark_filled_end [OF run 3] by simp
  qed
qed

lemma connect_semop_frame:
  "connect_semop n op r = Some (e, r') \<Longrightarrow> sync r' = sync r \<and> count r' = count r \<and> sem_data r' = sem_data r \<and> mem r' = mem r"
  by (auto simp: connect_semop_def split: option.splits)

lemma lock_unlock_frame:
  assumes "ipcbuf_unlock_write r p = Some (rc, r', p') \<or> ipcbuf_lock_write r p = Some (rc, r', p')"
  shows "sync r' = sync r \<and> count r' = count r \<and> sem_data r' = sem_data r \<and> mem r' = mem r"
  using assms
  by (auto simp: ipcbuf_unlock_write_def ipcbuf_lock_write_def dest!: connect_semop_frame
      split: if_splits bind_splits)

lemma accounts_read:
  assumes "accounts h r" and "i \<in> set (readers r)" and "\<not> h i" and "ipcbuf_is_reader p" and "iread p = int i"
    and run: "ipcbuf_get_next_read r p = Some (Some d, r', p')"
  shows "accounts (h(i := True)) r' \<and> iread p' = int i \<and> n_readers (sync r') = n_readers (sync r)"
proof -
  have "pending r' = pending r" and "nbufs (sync r') = nbufs (sync r)"
    and "n_readers (sync r') = n_readers (sync r)" and "iread p' = int i"
    and "0 < sem_data r i IPCBUF_FULL"
    and "\<forall>j n. n = IPCBUF_FULL \<or> n = IPCBUF_CLEAR \<longrightarrow>
        sem_data r' j n = (if j = i \<and> n = IPCBUF_FULL then sem_data r j n - 1 else sem_data r j n)"
    using run assms(4,5)
    by (cases rule: get_next_read_Some; auto intro!: pending_cong simp: sem_data_map_sems)+
  moreover have "sem_data r i IPCBUF_FULL + sem_data r i IPCBUF_CLEAR = pending r"
    using accountsD [OF assms(1,2)] assms(3) by simp
  ultimately show ?thesis using assms(1) by (auto simp: accounts_def)
qed

lemma accounts_clear:
  assumes "accounts h r" and "i \<in> set (readers r)" and "h i" and i: "iread p = int i"
    and run: "ipcbuf_mark_cleared r p = Some (0, r', p')"
  shows "accounts (h(i := False)) r' \<and> iread p' = int i \<and> n_readers (sync r') = n_readers (sync r)"
proof -
  have "pending r' = pending r" and "nbufs (sync r') = nbufs (sync r)"
    and "n_readers (sync r') = n_readers (sync r)" and "iread p' = int i"
    and "\<forall>j n. n = IPCBUF_FULL \<or> n = IPCBUF_CLEAR \<longrightarrow>
        sem_data r' j n = (if j = i \<and> n = IPCBUF_CLEAR then Suc (sem_data r j n) else sem_data r j n)"
    using mark_cleared_Some [OF run i] i
    by (auto intro!: pending_cong simp: sem_data_map_sems split: if_splits)
  moreover have "sem_data r i IPCBUF_FULL + 1 + sem_data r i IPCBUF_CLEAR = pending r"
    using accountsD [OF assms(1,2)] assms(3) by simp
  ultimately show ?thesis using assms(1) by (auto simp: accounts_def)
qed

lemma ring_step_ledger: "ring_step w w' \<Longrightarrow> ledger_inv w \<Longrightarrow> ledger_inv w'"
proof (induction rule: ring_step.induct)
  case (open_write w b r' p')
  then have "accounts (held w) r'" "n_readers (sync r') = n_readers (sync (the_ring w))"
    using accounts_get_next_write get_next_write_readers by (auto simp: ledger_inv_def)
  with open_write show ?case by (simp add: ledger_inv_def)
next
  case (mark w n r' p')
  then have "accounts (held w) r'" "n_readers (sync r') = n_readers (sync (the_ring w))"
    using accounts_mark_filled mark_filled_readers by (auto simp: ledger_inv_def)
  with mark show ?case by (simp add: ledger_inv_def)
next
  case (finish w p1 n r' p')
  then have "accounts (held w) r'" "n_readers (sync r') = n_readers (sync (the_ring w))"
    using accounts_mark_filled mark_filled_readers by (auto simp: ledger_inv_def)
  with finish show ?case by (simp add: ledger_inv_def)
next
  case (start w a b r' p')
  then have "accounts (held w) r'" "n_readers (sync r') = n_readers (sync (the_ring w))"
    using accounts_sod [OF _ start(1-4)] enable_sod_Some [OF start(1,3)] by (auto simp: ledger_inv_def)
  with start show ?case by (simp add: ledger_inv_def)
next
  case (clock w p')
  then show ?case by (simp add: ledger_inv_def)
next
  case (unlock w r' p')
  then have "accounts (held w) r'" "sync r' = sync (the_ring w)"
    using lock_unlock_frame [of "the_ring w" "writer w" 0 r' p']
    by (auto simp: ledger_inv_def intro: accounts_frame)
  with unlock show ?case by (simp add: ledger_inv_def)
next
  case (lock w r' p')
  then have "accounts (held w) r'" "sync r' = sync (the_ring w)"
    using lock_unlock_frame [of "the_ring w" "writer w" 0 r' p']
    by (auto simp: ledger_inv_def intro: accounts_frame)
  with lock show ?case by (simp add: ledger_inv_def)
next
  case (open_read i w d r' p')
  then show ?case using accounts_read [of "held w" "the_ring w" i "reader w i" d r' p']
    by (auto simp: ledger_inv_def)
next
  case (clear_read i w r' p')
  then show ?case using accounts_clear [of "held w" "the_ring w" i "reader w i" r' p']
    by (auto simp: ledger_inv_def)
next
  case (again i w r' p')
  then show ?case by (auto simp: ledger_inv_def ipcbuf_reset_def)
qed

interpretation ledger: invariant_system ring_step ledger_inv
  by unfold_locales (rule ring_step_ledger)

text \<open>
  The ledger of a ring: along every interleaving of the writer and the readers,
  the data a reader has yet to read, the sub-block it holds and the sub-blocks it
  has cleared add up to the announced sub-blocks.
\<close>

lemma run_ledger:
  assumes "ring_step\<^sup>*\<^sup>* w w'" and "ledger_inv w" and "i \<in> set (readers (the_ring w'))"
  shows "sem_data (the_ring w') i IPCBUF_FULL + of_bool (held w' i) + sem_data (the_ring w') i IPCBUF_CLEAR
    = pending (the_ring w')"
  using ledger.run_inv [OF assms(1,2)] assms(3) by (simp add: ledger_inv_def accounts_def)

end
