(* ===== verification/Ring_Stream.thy ===== *)
theory Ring_Stream
  imports Ring_Ledger
begin

text \<open>
  The ring as a reliable stream of sub-blocks. One writer in recording mode and
  all the readers of the ring run side by side, over any number of transfers; the
  steps are the operations of \<^verbatim>\<open>src/ipcbuf.c\<close> in the order in which
  \<^verbatim>\<open>src/ipcio.c\<close> calls them. Ghost fields record what the writer has marked
  filled and what each reader has been handed. The invariant shows that every
  reader sees every sub-block once, whole and in order, and that the writer never
  has a sub-block open that a reader still holds.
\<close>

section \<open>The system\<close>

text \<open>
  Ghost fields: \<open>sent\<close> are the valid bytes of the sub-blocks marked filled,
  \<open>ends\<close> the indices in \<open>sent\<close> of the last sub-block of each ended transfer,
  \<open>got\<close> the bytes each reader has been handed, \<open>recl\<close> the number of sub-blocks
  the writer has taken back from the readers.
\<close>

record stream = world +
  sent :: "byte list list"
  ends :: "nat list"
  got :: "nat \<Rightarrow> byte list list"
  recl :: nat

abbreviation (input) W_of :: "ring \<Rightarrow> nat" where "W_of r \<equiv> unat (w_buf_curr (sync r))"
abbreviation (input) N_of :: "ring \<Rightarrow> nat" where "N_of r \<equiv> unat (w_buf_next (sync r))"
abbreviation (input) nb_of :: "ring \<Rightarrow> nat" where "nb_of r \<equiv> unat (nbufs (sync r))"
abbreviation (input) bz_of :: "ring \<Rightarrow> nat" where "bz_of r \<equiv> unat (bufsz (sync r))"

text \<open>The bytes behind a pointer and a byte count returned to a reader.\<close>

definition bytes_at :: "ring \<Rightarrow> ptr \<times> u64 \<Rightarrow> byte list" where
  "bytes_at r d = (case d of ((b, off), n) \<Rightarrow> take (unat n) (drop (unat off) (mem r b)))"

text \<open>
  The rules. \<open>put\<close>: the writer stores into a sub-block it has opened.
  \<open>open_next\<close>: fewer than \<open>nbufs\<close> sub-blocks are open (\<open>ipcio_open_block_write\<close>
  keeps to \<open>nbufs - 1\<close>). \<open>fill\<close>, \<open>short_fill\<close> and \<open>finish\<close>: a whole sub-block, a
  sub-block that is not full and so ends the transfer, and the end of a transfer by
  \<open>ipcbuf_enable_eod\<close>; data that end on a sub-block boundary end with an empty
  sub-block that is not open yet. \<open>relock\<close>: the writer closes the block
  (\<open>ipcio_stop_close\<close> drops sub-blocks that are open but unused) and opens it
  again. The 64-bit count of sub-blocks is below its limit.
\<close>

inductive stream_step :: "stream \<Rightarrow> stream \<Rightarrow> bool" where
  put: "W_of (the_ring s) \<le> j \<Longrightarrow> j < N_of (the_ring s) \<Longrightarrow> length data = bz_of (the_ring s) \<Longrightarrow>
     stream_step s (s\<lparr>the_ring := (the_ring s)\<lparr>mem := (mem (the_ring s))(j mod nb_of (the_ring s) := data)\<rparr>\<rparr>)"
| open_next: "ipcbuf_get_next_write (the_ring s) (writer s) = Some (Some b, r', p') \<Longrightarrow>
     N_of (the_ring s) < W_of (the_ring s) + nb_of (the_ring s) \<Longrightarrow> N_of (the_ring s) + 1 < 2 ^ 64 \<Longrightarrow>
     stream_step s (s\<lparr>the_ring := r', writer := p', recl := recl s + unat (count (the_ring s) b)\<rparr>)"
| fill: "ipcbuf_mark_filled (the_ring s) (writer s) (bufsz (sync (the_ring s))) = Some (0, r', p') \<Longrightarrow>
     state (writer s) = WRITING \<Longrightarrow> W_of (the_ring s) < N_of (the_ring s) \<Longrightarrow>
     stream_step s (s\<lparr>the_ring := r', writer := p', sent := sent s @ [mem (the_ring s) (curr_slot (the_ring s))]\<rparr>)"
| short_fill: "ipcbuf_mark_filled (the_ring s) (writer s) n = Some (0, r', p') \<Longrightarrow>
     state (writer s) = WRITING \<Longrightarrow> 0 < n \<Longrightarrow> n < bufsz (sync (the_ring s)) \<Longrightarrow>
     W_of (the_ring s) < N_of (the_ring s) \<Longrightarrow>
     stream_step s (s\<lparr>the_ring := r', writer := p',
       sent := sent s @ [take (unat n) (mem (the_ring s) (curr_slot (the_ring s)))],
       ends := ends s @ [W_of (the_ring s)]\<rparr>)"
| finish: "ipcbuf_enable_eod (writer s) = (0, p1) \<Longrightarrow>
     ipcbuf_mark_filled (the_ring s) p1 n = Some (0, r', p') \<Longrightarrow> 0 < n \<Longrightarrow> n \<le> bufsz (sync (the_ring s)) \<Longrightarrow>
     W_of (the_ring s) < N_of (the_ring s) \<Longrightarrow>
     stream_step s (s\<lparr>the_ring := r', writer := p',
       sent := sent s @ [take (unat n) (mem (the_ring s) (curr_slot (the_ring s)))],
       ends := ends s @ [W_of (the_ring s)]\<rparr>)"
| finish_empty: "ipcbuf_enable_eod (writer s) = (0, p1) \<Longrightarrow>
     ipcbuf_mark_filled (the_ring s) p1 0 = Some (0, r', p') \<Longrightarrow>
     W_of (the_ring s) = N_of (the_ring s) \<Longrightarrow> N_of (the_ring s) + 1 < 2 ^ 64 \<Longrightarrow>
     stream_step s (s\<lparr>the_ring := r', writer := p', sent := sent s @ [[]], ends := ends s @ [W_of (the_ring s)],
       recl := recl s + unat (count (the_ring s) (next_slot (the_ring s)))\<rparr>)"
| relock: "state (writer s) = WRITER \<Longrightarrow>
     ipcbuf_unlock_write ((the_ring s)\<lparr>sync := (sync (the_ring s))\<lparr>w_buf_next := w_buf_curr (sync (the_ring s))\<rparr>\<rparr>)
       (writer s) = Some (0, r1, p1) \<Longrightarrow>
     ipcbuf_lock_write r1 p1 = Some (0, r', p') \<Longrightarrow>
     stream_step s (s\<lparr>the_ring := r', writer := p'\<rparr>)"
| fetch: "i \<in> set (readers (the_ring s)) \<Longrightarrow> \<not> held s i \<Longrightarrow>
     ipcbuf_get_next_read (the_ring s) (reader s i) = Some (Some d, r', p') \<Longrightarrow>
     stream_step s (s\<lparr>the_ring := r', reader := (reader s)(i := p'), held := (held s)(i := True),
       got := (got s)(i := got s i @ [bytes_at r' d])\<rparr>)"
| clear: "i \<in> set (readers (the_ring s)) \<Longrightarrow> held s i \<Longrightarrow>
     ipcbuf_mark_cleared (the_ring s) (reader s i) = Some (0, r', p') \<Longrightarrow>
     stream_step s (s\<lparr>the_ring := r', reader := (reader s)(i := p'), held := (held s)(i := False)\<rparr>)"
| again: "i \<in> set (readers (the_ring s)) \<Longrightarrow> state (reader s i) = RSTOP \<Longrightarrow>
     ipcbuf_reset (the_ring s) (reader s i) = Some (0, r', p') \<Longrightarrow>
     stream_step s (s\<lparr>the_ring := r', reader := (reader s)(i := p')\<rparr>)"

section \<open>The invariant\<close>

text \<open>Transfer \<open>t\<close> starts behind the end of the transfer before it.\<close>

definition start_of :: "nat list \<Rightarrow> nat \<Rightarrow> nat" where
  "start_of es t = (if t = 0 then 0 else es ! (t - 1) + 1)"

definition ends_ok :: "nat list \<Rightarrow> nat \<Rightarrow> bool" where
  "ends_ok es w \<longleftrightarrow> (\<forall>t<length es. start_of es t \<le> es ! t \<and> es ! t < w)"

text \<open>The counters, the contents and the pending counts of the ring.\<close>

definition blocks_inv :: "ring \<Rightarrow> byte list list \<Rightarrow> nat list \<Rightarrow> nat \<Rightarrow> bool" where
  "blocks_inv r ss es c \<longleftrightarrow>
     0 < nb_of r \<and> length ss = W_of r \<and> W_of r \<le> N_of r \<and> N_of r \<le> c + nb_of r \<and> c \<le> W_of r
   \<and> (\<forall>b<nb_of r. length (mem r b) = bz_of r)
   \<and> (\<forall>j<W_of r. length (ss ! j) \<le> bz_of r \<and> (j \<notin> set es \<longrightarrow> length (ss ! j) = bz_of r))
   \<and> (\<forall>j. c \<le> j \<and> j < W_of r \<longrightarrow> ss ! j = take (length (ss ! j)) (mem r (j mod nb_of r)))
   \<and> (\<forall>b<nb_of r. unat (count r b) = of_bool (\<exists>j. c \<le> j \<and> j < W_of r \<and> j mod nb_of r = b))"

text \<open>The writer's side of the table of transfers.\<close>

definition xfers_inv :: "ring \<Rightarrow> nat list \<Rightarrow> bool" where
  "xfers_inv r es \<longleftrightarrow>
     ends_ok es (W_of r) \<and> unat (w_xfer (sync r)) = length es \<and> length es \<le> W_of r
   \<and> start_of es (length es) \<le> W_of r
   \<and> (w_state (sync r) \<noteq> WRITING \<longrightarrow> start_of es (length es) = W_of r)
   \<and> (\<forall>x<8. unat (e_buf (sync r) x) \<le> W_of r - 1)
   \<and> (w_state (sync r) = WRITING \<longrightarrow> eod (sync r) (length es mod 8) \<longrightarrow>
        unat (e_buf (sync r) (length es mod 8)) < start_of es (length es))"

definition handle_inv :: "ring \<Rightarrow> ipcbuf \<Rightarrow> bool" where
  "handle_inv r p \<longleftrightarrow>
     (state p = WRITING \<and> w_state (sync r) = WRITING
      \<or> (state p = WRITER \<or> state p = WCHANGE) \<and> w_state (sync r) = DISCON)
   \<and> xfer p = w_xfer (sync r) mod 8"

text \<open>
  Reader \<open>i\<close>: the acknowledgements it owes are missing from its semaphores, its
  block semaphores count what it has been handed and its position agrees with its
  transfer, and the slots of the table hold the ends it has still to look at, and the starts of
  its own and the later transfers until the writer takes them for a transfer eight further on.
\<close>

definition begun :: "ring \<Rightarrow> nat list \<Rightarrow> nat" where
  "begun r es = length es + of_bool (w_state (sync r) = WRITING)"

abbreviation (input) k_of :: "ring \<Rightarrow> nat \<Rightarrow> nat" where "k_of r i \<equiv> unat (r_xfers (sync r) i)"
abbreviation (input) P_of :: "ring \<Rightarrow> nat \<Rightarrow> nat" where "P_of r i \<equiv> unat (r_bufs (sync r) i)"
abbreviation (input) going :: "ipcbuf \<Rightarrow> bool" where "going p \<equiv> state p = READING"

definition acks_ok :: "ring \<Rightarrow> nat list \<Rightarrow> nat \<Rightarrow> ipcbuf \<Rightarrow> bool" where
  "acks_ok r es i p \<longleftrightarrow>
     iread p = int i \<and> ipcbuf_is_reader p
   \<and> k_of r i \<le> length es \<and> k_of r i + of_bool (going p) \<le> begun r es
   \<and> sem_data r i IPCBUF_EODACK + (length es - k_of r i) = 8
   \<and> sem_data r i IPCBUF_SODACK + (begun r es - (k_of r i + of_bool (going p))) = 8"

definition data_ok :: "ring \<Rightarrow> byte list list \<Rightarrow> nat list \<Rightarrow> nat \<Rightarrow> nat \<Rightarrow> ipcbuf \<Rightarrow> bool \<Rightarrow> byte list list \<Rightarrow> bool" where
  "data_ok r ss es c i p h g \<longleftrightarrow>
     sem_data r i IPCBUF_FULL + length g = length ss
   \<and> sem_data r i IPCBUF_CLEAR + c + of_bool h = length g
   \<and> g = take (length g) ss
   \<and> (if going p
      then P_of r i + of_bool h = length g \<and> start_of es (k_of r i) \<le> P_of r i
         \<and> (k_of r i < length es \<longrightarrow> P_of r i \<le> es ! k_of r i)
         \<and> xfer p = r_xfers (sync r) i mod 8
      else \<not> h \<and> length g = start_of es (k_of r i))"

definition table_ok :: "ring \<Rightarrow> byte list list \<Rightarrow> nat list \<Rightarrow> nat \<Rightarrow> ipcbuf \<Rightarrow> bool" where
  "table_ok r ss es i p \<longleftrightarrow>
     (\<forall>t. k_of r i \<le> t \<and> t < length es \<longrightarrow>
        eod (sync r) (t mod 8) \<and> unat (e_buf (sync r) (t mod 8)) = es ! t
        \<and> unat (e_byte (sync r) (t mod 8)) = length (ss ! (es ! t)))
   \<and> (\<forall>t. k_of r i \<le> t \<and> t < begun r es \<and> begun r es \<le> t + 8 \<longrightarrow>
        unat (s_buf (sync r) (t mod 8)) = start_of es t \<and> s_byte (sync r) (t mod 8) = 0)"

definition reader_inv :: "ring \<Rightarrow> byte list list \<Rightarrow> nat list \<Rightarrow> nat \<Rightarrow> nat \<Rightarrow> ipcbuf \<Rightarrow> bool \<Rightarrow> byte list list \<Rightarrow> bool" where
  "reader_inv r ss es c i p h g \<longleftrightarrow> acks_ok r es i p \<and> data_ok r ss es c i p h g \<and> table_ok r ss es i p"

definition stream_inv :: "stream \<Rightarrow> bool" where
  "stream_inv s \<longleftrightarrow>
     blocks_inv (the_ring s) (sent s) (ends s) (recl s) \<and> xfers_inv (the_ring s) (ends s)
   \<and> handle_inv (the_ring s) (writer s)
   \<and> (\<forall>i\<in>set (readers (the_ring s)).
        reader_inv (the_ring s) (sent s) (ends s) (recl s) i (reader s i) (held s i) (got s i))"

section \<open>Arithmetic of slots\<close>

lemma mod_close: "j mod n = k mod n \<Longrightarrow> j \<le> k \<Longrightarrow> k < j + n \<Longrightarrow> j = (k :: nat)"
  by (metis add_diff_cancel_left' le_add_diff_inverse mod_eq_dvd_iff_nat nat_dvd_not_less
      nat_neq_iff not_add_less1 zero_less_diff nat_add_left_cancel_less)

lemma slot_unat: "unat (x mod n :: u64) = unat x mod unat n"
  by (rule unat_mod)

lemma unat_mod8: "unat (x mod 8 :: u64) = unat x mod 8"
  by (simp add: unat_mod)

lemma ends_ok_mono:
  assumes "ends_ok es w" and "s < t" and "t < length es"
  shows "es ! s < es ! t"
  using assms(2,3)
proof (induction t)
  case (Suc t)
  have "start_of es (Suc t) \<le> es ! Suc t" using assms(1) Suc.prems by (auto simp: ends_ok_def)
  then have "es ! t < es ! Suc t" by (simp add: start_of_def)
  then show ?case using Suc by (cases "s = t") auto
qed simp

text \<open>Between the start and the end of a transfer there is no other end.\<close>

lemma not_end_inside:
  assumes "ends_ok es w" and "k < length es" and "start_of es k \<le> j" and "j < es ! k"
  shows "j \<notin> set es"
proof
  assume "j \<in> set es"
  then obtain t where t: "t < length es" "es ! t = j" by (auto simp: in_set_conv_nth)
  then consider "t < k" | "t = k" | "k < t" by linarith
  then show False
  proof cases
    case 1
    then have "es ! t \<le> es ! (k - 1)"
      using ends_ok_mono [OF assms(1), of t "k - 1"] assms(2) by (cases "t = k - 1") (simp_all add: less_imp_le)
    with 1 assms(3) t show False by (simp add: start_of_def split: if_splits)
  next
    case 3
    then show False using ends_ok_mono [OF assms(1) 3 t(1)] assms(4) t(2) by simp
  qed (use assms(4) t in auto)
qed

lemma not_end_running:
  assumes "ends_ok es w" and "start_of es (length es) \<le> j"
  shows "j \<notin> set es"
proof
  assume "j \<in> set es"
  then obtain t where t: "t < length es" "es ! t = j" by (auto simp: in_set_conv_nth)
  then have "es ! t \<le> es ! (length es - 1)"
    using ends_ok_mono [OF assms(1), of t "length es - 1"] by (cases "t = length es - 1") (simp_all add: less_imp_le)
  with t assms(2) show False by (auto simp: start_of_def split: if_splits)
qed

end
