(* ===== verification/Ring_Stream_Steps.thy ===== *)
theory Ring_Stream_Steps
  imports Ring_Stream
begin

text \<open>
  Every step of the stream system keeps its invariant: one group of lemmas for
  the sub-blocks of the ring, one for the table of transfers, one for each
  reader, and their composition along the rules.
\<close>

section \<open>The sub-blocks\<close>

lemma blocks_cong:
  assumes "blocks_inv r ss es c" and "count r' = count r" and "mem r' = mem r"
    and "nbufs (sync r') = nbufs (sync r)" and "bufsz (sync r') = bufsz (sync r)"
    and "w_buf_curr (sync r') = w_buf_curr (sync r)" and "w_buf_next (sync r') = w_buf_next (sync r)"
  shows "blocks_inv r' ss es c"
  using assms by (simp add: blocks_inv_def)

text \<open>Only the oldest sub-block not taken back can lie in the slot opened next.\<close>

lemma blocks_next_count:
  assumes "blocks_inv r ss es c" and "N_of r < W_of r + nb_of r"
  shows "unat (count r (next_slot r)) = of_bool (c < W_of r \<and> N_of r = c + nb_of r)"
proof -
  let ?n = "nb_of r"
  have nb: "0 < ?n" and le: "W_of r \<le> N_of r" "N_of r \<le> c + ?n"
    using assms(1) by (auto simp: blocks_inv_def)
  have "(\<exists>j. c \<le> j \<and> j < W_of r \<and> j mod ?n = N_of r mod ?n) \<longleftrightarrow> c < W_of r \<and> N_of r = c + ?n"
  proof
    assume "\<exists>j. c \<le> j \<and> j < W_of r \<and> j mod ?n = N_of r mod ?n"
    then obtain j where j: "c \<le> j" "j < W_of r" "j mod ?n = N_of r mod ?n" by blast
    have "j + ?n = N_of r"
    proof (rule ccontr)
      assume "j + ?n \<noteq> N_of r"
      with j le have "N_of r < j + ?n" by linarith
      then have "j = N_of r" using j le by (intro mod_close [OF j(3)]) auto
      with j le show False by simp
    qed
    with j le show "c < W_of r \<and> N_of r = c + ?n" by auto
  next
    assume "c < W_of r \<and> N_of r = c + ?n"
    then show "\<exists>j. c \<le> j \<and> j < W_of r \<and> j mod ?n = N_of r mod ?n" by (intro exI [of _ c]) simp
  qed
  moreover have "unat (count r (next_slot r)) = of_bool (\<exists>j. c \<le> j \<and> j < W_of r \<and> j mod ?n = N_of r mod ?n)"
    using assms(1) nb by (simp add: blocks_inv_def slot_unat)
  ultimately show ?thesis by simp
qed

lemma blocks_opened:
  assumes inv: "blocks_inv r ss es c" and room: "N_of r < W_of r + nb_of r" and "N_of r + 1 < 2 ^ 64"
  shows "blocks_inv (opened r (next_slot r)) ss es (c + unat (count r (next_slot r)))"
proof -
  let ?n = "nb_of r"
  let ?b = "next_slot r"
  let ?c = "c + unat (count r ?b)"
  have nb: "0 < ?n" and le: "W_of r \<le> N_of r" "N_of r \<le> c + ?n" and cw: "c \<le> W_of r"
    using inv by (auto simp: blocks_inv_def)
  have N: "unat (w_buf_next (sync r) + 1) = N_of r + 1"
    using assms(3) by (simp add: unat_succ_bound)
  have b: "?b = N_of r mod ?n" by (rule slot_unat)
  have cnt: "unat (count r ?b) = of_bool (c < W_of r \<and> N_of r = c + ?n)"
    by (rule blocks_next_count [OF inv room])
  have le': "N_of r + 1 \<le> ?c + ?n" "?c \<le> W_of r"
    using cnt le cw room by (auto split: if_splits)
  have counts: "unat (((count r)(?b := 0)) k) = of_bool (\<exists>j. ?c \<le> j \<and> j < W_of r \<and> j mod ?n = k)" if "k < ?n" for k
  proof (cases "k = ?b")
    case True
    have "j mod ?n \<noteq> k" if "?c \<le> j" "j < W_of r" for j
    proof
      assume "j mod ?n = k"
      then have "j = N_of r" using that le' True b le
        by (intro mod_close [of j ?n]) (auto simp: b)
      with that le show False by simp
    qed
    with True show ?thesis by auto
  next
    case False
    have old: "unat (count r k) = of_bool (\<exists>j. c \<le> j \<and> j < W_of r \<and> j mod ?n = k)"
      using inv that by (simp add: blocks_inv_def)
    have "(\<exists>j. c \<le> j \<and> j < W_of r \<and> j mod ?n = k) \<longleftrightarrow> (\<exists>j. ?c \<le> j \<and> j < W_of r \<and> j mod ?n = k)"
    proof (cases "c < W_of r \<and> N_of r = c + ?n")
      case True
      then have "c mod ?n = ?b" by (simp add: b)
      with False have "c mod ?n \<noteq> k" by simp
      then have "(c \<le> j \<and> j < W_of r \<and> j mod ?n = k) \<longleftrightarrow> (?c \<le> j \<and> j < W_of r \<and> j mod ?n = k)" for j
        using True cnt by (cases "j = c") auto
      then show ?thesis by simp
    next
      case False
      then have "?c = c" using cnt by auto
      then show ?thesis by simp
    qed
    with old False show ?thesis by simp
  qed
  have "c \<le> ?c" by simp
  have m: "\<forall>j. ?c \<le> j \<and> j < W_of r \<longrightarrow> ss ! j = take (length (ss ! j)) (mem r (j mod ?n))"
    using inv by (simp add: blocks_inv_def)
  show ?thesis
    unfolding blocks_inv_def opened_frame
    using inv nb le le' counts m by (simp add: blocks_inv_def N)
qed

text \<open>The sub-block that is being written is pending nowhere.\<close>

lemma blocks_curr_count:
  assumes "blocks_inv r ss es c" and "W_of r < N_of r"
  shows "count r (curr_slot r) = 0"
proof -
  have nb: "0 < nb_of r" and le: "N_of r \<le> c + nb_of r" using assms(1) by (auto simp: blocks_inv_def)
  have "j mod nb_of r \<noteq> W_of r mod nb_of r" if "c \<le> j" "j < W_of r" for j
    using mod_close [of j "nb_of r" "W_of r"] that le assms(2) by auto
  then have "\<not> (\<exists>j. c \<le> j \<and> j < W_of r \<and> j mod nb_of r = W_of r mod nb_of r)" by blast
  then have "unat (count r (W_of r mod nb_of r)) = 0"
    using assms(1) nb by (simp add: blocks_inv_def)
  then show ?thesis by (simp add: slot_unat unat_eq_zero)
qed

lemma blocks_filled:
  assumes inv: "blocks_inv r ss es c" and open': "W_of r < N_of r" and n: "n \<le> bz_of r"
    and es: "es' = es \<and> n = bz_of r \<or> es' = es @ [W_of r]"
    and count: "count r' = (count r)(curr_slot r := count r (curr_slot r) + 1)" and mem: "mem r' = mem r"
    and frame: "nbufs (sync r') = nbufs (sync r)" "bufsz (sync r') = bufsz (sync r)"
      "w_buf_next (sync r') = w_buf_next (sync r)" "w_buf_curr (sync r') = w_buf_curr (sync r) + 1"
  shows "blocks_inv r' (ss @ [take n (mem r (curr_slot r))]) es' c"
proof -
  let ?n = "nb_of r"
  let ?w = "W_of r"
  let ?ss = "ss @ [take n (mem r (curr_slot r))]"
  have nb: "0 < ?n" and le: "N_of r \<le> c + ?n" and cw: "c \<le> ?w" and len: "length ss = ?w"
    and meml: "\<forall>b<?n. length (mem r b) = bz_of r"
    and sizes: "\<forall>j<?w. length (ss ! j) \<le> bz_of r \<and> (j \<notin> set es \<longrightarrow> length (ss ! j) = bz_of r)"
    and same: "\<forall>j. c \<le> j \<and> j < ?w \<longrightarrow> ss ! j = take (length (ss ! j)) (mem r (j mod ?n))"
    and cnts: "\<forall>b<?n. unat (count r b) = of_bool (\<exists>j. c \<le> j \<and> j < ?w \<and> j mod ?n = b)"
    using inv by (auto simp: blocks_inv_def)
  have W: "unat (w_buf_curr (sync r) + 1) = ?w + 1"
    using open' by (simp add: unat_succ_less word_less_nat_alt)
  have slot: "curr_slot r = ?w mod ?n" by (rule slot_unat)
  then have lslot: "length (mem r (curr_slot r)) = bz_of r" using meml nb by simp
  have "length (?ss ! j) \<le> bz_of r \<and> (j \<notin> set es' \<longrightarrow> length (?ss ! j) = bz_of r)" if "j < ?w + 1" for j
    using that sizes len n lslot es by (cases "j = ?w") (auto simp: nth_append)
  moreover have "?ss ! j = take (length (?ss ! j)) (mem r (j mod ?n))" if "c \<le> j" "j < ?w + 1" for j
    using that same len n lslot slot by (cases "j = ?w") (auto simp: nth_append min_def)
  moreover have "unat (((count r)(curr_slot r := count r (curr_slot r) + 1)) k)
      = of_bool (\<exists>j. c \<le> j \<and> j < ?w + 1 \<and> j mod ?n = k)" if "k < ?n" for k
  proof (cases "k = curr_slot r")
    case True
    then have "\<exists>j. c \<le> j \<and> j < ?w + 1 \<and> j mod ?n = k" using cw slot by (intro exI [of _ ?w]) simp
    with True blocks_curr_count [OF inv open'] show ?thesis by simp
  next
    case False
    then have "(\<exists>j. c \<le> j \<and> j < ?w + 1 \<and> j mod ?n = k) \<longleftrightarrow> (\<exists>j. c \<le> j \<and> j < ?w \<and> j mod ?n = k)"
      using slot by (auto simp: less_Suc_eq)
    with False that cnts show ?thesis by simp
  qed
  ultimately show ?thesis
    unfolding blocks_inv_def frame mem count W
    using nb le cw len meml open' by simp
qed

lemma blocks_put:
  assumes inv: "blocks_inv r ss es c" and j: "W_of r \<le> j" "j < N_of r" and "length data = bz_of r"
  shows "blocks_inv (r\<lparr>mem := (mem r)(j mod nb_of r := data)\<rparr>) ss es c"
proof -
  have le: "N_of r \<le> c + nb_of r" using inv by (simp add: blocks_inv_def)
  have "k mod nb_of r \<noteq> j mod nb_of r" if "c \<le> k" "k < W_of r" for k
    using mod_close [of k "nb_of r" j] that le j by auto
  with inv assms(4) show ?thesis by (auto simp: blocks_inv_def)
qed

section \<open>The table of transfers\<close>

text \<open>A reader's part of the invariant reads these fields only.\<close>

lemma acks_cong:
  assumes "acks_ok r es i p" and "\<forall>n. n = IPCBUF_SODACK \<or> n = IPCBUF_EODACK \<longrightarrow> sem_data r' i n = sem_data r i n"
    and "r_xfers (sync r') i = r_xfers (sync r) i" and "w_state (sync r') = w_state (sync r)"
  shows "acks_ok r' es i p"
  using assms by (simp add: acks_ok_def begun_def)

lemma data_cong:
  assumes "data_ok r ss es c i p h g" and "\<forall>n. n = IPCBUF_FULL \<or> n = IPCBUF_CLEAR \<longrightarrow> sem_data r' i n = sem_data r i n"
    and "r_xfers (sync r') i = r_xfers (sync r) i" and "r_bufs (sync r') i = r_bufs (sync r) i"
  shows "data_ok r' ss es c i p h g"
  using assms unfolding data_ok_def by auto

lemma table_cong:
  assumes "table_ok r ss es i p" and "r_xfers (sync r') i = r_xfers (sync r) i"
    and "w_state (sync r') = w_state (sync r)" and "s_buf (sync r') = s_buf (sync r)" and "s_byte (sync r') = s_byte (sync r)"
    and "eod (sync r') = eod (sync r)" and "e_buf (sync r') = e_buf (sync r)" and "e_byte (sync r') = e_byte (sync r)"
  shows "table_ok r' ss es i p"
  using assms by (simp add: table_ok_def begun_def)

lemmas reader_congs = acks_cong data_cong table_cong

text \<open>Slots of the table that are still awaited are not the slot of the next transfer.\<close>

lemma slot_free:
  assumes "t < m" and "m < t + 8"
  shows "t mod 8 \<noteq> m mod (8 :: nat)"
  using mod_close [of t 8 m] assms by auto

lemma xfer_slot:
  assumes "xfers_inv r es" shows "unat (w_xfer (sync r) mod 8) = length es mod 8"
  using assms by (simp add: unat_mod8 xfers_inv_def)

lemma xfers_cong:
  assumes "xfers_inv r es" and "w_buf_curr (sync r') = w_buf_curr (sync r)" and "w_xfer (sync r') = w_xfer (sync r)"
    and "w_state (sync r') = w_state (sync r)" and "eod (sync r') = eod (sync r)" and "e_buf (sync r') = e_buf (sync r)"
  shows "xfers_inv r' es"
  using assms by (simp add: xfers_inv_def)

section \<open>Opening a sub-block\<close>

lemma opens_reader:
  assumes "reader_inv r ss es c i p h g" and "i \<in> set (readers r)"
    and "unat (count r b) \<le> sem_data r i IPCBUF_CLEAR"
  shows "reader_inv (opened r b) ss es (c + unat (count r b)) i p h g"
  using assms
  unfolding reader_inv_def acks_ok_def data_ok_def table_ok_def begun_def
  by (simp add: sem_data_opened)

text \<open>The start of a transfer at the first sub-block opened for it.\<close>

abbreviation (input) started :: "ring \<Rightarrow> ring" where
  "started r \<equiv> (after_sodack r)\<lparr>sync := sod_sync (sync r) (w_buf_curr (sync r)) 0\<rparr>"

lemma started_xfers:
  assumes inv: "xfers_inv r es" and "w_state (sync r) \<noteq> WRITING"
  shows "xfers_inv (started r) es"
proof -
  have "start_of es (length es) = W_of r" and "\<forall>x<8. unat (e_buf (sync r) x) \<le> W_of r - 1" and "length es \<le> W_of r"
    using assms by (auto simp: xfers_inv_def)
  moreover have "unat (e_buf (sync r) (length es mod 8)) < W_of r" if "w_buf_curr (sync r) \<noteq> 0"
  proof -
    have "0 < W_of r" using that by (simp add: unat_gt_0)
    moreover have "unat (e_buf (sync r) (length es mod 8)) \<le> W_of r - 1" using inv by (simp add: xfers_inv_def)
    ultimately show ?thesis by linarith
  qed
  ultimately show ?thesis
    using inv unfolding xfers_inv_def
    by (simp add: xfer_slot [OF inv] sod_sync_def Let_def)
qed

lemma started_reader:
  assumes inv: "xfers_inv r es" and idle: "w_state (sync r) \<noteq> WRITING" and i: "i \<in> set (readers r)"
    and sod: "0 < sem_data r i IPCBUF_SODACK" and rd: "reader_inv r ss es c i p h g"
  shows "reader_inv (started r) ss es c i p h g"
proof -
  let ?K = "length es"
  have start: "start_of es ?K = W_of r" and KW: "?K \<le> W_of r" using inv idle by (auto simp: xfers_inv_def)
  have slot: "unat (w_xfer (sync r) mod 8) = ?K mod 8" by (rule xfer_slot [OF inv])
  have begun: "begun r es = ?K" "begun (started r) es = ?K + 1" using idle by (simp_all add: begun_def)
  have acks: "acks_ok r es i p" and data: "data_ok r ss es c i p h g" and tab: "table_ok r ss es i p"
    using rd by (auto simp: reader_inv_def)
  have "acks_ok (started r) es i p"
    using acks sod i begun unfolding acks_ok_def
    by (cases "state p = READING") (auto simp: sem_data_map_sems)
  moreover have "data_ok (started r) ss es c i p h g"
    by (rule data_cong [OF data]) (auto simp: sem_data_map_sems)
  moreover have "table_ok (started r) ss es i p"
    unfolding table_ok_def begun
  proof (intro conjI allI impI)
    fix t assume t: "k_of (started r) i \<le> t \<and> t < ?K"
    then have "w_buf_curr (sync r) \<noteq> 0" using KW by auto
    moreover have "eod (sync r) (t mod 8)" "unat (e_buf (sync r) (t mod 8)) = es ! t"
      "unat (e_byte (sync r) (t mod 8)) = length (ss ! (es ! t))"
      using tab t by (auto simp: table_ok_def)
    ultimately show "eod (sync (started r)) (t mod 8)" "unat (e_buf (sync (started r)) (t mod 8)) = es ! t"
      "unat (e_byte (sync (started r)) (t mod 8)) = length (ss ! (es ! t))"
      by (simp_all add: sod_sync_def Let_def)
  next
    fix t assume t: "k_of (started r) i \<le> t \<and> t < ?K + 1 \<and> ?K + 1 \<le> t + 8"
    have "t mod 8 \<noteq> ?K mod 8" if "t \<noteq> ?K" using t that by (intro slot_free) auto
    moreover have "unat (s_buf (sync r) (t mod 8)) = start_of es t \<and> s_byte (sync r) (t mod 8) = 0" if "t \<noteq> ?K"
      using tab t that by (simp add: table_ok_def begun)
    ultimately show "unat (s_buf (sync (started r)) (t mod 8)) = start_of es t"
      "s_byte (sync (started r)) (t mod 8) = 0"
      using start slot by (cases "t = ?K"; simp add: sod_sync_def Let_def)+
  qed
  ultimately show ?thesis by (simp add: reader_inv_def)
qed

section \<open>Filling a sub-block\<close>

abbreviation (input) filled :: "ring \<Rightarrow> ring" where
  "filled r \<equiv> map_sems Suc IPCBUF_FULL (readers r) (count_filled r)"

lemma filled_W:
  "W_of r < N_of r \<Longrightarrow> unat (w_buf_curr (sync r) + 1) = W_of r + 1"
  by (simp add: unat_succ_less word_less_nat_alt)

lemma fills_xfers:
  assumes "xfers_inv r es" and "W_of r < N_of r" and "w_state (sync r) = WRITING"
  shows "xfers_inv (filled r) es"
  using assms filled_W [of r] by (force simp: xfers_inv_def ends_ok_def)

lemma es_in_range:
  assumes "xfers_inv r es" and "t < length es" shows "es ! t < W_of r"
  using assms by (simp add: xfers_inv_def ends_ok_def)

lemma fills_data:
  assumes data: "data_ok r ss es c i p h g" and i: "i \<in> set (readers r)"
  shows "data_ok (filled r) (ss @ [d]) es c i p h g"
proof -
  have "length g \<le> length ss" using data by (auto simp: data_ok_def)
  then have "take (length g) (ss @ [d]) = take (length g) ss" by simp
  with data i show ?thesis unfolding data_ok_def by (auto simp: sem_data_map_sems)
qed

lemma fills_reader:
  assumes inv: "xfers_inv r es" and ss: "length ss = W_of r" and i: "i \<in> set (readers r)"
    and rd: "reader_inv r ss es c i p h g"
  shows "reader_inv (filled r) (ss @ [d]) es c i p h g"
proof -
  have acks: "acks_ok r es i p" and data: "data_ok r ss es c i p h g" and tab: "table_ok r ss es i p"
    using rd by (auto simp: reader_inv_def)
  have "acks_ok (filled r) es i p" by (rule acks_cong [OF acks]) (auto simp: sem_data_map_sems)
  moreover have "table_ok (filled r) (ss @ [d]) es i p"
    using tab es_in_range [OF inv] ss by (simp add: table_ok_def begun_def nth_append)
  ultimately show ?thesis using fills_data [OF data i] by (simp add: reader_inv_def)
qed

section \<open>Ending a transfer\<close>

lemma start_of_append:
  "t \<le> length es \<Longrightarrow> start_of (es @ [w]) t = start_of es t"
  "start_of (es @ [w]) (Suc (length es)) = w + 1"
  by (auto simp: start_of_def nth_append)

lemma ends_xfers:
  assumes inv: "xfers_inv r es" and w: "w_state (sync r) = WRITING" and open': "W_of r < N_of r"
    and x: "xfer p = w_xfer (sync r) mod 8"
  shows "xfers_inv (filled (eod_ring r p n)) (es @ [W_of r])"
proof -
  have W: "unat (w_buf_curr (sync r) + 1) = W_of r + 1" by (rule filled_W [OF open'])
  have KW: "unat (w_xfer (sync r)) = length es" "length es \<le> W_of r" using inv by (auto simp: xfers_inv_def)
  then have X: "unat (w_xfer (sync r) + 1) = length es + 1"
    using W unat_less_length [of "w_buf_curr (sync r) + 1"] by (simp add: unat_succ_bound)
  have ends: "ends_ok es (W_of r)" and start: "start_of es (length es) \<le> W_of r"
    and eb: "\<forall>x<8. unat (e_buf (sync r) x) \<le> W_of r - 1"
    using inv by (auto simp: xfers_inv_def)
  have "start_of (es @ [W_of r]) t \<le> (es @ [W_of r]) ! t \<and> (es @ [W_of r]) ! t < W_of r + 1"
    if "t < length es + 1" for t
    using that ends start by (cases "t = length es") (auto simp: start_of_append nth_append ends_ok_def less_SucI)
  then have "ends_ok (es @ [W_of r]) (W_of r + 1)" by (simp add: ends_ok_def)
  moreover have "\<forall>y<8. unat (((e_buf (sync r))(cur_xfer p := w_buf_curr (sync r))) y) \<le> W_of r"
    using eb by (auto intro: le_trans)
  ultimately show ?thesis
    unfolding xfers_inv_def using KW X W by (simp add: start_of_append)
qed

lemma ends_reader:
  assumes inv: "xfers_inv r es" and w: "w_state (sync r) = WRITING" and open': "W_of r < N_of r"
    and x: "xfer p = w_xfer (sync r) mod 8" and ss: "length ss = W_of r" and i: "i \<in> set (readers r)"
    and eod: "0 < sem_data r i IPCBUF_EODACK" and d: "length d = unat n"
    and rd: "reader_inv r ss es c i q h g"
  shows "reader_inv (filled (eod_ring r p n)) (ss @ [d]) (es @ [W_of r]) c i q h g"
proof -
  let ?r = "filled (eod_ring r p n)"
  let ?K = "length es"
  let ?es = "es @ [W_of r]"
  have acks: "acks_ok r es i q" and data: "data_ok r ss es c i q h g" and tab: "table_ok r ss es i q"
    using rd by (auto simp: reader_inv_def)
  have slot: "cur_xfer p = ?K mod 8" using x xfer_slot [OF inv] by simp
  have begun: "begun r es = ?K + 1" "begun ?r ?es = ?K + 1" using w by (simp_all add: begun_def)
  have near: "?K < k_of r i + 8" using acks eod by (auto simp: acks_ok_def)
  have k: "k_of r i \<le> ?K" using acks by (simp add: acks_ok_def)
  have "acks_ok ?r ?es i q"
    using acks eod i begun unfolding acks_ok_def by (auto simp: sem_data_map_sems)
  moreover have "data_ok ?r (ss @ [d]) ?es c i q h g"
  proof -
    have "length g \<le> length ss" using data by (auto simp: data_ok_def)
    then have "take (length g) (ss @ [d]) = take (length g) ss" by simp
    moreover have "P_of r i \<le> W_of r" if "going q" using data that ss by (auto simp: data_ok_def)
    ultimately show ?thesis
      using data i k unfolding data_ok_def
      by (auto simp: sem_data_map_sems start_of_append nth_append)
  qed
  moreover have "table_ok ?r (ss @ [d]) ?es i q"
    unfolding table_ok_def begun
  proof (intro conjI allI impI)
    fix t assume t: "k_of ?r i \<le> t \<and> t < length ?es"
    have "t mod 8 \<noteq> ?K mod 8" if "t < ?K" using t that near by (intro slot_free) auto
    then show "eod (sync ?r) (t mod 8)" "unat (e_buf (sync ?r) (t mod 8)) = ?es ! t"
      "unat (e_byte (sync ?r) (t mod 8)) = length ((ss @ [d]) ! (?es ! t))"
      using t tab slot ss d es_in_range [OF inv]
      by (cases "t = ?K"; simp add: table_ok_def nth_append)+
  next
    fix t assume t: "k_of ?r i \<le> t \<and> t < ?K + 1 \<and> ?K + 1 \<le> t + 8"
    then show "unat (s_buf (sync ?r) (t mod 8)) = start_of ?es t" "s_byte (sync ?r) (t mod 8) = 0"
      using tab by (simp_all add: table_ok_def begun start_of_append)
  qed
  ultimately show ?thesis by (simp add: reader_inv_def)
qed

lemma opened_eod_ring:
  "opened (eod_ring r p n) (next_slot r) = eod_ring (opened r (next_slot r)) p n"
  by (auto simp: opened_def map_sems_def eod_sync_def fun_eq_iff)

section \<open>Reading\<close>

lemma at_end_iff:
  assumes inv: "xfers_inv r es" and rd: "reader_inv r ss es c i p h g" and go: "going p"
  shows "at_end_of_data r p i \<longleftrightarrow> k_of r i < length es \<and> P_of r i = es ! k_of r i"
proof (cases "k_of r i < length es")
  case True
  then have "eod (sync r) (k_of r i mod 8)" "unat (e_buf (sync r) (k_of r i mod 8)) = es ! k_of r i"
    and "cur_xfer p = k_of r i mod 8"
    using rd go by (auto simp: reader_inv_def table_ok_def data_ok_def unat_mod8)
  with True show ?thesis by (auto simp: at_end_of_data_def word_unat_eq_iff)
next
  case False
  then have k: "k_of r i = length es" and w: "w_state (sync r) = WRITING"
    using rd go by (auto simp: reader_inv_def acks_ok_def begun_def of_bool_def split: if_splits)
  have "cur_xfer p = length es mod 8" and "start_of es (length es) \<le> P_of r i"
    using rd go k by (auto simp: reader_inv_def data_ok_def unat_mod8)
  then have "\<not> at_end_of_data r p i"
    using inv w by (auto simp: at_end_of_data_def xfers_inv_def)
  with False show ?thesis by simp
qed

text \<open>A sub-block that does not end its transfer is full.\<close>

lemma not_an_end:
  assumes inv: "xfers_inv r es" and rd: "reader_inv r ss es c i p h g" and go: "going p"
    and "\<not> at_end_of_data r p i"
  shows "P_of r i \<notin> set es"
proof -
  have ends: "ends_ok es (W_of r)" using inv by (simp add: xfers_inv_def)
  have st: "start_of es (k_of r i) \<le> P_of r i"
    and le: "k_of r i < length es \<longrightarrow> P_of r i \<le> es ! k_of r i" and "k_of r i \<le> length es"
    using rd go by (auto simp: reader_inv_def data_ok_def acks_ok_def)
  show ?thesis
  proof (cases "k_of r i < length es")
    case True
    then have "P_of r i < es ! k_of r i" using le assms(4) at_end_iff [OF inv rd go] by auto
    then show ?thesis by (intro not_end_inside [OF ends True st])
  next
    case False
    then have "k_of r i = length es" using \<open>k_of r i \<le> length es\<close> by simp
    with st show ?thesis by (intro not_end_running [OF ends]) simp
  qed
qed

text \<open>What a reader is handed is the next sub-block, whole.\<close>

lemma fetch_count:
  assumes blocks: "blocks_inv r ss es c" and inv: "xfers_inv r es"
    and rd: "reader_inv r ss es c i p False g" and go: "going p"
    and full: "0 < sem_data r i IPCBUF_FULL"
  shows "unat (read_bytes r p i 0) = length (ss ! length g)"
proof -
  have P: "P_of r i = length g" and lt: "length g < W_of r"
    using rd go full blocks by (auto simp: reader_inv_def data_ok_def blocks_inv_def)
  show ?thesis
  proof (cases "at_end_of_data r p i")
    case True
    have "cur_xfer p = k_of r i mod 8" using rd go by (auto simp: reader_inv_def data_ok_def unat_mod8)
    with True show ?thesis
      using at_end_iff [OF inv rd go] rd P by (simp add: read_bytes_def reader_inv_def table_ok_def)
  next
    case False
    then have "length g \<notin> set es" using not_an_end [OF inv rd go] P by simp
    then have "length (ss ! length g) = bz_of r" using blocks lt by (simp add: blocks_inv_def)
    with False show ?thesis by (simp add: read_bytes_def)
  qed
qed

lemma fetch_bytes:
  assumes blocks: "blocks_inv r ss es c" and inv: "xfers_inv r es"
    and rd: "reader_inv r ss es c i p False g" and go: "going p"
    and full: "0 < sem_data r i IPCBUF_FULL"
  shows "bytes_at r ((read_slot r i, 0), read_bytes r p i 0) = ss ! length g"
proof -
  have P: "P_of r i = length g" and c: "c \<le> length g" and lt: "length g < W_of r"
    using rd go full blocks by (auto simp: reader_inv_def data_ok_def blocks_inv_def)
  then have "ss ! length g = take (length (ss ! length g)) (mem r (length g mod nb_of r))"
    using blocks by (simp add: blocks_inv_def)
  then show ?thesis using fetch_count [OF assms] by (simp add: bytes_at_def slot_unat P)
qed

lemma fetch_going:
  assumes blocks: "blocks_inv r ss es c" and inv: "xfers_inv r es"
    and rd: "reader_inv r ss es c i p False g" and go: "going p"
    and full: "0 < sem_data r i IPCBUF_FULL"
  shows "reader_inv (take_full i r) ss es c i p True
           (g @ [bytes_at (take_full i r) ((read_slot r i, 0), read_bytes r p i 0)])"
proof -
  let ?d = "bytes_at (take_full i r) ((read_slot r i, 0), read_bytes r p i 0)"
  have d: "?d = ss ! length g" using fetch_bytes [OF assms] by (simp add: bytes_at_def)
  have acks: "acks_ok r es i p" and data: "data_ok r ss es c i p False g" and tab: "table_ok r ss es i p"
    using rd by (auto simp: reader_inv_def)
  have "length g < length ss" using data full by (auto simp: data_ok_def)
  then have g: "g @ [?d] = take (length g + 1) ss"
    using data unfolding d by (simp add: take_Suc_conv_app_nth data_ok_def)
  have "acks_ok (take_full i r) es i p" by (rule acks_cong [OF acks]) (auto simp: sem_data_map_sems)
  moreover have "table_ok (take_full i r) ss es i p" by (rule table_cong [OF tab]) auto
  moreover have "data_ok (take_full i r) ss es c i p True (g @ [?d])"
    using data g full go unfolding data_ok_def by (auto simp: sem_data_map_sems)
  ultimately show ?thesis by (simp add: reader_inv_def)
qed

text \<open>The first sub-block of a transfer: the reader finds the start it expects.\<close>

abbreviation (input) entered :: "nat \<Rightarrow> ring \<Rightarrow> ring" where
  "entered i r \<equiv> map_sems Suc IPCBUF_SODACK [i] (r\<lparr>sync := start_read_sync (sync r) i\<rparr>)"

abbreviation (input) entering :: "nat \<Rightarrow> ring \<Rightarrow> ipcbuf \<Rightarrow> ipcbuf" where
  "entering i r p \<equiv> p\<lparr>xfer := r_xfers (sync r) i mod IPCBUF_XFERS, state := READING\<rparr>"

lemma reader_enters:
  assumes inv: "xfers_inv r es" and ss: "length ss = W_of r"
    and rd: "reader_inv r ss es c i p False g" and st: "state p = READER"
    and full: "0 < sem_data r i IPCBUF_FULL"
  shows "reader_inv (entered i r) ss es c i (entering i r p) False g
     \<and> s_byte (sync r) (cur_xfer (entering i r p)) = 0"
proof -
  let ?k = "k_of r i"
  have acks: "acks_ok r es i p" and data: "data_ok r ss es c i p False g" and tab: "table_ok r ss es i p"
    using rd by (auto simp: reader_inv_def)
  have g: "length g = start_of es ?k" and lt: "length g < W_of r" and k: "?k \<le> length es"
    using data acks st full ss by (auto simp: data_ok_def acks_ok_def)
  have "?k = length es \<Longrightarrow> w_state (sync r) = WRITING"
    using inv g lt by (auto simp: xfers_inv_def)
  then have kb: "?k < begun r es" using k by (auto simp: begun_def le_less)
  have near: "begun r es \<le> ?k + 8" using acks st by (auto simp: acks_ok_def)
  have begun: "begun (entered i r) es = begun r es" by (simp add: begun_def)
  have s: "unat (s_buf (sync r) (?k mod 8)) = start_of es ?k" "s_byte (sync r) (?k mod 8) = 0"
    using tab kb near by (auto simp: table_ok_def)
  have slot: "unat (r_xfers (sync r) i mod 8) = ?k mod 8" by (rule unat_mod8)
  have "acks_ok (entered i r) es i (entering i r p)"
    using acks kb st unfolding acks_ok_def begun by (auto simp: sem_data_map_sems ipcbuf_is_reader_def)
  moreover have "?k < length es \<longrightarrow> start_of es ?k \<le> es ! ?k"
    using inv by (auto simp: xfers_inv_def ends_ok_def)
  then have "data_ok (entered i r) ss es c i (entering i r p) False g"
    using data st g s slot unfolding data_ok_def by (auto simp: sem_data_map_sems)
  moreover have "table_ok (entered i r) ss es i (entering i r p)"
    using tab st unfolding table_ok_def begun by auto
  ultimately show ?thesis using s slot by (simp add: reader_inv_def)
qed

lemma entered_commute: "(map_sems Suc IPCBUF_SODACK [i] ((take_full i r)\<lparr>sync := s\<rparr>))
    = take_full i (map_sems Suc IPCBUF_SODACK [i] (r\<lparr>sync := s\<rparr>))"
  by (auto simp: map_sems_def fun_eq_iff)

lemma fetch_reader:
  assumes blocks: "blocks_inv r ss es c" and inv: "xfers_inv r es"
    and rd: "reader_inv r ss es c i p False g"
    and run: "ipcbuf_get_next_read r p = Some (Some d, r', p')"
  shows "reader_inv r' ss es c i p' True (g @ [bytes_at r' d])"
proof -
  have i: "iread p = int i" "ipcbuf_is_reader p" using rd by (auto simp: reader_inv_def acks_ok_def)
  show ?thesis
    using run i(2,1)
  proof (cases rule: get_next_read_Some)
    case going
    then show ?thesis using fetch_going [OF blocks inv rd] by simp
  next
    case begins
    have ss: "length ss = W_of r" using blocks by (simp add: blocks_inv_def)
    have e: "reader_inv (entered i r) ss es c i p' False g" and s: "s_byte (sync r) (cur_xfer p') = 0"
      using reader_enters [OF inv ss rd begins(1,2)] begins(5) by auto
    have r': "r' = take_full i (entered i r)" unfolding begins(4) by (rule entered_commute)
    have b: "blocks_inv (entered i r) ss es c" by (rule blocks_cong [OF blocks]) auto
    have x: "xfers_inv (entered i r) es" by (rule xfers_cong [OF inv]) auto
    have "0 < sem_data (entered i r) i IPCBUF_FULL" using begins(2) by (simp add: sem_data_map_sems)
    then show ?thesis
      using fetch_going [OF b x e] begins(5,6) s r' by simp
  qed
qed

lemma fetch_result:
  assumes blocks: "blocks_inv r ss es c" and inv: "xfers_inv r es"
    and rd: "reader_inv r ss es c i p False g"
    and run: "ipcbuf_get_next_read r p = Some (Some (b, n), r', p')"
  shows "b = (read_slot r' i, 0) \<and> unat n = length (ss ! length g) \<and> ipcbuf_is_reader p'"
proof -
  have i: "iread p = int i" "ipcbuf_is_reader p" using rd by (auto simp: reader_inv_def acks_ok_def)
  show ?thesis
    using run i(2,1)
  proof (cases rule: get_next_read_Some)
    case going
    then show ?thesis using fetch_count [OF blocks inv rd] i by simp
  next
    case begins
    have ss: "length ss = W_of r" using blocks by (simp add: blocks_inv_def)
    have e: "reader_inv (entered i r) ss es c i p' False g" and s: "s_byte (sync r) (cur_xfer p') = 0"
      using reader_enters [OF inv ss rd begins(1,2)] begins(5) by auto
    have r': "r' = take_full i (entered i r)" unfolding begins(4) by (rule entered_commute)
    have b: "blocks_inv (entered i r) ss es c" by (rule blocks_cong [OF blocks]) auto
    have x: "xfers_inv (entered i r) es" by (rule xfers_cong [OF inv]) auto
    have "0 < sem_data (entered i r) i IPCBUF_FULL" using begins(2) by (simp add: sem_data_map_sems)
    then show ?thesis
      using fetch_count [OF b x e] begins(5,6) s r' by (simp add: ipcbuf_is_reader_def)
  qed
qed

text \<open>Clearing: the position moves on, or the transfer ends here.\<close>

lemma clear_reader:
  assumes blocks: "blocks_inv r ss es c" and inv: "xfers_inv r es"
    and rd: "reader_inv r ss es c i p True g"
    and run: "ipcbuf_mark_cleared r p = Some (0, r', p')"
  shows "reader_inv r' ss es c i p' False g"
proof -
  let ?k = "k_of r i"
  have acks: "acks_ok r es i p" and data: "data_ok r ss es c i p True g" and tab: "table_ok r ss es i p"
    using rd by (auto simp: reader_inv_def)
  have i: "iread p = int i" using acks by (simp add: acks_ok_def)
  note clr = mark_cleared_Some [OF run i]
  then have go: "going p" by simp
  have P: "P_of r i + 1 = length g" and le: "length g \<le> length ss" and st: "start_of es ?k \<le> P_of r i"
    and pe: "?k < length es \<longrightarrow> P_of r i \<le> es ! ?k"
    using data go by (auto simp: data_ok_def)
  show ?thesis
  proof (cases "at_end_of_data r p i")
    case True
    then have k: "?k < length es" "P_of r i = es ! ?k" using at_end_iff [OF inv rd go] by auto
    have r': "r' = map_sems Suc IPCBUF_EODACK [i] ((map_sems Suc IPCBUF_CLEAR [i] r)\<lparr>sync := stop_sync (sync r) i\<rparr>)"
      and p': "p' = p\<lparr>state := RSTOP, xfer := (r_xfers (sync r) i + 1) mod IPCBUF_XFERS\<rparr>"
      using clr True by auto
    have "length es \<le> W_of r" using inv by (simp add: xfers_inv_def)
    then have "?k + 1 < 2 ^ 64" using k unat_less_length [of "w_buf_curr (sync r)"] by simp
    then have k': "unat (r_xfers (sync r) i + 1) = ?k + 1" by (simp add: unat_succ_bound)
    have begun: "begun r' es = begun r es" by (simp add: r' begun_def)
    have "acks_ok r' es i p'"
      using acks k go unfolding acks_ok_def begun
      by (auto simp: r' p' k' sem_data_map_sems ipcbuf_is_reader_def)
    moreover have "data_ok r' ss es c i p' False g"
      using data k P go unfolding data_ok_def
      by (auto simp: r' p' k' sem_data_map_sems start_of_def)
    moreover have "table_ok r' ss es i p'"
      using tab go unfolding table_ok_def begun by (auto simp: r' p' k')
    ultimately show ?thesis by (simp add: reader_inv_def)
  next
    case False
    then have r': "r' = (map_sems Suc IPCBUF_CLEAR [i] r)\<lparr>sync := clear_sync (sync r) i\<rparr>" and p': "p' = p"
      using clr by auto
    have "?k < length es \<longrightarrow> P_of r i < es ! ?k"
      using pe False at_end_iff [OF inv rd go] by (auto simp: le_less)
    moreover have "length ss = W_of r" using blocks by (simp add: blocks_inv_def)
    then have "P_of r i + 1 < 2 ^ 64" using P le unat_less_length [of "w_buf_curr (sync r)"] by simp
    then have "unat (r_bufs (sync r) i + 1) = P_of r i + 1" by (simp add: unat_succ_bound)
    ultimately have "data_ok r' ss es c i p False g"
      using data go P st unfolding data_ok_def by (auto simp: r' sem_data_map_sems)
    moreover have "acks_ok r' es i p"
      by (rule acks_cong [OF acks]) (auto simp: r' sem_data_map_sems)
    moreover have "table_ok r' ss es i p"
      by (rule table_cong [OF tab]) (auto simp: r')
    ultimately show ?thesis by (simp add: reader_inv_def p')
  qed
qed

section \<open>The rules keep the invariant\<close>

lemma readers_filled [simp]: "n_readers (sync (filled r)) = n_readers (sync r)"
  by simp

text \<open>What the operations of reader \<open>i\<close> leave alone.\<close>

definition same_for_others :: "nat \<Rightarrow> ring \<Rightarrow> ring \<Rightarrow> bool" where
  "same_for_others i r r' \<longleftrightarrow>
     count r' = count r \<and> mem r' = mem r \<and> nbufs (sync r') = nbufs (sync r) \<and> bufsz (sync r') = bufsz (sync r)
   \<and> w_buf_curr (sync r') = w_buf_curr (sync r) \<and> w_buf_next (sync r') = w_buf_next (sync r)
   \<and> w_state (sync r') = w_state (sync r) \<and> w_xfer (sync r') = w_xfer (sync r)
   \<and> n_readers (sync r') = n_readers (sync r)
   \<and> s_buf (sync r') = s_buf (sync r) \<and> s_byte (sync r') = s_byte (sync r) \<and> eod (sync r') = eod (sync r)
   \<and> e_buf (sync r') = e_buf (sync r) \<and> e_byte (sync r') = e_byte (sync r)
   \<and> (\<forall>j. j \<noteq> i \<longrightarrow> sem_data r' j = sem_data r j \<and> r_bufs (sync r') j = r_bufs (sync r) j
            \<and> r_xfers (sync r') j = r_xfers (sync r) j)"

lemma get_next_read_others:
  assumes "ipcbuf_get_next_read r p = Some (Some d, r', p')" and "ipcbuf_is_reader p" and "iread p = int i"
  shows "same_for_others i r r'"
  using assms
  by (cases rule: get_next_read_Some) (simp_all add: same_for_others_def, auto simp: map_sems_def)

lemma mark_cleared_others:
  assumes "ipcbuf_mark_cleared r p = Some (0, r', p')" and "iread p = int i"
  shows "same_for_others i r r'"
  using mark_cleared_Some [OF assms]
  by (cases "at_end_of_data r p i") (auto simp: same_for_others_def, auto simp: map_sems_def)

lemma reader_inv_others:
  assumes "same_for_others i r r'" and "j \<noteq> i" and "reader_inv r ss es c j p h g"
  shows "reader_inv r' ss es c j p h g"
proof -
  have "acks_ok r' es j p" by (rule acks_cong) (use assms in \<open>auto simp: same_for_others_def reader_inv_def\<close>)
  moreover have "data_ok r' ss es c j p h g"
    by (rule data_cong) (use assms in \<open>auto simp: same_for_others_def reader_inv_def\<close>)
  moreover have "table_ok r' ss es j p"
    by (rule table_cong) (use assms in \<open>auto simp: same_for_others_def reader_inv_def\<close>)
  ultimately show ?thesis by (simp add: reader_inv_def)
qed

lemma reader_again:
  assumes "state p = RSTOP"
  shows "reader_inv r ss es c i (p\<lparr>state := READER\<rparr>) h g = reader_inv r ss es c i p h g"
proof -
  have "acks_ok r es i (p\<lparr>state := READER\<rparr>) = acks_ok r es i p"
    using assms by (simp add: acks_ok_def ipcbuf_is_reader_def)
  moreover have "data_ok r ss es c i (p\<lparr>state := READER\<rparr>) h g = data_ok r ss es c i p h g"
    using assms by (simp add: data_ok_def)
  moreover have "table_ok r ss es i (p\<lparr>state := READER\<rparr>) = table_ok r ss es i p"
    using assms by (simp add: table_ok_def)
  ultimately show ?thesis by (simp add: reader_inv_def)
qed

text \<open>A step of one reader, from what it does for this reader.\<close>

lemma reader_step_inv:
  assumes inv: "stream_inv s" and others: "same_for_others i (the_ring s) r'"
    and mine: "reader_inv r' (sent s) (ends s) (recl s) i p' h g"
  shows "stream_inv (s\<lparr>the_ring := r', reader := (reader s)(i := p'), held := (held s)(i := h),
      got := (got s)(i := g)\<rparr>)"
proof -
  have o: "n_readers (sync r') = n_readers (sync (the_ring s))" "w_state (sync r') = w_state (sync (the_ring s))"
    "w_xfer (sync r') = w_xfer (sync (the_ring s))"
    using others by (simp_all add: same_for_others_def)
  have "blocks_inv r' (sent s) (ends s) (recl s)"
    by (rule blocks_cong) (use inv others in \<open>auto simp: stream_inv_def same_for_others_def\<close>)
  moreover have "xfers_inv r' (ends s)"
    by (rule xfers_cong) (use inv others in \<open>auto simp: stream_inv_def same_for_others_def\<close>)
  moreover have "reader_inv r' (sent s) (ends s) (recl s) j (reader s j) (held s j) (got s j)"
    if "j \<in> set (readers r')" "j \<noteq> i" for j
    using that inv o(1) by (intro reader_inv_others [OF others]) (auto simp: stream_inv_def)
  ultimately show ?thesis using inv mine o by (auto simp: stream_inv_def handle_inv_def)
qed

text \<open>A step of the writer, from the same facts for every reader.\<close>

lemma writer_step_inv:
  assumes "blocks_inv r' ss es c" and "xfers_inv r' es" and "handle_inv r' p'"
    and "n_readers (sync r') = n_readers (sync (the_ring s))"
    and "\<And>i. i \<in> set (readers (the_ring s)) \<Longrightarrow> reader_inv r' ss es c i (reader s i) (held s i) (got s i)"
  shows "stream_inv (s\<lparr>the_ring := r', writer := p', sent := ss, ends := es, recl := c\<rparr>)"
  using assms by (simp add: stream_inv_def)

lemma stream_invD:
  assumes "stream_inv s"
  shows "blocks_inv (the_ring s) (sent s) (ends s) (recl s)" and "xfers_inv (the_ring s) (ends s)"
    and "handle_inv (the_ring s) (writer s)" and "length (sent s) = W_of (the_ring s)"
    and "i \<in> set (readers (the_ring s)) \<Longrightarrow>
       reader_inv (the_ring s) (sent s) (ends s) (recl s) i (reader s i) (held s i) (got s i)"
  using assms by (auto simp: stream_inv_def blocks_inv_def)

lemma opens_keeps:
  assumes inv: "stream_inv s" and room: "N_of (the_ring s) < W_of (the_ring s) + nb_of (the_ring s)"
    "N_of (the_ring s) + 1 < 2 ^ 64"
    and "b = next_slot (the_ring s)"
    and enough: "\<forall>i\<in>set (readers (the_ring s)). unat (count (the_ring s) b) \<le> sem_data (the_ring s) i IPCBUF_CLEAR"
  shows "stream_inv (s\<lparr>the_ring := opened (the_ring s) b, recl := recl s + unat (count (the_ring s) b)\<rparr>)"
proof -
  note I = stream_invD [OF inv]
  have "blocks_inv (opened (the_ring s) b) (sent s) (ends s) (recl s + unat (count (the_ring s) b))"
    using blocks_opened [OF I(1) room] assms(4) by simp
  moreover have "xfers_inv (opened (the_ring s) b) (ends s)" by (rule xfers_cong [OF I(2)]) auto
  moreover have "handle_inv (opened (the_ring s) b) (writer s)" using I(3) by (simp add: handle_inv_def)
  ultimately show ?thesis
    using I(5) enough opens_reader by (auto simp: stream_inv_def)
qed

lemma start_keeps:
  assumes inv: "stream_inv s" and "state (writer s) = WCHANGE"
    and "\<forall>i\<in>set (readers (the_ring s)). 0 < sem_data (the_ring s) i IPCBUF_SODACK"
  shows "stream_inv (s\<lparr>the_ring := started (the_ring s), writer := sod_handle (the_ring s) (writer s)\<rparr>)"
proof -
  note I = stream_invD [OF inv]
  have idle: "w_state (sync (the_ring s)) \<noteq> WRITING" using I(3) assms(2) by (auto simp: handle_inv_def)
  have "blocks_inv (started (the_ring s)) (sent s) (ends s) (recl s)" by (rule blocks_cong [OF I(1)]) auto
  moreover have "handle_inv (started (the_ring s)) (sod_handle (the_ring s) (writer s))"
    by (simp add: handle_inv_def)
  ultimately show ?thesis
    using I(5) started_xfers [OF I(2) idle] started_reader [OF I(2) idle] assms(3) by (auto simp: stream_inv_def)
qed

lemma fill_keeps:
  assumes inv: "stream_inv s" and "state (writer s) = WRITING" and open': "W_of (the_ring s) < N_of (the_ring s)"
  shows "stream_inv (s\<lparr>the_ring := filled (the_ring s),
      sent := sent s @ [mem (the_ring s) (curr_slot (the_ring s))]\<rparr>)"
proof -
  note I = stream_invD [OF inv]
  let ?r = "the_ring s"
  have w: "w_state (sync ?r) = WRITING" using I(3) assms(2) by (auto simp: handle_inv_def)
  have "length (mem ?r (curr_slot ?r)) = bz_of ?r" using I(1) by (simp add: blocks_inv_def slot_unat)
  then have d: "mem ?r (curr_slot ?r) = take (bz_of ?r) (mem ?r (curr_slot ?r))" by simp
  have "blocks_inv (filled ?r) (sent s @ [mem ?r (curr_slot ?r)]) (ends s) (recl s)"
    by (subst d, rule blocks_filled [OF I(1) open']) auto
  moreover have "handle_inv (filled ?r) (writer s)" using I(3) by (simp add: handle_inv_def)
  ultimately show ?thesis
    using I(5) fills_xfers [OF I(2) open' w] fills_reader [OF I(2,4)] by (auto simp: stream_inv_def)
qed

lemma end_keeps:
  assumes inv: "stream_inv s" and w: "w_state (sync (the_ring s)) = WRITING"
    and open': "W_of (the_ring s) < N_of (the_ring s)" and n: "n \<le> bufsz (sync (the_ring s))"
    and x: "xfer p = w_xfer (sync (the_ring s)) mod 8"
    and eod: "\<forall>i\<in>set (readers (the_ring s)). 0 < sem_data (the_ring s) i IPCBUF_EODACK"
  shows "stream_inv (s\<lparr>the_ring := filled (eod_ring (the_ring s) p n), writer := eod_handle (the_ring s) p,
      sent := sent s @ [take (unat n) (mem (the_ring s) (curr_slot (the_ring s)))],
      ends := ends s @ [W_of (the_ring s)]\<rparr>)"
proof -
  note I = stream_invD [OF inv]
  let ?r = "the_ring s"
  let ?d = "take (unat n) (mem ?r (curr_slot ?r))"
  have "length (mem ?r (curr_slot ?r)) = bz_of ?r" using I(1) by (simp add: blocks_inv_def slot_unat)
  moreover have n': "unat n \<le> bz_of ?r" using n by (simp add: word_le_nat_alt)
  ultimately have d: "length ?d = unat n" by simp
  have "blocks_inv (filled (eod_ring ?r p n)) (sent s @ [?d]) (ends s @ [W_of ?r]) (recl s)"
    by (rule blocks_filled [OF I(1) open' n']) auto
  moreover have "handle_inv (filled (eod_ring ?r p n)) (eod_handle ?r p)" by (simp add: handle_inv_def)
  moreover have "reader_inv (filled (eod_ring ?r p n)) (sent s @ [?d]) (ends s @ [W_of ?r]) (recl s) i
      (reader s i) (held s i) (got s i)" if "i \<in> set (readers ?r)" for i
    by (rule ends_reader [OF I(2) w open' x I(4) that bspec [OF eod that] d I(5) [OF that]])
  ultimately show ?thesis
    using ends_xfers [OF I(2) w open' x] by (auto simp: stream_inv_def)
qed

lemma empty_end_keeps:
  assumes inv: "stream_inv s" and w: "w_state (sync (the_ring s)) = WRITING"
    and eq: "W_of (the_ring s) = N_of (the_ring s)" and N: "N_of (the_ring s) + 1 < 2 ^ 64"
    and x: "xfer p = w_xfer (sync (the_ring s)) mod 8"
    and eod: "\<forall>i\<in>set (readers (the_ring s)). 0 < sem_data (the_ring s) i IPCBUF_EODACK"
    and enough: "\<forall>i\<in>set (readers (the_ring s)).
        unat (count (the_ring s) (next_slot (the_ring s))) \<le> sem_data (the_ring s) i IPCBUF_CLEAR"
  shows "stream_inv (s\<lparr>the_ring := filled (opened (eod_ring (the_ring s) p 0) (next_slot (the_ring s))),
      writer := eod_handle (the_ring s) p, sent := sent s @ [[]], ends := ends s @ [W_of (the_ring s)],
      recl := recl s + unat (count (the_ring s) (next_slot (the_ring s)))\<rparr>)"
proof -
  let ?r = "the_ring s"
  let ?o = "opened ?r (next_slot ?r)"
  let ?s = "s\<lparr>the_ring := ?o, recl := recl s + unat (count ?r (next_slot ?r))\<rparr>"
  have "N_of ?r < W_of ?r + nb_of ?r" using inv eq by (simp add: stream_inv_def blocks_inv_def)
  then have o: "stream_inv ?s" using opens_keeps [OF inv _ N _ enough] by simp
  have open': "W_of ?o < N_of ?o" using eq N by (simp add: unat_succ_bound)
  have "stream_inv (?s\<lparr>the_ring := filled (eod_ring ?o p 0), writer := eod_handle ?o p,
      sent := sent ?s @ [take (unat (0 :: u64)) (mem ?o (curr_slot ?o))], ends := ends ?s @ [W_of ?o]\<rparr>)"
    using end_keeps [OF o, where p = p and n = 0] w open' x eod by (simp add: sem_data_opened)
  then show ?thesis unfolding opened_eod_ring stream_inv_def by simp
qed

text \<open>Marking the last sub-block of a transfer, from the handle with or without the pending end.\<close>

lemma marked_end_keeps:
  assumes inv: "stream_inv s" and run: "ipcbuf_mark_filled (the_ring s) p n = Some (0, r', p')"
    and st: "state p = WCHANGE \<or> state p = WRITING \<and> n < bufsz (sync (the_ring s))"
    and w: "state (writer s) = WRITING" and x: "xfer p = xfer (writer s)"
    and n: "0 < n" "n \<le> bufsz (sync (the_ring s))" and open': "W_of (the_ring s) < N_of (the_ring s)"
  shows "stream_inv (s\<lparr>the_ring := r', writer := p',
       sent := sent s @ [take (unat n) (mem (the_ring s) (curr_slot (the_ring s)))],
       ends := ends s @ [W_of (the_ring s)]\<rparr>)"
proof -
  note I = stream_invD [OF inv]
  have ws: "w_state (sync (the_ring s)) = WRITING" and x': "xfer p = w_xfer (sync (the_ring s)) mod 8"
    using I(3) w x by (auto simp: handle_inv_def)
  have n0: "n \<noteq> 0" using n(1) by auto
  have "\<forall>i\<in>set (readers (the_ring s)). 0 < sem_data (the_ring s) i IPCBUF_EODACK"
    and "p' = eod_handle (the_ring s) p" and "r' = filled (eod_ring (the_ring s) p n)"
    using mark_filled_end [OF run st] n0 by simp_all
  then show ?thesis using end_keeps [OF inv ws open' n(2) x'] by simp
qed

lemma stream_step_inv: "stream_step s s' \<Longrightarrow> stream_inv s \<Longrightarrow> stream_inv s'"
proof (induction rule: stream_step.induct)
  case (put s j data)
  note I = stream_invD [OF put(4)]
  let ?r = "(the_ring s)\<lparr>mem := (mem (the_ring s))(j mod nb_of (the_ring s) := data)\<rparr>"
  have "blocks_inv ?r (sent s) (ends s) (recl s)" by (rule blocks_put [OF I(1) put(1-3)])
  moreover have "reader_inv ?r (sent s) (ends s) (recl s) i (reader s i) (held s i) (got s i)"
    if "i \<in> set (readers (the_ring s))" for i
    using I(5) [OF that] by (simp add: reader_inv_def acks_ok_def data_ok_def table_ok_def begun_def)
  moreover have "xfers_inv ?r (ends s)" by (rule xfers_cong [OF I(2)]) auto
  ultimately show ?case using put(4) by (simp add: stream_inv_def handle_inv_def)
next
  case (open_next s b r' p')
  from open_next(1) show ?case
  proof (cases rule: get_next_write_Some)
    case cont
    then show ?thesis using opens_keeps [OF open_next(4,2,3) cont(4,5)] by simp
  next
    case (first r1)
    have sod: "\<forall>i\<in>set (readers (the_ring s)). 0 < sem_data (the_ring s) i IPCBUF_SODACK"
      using enable_sod_Some [OF first(2)] by (simp add: SEMVMX_def)
    have p': "p' = sod_handle (the_ring s) (writer s)" and r1: "r1 = started (the_ring s)"
      using enable_sod_Some [OF first(2)] by (simp_all add: SEMVMX_def)
    let ?s = "s\<lparr>the_ring := r1, writer := p'\<rparr>"
    have s: "stream_inv ?s" using start_keeps [OF open_next(4) first(1) sod] p' r1 by simp
    have "stream_inv (?s\<lparr>the_ring := opened (the_ring ?s) b, recl := recl ?s + unat (count (the_ring ?s) b)\<rparr>)"
      by (rule opens_keeps [OF s]) (use open_next(2,3) first(4,5) r1 in simp_all)
    then show ?thesis using first(6) r1 unfolding stream_inv_def by simp
  qed
next
  case (fill s r' p')
  have "r' = filled (the_ring s)" "p' = writer s" using mark_filled_middle [OF fill(1,2)] by simp_all
  then show ?case using fill_keeps [OF fill(4,2,3)] by simp
next
  case (short_fill s n r' p')
  have "n \<le> bufsz (sync (the_ring s))" using short_fill(4) by simp
  then show ?case
    using marked_end_keeps [OF short_fill(6,1) _ short_fill(2) refl short_fill(3) _ short_fill(5)]
      short_fill(2,4) by blast
next
  case (finish s p1 n r' p')
  have "state (writer s) = WRITING" "state p1 = WCHANGE" "xfer p1 = xfer (writer s)"
    using finish(1) by (auto simp: ipcbuf_enable_eod_def split: if_splits)
  then show ?case using marked_end_keeps [OF finish(6,2) _ _ _ finish(3,4,5)] by blast
next
  case (finish_empty s p1 r' p')
  have w: "state (writer s) = WRITING" and p1: "state p1 = WCHANGE" "xfer p1 = xfer (writer s)"
    using finish_empty(1) by (auto simp: ipcbuf_enable_eod_def split: if_splits)
  have h: "w_state (sync (the_ring s)) = WRITING" "xfer p1 = w_xfer (sync (the_ring s)) mod 8"
    using stream_invD(3) [OF finish_empty(5)] w p1 by (auto simp: handle_inv_def)
  have "\<forall>i\<in>set (readers (the_ring s)). 0 < sem_data (the_ring s) i IPCBUF_EODACK"
    and "\<forall>i\<in>set (readers (the_ring s)).
        unat (count (the_ring s) (next_slot (the_ring s))) \<le> sem_data (the_ring s) i IPCBUF_CLEAR"
    and "p' = eod_handle (the_ring s) p1"
    and "r' = filled (opened (eod_ring (the_ring s) p1 0) (next_slot (the_ring s)))"
    using mark_filled_end [OF finish_empty(2)] p1(1) by simp_all
  then show ?case using empty_end_keeps [OF finish_empty(5) h(1) finish_empty(3,4) h(2)] by simp
next
  case (relock s r1 p1 r' p')
  note I = stream_invD [OF relock(4)]
  let ?r = "the_ring s"
  have "sync r' = (sync ?r)\<lparr>w_buf_next := w_buf_curr (sync ?r)\<rparr>" and fr: "count r' = count ?r"
    "sem_data r' = sem_data ?r" "mem r' = mem ?r"
    using lock_unlock_frame [OF disjI1, OF relock(2)] lock_unlock_frame [OF disjI2, OF relock(3)] by simp_all
  then have sync: "sync r' = (sync ?r)\<lparr>w_buf_next := w_buf_curr (sync ?r)\<rparr>" by simp
  have same: "sync r1 = sync r'" using lock_unlock_frame [OF disjI2, OF relock(3)] by simp
  have idle: "w_state (sync ?r) = DISCON" using I(3) relock(1) by (auto simp: handle_inv_def)
  then have "state p' = WCHANGE" "xfer p' = w_xfer (sync ?r) mod 8"
    using relock(3)
    by (auto simp: ipcbuf_lock_write_def same sync dest!: connect_semop_frame split: if_splits bind_splits)
  then have "handle_inv r' p'" using idle sync by (simp add: handle_inv_def)
  moreover have "blocks_inv r' (sent s) (ends s) (recl s)"
    using I(1) unfolding blocks_inv_def fr sync by simp
  moreover have "xfers_inv r' (ends s)" by (rule xfers_cong [OF I(2)]) (simp_all add: sync)
  moreover have "reader_inv r' (sent s) (ends s) (recl s) i (reader s i) (held s i) (got s i)"
    if "i \<in> set (readers ?r)" for i
    using I(5) [OF that] unfolding reader_inv_def acks_ok_def data_ok_def table_ok_def begun_def fr sync by simp
  ultimately show ?case by (simp add: stream_inv_def sync)
next
  case (fetch i s d r' p')
  note I = stream_invD [OF fetch(4)]
  have rd: "reader_inv (the_ring s) (sent s) (ends s) (recl s) i (reader s i) False (got s i)"
    using I(5) [OF fetch(1)] fetch(2) by simp
  then have i: "iread (reader s i) = int i" "ipcbuf_is_reader (reader s i)"
    by (auto simp: reader_inv_def acks_ok_def)
  show ?case
    by (rule reader_step_inv [OF fetch(4) get_next_read_others [OF fetch(3) i(2,1)]
          fetch_reader [OF I(1,2) rd fetch(3)]])
next
  case (clear i s r' p')
  note I = stream_invD [OF clear(4)]
  have rd: "reader_inv (the_ring s) (sent s) (ends s) (recl s) i (reader s i) True (got s i)"
    using I(5) [OF clear(1)] clear(2) by simp
  then have i: "iread (reader s i) = int i" by (auto simp: reader_inv_def acks_ok_def)
  have "stream_inv (s\<lparr>the_ring := r', reader := (reader s)(i := p'), held := (held s)(i := False),
      got := (got s)(i := got s i)\<rparr>)"
    by (rule reader_step_inv [OF clear(4) mark_cleared_others [OF clear(3) i]
          clear_reader [OF I(1,2) rd clear(3)]])
  then show ?case by simp
next
  case (again i s r' p')
  have "r' = the_ring s" "p' = (reader s i)\<lparr>state := READER\<rparr>"
    using again(2,3) by (auto simp: ipcbuf_reset_def)
  moreover have "reader_inv (the_ring s) (sent s) (ends s) (recl s) i p' (held s i) (got s i)"
    using stream_invD(5) [OF again(4,1)] reader_again [OF again(2)] calculation by simp
  ultimately show ?case using again(4) by (auto simp: stream_inv_def)
qed

interpretation stream: invariant_system stream_step stream_inv
  by unfold_locales (rule stream_step_inv)

end
