(* ===== verification/Ring_Properties.thy ===== *)
theory Ring_Properties
  imports Ring_Stream_Steps Ipcbuf_Create "HOL-Library.Sublist"
begin

text \<open>
  What the two invariants say of a ring made by \<open>ipcbuf_create\<close>: the stream every
  reader sees, the exclusion between the writer and the readers of a sub-block,
  the bounds on transfers and sub-blocks, and the operations that never complete.
\<close>

section \<open>From a new ring\<close>

text \<open>The handles as the lock operations leave them on a new ring.\<close>

definition locked_handle :: "ipcstate \<Rightarrow> int \<Rightarrow> ipcbuf" where
  "locked_handle st i = IPCBUF_INIT\<lparr>state := st, iread := i\<rparr>"

definition stream_start :: "ring \<Rightarrow> stream" where
  "stream_start r =
     \<lparr>the_ring = r, writer = locked_handle WCHANGE (- 1), reader = (\<lambda>i. locked_handle READER (int i)),
      held = (\<lambda>_. False), sent = [], ends = [], got = (\<lambda>_. []), recl = 0\<rparr>"

lemma lock_write_fresh:
  assumes "fresh_ring r"
  shows "\<exists>r'. ipcbuf_lock_write r (locked_handle VIEWER (- 1)) = Some (0, r', locked_handle WCHANGE (- 1)) \<and> fresh_data r'"
  using assms
  by (auto simp: ipcbuf_lock_write_def connect_semop_def ipc_semop_unit fresh_ring_def fresh_data_def
      locked_handle_def IPCBUF_INIT_def)

lemma stream_start_inv:
  assumes "fresh_data r" and "0 < nbufs (sync r)"
  shows "stream_inv (stream_start r)"
proof -
  have nb: "0 < nb_of r" using assms(2) by (simp add: word_less_nat_alt)
  have "blocks_inv r [] [] 0" using assms(1) nb by (simp add: blocks_inv_def fresh_data_def)
  moreover have "xfers_inv r []" using assms(1) by (simp add: xfers_inv_def fresh_data_def ends_ok_def start_of_def)
  moreover have "handle_inv r (locked_handle WCHANGE (- 1))"
    using assms(1) by (simp add: handle_inv_def fresh_data_def locked_handle_def IPCBUF_INIT_def)
  moreover have "reader_inv r [] [] 0 i (locked_handle READER (int i)) False []" if "i \<in> set (readers r)" for i
    using assms(1) that
    by (simp add: reader_inv_def acks_ok_def data_ok_def table_ok_def begun_def fresh_data_def
        locked_handle_def IPCBUF_INIT_def ipcbuf_is_reader_def start_of_def)
  ultimately show ?thesis by (simp add: stream_inv_def stream_start_def)
qed

text \<open>What an invariant of the stream says of every run from a new ring.\<close>

lemma stream_run:
  assumes "fresh_data r" and "0 < nbufs (sync r)" and "stream_step\<^sup>*\<^sup>* (stream_start r) s"
  shows "stream_inv s"
  by (rule stream.run_inv [OF assms(3) stream_start_inv [OF assms(1,2)]])

lemma got_is_prefix:
  assumes "stream_inv s" and "i \<in> set (readers (the_ring s))"
  shows "prefix (got s i) (sent s)"
proof -
  have "got s i = take (length (got s i)) (sent s)"
    using stream_invD(5) [OF assms] by (simp add: reader_inv_def data_ok_def)
  then show ?thesis by (metis take_is_prefix)
qed

section \<open>A run on a small ring\<close>

text \<open>
  Two sub-blocks of three bytes and one reader. The writer opens a sub-block,
  stores three bytes, ends the transfer after two of them, and the reader takes
  what there is.
\<close>

definition small_ring :: ring where
  "small_ring =
     \<lparr>sync = create_sync 0xdada 2 3 1 zero_sync, count = (\<lambda>_. 0), shmkey = (\<lambda>_. 0), sem_connect = (\<lambda>_. 0),
      sem_data = (\<lambda>_. (\<lambda>_. 0)(IPCBUF_SODACK := 8, IPCBUF_EODACK := 8)), mem = (\<lambda>_. [0, 0, 0])\<rparr>"

definition small_written :: ring where
  "small_written = (opened (started small_ring) 0)\<lparr>mem := (\<lambda>_. [0, 0, 0])(0 := [7, 8, 9])\<rparr>"

definition small_filled :: ring where
  "small_filled = filled (eod_ring small_written (locked_handle WRITING (- 1)) 2)"

definition small_fetched :: ring where
  "small_fetched = take_full 0 (entered 0 small_filled)"

definition small_run :: stream where
  "small_run = (stream_start small_ring)
     \<lparr>the_ring := small_fetched, writer := (locked_handle WRITER (- 1))\<lparr>xfer := 1\<rparr>,
      reader := (reader (stream_start small_ring))(0 := locked_handle READING 0),
      held := (\<lambda>_. False)(0 := True),
      sent := [[7, 8]], ends := [0], got := (\<lambda>_. [])(0 := [[7, 8]])\<rparr>"

lemma small_ring_fields [simp]:
  "w_buf_curr (sync small_ring) = 0" "w_buf_next (sync small_ring) = 0" "w_xfer (sync small_ring) = 0"
  "w_state (sync small_ring) = DISCON" "nbufs (sync small_ring) = 2" "bufsz (sync small_ring) = 3"
  "n_readers (sync small_ring) = 1" "r_bufs (sync small_ring) 0 = 0" "r_xfers (sync small_ring) 0 = 0"
  "count small_ring = (\<lambda>_. 0)" "mem small_ring = (\<lambda>_. [0, 0, 0])"
  "sem_data small_ring i IPCBUF_SODACK = 8" "sem_data small_ring i (Suc 0) = 8"
  "sem_data small_ring i IPCBUF_FULL = 0" "sem_data small_ring i IPCBUF_CLEAR = 0"
  by (simp_all add: small_ring_def create_sync_def zero_sync_def)

lemma small_ring_fresh: "fresh_data small_ring" "0 < nbufs (sync small_ring)"
  by (simp_all add: fresh_data_def) (simp_all add: small_ring_def create_sync_def zero_sync_def)

lemmas small_defs = stream_start_def locked_handle_def IPCBUF_INIT_def

lemma small_open: "ipcbuf_get_next_write small_ring (locked_handle WCHANGE (- 1)) =
    Some (Some 0, opened (started small_ring) 0, locked_handle WRITING (- 1))"
proof -
  have "ipcbuf_enable_sod small_ring (locked_handle WCHANGE (- 1)) 0 0 =
      Some (0, started small_ring, locked_handle WRITING (- 1))"
    using enable_sod_none_written [of small_ring "locked_handle WCHANGE (- 1)" 0]
    by (simp add: sod_allowed_def ipcbuf_get_sod_minbuf_def locked_handle_def IPCBUF_INIT_def)
  then show ?thesis
    by (simp add: get_next_write_first get_next_write_opens ipcbuf_is_writer_def locked_handle_def)
qed

lemma small_fill: "ipcbuf_mark_filled small_written (locked_handle WRITING (- 1)) 2 =
    Some (0, small_filled, (locked_handle WRITER (- 1))\<lparr>xfer := 1\<rparr>)"
proof -
  have "each (data_semop IPCBUF_FULL 1 False) [0] (count_filled (eod_ring small_written (locked_handle WRITING (- 1)) 2))
      = Some (None, small_filled)"
    by (subst each_up_ok) (simp_all add: small_filled_def small_written_def sem_data_opened sem_data_map_sems SEMVMX_def)
  then show ?thesis
    by (simp add: ipcbuf_mark_filled_def ipcbuf_is_writer_def locked_handle_def IPCBUF_INIT_def end_transfer_run
        small_written_def sem_data_opened sem_data_map_sems)
qed

lemma small_fetch: "ipcbuf_get_next_read small_filled (locked_handle READER 0) =
    Some (Some ((0, 0), 2), small_fetched, locked_handle READING 0)"
proof -
  have "sem_data small_filled 0 IPCBUF_SODACK = 7" "sem_data small_filled 0 IPCBUF_FULL = 1"
    "eod (sync small_filled) 0" "e_buf (sync small_filled) 0 = 0" "e_byte (sync small_filled) 0 = 2"
    "nbufs (sync small_filled) = 2" "r_xfers (sync small_filled) 0 = 0"
    by (simp_all add: small_filled_def small_written_def sem_data_opened sem_data_map_sems
        locked_handle_def IPCBUF_INIT_def)
  moreover have "s_buf (sync small_filled) 0 = 0" "s_byte (sync small_filled) 0 = 0"
    by (simp_all add: small_filled_def small_written_def sod_sync_def)
  ultimately show ?thesis
    using get_next_read_first [of "locked_handle READER 0" 0 small_filled]
      entered_commute [where i = 0 and r = small_filled and s = "start_read_sync (sync small_filled) 0"]
    by (simp add: locked_handle_def IPCBUF_INIT_def SEMVMX_def Let_def small_fetched_def
        read_bytes_def at_end_of_data_def)
qed

definition small_waiting :: stream where
  "small_waiting = (stream_start small_ring)
     \<lparr>the_ring := small_filled, writer := (locked_handle WRITER (- 1))\<lparr>xfer := 1\<rparr>,
      sent := [[7, 8]], ends := [0]\<rparr>"

lemma small_wait_steps: "stream_step\<^sup>*\<^sup>* (stream_start small_ring) small_waiting"
proof -
  let ?s0 = "stream_start small_ring"
  let ?s1 = "?s0\<lparr>the_ring := opened (started small_ring) 0, writer := locked_handle WRITING (- 1)\<rparr>"
  let ?s2 = "?s1\<lparr>the_ring := small_written\<rparr>"
  have "stream_step ?s0 ?s1"
    using stream_step.open_next [of ?s0 0 "opened (started small_ring) 0" "locked_handle WRITING (- 1)"] small_open
    by (simp add: stream_start_def)
  moreover have "stream_step ?s1 ?s2"
    using stream_step.put [of ?s1 0 "[7, 8, 9]"] by (simp add: small_written_def)
  moreover have "stream_step ?s2 small_waiting"
    using stream_step.short_fill [of ?s2 2 small_filled "(locked_handle WRITER (- 1))\<lparr>xfer := 1\<rparr>"] small_fill
    by (simp add: small_waiting_def small_written_def locked_handle_def stream_start_def word_less_nat_alt)
  ultimately show ?thesis
    by (meson rtranclp.rtrancl_into_rtrancl rtranclp.rtrancl_refl)
qed

lemma small_steps: "stream_step\<^sup>*\<^sup>* (stream_start small_ring) small_run"
proof -
  have "stream_step small_waiting small_run"
    using stream_step.fetch [of 0 small_waiting "((0, 0), 2)" small_fetched "locked_handle READING 0"] small_fetch
    by (simp add: small_run_def small_waiting_def stream_start_def small_fetched_def small_filled_def
        small_written_def bytes_at_def)
  then show ?thesis using small_wait_steps by (rule rtranclp.rtrancl_into_rtrancl [rotated])
qed

section \<open>The stream of sub-blocks\<close>

text \<open>C1. Along every run from a new ring, with any number of transfers and any
  interleaving of the writer and the readers, what a reader has been handed is a
  prefix of what the writer has marked filled: the same bytes, each sub-block
  once, in order, across transfers and with short last sub-blocks.\<close>

theorem readers_see_the_stream:
  assumes "fresh_data r" and "0 < nbufs (sync r)" and "stream_step\<^sup>*\<^sup>* (stream_start r) s"
    and "i \<in> set (readers (the_ring s))"
  shows "prefix (got s i) (sent s)"
  by (rule got_is_prefix [OF stream_run [OF assms(1-3)] assms(4)])

lemma small_reader: "0 \<in> set (readers (the_ring small_run))"
  by (simp add: small_run_def small_fetched_def small_filled_def small_written_def)

lemma readers_see_the_stream_witness: "prefix (got small_run 0) (sent small_run) \<and> got small_run 0 = [[7, 8]]"
  using readers_see_the_stream [OF small_ring_fresh small_steps small_reader] by (simp add: small_run_def)

lemma reader_position:
  assumes inv: "stream_inv s" and i: "i \<in> set (readers (the_ring s))" and "held s i"
  shows "going (reader s i) \<and> P_of (the_ring s) i + 1 = length (got s i)
     \<and> recl s \<le> P_of (the_ring s) i \<and> P_of (the_ring s) i < W_of (the_ring s)"
  using stream_invD(5) [OF inv i] stream_invD(4) [OF inv] assms(3)
  by (auto simp: reader_inv_def data_ok_def split: if_splits)

lemma held_slot_not_open:
  assumes inv: "stream_inv s" and i: "i \<in> set (readers (the_ring s))" and "held s i"
    and "W_of (the_ring s) \<le> j" and "j < N_of (the_ring s)"
  shows "j mod nb_of (the_ring s) \<noteq> read_slot (the_ring s) i"
proof
  assume "j mod nb_of (the_ring s) = read_slot (the_ring s) i"
  then have eq: "P_of (the_ring s) i mod nb_of (the_ring s) = j mod nb_of (the_ring s)" by (simp add: slot_unat)
  have "N_of (the_ring s) \<le> recl s + nb_of (the_ring s)"
    using stream_invD(1) [OF inv] by (simp add: blocks_inv_def)
  then have "j < P_of (the_ring s) i + nb_of (the_ring s)" "P_of (the_ring s) i < j"
    using reader_position [OF assms(1-3)] assms(4,5) by auto
  then show False using mod_close [OF eq] by simp
qed

text \<open>C3. The writer never has a sub-block open that a reader is still reading: the
  slot of the sub-block a reader holds differs from the slot of every sub-block
  opened and not yet marked filled.\<close>

theorem writer_never_overwrites_reader:
  assumes "fresh_data r" and "0 < nbufs (sync r)" and "stream_step\<^sup>*\<^sup>* (stream_start r) s"
    and "i \<in> set (readers (the_ring s))" and "held s i"
    and "W_of (the_ring s) \<le> j" and "j < N_of (the_ring s)"
  shows "j mod nb_of (the_ring s) \<noteq> read_slot (the_ring s) i"
  by (rule held_slot_not_open [OF stream_run [OF assms(1-3)] assms(4-7)])

text \<open>The small run goes on: the writer opens the other sub-block.\<close>

definition small_again :: ring where
  "small_again = opened (started small_fetched) 1"

lemma small_fetched_fields [simp]:
  "w_buf_curr (sync small_fetched) = 1" "w_buf_next (sync small_fetched) = 1" "nbufs (sync small_fetched) = 2"
  "bufsz (sync small_fetched) = 3" "n_readers (sync small_fetched) = 1" "w_xfer (sync small_fetched) = 1"
  "sem_data small_fetched 0 IPCBUF_SODACK = 8" "sem_data small_fetched 0 IPCBUF_FULL = 0"
  "sem_data small_fetched 0 IPCBUF_CLEAR = 0" "sem_data small_fetched 0 (Suc 0) = 7"
  "count small_fetched (Suc 0) = 0" "count small_fetched 0 = 1" "r_bufs (sync small_fetched) 0 = 0"
  "eod (sync small_fetched) 0" "e_buf (sync small_fetched) 0 = 0" "r_xfers (sync small_fetched) 0 = 0"
  by (simp_all add: small_fetched_def small_filled_def small_written_def sem_data_map_sems sem_data_opened
      sod_sync_def locked_handle_def IPCBUF_INIT_def)

lemma small_open_again:
  "ipcbuf_get_next_write small_fetched ((locked_handle WCHANGE (- 1))\<lparr>xfer := 1\<rparr>) =
    Some (Some 1, small_again, (locked_handle WRITING (- 1))\<lparr>xfer := 1\<rparr>)"
proof -
  have "ipcbuf_enable_sod small_fetched ((locked_handle WCHANGE (- 1))\<lparr>xfer := 1\<rparr>) 1 0 =
      Some (0, started small_fetched, (locked_handle WRITING (- 1))\<lparr>xfer := 1\<rparr>)"
    using enable_sod_none_written [of small_fetched "(locked_handle WCHANGE (- 1))\<lparr>xfer := 1\<rparr>" 0]
    by (simp add: sod_allowed_def ipcbuf_get_sod_minbuf_def locked_handle_def IPCBUF_INIT_def)
  then show ?thesis
    by (simp add: get_next_write_first get_next_write_opens ipcbuf_is_writer_def locked_handle_def small_again_def)
qed

lemma small_relock:
  "ipcbuf_unlock_write small_fetched ((locked_handle WRITER (- 1))\<lparr>xfer := 1\<rparr>) =
     Some (0, small_fetched\<lparr>sem_connect := (\<lambda>_. 0)(IPCBUF_WRITE := 1)\<rparr>, (locked_handle VIEWER (- 1))\<lparr>xfer := 1\<rparr>)"
  "ipcbuf_lock_write (small_fetched\<lparr>sem_connect := (\<lambda>_. 0)(IPCBUF_WRITE := 1)\<rparr>) ((locked_handle VIEWER (- 1))\<lparr>xfer := 1\<rparr>) =
     Some (0, small_fetched, (locked_handle WCHANGE (- 1))\<lparr>xfer := 1\<rparr>)"
proof -
  have c: "sem_connect small_fetched = (\<lambda>_. 0)" "w_state (sync small_fetched) = DISCON"
    by (simp_all add: small_fetched_def small_filled_def small_written_def) (simp add: small_ring_def)
  then have "small_fetched\<lparr>sem_connect := (\<lambda>_. 0)(0 := 0)\<rparr> = small_fetched"
    by (intro ring.equality) (simp_all add: fun_eq_iff)
  with c show "ipcbuf_unlock_write small_fetched ((locked_handle WRITER (- 1))\<lparr>xfer := 1\<rparr>) =
     Some (0, small_fetched\<lparr>sem_connect := (\<lambda>_. 0)(IPCBUF_WRITE := 1)\<rparr>, (locked_handle VIEWER (- 1))\<lparr>xfer := 1\<rparr>)"
    and "ipcbuf_lock_write (small_fetched\<lparr>sem_connect := (\<lambda>_. 0)(IPCBUF_WRITE := 1)\<rparr>) ((locked_handle VIEWER (- 1))\<lparr>xfer := 1\<rparr>) =
     Some (0, small_fetched, (locked_handle WCHANGE (- 1))\<lparr>xfer := 1\<rparr>)"
    by (simp_all add: ipcbuf_unlock_write_def ipcbuf_lock_write_def connect_semop_def ipc_semop_unit SEMVMX_def
        ipcbuf_is_writer_def locked_handle_def IPCBUF_INIT_def)
qed

definition small_run2 :: stream where
  "small_run2 = small_run\<lparr>the_ring := small_again, writer := (locked_handle WRITING (- 1))\<lparr>xfer := 1\<rparr>, recl := 0\<rparr>"

lemma small_steps2: "stream_step\<^sup>*\<^sup>* (stream_start small_ring) small_run2"
proof -
  let ?s4 = "small_run\<lparr>the_ring := small_fetched, writer := (locked_handle WCHANGE (- 1))\<lparr>xfer := 1\<rparr>\<rparr>"
  have "(sync small_fetched)\<lparr>w_buf_next := 1\<rparr> = sync small_fetched" by (rule ipcsync.equality) simp_all
  then have same: "small_fetched\<lparr>sync := (sync small_fetched)\<lparr>w_buf_next := 1\<rparr>\<rparr> = small_fetched" by simp
  have "stream_step small_run ?s4"
    using stream_step.relock [OF _ _ small_relock(2), of small_run] small_relock(1)
    by (simp add: small_run_def locked_handle_def stream_start_def same)
  moreover have "stream_step ?s4 small_run2"
    using stream_step.open_next [of ?s4 1 small_again "(locked_handle WRITING (- 1))\<lparr>xfer := 1\<rparr>"] small_open_again
    by (simp add: small_run2_def) (simp add: small_run_def stream_start_def)
  ultimately show ?thesis using small_steps
    by (meson rtranclp.rtrancl_into_rtrancl)
qed

lemma writer_never_overwrites_reader_witness:
  "held small_run2 0 \<and> W_of (the_ring small_run2) = 1 \<and> N_of (the_ring small_run2) = 2
   \<and> 1 mod nb_of (the_ring small_run2) \<noteq> read_slot (the_ring small_run2) 0"
proof -
  have f: "held small_run2 0" "W_of (the_ring small_run2) = 1" "N_of (the_ring small_run2) = 2"
    "0 \<in> set (readers (the_ring small_run2))"
    by (simp_all add: small_run2_def small_run_def small_again_def)
  then show ?thesis using writer_never_overwrites_reader [OF small_ring_fresh small_steps2 f(4,1), of 1] by simp
qed



section \<open>Progress\<close>

lemma caught_up_stopped:
  assumes inv: "stream_inv s" and i: "i \<in> set (readers (the_ring s))"
    and "got s i = sent s" and "\<not> held s i"
  shows "k_of (the_ring s) i = length (ends s)"
proof (rule ccontr)
  assume ne: "k_of (the_ring s) i \<noteq> length (ends s)"
  note rd = stream_invD(5) [OF inv i]
  have lt: "k_of (the_ring s) i < length (ends s)" using rd ne by (simp add: reader_inv_def acks_ok_def)
  have e: "ends s ! k_of (the_ring s) i < W_of (the_ring s)" by (rule es_in_range [OF stream_invD(2) [OF inv] lt])
  have l: "length (got s i) = W_of (the_ring s)" using stream_invD(4) [OF inv] assms(3) by simp
  have "start_of (ends s) (k_of (the_ring s) i) \<le> ends s ! k_of (the_ring s) i"
    using stream_invD(2) [OF inv] lt by (simp add: xfers_inv_def ends_ok_def)
  then show False
    using rd lt e l assms(4) by (cases "going (reader s i)") (auto simp: reader_inv_def data_ok_def)
qed

text \<open>A transfer may start at the sub-block behind the last one filled.\<close>

lemma first_write_allowed:
  assumes B: "blocks_inv r ss es c" and st: "state p = WCHANGE" and soclock: "soclock_buf p \<le> w_buf_curr (sync r)"
    and room: "N_of r < W_of r + nb_of r"
  shows "sod_allowed r p (w_buf_curr (sync r)) 0"
proof -
  have le: "W_of r \<le> N_of r" and nb: "0 < nb_of r" using B by (simp_all add: blocks_inv_def)
  have "ipcbuf_get_sod_minbuf r p \<le> w_buf_curr (sync r)"
  proof (cases "w_buf_next (sync r) - soclock_buf p < nbufs (sync r)")
    case False
    have "unat (w_buf_next (sync r) - soclock_buf p) \<le> N_of r"
      using soclock le by (simp add: unat_diff word_le_nat_alt)
    then have nN: "nb_of r \<le> N_of r" using False by (simp add: not_less word_le_nat_alt)
    then have d: "unat (w_buf_next (sync r) - nbufs (sync r)) = N_of r - nb_of r" by (simp add: unat_diff word_le_nat_alt)
    have "Suc (N_of r - nb_of r) < 2 ^ 64"
      using unat_less_length [of "w_buf_next (sync r)"] nN nb by simp
    then have "unat (w_buf_next (sync r) - nbufs (sync r) + 1) = N_of r - nb_of r + 1"
      using d by (simp add: unat_succ_bound)
    then show ?thesis
      using room False nN by (simp add: ipcbuf_get_sod_minbuf_def word_le_nat_alt Let_def)
  qed (use soclock in \<open>simp add: ipcbuf_get_sod_minbuf_def\<close>)
  with st le show ?thesis by (simp add: sod_allowed_def word_le_nat_alt)
qed

text \<open>C9. The writer is never blocked by readers that have caught up: when every
  reader has cleared all that was marked filled and not all sub-blocks are open, the
  next sub-block opens at once, in the middle of a transfer or at the start of one.\<close>

theorem writer_not_blocked:
  assumes "fresh_data r" and "0 < nbufs (sync r)" and "stream_step\<^sup>*\<^sup>* (stream_start r) s"
    and "\<forall>i\<in>set (readers (the_ring s)). got s i = sent s \<and> \<not> held s i"
    and "N_of (the_ring s) < W_of (the_ring s) + nb_of (the_ring s)"
    and "state (writer s) = WRITING \<or> state (writer s) = WCHANGE \<and> soclock_buf (writer s) = 0"
  shows "\<exists>b r' p'. ipcbuf_get_next_write (the_ring s) (writer s) = Some (Some b, r', p')"
proof -
  have inv: "stream_inv s" by (rule stream_run [OF assms(1-3)])
  note I = stream_invD [OF inv]
  let ?r = "the_ring s"
  have clear: "\<forall>i\<in>set (readers ?r). unat (count ?r (next_slot ?r)) \<le> sem_data ?r i IPCBUF_CLEAR"
  proof
    fix i assume i: "i \<in> set (readers ?r)"
    have c: "unat (count ?r (next_slot ?r)) = of_bool (recl s < W_of ?r \<and> N_of ?r = recl s + nb_of ?r)"
      by (rule blocks_next_count [OF I(1) assms(5)])
    have "sem_data ?r i IPCBUF_CLEAR + recl s = W_of ?r"
      using I(5) [OF i] I(4) assms(4) i by (simp add: reader_inv_def data_ok_def)
    with c show "unat (count ?r (next_slot ?r)) \<le> sem_data ?r i IPCBUF_CLEAR" by (auto simp: of_bool_def)
  qed
  show ?thesis
  proof (cases "state (writer s) = WCHANGE")
    case False
    then show ?thesis using assms(6) clear by (simp add: get_next_write_opens ipcbuf_is_writer_def)
  next
    case True
    have idle: "w_state (sync ?r) \<noteq> WRITING" using I(3) True by (auto simp: handle_inv_def)
    have "sem_data ?r i IPCBUF_SODACK = 8" if i: "i \<in> set (readers ?r)" for i
    proof -
      have "got s i = sent s" "\<not> held s i" using assms(4) i by auto
      then have "k_of ?r i = length (ends s)" by (rule caught_up_stopped [OF inv i])
      then show ?thesis using I(5) [OF i] idle by (auto simp: reader_inv_def acks_ok_def begun_def)
    qed
    moreover have "sod_allowed ?r (writer s) (w_buf_curr (sync ?r)) 0"
      using first_write_allowed [OF I(1) True _ assms(5)] assms(6) True by simp
    ultimately show ?thesis
      using True clear enable_sod_none_written [of ?r "writer s" 0]
      by (simp add: get_next_write_first get_next_write_opens ipcbuf_is_writer_def sem_data_map_sems)
  qed
qed

lemma writer_not_blocked_witness:
  "\<exists>b r' p'. ipcbuf_get_next_write small_ring (locked_handle WCHANGE (- 1)) = Some (Some b, r', p')"
  using writer_not_blocked [OF small_ring_fresh, of "stream_start small_ring"]
  by (simp add: stream_start_def locked_handle_def IPCBUF_INIT_def)

text \<open>C10. A reader is never blocked while data it has not been handed are in the ring:
  its next read completes, unless it has reached an end of data it has yet to
  acknowledge with a reset.\<close>

theorem reader_not_blocked:
  assumes "fresh_data r" and "0 < nbufs (sync r)" and "stream_step\<^sup>*\<^sup>* (stream_start r) s"
    and "i \<in> set (readers (the_ring s))" and "\<not> held s i" and "state (reader s i) \<noteq> RSTOP"
    and "got s i \<noteq> sent s"
  shows "\<exists>d r' p'. ipcbuf_get_next_read (the_ring s) (reader s i) = Some (Some d, r', p')
     \<and> bytes_at r' d = sent s ! length (got s i)"
proof -
  have inv: "stream_inv s" by (rule stream_run [OF assms(1-3)])
  note I = stream_invD [OF inv]
  have rd: "reader_inv (the_ring s) (sent s) (ends s) (recl s) i (reader s i) False (got s i)"
    using I(5) [OF assms(4)] assms(5) by simp
  have "length (got s i) < length (sent s)"
    using rd assms(7) by (auto simp: reader_inv_def data_ok_def intro: ccontr)
  then have full: "0 < sem_data (the_ring s) i IPCBUF_FULL"
    using rd by (auto simp: reader_inv_def data_ok_def)
  have i: "iread (reader s i) = int i" and is_r: "ipcbuf_is_reader (reader s i)"
    and sod: "sem_data (the_ring s) i IPCBUF_SODACK < SEMVMX"
    using rd by (auto simp: reader_inv_def acks_ok_def SEMVMX_def)
  have "\<exists>d r' p'. ipcbuf_get_next_read (the_ring s) (reader s i) = Some (Some d, r', p')"
  proof (cases "going (reader s i)")
    case True
    then show ?thesis using full i by (simp add: get_next_read_reading)
  next
    case False
    then have "state (reader s i) = READER" using is_r assms(6) by (simp add: ipcbuf_is_reader_def)
    then show ?thesis using full i sod by (simp add: get_next_read_first Let_def)
  qed
  then obtain d r' p' where run: "ipcbuf_get_next_read (the_ring s) (reader s i) = Some (Some d, r', p')" by blast
  have "reader_inv r' (sent s) (ends s) (recl s) i p' True (got s i @ [bytes_at r' d])"
    by (rule fetch_reader [OF I(1,2) rd run])
  then have "got s i @ [bytes_at r' d] = take (length (got s i @ [bytes_at r' d])) (sent s)"
    by (simp add: reader_inv_def data_ok_def)
  then have "bytes_at r' d = sent s ! length (got s i)"
    by (metis (no_types) length_append_singleton lessI nth_append_length nth_take)
  with run show ?thesis by blast
qed

lemma reader_not_blocked_witness:
  "\<exists>d r' p'. ipcbuf_get_next_read small_filled (locked_handle READER 0) = Some (Some d, r', p')
     \<and> bytes_at r' d = [7, 8]"
proof -
  have "0 \<in> set (readers (the_ring small_waiting))"
    by (simp add: small_waiting_def small_filled_def small_written_def)
  then show ?thesis
    using reader_not_blocked [OF small_ring_fresh small_wait_steps, of 0]
    by (simp add: small_waiting_def) (simp add: stream_start_def locked_handle_def)
qed

end
