(* ===== verification/Ring_Admin_Properties.thy ===== *)
theory Ring_Admin_Properties
  imports Ring_Properties
begin

text \<open>
  Properties of the operations around the data path: the writer's lock, the order
  in which free readers are claimed, the two resets, and the life of a ring from
  its creation to its destruction.
\<close>

section \<open>The ledger of a ring\<close>

text \<open>C7. Along every run of the ring operations, in both writing modes and over any
  number of transfers, the semaphores of each reader account for every sub-block: those it
  has yet to read, the one it holds and those it has cleared add up to the sub-blocks that are
  announced and not taken back by the writer.\<close>

theorem semaphores_account_for_every_block:
  assumes "ring_step\<^sup>*\<^sup>* w w'" and "ledger_inv w" and "i \<in> set (readers (the_ring w'))"
  shows "sem_data (the_ring w') i IPCBUF_FULL + of_bool (held w' i) + sem_data (the_ring w') i IPCBUF_CLEAR
    = pending (the_ring w')"
  by (rule run_ledger [OF assms])

definition small_world :: world where
  "small_world = \<lparr>the_ring = small_ring, writer = locked_handle WCHANGE (- 1),
     reader = (\<lambda>i. locked_handle READER (int i)), held = (\<lambda>_. False)\<rparr>"

abbreviation (input) small_full :: ring where
  "small_full \<equiv> filled (opened (started small_ring) 0)"

lemma semaphores_account_for_every_block_witness:
  "\<exists>w'. ring_step\<^sup>*\<^sup>* small_world w' \<and> pending (the_ring w') = 1
     \<and> sem_data (the_ring w') 0 IPCBUF_FULL + of_bool (held w' 0) + sem_data (the_ring w') 0 IPCBUF_CLEAR = 1"
proof -
  let ?w1 = "small_world\<lparr>the_ring := opened (started small_ring) 0, writer := locked_handle WRITING (- 1)\<rparr>"
  let ?w2 = "?w1\<lparr>the_ring := small_full, writer := locked_handle WRITING (- 1)\<rparr>"
  have "each (data_semop IPCBUF_FULL 1 False) [0] (count_filled (opened (started small_ring) 0)) = Some (None, small_full)"
    by (subst each_up_ok) (simp_all add: sem_data_opened sem_data_map_sems SEMVMX_def)
  then have m: "ipcbuf_mark_filled (opened (started small_ring) 0) (locked_handle WRITING (- 1)) 3 =
      Some (0, small_full, locked_handle WRITING (- 1))"
    by (simp add: ipcbuf_mark_filled_def ipcbuf_is_writer_def locked_handle_def)
  have "ring_step small_world ?w1"
    using ring_step.open_write [of small_world 0 "opened (started small_ring) 0" "locked_handle WRITING (- 1)"] small_open
    by (simp add: small_world_def)
  moreover have "ring_step ?w1 ?w2"
    using ring_step.mark [of ?w1 3 small_full "locked_handle WRITING (- 1)"] m
    by (simp add: locked_handle_def)
  ultimately have run: "ring_step\<^sup>*\<^sup>* small_world ?w2" by (meson rtranclp.rtrancl_into_rtrancl rtranclp.rtrancl_refl)
  have inv: "ledger_inv small_world"
    by (simp add: ledger_inv_def accounts_def small_world_def pending_def locked_handle_def)
  have i: "0 \<in> set (readers (the_ring ?w2))" by simp
  have "{..<2} = {0, 1 :: nat}" by auto
  then have "pending small_full = 1" by (simp add: pending_def)
  then show ?thesis
    using run semaphores_account_for_every_block [OF run inv i] by (intro exI [of _ ?w2]) simp
qed

section \<open>The writer's lock\<close>

text \<open>At most one process is the designated writer: once a process has locked a new
  ring for writing, every other attempt sleeps, and unlocking makes the lock available again.\<close>

theorem one_writer:
  assumes "fresh_ring r" and "ipcbuf_lock_write r p = Some (0, r', p')" and "state q = VIEWER"
  shows "ipcbuf_lock_write r' q = None
    \<and> (\<exists>r'' p''. ipcbuf_unlock_write r' p' = Some (0, r'', p'')
         \<and> (\<exists>r3 q'. ipcbuf_lock_write r'' q = Some (0, r3, q')))"
  using assms
  by (auto simp: ipcbuf_lock_write_def ipcbuf_unlock_write_def connect_semop_def ipc_semop_unit fresh_ring_def
      ipcbuf_is_writer_def SEMVMX_def split: if_splits)

definition free_ring :: ring where
  "free_ring = small_ring\<lparr>sem_connect := (\<lambda>_. 0)(IPCBUF_WRITE := 1, IPCBUF_READ := 1),
     sem_data := (\<lambda>i. (sem_data small_ring i)(IPCBUF_READER_CONN := 1))\<rparr>"

lemma free_ring_fresh: "fresh_ring free_ring"
  using small_ring_fresh by (simp add: fresh_ring_def fresh_data_def free_ring_def)

lemma one_writer_witness:
  "\<exists>r' p'. ipcbuf_lock_write free_ring (locked_handle VIEWER (- 1)) = Some (0, r', p')
      \<and> ipcbuf_lock_write r' (locked_handle VIEWER (- 1)) = None"
proof -
  obtain r' where l: "ipcbuf_lock_write free_ring (locked_handle VIEWER (- 1)) = Some (0, r', locked_handle WCHANGE (- 1))"
    using lock_write_fresh [OF free_ring_fresh] by blast
  show ?thesis
    using l one_writer [OF free_ring_fresh l, of "locked_handle VIEWER (- 1)"] by (auto simp: locked_handle_def)
qed

section \<open>The order of the readers\<close>

text \<open>One pass finds a reader with the least count among those not used yet.\<close>

lemma pick_oldest_upto:
  fixes bufs :: "nat \<Rightarrow> u64"
  shows "fold (\<lambda>i (val, pos). if bufs i < val \<and> Some i \<notin> set used then (bufs i, Some i) else (val, pos)) [0..<n] (- 1, None)
      = (v, pos) \<Longrightarrow>
   (case pos of
      None \<Rightarrow> v = - 1 \<and> (\<forall>i<n. Some i \<in> set used \<or> bufs i = - 1)
    | Some j \<Rightarrow> j < n \<and> Some j \<notin> set used \<and> v = bufs j \<and> (\<forall>i<n. Some i \<notin> set used \<longrightarrow> bufs j \<le> bufs i))"
proof (induction n arbitrary: v pos)
  case (Suc n)
  obtain v0 pos0 where f: "fold (\<lambda>i (val, pos). if bufs i < val \<and> Some i \<notin> set used then (bufs i, Some i) else (val, pos))
      [0..<n] (- 1, None) = (v0, pos0)" by (cases "fold (\<lambda>i (val, pos). if bufs i < val \<and> Some i \<notin> set used then (bufs i, Some i) else (val, pos))
      [0..<n] (- 1, None)") auto
  have step: "(v, pos) = (if bufs n < v0 \<and> Some n \<notin> set used then (bufs n, Some n) else (v0, pos0))"
    using Suc.prems f by simp
  have max: "- 1 \<le> bufs n \<Longrightarrow> bufs n = - 1"
    using word_order.not_eq_extremum [of "bufs n"] by (simp add: not_less [symmetric])
  from Suc.IH [OF f] step show ?case
    by (cases pos0) (auto simp: less_Suc_eq not_less split: if_splits dest: max intro: order.trans less_imp_le)
qed simp

lemma pick_oldest_Some:
  assumes "snd (pick_oldest bufs n used) = Some j"
  shows "j < n \<and> Some j \<notin> set used \<and> (\<forall>i<n. Some i \<notin> set used \<longrightarrow> bufs j \<le> bufs i)"
proof -
  obtain v pos where p: "pick_oldest bufs n used = (v, pos)" by (cases "pick_oldest bufs n used")
  show ?thesis using pick_oldest_upto [OF p [unfolded pick_oldest_def]] p assms by simp
qed

lemma pick_oldest_None:
  assumes "snd (pick_oldest bufs n used) = None" and "i < n"
  shows "Some i \<in> set used \<or> bufs i = - 1"
proof -
  obtain v pos where p: "pick_oldest bufs n used = (v, pos)" by (cases "pick_oldest bufs n used")
  show ?thesis using pick_oldest_upto [OF p [unfolded pick_oldest_def]] p assms by simp
qed

text \<open>The loop, up to its \<open>m\<close>-th round.\<close>

lemma reader_order_upto:
  assumes "\<forall>i<n. bufs i \<noteq> - 1" and "m \<le> n"
  shows "\<exists>js. fold (\<lambda>ipos xs. xs @ [snd (pick_oldest bufs n xs)]) [0..<m] [] = map Some js
     \<and> length js = m \<and> distinct js \<and> set js \<subseteq> {..<n} \<and> sorted (map bufs js)
     \<and> (\<forall>i<n. i \<notin> set js \<longrightarrow> (\<forall>j\<in>set js. bufs j \<le> bufs i))"
  using assms(2)
proof (induction m)
  case (Suc m)
  then obtain js where js: "fold (\<lambda>ipos xs. xs @ [snd (pick_oldest bufs n xs)]) [0..<m] [] = map Some js"
    and p: "length js = m" "distinct js" "set js \<subseteq> {..<n}" "sorted (map bufs js)"
      "\<forall>i<n. i \<notin> set js \<longrightarrow> (\<forall>j\<in>set js. bufs j \<le> bufs i)" by auto
  have "card (set js) < n" using p(1,2) Suc.prems by (simp add: distinct_card)
  then obtain i where i: "i < n" "i \<notin> set js"
    using p(3) by (metis card_lessThan lessThan_iff order_less_irrefl subsetI subset_antisym)
  have "snd (pick_oldest bufs n (map Some js)) \<noteq> None"
    using pick_oldest_None [OF _ i(1)] i assms(1) by force
  then obtain j where j: "snd (pick_oldest bufs n (map Some js)) = Some j" by auto
  have sel: "j < n" "j \<notin> set js" "\<forall>i<n. i \<notin> set js \<longrightarrow> bufs j \<le> bufs i"
    using pick_oldest_Some [OF j] by auto
  show ?case
    using js j p sel by (intro exI [of _ "js @ [j]"]) (auto simp: sorted_append)
qed simp

text \<open>A process that asks to read tries the readers of the ring in the order of
  their progress: the list computed by the selection loops of \<open>ipcbuf_lock_read\<close> names every
  reader exactly once and is sorted by the number of sub-blocks read.\<close>

theorem readers_tried_by_progress:
  assumes "\<forall>i<n. bufs i \<noteq> - 1"
  shows "\<exists>js. reader_order bufs n = map Some js \<and> distinct js \<and> set js = {..<n} \<and> sorted (map bufs js)"
proof -
  obtain js where js: "reader_order bufs n = map Some js" "length js = n" "distinct js" "set js \<subseteq> {..<n}"
      "sorted (map bufs js)"
    using reader_order_upto [OF assms order.refl] by (auto simp: reader_order_def)
  then have "set js = {..<n}" by (intro card_subset_eq) (auto simp: distinct_card)
  with js show ?thesis by blast
qed

lemma readers_tried_by_progress_witness:
  "\<exists>js. reader_order ((\<lambda>_. 5 :: u64)(1 := 2, 2 := 9)) 3 = map Some js \<and> distinct js \<and> set js = {..<3}
     \<and> sorted (map ((\<lambda>_. 5 :: u64)(1 := 2, 2 := 9)) js)"
  by (rule readers_tried_by_progress) simp

section \<open>Reset\<close>

text \<open>Draining the sub-blocks of a list.\<close>

lemma drain_list:
  assumes "each (\<lambda>b r. drain_count (unat (count r b)) b r) bs r = Some (e, r')" and "distinct bs"
  shows "e = None \<and> (\<forall>i\<in>set (readers r). (\<Sum>b\<leftarrow>bs. unat (count r b)) \<le> sem_data r i IPCBUF_CLEAR)
    \<and> r' = (map_sems (\<lambda>v. v - (\<Sum>b\<leftarrow>bs. unat (count r b))) IPCBUF_CLEAR (readers r) r)
              \<lparr>count := (\<lambda>b. if b \<in> set bs then 0 else count r b)\<rparr>"
  using assms
proof (induction bs arbitrary: r)
  case (Cons b bs)
  obtain e1 r1 where one: "drain_count (unat (count r b)) b r = Some (e1, r1)"
    using Cons.prems(1) by (cases "drain_count (unat (count r b)) b r") auto
  note d = drain_count_closed [OF one]
  have r1: "r1 = (map_sems (\<lambda>v. v - unat (count r b)) IPCBUF_CLEAR (readers r) r)\<lparr>count := (count r)(b := 0)\<rparr>"
    and e1: "e1 = None" and le: "\<forall>i\<in>set (readers r). unat (count r b) \<le> sem_data r i IPCBUF_CLEAR"
    using d by simp_all
  have rest: "each (\<lambda>b r. drain_count (unat (count r b)) b r) bs r1 = Some (e, r')"
    using Cons.prems(1) one e1 by simp
  have same: "(\<Sum>x\<leftarrow>bs. unat (count r1 x)) = (\<Sum>x\<leftarrow>bs. unat (count r x))"
    using Cons.prems(2) r1 by (intro arg_cong [where f = sum_list] map_cong) auto
  have ih: "e = None \<and> (\<forall>i\<in>set (readers r1). (\<Sum>b\<leftarrow>bs. unat (count r1 b)) \<le> sem_data r1 i IPCBUF_CLEAR)
    \<and> r' = (map_sems (\<lambda>v. v - (\<Sum>b\<leftarrow>bs. unat (count r1 b))) IPCBUF_CLEAR (readers r1) r1)
              \<lparr>count := (\<lambda>b. if b \<in> set bs then 0 else count r1 b)\<rparr>"
    using Cons.IH [OF rest] Cons.prems(2) by simp
  have "(\<Sum>x\<leftarrow>b # bs. unat (count r x)) \<le> sem_data r i IPCBUF_CLEAR" if "i \<in> set (readers r)" for i
  proof -
    have "(\<Sum>x\<leftarrow>bs. unat (count r x)) \<le> sem_data r1 i IPCBUF_CLEAR" using ih that same r1 by simp
    moreover have "unat (count r b) \<le> sem_data r i IPCBUF_CLEAR" using that le by blast
    ultimately show ?thesis using that r1 by (simp add: sem_data_map_sems)
  qed
  moreover have "r' = (map_sems (\<lambda>v. v - (\<Sum>x\<leftarrow>b # bs. unat (count r x))) IPCBUF_CLEAR (readers r) r)
              \<lparr>count := (\<lambda>x. if x \<in> set (b # bs) then 0 else count r x)\<rparr>"
    using ih unfolding same by (auto simp: r1 map_sems_def fun_eq_iff)
  ultimately show ?case using ih by blast
qed simp

lemma reset_reader_Some:
  assumes "reset_reader i r = Some (None, r')"
  shows "8 \<le> sem_data r i IPCBUF_SODACK \<and> 8 \<le> sem_data r i IPCBUF_EODACK
    \<and> r' = r\<lparr>sync := (sync r)\<lparr>r_bufs := (r_bufs (sync r))(i := 0), r_xfers := (r_xfers (sync r))(i := 0)\<rparr>\<rparr>"
proof -
  have down: "data_semop num (- 8) False i s = Some (None, s') \<longleftrightarrow>
      8 \<le> sem_data s i num \<and> s' = map_sems (\<lambda>v. v - 8) num [i] s" for num s s'
    using ipc_semop_sub [of 8] by (auto simp: data_semop_def SEMVMX_def map_sems_def fun_eq_iff split: if_splits)
  have up: "data_semop num 8 False i s = Some (None, s') \<longleftrightarrow>
      sem_data s i num + 8 \<le> SEMVMX \<and> s' = map_sems (\<lambda>v. v + 8) num [i] s" for num s s'
    using data_semop_add_iff [of 8 num False i s] by (auto simp: SEMVMX_def)
  have "r' = (map_sems (\<lambda>v. v + 8) IPCBUF_EODACK [i] (map_sems (\<lambda>v. v + 8) IPCBUF_SODACK [i]
      (map_sems (\<lambda>v. v - 8) IPCBUF_EODACK [i] (map_sems (\<lambda>v. v - 8) IPCBUF_SODACK [i] r))))
      \<lparr>sync := (sync r)\<lparr>r_bufs := (r_bufs (sync r))(i := 0), r_xfers := (r_xfers (sync r))(i := 0)\<rparr>\<rparr>
    \<and> 8 \<le> sem_data r i IPCBUF_SODACK \<and> 8 \<le> sem_data r i IPCBUF_EODACK"
    using assms
    by (auto simp: reset_reader_def down up sem_data_map_sems split: if_splits bind_splits)
  then show ?thesis by (auto simp: map_sems_def fun_eq_iff)
qed

lemma reset_readers:
  assumes "each reset_reader is r = Some (None, r')"
  shows "(\<forall>i\<in>set is. 8 \<le> sem_data r i IPCBUF_SODACK \<and> 8 \<le> sem_data r i IPCBUF_EODACK)
    \<and> r' = r\<lparr>sync := (sync r)\<lparr>r_bufs := (\<lambda>i. if i \<in> set is then 0 else r_bufs (sync r) i),
                              r_xfers := (\<lambda>i. if i \<in> set is then 0 else r_xfers (sync r) i)\<rparr>\<rparr>"
  using assms
proof (induction "is" arbitrary: r)
  case (Cons i "is")
  then obtain r1 where one: "reset_reader i r = Some (None, r1)" and rest: "each reset_reader is r1 = Some (None, r')"
    by (auto split: option.splits)
  from reset_reader_Some [OF one] Cons.IH [OF rest] show ?case by (auto simp: fun_eq_iff)
qed simp

lemma reset_Some:
  assumes run: "ipcbuf_reset r p = Some (0, r', p')" and "ipcbuf_is_writer p"
    and "w_buf_curr (sync r) \<noteq> 0 \<or> w_buf_next (sync r) \<noteq> 0"
  shows "p' = p \<and> w_buf_curr (sync r') = 0 \<and> w_buf_next (sync r') = 0 \<and> w_xfer (sync r') = 0
    \<and> (\<forall>x<8. eod (sync r') x) \<and> nbufs (sync r') = nbufs (sync r) \<and> n_readers (sync r') = n_readers (sync r)
    \<and> (\<forall>b<unat (nbufs (sync r)). count r' b = 0)
    \<and> (\<forall>i\<in>set (readers r). pending r \<le> sem_data r i IPCBUF_CLEAR \<and> r_bufs (sync r') i = 0 \<and> r_xfers (sync r') i = 0
         \<and> 8 \<le> sem_data r i IPCBUF_SODACK \<and> 8 \<le> sem_data r i IPCBUF_EODACK
         \<and> sem_data r' i = (sem_data r i)(IPCBUF_CLEAR := sem_data r i IPCBUF_CLEAR - pending r))"
proof -
  have "state p \<noteq> RSTOP" using assms(2) by (auto simp: ipcbuf_is_writer_def)
  then obtain e r1 where dr: "drain_all r = Some (e, r1)" "e = None"
    and rest: "\<exists>r2. each reset_reader (readers r1) r1 = Some (None, r2) \<and> p' = p \<and>
      r' = r2\<lparr>sync := (sync r2)\<lparr>w_buf_curr := 0, w_buf_next := 0, w_xfer := 0,
                                 eod := (\<lambda>ix. ix < IPCBUF_XFERS \<or> eod (sync r2) ix)\<rparr>\<rparr>"
    using assms by (auto simp: ipcbuf_reset_def split: if_splits bind_splits cong: if_cong)
  have sum: "(\<Sum>b\<leftarrow>[0..<unat (nbufs (sync r))]. unat (count r b)) = pending r"
    by (simp add: pending_def interv_sum_list_conv_sum_set_nat atLeast0LessThan)
  note d = drain_list [OF dr(1) [unfolded drain_all_def] distinct_upt, unfolded sum]
  from rest obtain r2 where r2: "each reset_reader (readers r1) r1 = Some (None, r2)" and p': "p' = p"
    and r': "r' = r2\<lparr>sync := (sync r2)\<lparr>w_buf_curr := 0, w_buf_next := 0, w_xfer := 0,
                                 eod := (\<lambda>ix. ix < IPCBUF_XFERS \<or> eod (sync r2) ix)\<rparr>\<rparr>" by blast
  note rr = reset_readers [OF r2]
  have r1: "r1 = (map_sems (\<lambda>v. v - pending r) IPCBUF_CLEAR (readers r) r)
      \<lparr>count := (\<lambda>b. if b \<in> set [0..<unat (nbufs (sync r))] then 0 else count r b)\<rparr>"
    and le: "\<forall>i\<in>set (readers r). pending r \<le> sem_data r i IPCBUF_CLEAR" using d by simp_all
  have "sem_data r1 i = (sem_data r i)(IPCBUF_CLEAR := sem_data r i IPCBUF_CLEAR - pending r)" if "i \<in> set (readers r)" for i
    using that by (simp add: r1 map_sems_def)
  then show ?thesis using rr le p' by (simp add: r' r1 sem_data_map_sems)
qed

text \<open>A reset of the ring completes only when every reader has cleared every sub-block and
  acknowledged every transfer, and it leaves a ring without a trace of them: no pending
  sub-block, no full or cleared one, and all counters of writer and readers at zero.\<close>

theorem reset_empties_the_ring:
  assumes "accounts h r" and "ipcbuf_is_writer p" and "w_buf_curr (sync r) \<noteq> 0 \<or> w_buf_next (sync r) \<noteq> 0"
    and "ipcbuf_reset r p = Some (0, r', p')"
  shows "pending r' = 0 \<and> w_buf_curr (sync r') = 0 \<and> w_buf_next (sync r') = 0 \<and> w_xfer (sync r') = 0
    \<and> (\<forall>i\<in>set (readers r). \<not> h i \<and> sem_data r' i IPCBUF_FULL = 0 \<and> sem_data r' i IPCBUF_CLEAR = 0
         \<and> IPCBUF_XFERS \<le> sem_data r' i IPCBUF_SODACK \<and> IPCBUF_XFERS \<le> sem_data r' i IPCBUF_EODACK
         \<and> r_bufs (sync r') i = 0 \<and> r_xfers (sync r') i = 0)"
proof -
  note reset = reset_Some [OF assms(4,2,3)]
  have "pending r' = 0" using reset by (simp add: pending_def)
  moreover have "\<not> h i \<and> sem_data r i IPCBUF_FULL = 0 \<and> sem_data r i IPCBUF_CLEAR = pending r"
    if i: "i \<in> set (readers r)" for i
  proof -
    have "pending r \<le> sem_data r i IPCBUF_CLEAR" using reset i by blast
    moreover have "sem_data r i IPCBUF_FULL + of_bool (h i) + sem_data r i IPCBUF_CLEAR = pending r"
      by (rule accountsD [OF assms(1) i])
    ultimately show ?thesis by (cases "h i") simp_all
  qed
  ultimately show ?thesis using reset by simp
qed

definition clocked_ring :: ring where
  "clocked_ring = small_ring\<lparr>sync := (sync small_ring)\<lparr>w_buf_curr := 1, w_buf_next := 1\<rparr>\<rparr>"

lemma clocked_reset:
  "\<exists>r'. ipcbuf_reset clocked_ring (locked_handle WRITER (- 1)) = Some (0, r', locked_handle WRITER (- 1))"
proof -
  have "[0..<2] = [0, 1 :: nat]" by (simp add: upt_rec)
  then show ?thesis
    by (simp add: ipcbuf_reset_def ipcbuf_is_writer_def locked_handle_def clocked_ring_def drain_all_def
        reset_reader_def data_semop_def ipc_semop_def semop_val_def c_short_small SEMVMX_def)
qed

lemma reset_empties_the_ring_witness:
  "\<exists>r'. ipcbuf_reset clocked_ring (locked_handle WRITER (- 1)) = Some (0, r', locked_handle WRITER (- 1))
     \<and> pending r' = 0 \<and> w_buf_curr (sync r') = 0"
proof -
  obtain r' where run: "ipcbuf_reset clocked_ring (locked_handle WRITER (- 1)) = Some (0, r', locked_handle WRITER (- 1))"
    using clocked_reset by blast
  have "accounts (\<lambda>_. False) clocked_ring"
    by (simp add: accounts_def clocked_ring_def pending_def)
  moreover have "ipcbuf_is_writer (locked_handle WRITER (- 1))" by (simp add: ipcbuf_is_writer_def locked_handle_def)
  moreover have "w_buf_curr (sync clocked_ring) \<noteq> 0 \<or> w_buf_next (sync clocked_ring) \<noteq> 0"
    by (simp add: clocked_ring_def)
  ultimately show ?thesis using reset_empties_the_ring [OF _ _ _ run] run by blast
qed



text \<open>\<open>ipcbuf_zero_next_write\<close> waits for cleared sub-blocks even when the slot it is to
  fill has never been written: on a new ring with a reader it does not return.\<close>

theorem zero_next_write_on_a_new_ring:
  assumes "fresh_data r" and "0 < unat (n_readers (sync r))" and "ipcbuf_is_writer p"
  shows "ipcbuf_zero_next_write r p = None"
  using assms by (auto simp: ipcbuf_zero_next_write_def Let_def fresh_data_def)

lemma zero_next_write_on_a_new_ring_witness:
  "ipcbuf_zero_next_write small_ring (locked_handle WRITER (- 1)) = None"
  by (rule zero_next_write_on_a_new_ring [OF small_ring_fresh(1)])
    (simp_all add: ipcbuf_is_writer_def locked_handle_def)

section \<open>The life of a ring\<close>

text \<open>C13. Creating a ring whose names are free succeeds, and what it makes is an empty ring of the
  requested shape: all sub-blocks present and unused, eight start and eight end acknowledgements
  for every reader, the locks of one writer and of all readers available. Any process that
  connects with the same key gets the same identifiers, hence the same ring.\<close>

theorem create_then_connect:
  assumes "keys_free key (unat nb) w" and "unat nr \<le> 8"
  shows "\<exists>a' p' w' r. ipcbuf_create key nb bs nr a p w = Some (0, a', p', w') \<and> state p' = VIEWER
     \<and> ring_of w' a' = Some r \<and> fresh_ring r
     \<and> nbufs (sync r) = nb \<and> bufsz (sync r) = bs \<and> n_readers (sync r) = nr
     \<and> (\<forall>b q. \<exists>q'. ipcbuf_connect key b q w' = (0, a', q', w') \<and> state q' = VIEWER)"
proof -
  let ?a = "new_attached (next_id w) (unat nr) (unat nb)"
  let ?p = "p\<lparr>state := VIEWER, viewbuf := 0, xfer := 0, soclock_buf := 0, iread := - 1\<rparr>"
  obtain w' where w': "ipcbuf_create key nb bs nr a p w = Some (0, ?a, ?p, w')" "has_ring w w' key nb bs nr"
    using create_new [OF assms] by blast
  obtain r where r: "ring_of w' ?a = Some r" "fresh_ring r" "nbufs (sync r) = nb" "bufsz (sync r) = bs"
      "n_readers (sync r) = nr"
    using has_ring_fresh [OF w'(2)] by blast
  have "ipcbuf_connect key b q w' = (0, ?a, q\<lparr>state := VIEWER, viewbuf := 0\<rparr>, w')" for b q
    by (rule connect_new [OF assms w'(2)])
  with w'(1) r show ?thesis by (intro exI [of _ ?a] exI [of _ ?p] exI [of _ w'] exI [of _ r]) auto
qed

definition empty_os :: os where
  "empty_os = \<lparr>next_id = 0, shm_of = (\<lambda>_. None), sem_of = (\<lambda>_. None), segment_at = (\<lambda>_. None), sem_set = (\<lambda>_. None)\<rparr>"

lemma key_at_nonzero: "unat key mod 65536 \<noteq> 0 \<Longrightarrow> key_at key i \<noteq> 0"
  using key_at_low [of key i] by auto

lemma empty_os_free: "keys_free 0xdada 2 empty_os"
  by (simp add: keys_free_def empty_os_def key_at_nonzero)

lemma create_then_connect_witness:
  "\<exists>a' p' w' r. ipcbuf_create 0xdada 2 3 1 ATTACHED_INIT IPCBUF_INIT empty_os = Some (0, a', p', w')
     \<and> ring_of w' a' = Some r \<and> fresh_ring r"
proof -
  have "keys_free 0xdada (unat (2 :: u64)) empty_os" "unat (1 :: u32) \<le> 8" by (simp_all add: empty_os_free)
  from create_then_connect [OF this, of 3 ATTACHED_INIT IPCBUF_INIT] show ?thesis by blast
qed

text \<open>Destroying a ring gives back exactly the names its creation took: afterwards the
  namespace of keys is what it was before, so the ring can be created again.\<close>

theorem destroy_undoes_create:
  assumes "keys_free key (unat nb) w" and "unat nr \<le> 8" and "os_ok w"
    and "ipcbuf_create key nb bs nr a p w = Some (0, a', p', w')"
    and "ipcbuf_destroy a' w' = (rc, a'', w'')"
  shows "rc = 0 \<and> shm_of w'' = shm_of w \<and> sem_of w'' = sem_of w \<and> keys_free key (unat nb) w''"
proof -
  have "a' = new_attached (next_id w) (unat nr) (unat nb)" "has_ring w w' key nb bs nr"
    using create_new [OF assms(1,2), of bs a p] assms(4) by auto
  then have "rc = 0 \<and> a'' = ATTACHED_INIT \<and> shm_of w'' = shm_of w \<and> sem_of w'' = sem_of w"
    using destroy_restores [OF assms(1-3)] assms(5) by blast
  with assms(1) show ?thesis by (simp add: keys_free_def)
qed

lemma destroy_undoes_create_witness:
  "\<exists>a' p' w' rc a'' w''. ipcbuf_create 0xdada 2 3 1 ATTACHED_INIT IPCBUF_INIT empty_os = Some (0, a', p', w')
     \<and> ipcbuf_destroy a' w' = (rc, a'', w'') \<and> shm_of w'' = (\<lambda>_. None) \<and> sem_of w'' = (\<lambda>_. None)"
proof -
  have free: "keys_free 0xdada (unat (2 :: u64)) empty_os" and nr: "unat (1 :: u32) \<le> 8"
    by (simp_all add: empty_os_free)
  have ok: "os_ok empty_os" by (simp add: os_ok_def empty_os_def)
  obtain a' p' w' where c: "ipcbuf_create 0xdada 2 3 1 ATTACHED_INIT IPCBUF_INIT empty_os = Some (0, a', p', w')"
    using create_new [OF free nr, of 3 ATTACHED_INIT IPCBUF_INIT] by blast
  obtain rc a'' w'' where d: "ipcbuf_destroy a' w' = (rc, a'', w'')" by (cases "ipcbuf_destroy a' w'") auto
  show ?thesis using destroy_undoes_create [OF free nr ok c d] c d by (auto simp: empty_os_def)
qed

text \<open>Two rings whose keys differ in the low half, such as the data ring at a key and the
  header ring at the next key, share no name: no shared memory segment and no semaphore set of
  one is reached by a key of the other.\<close>

theorem rings_do_not_overlap:
  assumes "unat key mod 65536 \<noteq> unat key' mod 65536"
  shows "key_at key i \<noteq> key_at key' j"
  using assms key_at_low [of key i] key_at_low [of key' j] by auto

lemma rings_do_not_overlap_witness: "key_at 0xdada 7 \<noteq> key_at (0xdada + 1) 7"
  by (rule rings_do_not_overlap) simp

end
