(* ===== verification/Dada_Db.thy ===== *)
theory Dada_Db
  imports Ring_Admin_Properties
begin

text \<open>
  The program that makes and removes the shared memory of a DADA unit
  (\<^verbatim>\<open>src/dada_db.c\<close>): a ring of data blocks under a key and a ring of header blocks under
  the next one. Several rings in one namespace: a ring stays what it is while others
  are made, and whoever connects with its key finds it.
\<close>

section \<open>A ring in a namespace\<close>

text \<open>
  The names of a ring with the identifiers from \<open>n\<close> on. What is in the ring is left open,
  but for the entries of the shared record that are written at creation.
\<close>

definition ring_present :: "os \<Rightarrow> nat \<Rightarrow> u32 \<Rightarrow> u64 \<Rightarrow> u32 \<Rightarrow> bool" where
  "ring_present w n key nb nr \<longleftrightarrow>
     (\<exists>s c. segment_at w n = Some (SyncSeg s c (\<lambda>i. if i < unat nb then block_key key i else 0))
        \<and> semkey_connect s = key_at key 1 \<and> (\<forall>i<8. semkey_data s i = key_at key (2 + i))
        \<and> nbufs s = nb \<and> n_readers s = nr)
   \<and> shm_of w key = Some n \<and> sem_of w (key_at key 1) = Some (n + 1)
   \<and> (\<forall>i<unat nr. sem_of w (key_at key (2 + i)) = Some (n + 2 + i))
   \<and> (\<forall>i<unat nb. shm_of w (block_key key i) = Some (n + 2 + unat nr + i))"

definition nonzero_keys :: "u32 \<Rightarrow> nat \<Rightarrow> bool" where
  "nonzero_keys key nb \<longleftrightarrow> (\<forall>i<nb + 10. key_at key i \<noteq> 0)"

lemma keys_free_nonzero: "keys_free key nb w \<Longrightarrow> nonzero_keys key nb"
  by (simp add: keys_free_def nonzero_keys_def)

lemma new_ring_present:
  assumes free: "keys_free key (unat nb) w" and nr: "unat nr \<le> 8" and ring: "has_ring w w' key nb bs nr"
  shows "ring_present w' (next_id w) key nb nr"
proof -
  note d = distinct_keys [OF free] and dr = distinct_keys(2,4,6,11) [OF free nr]
  let ?n = "next_id w"
  have shm: "named ((shm_of w)(key \<mapsto> ?n)) (shm_of w') (block_keys key (unat nb)) (?n + 2 + unat nr)"
    and sem: "named ((sem_of w)(key_at key 1 \<mapsto> ?n + 1)) (sem_of w') (reader_keys key (unat nr)) (?n + 2)"
    and seg: "segment_at w' ?n = Some (SyncSeg (create_sync key nb bs nr zero_sync) (\<lambda>_. 0)
                                  (\<lambda>i. if i < unat nb then block_key key i else 0))"
    using ring by (auto simp: has_ring_def Let_def)
  have "shm_of w' key = Some ?n" "sem_of w' (key_at key 1) = Some (?n + 1)"
    using shm sem d dr by (auto simp: named_def)
  moreover have "\<forall>i<unat nr. sem_of w' (key_at key (2 + i)) = Some (?n + 2 + i)"
    using sem by (auto simp: named_def reader_keys_def)
  moreover have "\<forall>i<unat nb. shm_of w' (block_key key i) = Some (?n + 2 + unat nr + i)"
    using shm by (auto simp: named_def block_keys_def)
  ultimately show ?thesis
    using seg by (auto simp: ring_present_def create_sync_def)
qed

text \<open>Connecting finds the ring, whatever state it is in.\<close>

lemma connect_present:
  assumes "ring_present w n key nb nr" and nz: "nonzero_keys key (unat nb)" and nr: "unat nr \<le> 8"
  shows "ipcbuf_connect key a p w =
    (0, new_attached n (unat nr) (unat nb), p\<lparr>state := VIEWER, viewbuf := 0\<rparr>, w)"
proof -
  obtain s c where seg: "segment_at w n = Some (SyncSeg s c (\<lambda>i. if i < unat nb then block_key key i else 0))"
    and s: "semkey_connect s = key_at key 1" "\<forall>i<8. semkey_data s i = key_at key (2 + i)" "nbufs s = nb" "n_readers s = nr"
    and k: "shm_of w key = Some n" "sem_of w (key_at key 1) = Some (n + 1)"
    and sem: "\<forall>i<unat nr. sem_of w (key_at key (2 + i)) = Some (n + 2 + i)"
    and shm: "\<forall>i<unat nb. shm_of w (block_key key i) = Some (n + 2 + unat nr + i)"
    using assms(1) by (auto simp: ring_present_def)
  have z: "key \<noteq> 0" "key_at key 1 \<noteq> 0" "\<forall>i<unat nr. key_at key (2 + i) \<noteq> 0" "\<forall>i<unat nb. block_key key i \<noteq> 0"
    using nz nr by (auto simp: nonzero_keys_def block_key_def dest: spec [of _ 0])
  have rk: "map (semkey_data s) [0..<unat nr] = reader_keys key (unat nr)"
    using s(2) nr by (simp add: reader_keys_def)
  have bk: "map (\<lambda>i. if i < unat nb then block_key key i else 0) [0..<unat nb] = block_keys key (unat nb)"
    by (simp add: block_keys_def)
  have old: "map (sem_of w) (reader_keys key (unat nr)) = map Some [n + 2..<n + 2 + unat nr]"
    using sem by (intro nth_equalityI) (auto simp: reader_keys_def simp del: upt_Suc)
  have old': "map (shm_of w) (block_keys key (unat nb)) = map Some [n + 2 + unat nr..<n + 2 + unat nr + unat nb]"
    using shm by (intro nth_equalityI) (auto simp: block_keys_def simp del: upt_Suc)
  have "\<forall>k\<in>set (reader_keys key (unat nr)). k \<noteq> 0 \<and> sem_of w k \<noteq> None"
    using sem z(3) by (auto simp: reader_keys_def)
  then have g: "get_sems (reader_keys key (unat nr)) False w = (map Some [n + 2..<n + 2 + unat nr], w)"
    using old by (subst get_sems_old) auto
  have "\<forall>k\<in>set (block_keys key (unat nb)). k \<noteq> 0 \<and> shm_of w k \<noteq> None"
    using shm z(4) by (auto simp: block_keys_def)
  then have g': "get_blocks (block_keys key (unat nb)) bytes False w =
      (map Some [n + 2 + unat nr..<n + 2 + unat nr + unat nb], w)" for bytes
    using old' by (subst get_blocks_old) auto
  have "ipcbuf_get s (\<lambda>i. if i < unat nb then block_key key i else 0) False (a\<lparr>syncid := Some n\<rparr>) w
      = (0, new_attached n (unat nr) (unat nb), w)"
    using k z rk bk g g' s by (simp add: ipcbuf_get_def semget_def new_attached_def Let_def del: upt_Suc map_map list.map)
  then show ?thesis
    using k z seg by (simp add: ipcbuf_connect_def ipcsync_get_def shmget_def)
qed

text \<open>Making a ring under other keys leaves it alone.\<close>

lemma present_beside:
  assumes pres: "ring_present w n key nb nr" and ok: "n + 2 + unat nr + unat nb \<le> next_id w"
    and new: "has_ring w w' key' nb' bs' nr'" and low: "unat key mod 65536 \<noteq> unat key' mod 65536"
  shows "ring_present w' n key nb nr"
    and "ring_of w' (new_attached n (unat nr) (unat nb)) = ring_of w (new_attached n (unat nr) (unat nb))"
proof -
  have other: "key_at key i \<noteq> key_at key' j" for i j
    using low key_at_low [of key i] key_at_low [of key' j] by auto
  have shm: "shm_of w' (key_at key i) = shm_of w (key_at key i)" for i
  proof -
    have "key_at key i \<notin> set (block_keys key' (unat nb'))" "key_at key i \<noteq> key'"
      using other [of i] other [of i 0] by (auto simp: block_keys_def block_key_def)
    moreover have "named ((shm_of w)(key' \<mapsto> next_id w)) (shm_of w') (block_keys key' (unat nb')) (next_id w + 2 + unat nr')"
      using new unfolding has_ring_def Let_def by blast
    ultimately show ?thesis by (simp add: named_def)
  qed
  have sem: "sem_of w' (key_at key i) = sem_of w (key_at key i)" for i
  proof -
    have "key_at key i \<notin> set (reader_keys key' (unat nr'))" "key_at key i \<noteq> key_at key' 1"
      using other [of i] by (auto simp: reader_keys_def)
    moreover have "named ((sem_of w)(key_at key' 1 \<mapsto> next_id w + 1)) (sem_of w') (reader_keys key' (unat nr')) (next_id w + 2)"
      using new unfolding has_ring_def Let_def by blast
    ultimately show ?thesis by (simp add: named_def)
  qed
  have ids: "segment_at w' i = segment_at w i" "sem_set w' i = sem_set w i" if "i < next_id w" for i
    using new that by (auto simp: has_ring_def Let_def)
  show "ring_present w' n key nb nr"
    using pres ok shm [of 0] sem [of 1] shm sem ids(1) [of n]
    by (auto simp: ring_present_def block_key_def)
  let ?a = "new_attached n (unat nr) (unat nb)"
  have "(if i < length (semid_data ?a) then the (Option.bind (semid_data ?a ! i) (sem_set w')) else (\<lambda>_. 0))
      = (if i < length (semid_data ?a) then the (Option.bind (semid_data ?a ! i) (sem_set w)) else (\<lambda>_. 0))" for i
    using ids(2) [of "n + 2 + i"] ok by (auto simp: new_attached_def simp del: upt_Suc)
  moreover have "(if b < length (shmid ?a) then (case Option.bind (shmid ?a ! b) (segment_at w') of Some (BlockSeg d) \<Rightarrow> d | _ \<Rightarrow> []) else [])
      = (if b < length (shmid ?a) then (case Option.bind (shmid ?a ! b) (segment_at w) of Some (BlockSeg d) \<Rightarrow> d | _ \<Rightarrow> []) else [])" for b
    using ids(1) [of "n + 2 + unat nr + b"] ok by (auto simp: new_attached_def simp del: upt_Suc)
  moreover have "Option.bind (syncid ?a) (segment_at w') = Option.bind (syncid ?a) (segment_at w)"
    "Option.bind (semid_connect ?a) (sem_set w') = Option.bind (semid_connect ?a) (sem_set w)"
    using ids(1) [of n] ids(2) [of "n + 1"] ok by (simp_all add: new_attached_def)
  ultimately show "ring_of w' ?a = ring_of w ?a" unfolding ring_of_def by presburger
qed

lemma new_ring_ok:
  assumes "has_ring w w' key nb bs nr" and "os_ok w"
  shows "os_ok w'"
proof -
  have shm: "named ((shm_of w)(key \<mapsto> next_id w)) (shm_of w') (block_keys key (unat nb)) (next_id w + 2 + unat nr)"
    and sem: "named ((sem_of w)(key_at key 1 \<mapsto> next_id w + 1)) (sem_of w') (reader_keys key (unat nr)) (next_id w + 2)"
    and n: "next_id w' = next_id w + 2 + unat nr + unat nb"
    using assms(1) by (auto simp: has_ring_def Let_def)
  have "i < next_id w'" if k: "shm_of w' k = Some i" for k i
  proof (cases "k \<in> set (block_keys key (unat nb))")
    case True
    then obtain j where "j < unat nb" "k = block_keys key (unat nb) ! j" by (auto simp: in_set_conv_nth)
    then show ?thesis using shm n k by (auto simp: named_def)
  next
    case False
    then have "shm_of w' k = ((shm_of w)(key \<mapsto> next_id w)) k" using shm by (simp add: named_def)
    then show ?thesis using k n assms(2) by (auto simp: os_ok_def less_SucI split: if_splits intro: less_trans)
        (metis add_lessD1 less_SucI less_add_Suc1 less_trans)
  qed
  moreover have "i < next_id w'" if k: "sem_of w' k = Some i" for k i
  proof (cases "k \<in> set (reader_keys key (unat nr))")
    case True
    then obtain j where "j < unat nr" "k = reader_keys key (unat nr) ! j" by (auto simp: in_set_conv_nth)
    then show ?thesis using sem n k by (auto simp: named_def)
  next
    case False
    then have "sem_of w' k = ((sem_of w)(key_at key 1 \<mapsto> next_id w + 1)) k" using sem by (simp add: named_def)
    then show ?thesis using k n assms(2) by (auto simp: os_ok_def split: if_splits)
        (metis add_lessD1 less_SucI less_add_Suc1 less_trans)
  qed
  ultimately show ?thesis unfolding os_ok_def by blast
qed

section \<open>The program\<close>

text \<open>
  The options after they are parsed. Locking and paging the blocks do not change what
  is in them, and binding to a node of the machine is left out.
\<close>

record dada_db_options =
  opt_nbufs :: u64
  opt_bufsz :: u64
  opt_hdrsz :: u64
  opt_key :: u32
  opt_readers :: u32
  opt_destroy :: bool
  opt_persist :: bool

definition DADA_DEFAULT_BLOCK_KEY :: u32 where "DADA_DEFAULT_BLOCK_KEY = 0xdada"

definition dada_db_create :: "dada_db_options \<Rightarrow> os \<Rightarrow> (int \<times> attached \<times> attached \<times> os) option" where
  "dada_db_create d w =
     do {
       (rc, a, p, w) \<leftarrow> ipcbuf_create (opt_key d) (opt_nbufs d) (opt_bufsz d) (opt_readers d) ATTACHED_INIT IPCBUF_INIT w;
       if rc < 0 then Some (- 1, a, ATTACHED_INIT, w)
       else do {
         (rc, b, q, w) \<leftarrow> ipcbuf_create (opt_key d + 1) IPCBUF_XFERS (opt_hdrsz d) (opt_readers d)
                           ATTACHED_INIT IPCBUF_INIT w;
         if rc < 0 then Some (- 1, a, b, w) else Some (0, a, b, w)
       }
     }"

text \<open>The results of connecting and removing are not looked at.\<close>

definition dada_db_destroy :: "dada_db_options \<Rightarrow> attached \<Rightarrow> attached \<Rightarrow> os \<Rightarrow> os" where
  "dada_db_destroy d a b w =
     (let (a, w) = (if opt_persist d then (a, w)
                    else let (_, a, _, w) = ipcbuf_connect (opt_key d) a IPCBUF_INIT w in (a, w));
          (_, _, w) = ipcbuf_destroy a w;
          (b, w) = (if opt_persist d then (b, w)
                    else let (_, b, _, w) = ipcbuf_connect (opt_key d + 1) b IPCBUF_INIT w in (b, w));
          (_, _, w) = ipcbuf_destroy b w
      in w)"

text \<open>
  \<open>page\<close> is the size of a memory page, the smallest header. In persistence mode the
  program waits for a signal between the two parts.
\<close>

definition dada_db :: "u64 \<Rightarrow> dada_db_options \<Rightarrow> os \<Rightarrow> (int \<times> os) option" where
  "dada_db page d w =
     (if opt_hdrsz d < page then Some (- 1, w)
      else if opt_readers d < 1 then Some (- 1, w)
      else do {
        (rc, a, b, w) \<leftarrow> (if opt_destroy d then Some (0, ATTACHED_INIT, ATTACHED_INIT, w) else dada_db_create d w);
        if rc < 0 then Some (- 1, w)
        else if opt_destroy d \<or> opt_persist d then Some (0, dada_db_destroy d a b w)
        else Some (0, w)
      })"

section \<open>What it makes and removes\<close>

text \<open>The names of both rings are free, and there are not too many readers.\<close>

definition can_create :: "dada_db_options \<Rightarrow> os \<Rightarrow> bool" where
  "can_create d w \<longleftrightarrow>
     keys_free (opt_key d) (unat (opt_nbufs d)) w \<and> keys_free (opt_key d + 1) 8 w \<and> unat (opt_readers d) \<le> 8"

lemma next_key_low: "unat (key :: u32) mod 65536 \<noteq> unat (key + 1) mod 65536"
proof -
  have "unat (key + 1) = (unat key + 1) mod 2 ^ 32" by (simp add: unat_word_ariths)
  then have "unat (key + 1) mod 65536 = (unat key + 1) mod 65536" by (simp add: mod_mod_cancel)
  then show ?thesis by (simp add: mod_Suc)
qed

lemma keys_free_beside:
  assumes "keys_free key nb w" and new: "has_ring w w' key' nb' bs' nr'"
    and low: "unat key mod 65536 \<noteq> unat key' mod 65536"
  shows "keys_free key nb w'"
proof -
  have other: "key_at key i \<noteq> key_at key' j" for i j
    using low key_at_low [of key i] key_at_low [of key' j] by auto
  have "shm_of w' (key_at key i) = shm_of w (key_at key i)" for i
  proof -
    have "key_at key i \<notin> set (block_keys key' (unat nb'))" "key_at key i \<noteq> key'"
      using other [of i] other [of i 0] by (auto simp: block_keys_def block_key_def)
    moreover have "named ((shm_of w)(key' \<mapsto> next_id w)) (shm_of w') (block_keys key' (unat nb')) (next_id w + 2 + unat nr')"
      using new unfolding has_ring_def Let_def by blast
    ultimately show ?thesis by (simp add: named_def)
  qed
  moreover have "sem_of w' (key_at key i) = sem_of w (key_at key i)" for i
  proof -
    have "key_at key i \<notin> set (reader_keys key' (unat nr'))" "key_at key i \<noteq> key_at key' 1"
      using other [of i] by (auto simp: reader_keys_def)
    moreover have "named ((sem_of w)(key_at key' 1 \<mapsto> next_id w + 1)) (sem_of w') (reader_keys key' (unat nr')) (next_id w + 2)"
      using new unfolding has_ring_def Let_def by blast
    ultimately show ?thesis by (simp add: named_def)
  qed
  ultimately show ?thesis using assms(1) by (simp add: keys_free_def)
qed

text \<open>The two rings of a unit.\<close>

lemma create_unit:
  assumes "can_create d w"
  obtains w1 w2 where "dada_db_create d w =
        Some (0, new_attached (next_id w) (unat (opt_readers d)) (unat (opt_nbufs d)),
              new_attached (next_id w1) (unat (opt_readers d)) 8, w2)"
    and "has_ring w w1 (opt_key d) (opt_nbufs d) (opt_bufsz d) (opt_readers d)"
    and "has_ring w1 w2 (opt_key d + 1) 8 (opt_hdrsz d) (opt_readers d)"
    and "keys_free (opt_key d + 1) 8 w1"
proof -
  have free: "keys_free (opt_key d) (unat (opt_nbufs d)) w" "keys_free (opt_key d + 1) 8 w" and nr: "unat (opt_readers d) \<le> 8"
    using assms by (auto simp: can_create_def)
  obtain w1 where w1: "ipcbuf_create (opt_key d) (opt_nbufs d) (opt_bufsz d) (opt_readers d) ATTACHED_INIT IPCBUF_INIT w =
      Some (0, new_attached (next_id w) (unat (opt_readers d)) (unat (opt_nbufs d)),
            IPCBUF_INIT\<lparr>state := VIEWER, viewbuf := 0, xfer := 0, soclock_buf := 0, iread := - 1\<rparr>, w1)"
    and r1: "has_ring w w1 (opt_key d) (opt_nbufs d) (opt_bufsz d) (opt_readers d)"
    using create_new [OF free(1) nr] by blast
  have free1: "keys_free (opt_key d + 1) 8 w1" using keys_free_beside [OF free(2) r1] next_key_low [of "opt_key d"] by simp
  then have "keys_free (opt_key d + 1) (unat (8 :: u64)) w1" by simp
  then obtain w2 where w2: "ipcbuf_create (opt_key d + 1) 8 (opt_hdrsz d) (opt_readers d) ATTACHED_INIT IPCBUF_INIT w1 =
      Some (0, new_attached (next_id w1) (unat (opt_readers d)) 8,
            IPCBUF_INIT\<lparr>state := VIEWER, viewbuf := 0, xfer := 0, soclock_buf := 0, iread := - 1\<rparr>, w2)"
    and r2: "has_ring w1 w2 (opt_key d + 1) 8 (opt_hdrsz d) (opt_readers d)"
    using create_new [OF _ nr, of "opt_key d + 1" 8 w1] by fastforce
  show ?thesis
    by (rule that [OF _ r1 r2 free1]) (simp add: dada_db_create_def w1 w2)
qed

text \<open>Both rings are there afterwards, and new.\<close>

lemma unit_present:
  assumes "can_create d w" and "os_ok w"
    and "has_ring w w1 (opt_key d) (opt_nbufs d) (opt_bufsz d) (opt_readers d)"
    and "has_ring w1 w2 (opt_key d + 1) 8 (opt_hdrsz d) (opt_readers d)" and "keys_free (opt_key d + 1) 8 w1"
  shows "ring_present w2 (next_id w) (opt_key d) (opt_nbufs d) (opt_readers d)"
    and "ring_present w2 (next_id w1) (opt_key d + 1) 8 (opt_readers d)"
    and "ring_of w2 (new_attached (next_id w) (unat (opt_readers d)) (unat (opt_nbufs d)))
       = ring_of w1 (new_attached (next_id w) (unat (opt_readers d)) (unat (opt_nbufs d)))"
proof -
  have free: "keys_free (opt_key d) (unat (opt_nbufs d)) w" and nr: "unat (opt_readers d) \<le> 8"
    using assms by (auto simp: can_create_def)
  have n: "next_id w1 = next_id w + 2 + unat (opt_readers d) + unat (opt_nbufs d)"
    using assms(3) by (simp add: has_ring_def Let_def)
  have p1: "ring_present w1 (next_id w) (opt_key d) (opt_nbufs d) (opt_readers d)"
    by (rule new_ring_present [OF free nr assms(3)])
  show "ring_present w2 (next_id w) (opt_key d) (opt_nbufs d) (opt_readers d)"
    by (rule present_beside(1) [OF p1 _ assms(4) next_key_low]) (simp add: n)
  show "ring_of w2 (new_attached (next_id w) (unat (opt_readers d)) (unat (opt_nbufs d)))
      = ring_of w1 (new_attached (next_id w) (unat (opt_readers d)) (unat (opt_nbufs d)))"
    by (rule present_beside(2) [OF p1 _ assms(4) next_key_low]) (simp add: n)
  have "keys_free (opt_key d + 1) (unat (8 :: u64)) w1" using assms(5) by simp
  then show "ring_present w2 (next_id w1) (opt_key d + 1) 8 (opt_readers d)"
    by (rule new_ring_present [OF _ nr assms(4)])
qed

text \<open>What a removal does to the names.\<close>

definition without :: "nat option set \<Rightarrow> ('k \<Rightarrow> nat option) \<Rightarrow> 'k \<Rightarrow> nat option" where
  "without S m = (\<lambda>k. if m k \<in> S then None else m k)"

lemma without_commute: "None \<notin> S \<Longrightarrow> None \<notin> T \<Longrightarrow> without S (without T m) = without T (without S m)"
  by (auto simp: without_def)

lemma destroy_names:
  assumes "ipcbuf_destroy a w = (rc, a', w')"
  shows "shm_of w' = without (set (shmid a @ [syncid a])) (shm_of w)"
    and "sem_of w' = without (set (semid_connect a # semid_data a)) (sem_of w)"
proof -
  have w': "w' = fold shm_rmid (shmid a @ [syncid a]) (fold sem_rmid (semid_connect a # semid_data a) w)"
    using assms by (simp add: ipcbuf_destroy_def)
  show "shm_of w' = without (set (shmid a @ [syncid a])) (shm_of w)"
    and "sem_of w' = without (set (semid_connect a # semid_data a)) (sem_of w)"
    unfolding w' without_def by (intro ext; simp only: fold_shm_rmid fold_sem_rmid)+
qed

lemma destroy_segments:
  assumes "ipcbuf_destroy a w = (rc, a', w')"
  shows "segment_at w' = segment_at w"
proof -
  have shm: "segment_at (fold shm_rmid ids w) = segment_at w" for ids w
    by (induction ids arbitrary: w) (auto simp: shm_rmid_def)
  have sem: "segment_at (fold sem_rmid ids w) = segment_at w" for ids w
    by (induction ids arbitrary: w) (auto simp: sem_rmid_def split: option.splits)
  have "w' = fold shm_rmid (shmid a @ [syncid a]) (fold sem_rmid (semid_connect a # semid_data a) w)"
    using assms by (simp add: ipcbuf_destroy_def)
  then show ?thesis by (simp only: shm sem)
qed

lemma present_after_removal:
  assumes "ring_present w n key nb nr" and "segment_at w' = segment_at w"
    and "shm_of w' = without S (shm_of w)" and "sem_of w' = without T (sem_of w)"
    and "\<And>i. n \<le> i \<Longrightarrow> i < n + 2 + unat nr + unat nb \<Longrightarrow> Some i \<notin> S \<and> Some i \<notin> T"
  shows "ring_present w' n key nb nr"
proof -
  have "without S (shm_of w) k = Some i" if "shm_of w k = Some i" "n \<le> i" "i < n + 2 + unat nr + unat nb" for k i
    using that assms(5) by (auto simp: without_def)
  moreover have "without T (sem_of w) k = Some i" if "sem_of w k = Some i" "n \<le> i" "i < n + 2 + unat nr + unat nb" for k i
    using that assms(5) by (auto simp: without_def)
  ultimately show ?thesis using assms(1) unfolding ring_present_def assms(2-4) by auto
qed

text \<open>What \<open>dada_db\<close> makes, \<open>dada_db -d\<close> with the same key removes: it finds both rings by
  their keys, whatever other rings there are, and afterwards the namespace of keys is what it
  was before.\<close>

theorem dada_db_removes_what_it_makes:
  assumes "can_create d w" and "os_ok w" and "\<not> opt_destroy d" and "\<not> opt_persist d"
    and "page \<le> opt_hdrsz d" and "1 \<le> opt_readers d"
  shows "\<exists>w' w''. dada_db page d w = Some (0, w') \<and> dada_db page (d\<lparr>opt_destroy := True\<rparr>) w' = Some (0, w'')
     \<and> shm_of w'' = shm_of w \<and> sem_of w'' = sem_of w"
proof -
  let ?nr = "unat (opt_readers d)" and ?nb = "unat (opt_nbufs d)"
  have free: "keys_free (opt_key d) ?nb w" and nr: "?nr \<le> 8" using assms(1) by (auto simp: can_create_def)
  obtain w1 w2 where new: "dada_db_create d w = Some (0, new_attached (next_id w) ?nr ?nb, new_attached (next_id w1) ?nr 8, w2)"
    and r: "has_ring w w1 (opt_key d) (opt_nbufs d) (opt_bufsz d) (opt_readers d)"
           "has_ring w1 w2 (opt_key d + 1) 8 (opt_hdrsz d) (opt_readers d)" "keys_free (opt_key d + 1) 8 w1"
    using create_unit [OF assms(1)] by metis
  let ?a = "new_attached (next_id w) ?nr ?nb" and ?b = "new_attached (next_id w1) ?nr 8"
  have n1: "next_id w1 = next_id w + 2 + ?nr + ?nb" using r(1) by (simp add: has_ring_def Let_def)
  have free': "keys_free (opt_key d + 1) (unat (8 :: u64)) w1" using r(3) by simp
  note pres = unit_present [OF assms(1,2) r]
  have ca: "ipcbuf_connect (opt_key d) ATTACHED_INIT p w2 = (0, ?a, p\<lparr>state := VIEWER, viewbuf := 0\<rparr>, w2)" for p
    by (rule connect_present [OF pres(1) keys_free_nonzero [OF free] nr])
  obtain wa rc a' where wa: "ipcbuf_destroy ?a w2 = (rc, a', wa)" by (cases "ipcbuf_destroy ?a w2")
  let ?S = "set (shmid ?a @ [syncid ?a])" and ?T = "set (semid_connect ?a # semid_data ?a)"
  have pb: "ring_present wa (next_id w1) (opt_key d + 1) 8 (opt_readers d)"
    by (rule present_after_removal [OF pres(2) destroy_segments [OF wa] destroy_names [OF wa]])
      (auto simp: new_attached_def n1 simp del: upt_Suc)
  have cb: "ipcbuf_connect (opt_key d + 1) ATTACHED_INIT p wa = (0, ?b, p\<lparr>state := VIEWER, viewbuf := 0\<rparr>, wa)" for p
    using connect_present [OF pb keys_free_nonzero [OF free'] nr] by simp
  obtain wb rc' b' where wb: "ipcbuf_destroy ?b wa = (rc', b', wb)" by (cases "ipcbuf_destroy ?b wa")
  obtain wx rx x where wx: "ipcbuf_destroy ?b w2 = (rx, x, wx)" by (cases "ipcbuf_destroy ?b w2")
  have x: "shm_of wx = shm_of w1" "sem_of wx = sem_of w1"
    using destroy_restores [OF free' nr new_ring_ok [OF r(1) assms(2)] r(2)] wx by auto
  obtain wy ry y where wy: "ipcbuf_destroy ?a w1 = (ry, y, wy)" by (cases "ipcbuf_destroy ?a w1")
  have y: "shm_of wy = shm_of w" "sem_of wy = sem_of w"
    using destroy_restores [OF free nr assms(2) r(1)] wy by auto
  have none: "None \<notin> set (shmid ?a @ [syncid ?a])" "None \<notin> set (semid_connect ?a # semid_data ?a)"
    "None \<notin> set (shmid ?b @ [syncid ?b])" "None \<notin> set (semid_connect ?b # semid_data ?b)"
    by (auto simp: new_attached_def)
  have "shm_of wb = shm_of w"
    using destroy_names(1) [OF wa] destroy_names(1) [OF wb] destroy_names(1) [OF wx] destroy_names(1) [OF wy] x y
      without_commute [OF none(3,1)] by metis
  moreover have "sem_of wb = sem_of w"
    using destroy_names(2) [OF wa] destroy_names(2) [OF wb] destroy_names(2) [OF wx] destroy_names(2) [OF wy] x y
      without_commute [OF none(4,2)] by metis
  moreover have "dada_db page d w = Some (0, w2)"
    using assms(3-6) by (simp add: dada_db_def new word_le_nat_alt word_less_nat_alt)
  moreover have "dada_db page (d\<lparr>opt_destroy := True\<rparr>) w2 = Some (0, wb)"
    using assms(3-6) by (simp add: dada_db_def dada_db_destroy_def ca wa cb wb word_le_nat_alt word_less_nat_alt)
  ultimately show ?thesis by blast
qed

definition default_options :: dada_db_options where
  "default_options =
     \<lparr>opt_nbufs = 4, opt_bufsz = 524288, opt_hdrsz = 4096, opt_key = DADA_DEFAULT_BLOCK_KEY, opt_readers = 1,
      opt_destroy = False, opt_persist = False\<rparr>"

lemma default_can_create: "can_create default_options empty_os"
  by (simp add: can_create_def default_options_def DADA_DEFAULT_BLOCK_KEY_def keys_free_def empty_os_def key_at_nonzero)

lemma dada_db_removes_what_it_makes_witness:
  "\<exists>w' w''. dada_db 4096 default_options empty_os = Some (0, w')
     \<and> dada_db 4096 (default_options\<lparr>opt_destroy := True\<rparr>) w' = Some (0, w'') \<and> shm_of w'' = (\<lambda>_. None)"
proof -
  have "os_ok empty_os" by (simp add: os_ok_def empty_os_def)
  moreover have "\<not> opt_destroy default_options" "\<not> opt_persist default_options" "4096 \<le> opt_hdrsz default_options"
    "1 \<le> opt_readers default_options" "shm_of empty_os = (\<lambda>_. None)"
    by (simp_all add: default_options_def empty_os_def)
  ultimately show ?thesis
    using dada_db_removes_what_it_makes [OF default_can_create] by metis
qed

end
