(* ===== verification/Dada_Hdu.thy ===== *)
theory Dada_Hdu
  imports Ipcio Ascii_Header Dada_Db
begin

text \<open>
  The header and data unit (\<^verbatim>\<open>src/dada_hdu.c\<close>): the handle of a client of both rings, which
  locks and unlocks them together and copies the header of the next transfer. The
  operations take the two rings, header first; the header ring is read and written as
  text. \<open>None\<close> is a call that does not return in this state: it sleeps, or it fails an
  assertion or accesses memory through a null pointer, which ends the process.
\<close>

section \<open>The handle\<close>

text \<open>Both blocks are allocated and freed together; the log is left out.\<close>

record dada_hdu =
  data_block :: "ipcio option"
  header_block :: "ipcbuf option"
  hdu_header :: "byte list option"
  hdu_header_size :: u64
  data_block_key :: u32
  header_block_key :: u32
  att_data :: attached
  att_header :: attached

definition dada_hdu_set_key :: "dada_hdu \<Rightarrow> u32 \<Rightarrow> dada_hdu" where
  "dada_hdu_set_key h key = h\<lparr>data_block_key := key, header_block_key := key + 1\<rparr>"

definition dada_hdu_create :: dada_hdu where
  "dada_hdu_create =
     dada_hdu_set_key
       \<lparr>data_block = None, header_block = None, hdu_header = None, hdu_header_size = 0,
        data_block_key = 0, header_block_key = 0, att_data = ATTACHED_INIT, att_header = ATTACHED_INIT\<rparr>
       DADA_DEFAULT_BLOCK_KEY"

section \<open>Connecting\<close>

definition dada_hdu_connect :: "dada_hdu \<Rightarrow> os \<Rightarrow> int \<times> dada_hdu \<times> os" where
  "dada_hdu_connect h w =
     (if data_block h \<noteq> None then (- 1, h, w)
      else
        let (rc, ah, p, w) = ipcbuf_connect (header_block_key h) ATTACHED_INIT IPCBUF_INIT w
        in if rc < 0 then (- 1, h\<lparr>header_block := None, data_block := None\<rparr>, w)
           else
             let (rc, ad, c, w) = ipcio_connect (data_block_key h) ATTACHED_INIT IPCIO_INIT w
             in if rc < 0 then (- 1, h\<lparr>header_block := None, data_block := None\<rparr>, w)
                else (0, h\<lparr>header_block := Some p, data_block := Some c, att_header := ah, att_data := ad\<rparr>, w))"

definition dada_hdu_disconnect :: "dada_hdu \<Rightarrow> int \<times> dada_hdu" where
  "dada_hdu_disconnect h =
     (case (data_block h, header_block h) of
        (Some c, Some p) \<Rightarrow>
          let (rc, ad, c) = ipcio_disconnect (att_data h) c;
              (rc', ah, p) = ipcbuf_disconnect (att_header h) p
          in (if rc < 0 \<or> rc' < 0 then - 1 else 0,
              h\<lparr>header_block := None, data_block := None, att_data := ad, att_header := ah\<rparr>)
      | _ \<Rightarrow> (- 1, h))"

section \<open>Locking and unlocking\<close>

type_synonym 'a hdu_op = "('a \<times> ring \<times> ring \<times> dada_hdu) option"

text \<open>One operation on the header ring, and one on the data ring, with the handle of each.\<close>

definition on_header :: "(ring \<Rightarrow> ipcbuf \<Rightarrow> 'a ipc) \<Rightarrow> ring \<Rightarrow> ring \<Rightarrow> dada_hdu \<Rightarrow> 'a hdu_op" where
  "on_header f hr dr h =
     (case header_block h of
        None \<Rightarrow> None
      | Some p \<Rightarrow>
          (case f hr p of None \<Rightarrow> None | Some (x, hr, p) \<Rightarrow> Some (x, hr, dr, h\<lparr>header_block := Some p\<rparr>)))"

definition on_data :: "(ring \<Rightarrow> ipcio \<Rightarrow> 'a io) \<Rightarrow> ring \<Rightarrow> ring \<Rightarrow> dada_hdu \<Rightarrow> 'a hdu_op" where
  "on_data f hr dr h =
     (case data_block h of
        None \<Rightarrow> None
      | Some c \<Rightarrow>
          (case f dr c of None \<Rightarrow> None | Some (x, dr, c) \<Rightarrow> Some (x, hr, dr, h\<lparr>data_block := Some c\<rparr>)))"

definition dada_hdu_lock_read :: "ring \<Rightarrow> ring \<Rightarrow> dada_hdu \<Rightarrow> int hdu_op" where
  "dada_hdu_lock_read hr dr h =
     (if data_block h = None then Some (- 1, hr, dr, h)
      else do {
        (rc, hr, dr, h) \<leftarrow> on_header ipcbuf_lock_read hr dr h;
        if rc < 0 then Some (- 1, hr, dr, h)
        else do {
          (rc, hr, dr, h) \<leftarrow> on_data (\<lambda>r c. ipcio_open r c CHR ''R'') hr dr h;
          if rc < 0 then Some (- 1, hr, dr, h) else Some (0, hr, dr, h)
        }
      })"

text \<open>Clearing the header's sub-block is tried when a header was copied, and its result not looked at.\<close>

definition forget_header :: "ring \<Rightarrow> ring \<Rightarrow> dada_hdu \<Rightarrow> unit hdu_op" where
  "forget_header hr dr h =
     (if hdu_header h = None then Some ((), hr, dr, h)
      else
        let h = h\<lparr>hdu_header := None\<rparr> in
        case header_block h of
          None \<Rightarrow> None
        | Some p \<Rightarrow>
            if ipcbuf_is_reader p
            then do { (_, hr, dr, h) \<leftarrow> on_header ipcbuf_mark_cleared hr dr h; Some ((), hr, dr, h) }
            else Some ((), hr, dr, h))"

definition dada_hdu_unlock_read :: "ring \<Rightarrow> ring \<Rightarrow> dada_hdu \<Rightarrow> int hdu_op" where
  "dada_hdu_unlock_read hr dr h =
     (if data_block h = None then Some (- 1, hr, dr, h)
      else do {
        (rc, hr, dr, h) \<leftarrow> on_data ipcio_close hr dr h;
        if rc < 0 then Some (- 1, hr, dr, h)
        else do {
          (_, hr, dr, h) \<leftarrow> forget_header hr dr h;
          (rc, hr, dr, h) \<leftarrow> on_header ipcbuf_unlock_read hr dr h;
          if rc < 0 then Some (- 1, hr, dr, h) else Some (0, hr, dr, h)
        }
      })"

definition dada_hdu_lock_write_spec :: "char \<Rightarrow> ring \<Rightarrow> ring \<Rightarrow> dada_hdu \<Rightarrow> int hdu_op" where
  "dada_hdu_lock_write_spec writemode hr dr h =
     (if data_block h = None then Some (- 1, hr, dr, h)
      else do {
        (rc, hr, dr, h) \<leftarrow> on_header ipcbuf_lock_write hr dr h;
        if rc < 0 then Some (- 1, hr, dr, h)
        else do {
          (rc, hr, dr, h) \<leftarrow> on_data (\<lambda>r c. ipcio_open r c writemode) hr dr h;
          if rc < 0 then Some (- 1, hr, dr, h) else Some (0, hr, dr, h)
        }
      })"

definition dada_hdu_lock_write :: "ring \<Rightarrow> ring \<Rightarrow> dada_hdu \<Rightarrow> int hdu_op" where
  "dada_hdu_lock_write = dada_hdu_lock_write_spec CHR ''W''"

definition dada_hdu_unlock_write :: "ring \<Rightarrow> ring \<Rightarrow> dada_hdu \<Rightarrow> int hdu_op" where
  "dada_hdu_unlock_write hr dr h =
     (case data_block h of
        None \<Rightarrow> Some (- 1, hr, dr, h)
      | Some c \<Rightarrow> do {
          (rc, hr, dr, h) \<leftarrow> (if ipcio_is_open c then on_data ipcio_close hr dr h else Some (0, hr, dr, h));
          if rc < 0 then Some (- 1, hr, dr, h)
          else do {
            (rc, hr, dr, h) \<leftarrow> on_header ipcbuf_unlock_write hr dr h;
            if rc < 0 then Some (- 1, hr, dr, h) else Some (0, hr, dr, h)
          }
        })"

definition dada_hdu_open_view :: "ring \<Rightarrow> ring \<Rightarrow> dada_hdu \<Rightarrow> int hdu_op" where
  "dada_hdu_open_view hr dr h =
     (if data_block h = None then Some (- 1, hr, dr, h)
      else do {
        (rc, hr, dr, h) \<leftarrow> on_data (\<lambda>r c. ipcio_open r c CHR ''r'') hr dr h;
        if rc < 0 then Some (- 1, hr, dr, h) else Some (0, hr, dr, h)
      })"

definition dada_hdu_close_view :: "ring \<Rightarrow> ring \<Rightarrow> dada_hdu \<Rightarrow> int hdu_op" where
  "dada_hdu_close_view hr dr h =
     (if data_block h = None then Some (- 1, hr, dr, h)
      else do {
        (rc, hr, dr, h) \<leftarrow> on_data ipcio_close hr dr h;
        if rc < 0 then Some (- 1, hr, dr, h) else Some (0, hr, dr, h)
      })"

section \<open>The header as text\<close>

text \<open>
  The string at a place of a sub-block, up to its NUL or the end of the sub-block; and a
  string put there with its NUL. A string that is too long runs over the end.
\<close>

definition char_of_byte :: "byte \<Rightarrow> char" where "char_of_byte b = char_of (unat b)"

definition byte_of_char :: "char \<Rightarrow> byte" where "byte_of_char c = of_nat (of_char c)"

definition block_string :: "ring \<Rightarrow> ptr \<Rightarrow> string" where
  "block_string r b = map char_of_byte (takeWhile (\<lambda>x. x \<noteq> 0) (drop (unat (snd b)) (mem r (fst b))))"

definition put_string :: "ptr \<Rightarrow> string \<Rightarrow> ring \<Rightarrow> ring" where
  "put_string b s r = put_bytes b 0 (map byte_of_char s @ [0]) r"

section \<open>Opening the next header\<close>

text \<open>
  The loop of \<open>dada_hdu_open\<close>: an empty sub-block is the end of data of a header
  transfer, behind which the next one is awaited. The results of clearing and
  resetting are not looked at. \<open>None\<close> inside the result is the error.
\<close>

partial_function (option) next_header :: "ring \<Rightarrow> ipcbuf \<Rightarrow> ptr option ipc" where
  "next_header r p =
     do {
       (res, r, p) \<leftarrow> ipcbuf_get_next_read r p;
       case res of
         None \<Rightarrow> Some (None, r, p)
       | Some (b, n) \<Rightarrow>
           if n \<noteq> 0 then Some (Some b, r, p)
           else do {
             (_, r, p) \<leftarrow> (if ipcbuf_is_reader p then ipcbuf_mark_cleared r p else Some (0, r, p));
             if ipcbuf_eod p
             then do {
               (_, r, p) \<leftarrow> (if ipcbuf_is_reader p then ipcbuf_reset r p else Some (0, r, p));
               next_header r p
             }
             else Some (None, r, p)
           }
     }"

text \<open>
  The size of the header: what its \<open>HDR_SIZE\<close> says, or the size of the sub-block, which is
  then written into it. The result is that size, or \<open>None\<close> when it is greater than the
  sub-block.
\<close>

definition advertised_size :: "ptr \<Rightarrow> ring \<Rightarrow> u64 option \<times> ring" where
  "advertised_size b r =
     (let size = ipcbuf_get_bufsz r
      in case ascii_header_get (block_string r b) ''HDR_SIZE'' sscanf_lu of
           (rc, v) \<Rightarrow>
             if rc = 1 then (case v of Some n \<Rightarrow> if size < n then (None, r) else (Some n, r) | None \<Rightarrow> (None, r))
             else
               let (_, s) = ascii_header_set (block_string r b) ''HDR_SIZE'' (Some (decimal (unat size)))
               in (Some size, put_string b s r))"

text \<open>The copy: the buffer is allocated when the header is longer than any before.\<close>

definition copy_header :: "byte list \<Rightarrow> u64 \<Rightarrow> dada_hdu \<Rightarrow> dada_hdu option" where
  "copy_header d n h =
     (if hdu_header_size h < n then Some (h\<lparr>hdu_header := Some (take (unat n) d), hdu_header_size := n\<rparr>)
      else case hdu_header h of
             None \<Rightarrow> if n = 0 then Some h else None
           | Some old \<Rightarrow> Some (h\<lparr>hdu_header := Some (take (unat n) d @ drop (unat n) old)\<rparr>))"

definition dada_hdu_open :: "ring \<Rightarrow> ring \<Rightarrow> dada_hdu \<Rightarrow> int hdu_op" where
  "dada_hdu_open hr dr h =
     (if hdu_header h \<noteq> None then None
      else do {
        (res, hr, dr, h) \<leftarrow> on_header next_header hr dr h;
        case res of
          None \<Rightarrow> Some (- 1, hr, dr, h)
        | Some b \<Rightarrow>
            (case advertised_size b hr of
               (None, hr) \<Rightarrow> Some (- 1, hr, dr, h)
             | (Some n, hr) \<Rightarrow> do {
                 h \<leftarrow> copy_header (drop (unat (snd b)) (mem hr (fst b))) n h;
                 Some (0, hr, dr, h)
               })
      })"

section \<open>Text in a sub-block\<close>

lemma char_of_byte_of_char [simp]: "char_of_byte (byte_of_char c) = c"
proof -
  have "of_char c = (of_char c mod 256 :: nat)" by simp
  then have "of_char c < (256 :: nat)" by (metis mod_less_divisor zero_less_numeral)
  then have "unat (of_nat (of_char c) :: byte) = of_char c" by (simp add: unsigned_of_nat take_bit_nat_eq_self)
  then show ?thesis by (simp add: char_of_byte_def byte_of_char_def)
qed

lemma byte_of_char_zero [simp]: "byte_of_char c = 0 \<longleftrightarrow> c = CHR 0x00"
proof
  assume "byte_of_char c = 0"
  then have "char_of_byte (byte_of_char c) = char_of_byte 0" by (simp only:)
  moreover have "char_of_byte 0 = CHR 0x00"
  proof -
    have "(char_of (0 :: nat) :: char) = CHR 0x00" by code_simp
    then show ?thesis by (simp add: char_of_byte_def)
  qed
  ultimately show "c = CHR 0x00" by simp
qed (simp add: byte_of_char_def)

text \<open>A sub-block that starts with a string and its NUL.\<close>

lemma block_string_eq:
  assumes "drop (unat (snd b)) (mem r (fst b)) = map byte_of_char s @ 0 # rest" and "CHR 0x00 \<notin> set s"
  shows "block_string r b = s"
proof -
  have "takeWhile (\<lambda>x. x \<noteq> 0) (map byte_of_char s @ 0 # rest) = map byte_of_char s"
    using assms(2) by (induction s) auto
  then show ?thesis by (simp add: block_string_def assms(1) comp_def)
qed

lemma mem_put_string:
  assumes "unat (snd b) + length s < length (mem r (fst b))"
  shows "\<exists>rest. drop (unat (snd b)) (mem (put_string b s r) (fst b)) = map byte_of_char s @ 0 # rest"
  using assms by (simp add: put_string_def put_bytes_def Let_def)

end
