(* ===== verification/Dada_Client.thy ===== *)
theory Dada_Client
  imports Dada_Hdu
begin

text \<open>
  The main loops of the programs that read from or write to a unit
  (\<^verbatim>\<open>src/dada_client.c\<close>, built without CUDA). A program gives the functions that open
  and close the target of a transfer and move the data; here they are parameters, from the
  client to their result and the client they leave. They are called on a buffer
  of their own, not on the rings, except that the open function may change the header, and
  that a function for whole sub-blocks is handed the bytes of one.

  Other processes work on the rings while a loop runs: \<open>env k\<close> is what they do to the ring of
  data blocks before round \<open>k\<close>. \<open>None\<close> is a call that does not return: it sleeps, fails an
  assertion, or loops for ever.
\<close>

section \<open>The client\<close>

datatype client_direction = Undefined_direction | Reading | Writing_direction

text \<open>The header is a copy (of a reader), or lies in a sub-block of the header ring (of a writer).\<close>

datatype client_header = Private "byte list" | Shared ptr

record 'x dada_client =
  cl_data :: ipcio
  cl_header_block :: ipcbuf
  direction :: client_direction
  cl_header :: "client_header option"
  cl_header_size :: u64
  header_transfer :: bool
  transfer_bytes :: u64
  optimal_bytes :: u64
  cl_quit :: bool
  cl_context :: 'x

definition dada_client_create :: "ipcio \<Rightarrow> ipcbuf \<Rightarrow> 'x \<Rightarrow> 'x dada_client" where
  "dada_client_create data hdr x =
     \<lparr>cl_data = data, cl_header_block = hdr, direction = Undefined_direction, cl_header = None, cl_header_size = 0,
      header_transfer = True, transfer_bytes = 0, optimal_bytes = 0, cl_quit = False, cl_context = x\<rparr>"

text \<open>
  The functions of the program, for either direction: \<open>io_take\<close> is given bytes, \<open>io_give\<close> a
  number of bytes to give, and the same for whole sub-blocks with their number. Each returns the number
  of bytes, negative for an error; \<open>None\<close> when it does not return.
\<close>

record 'x client_functions =
  open_function :: "ring \<Rightarrow> 'x dada_client \<Rightarrow> (int \<times> ring \<times> 'x dada_client) option"
  io_take :: "'x dada_client \<Rightarrow> byte list \<Rightarrow> (int \<times> 'x dada_client) option"
  io_give :: "'x dada_client \<Rightarrow> u64 \<Rightarrow> (int \<times> byte list \<times> 'x dada_client) option"
  io_block_take :: "('x dada_client \<Rightarrow> byte list \<Rightarrow> u64 \<Rightarrow> (int \<times> 'x dada_client) option) option"
  io_block_give :: "('x dada_client \<Rightarrow> u64 \<Rightarrow> u64 \<Rightarrow> (int \<times> byte list \<times> 'x dada_client) option) option"
  close_function :: "'x dada_client \<Rightarrow> u64 \<Rightarrow> (int \<times> 'x dada_client) option"

type_synonym ('a, 'x) client_op = "('a \<times> ring \<times> 'x dada_client) option"

definition on_cl_data :: "(ring \<Rightarrow> ipcio \<Rightarrow> 'a io) \<Rightarrow> ring \<Rightarrow> 'x dada_client \<Rightarrow> ('a, 'x) client_op" where
  "on_cl_data f r cl =
     (case f r (cl_data cl) of None \<Rightarrow> None | Some (x, r, c) \<Rightarrow> Some (x, r, cl\<lparr>cl_data := c\<rparr>))"

definition on_cl_header :: "(ring \<Rightarrow> ipcbuf \<Rightarrow> 'a ipc) \<Rightarrow> ring \<Rightarrow> 'x dada_client \<Rightarrow> ('a, 'x) client_op" where
  "on_cl_header f r cl =
     (case f r (cl_header_block cl) of None \<Rightarrow> None | Some (x, r, p) \<Rightarrow> Some (x, r, cl\<lparr>cl_header_block := p\<rparr>))"

section \<open>The loop through a buffer\<close>

definition more_to_transfer :: "'x dada_client \<Rightarrow> u64 \<Rightarrow> bool" where
  "more_to_transfer cl done_bytes \<longleftrightarrow> transfer_bytes cl = 0 \<or> done_bytes < transfer_bytes cl"

definition next_bytes :: "'x dada_client \<Rightarrow> u64 \<Rightarrow> u64 \<Rightarrow> u64" where
  "next_bytes cl sz done_bytes =
     (if transfer_bytes cl = 0 then sz
      else let left = transfer_bytes cl - done_bytes in if left < sz then left else sz)"

text \<open>An error of the program's function ends the loop with what was transferred before.\<close>

partial_function (option) io_loop_read ::
    "'x client_functions \<Rightarrow> (nat \<Rightarrow> ring \<Rightarrow> ring) \<Rightarrow> u64 \<Rightarrow> nat \<Rightarrow> u64 \<Rightarrow> ring \<Rightarrow> 'x dada_client \<Rightarrow> (int, 'x) client_op" where
  "io_loop_read F env sz k done_bytes r cl =
     (if \<not> more_to_transfer cl done_bytes then Some (c_int64 done_bytes, r, cl)
      else
        let n = next_bytes cl sz done_bytes; r = env k r
        in if ipcbuf_eod (buf (cl_data cl)) then Some (c_int64 done_bytes, r, cl)
           else do {
             ((rc, d), r, cl) \<leftarrow> on_cl_data (\<lambda>r c. ipcio_read r c n) r cl;
             if rc < 0 then Some (- 1, r, cl)
             else do {
               (rc, cl) \<leftarrow> io_take F cl d;
               if rc < 0 then Some (c_int64 done_bytes, r, cl)
               else io_loop_read F env sz (k + 1) (done_bytes + word_of_int rc) r cl
             }
           })"

partial_function (option) io_loop_write ::
    "'x client_functions \<Rightarrow> (nat \<Rightarrow> ring \<Rightarrow> ring) \<Rightarrow> u64 \<Rightarrow> nat \<Rightarrow> u64 \<Rightarrow> ring \<Rightarrow> 'x dada_client \<Rightarrow> (int, 'x) client_op" where
  "io_loop_write F env sz k done_bytes r cl =
     (if \<not> more_to_transfer cl done_bytes then Some (c_int64 done_bytes, r, cl)
      else
        do {
          (rc, d, cl) \<leftarrow> io_give F cl (next_bytes cl sz done_bytes);
          if rc \<le> 0 then Some (c_int64 done_bytes, r, cl)
          else do {
            (rc, r, cl) \<leftarrow> on_cl_data (\<lambda>r c. ipcio_write r c (take (nat rc) d)) (env k r) cl;
            if rc < 0 then Some (- 1, r, cl)
            else io_loop_write F env sz (k + 1) (done_bytes + word_of_int rc) r cl
          }
        })"

definition dada_client_io_loop ::
    "'x client_functions \<Rightarrow> (nat \<Rightarrow> ring \<Rightarrow> ring) \<Rightarrow> ring \<Rightarrow> 'x dada_client \<Rightarrow> (int, 'x) client_op" where
  "dada_client_io_loop F env r cl =
     (case direction cl of
        Reading \<Rightarrow> io_loop_read F env (optimal_bytes cl) 0 0 r cl
      | Writing_direction \<Rightarrow> io_loop_write F env (optimal_bytes cl) 0 0 r cl
      | Undefined_direction \<Rightarrow> None)"

section \<open>The loop over sub-blocks\<close>

text \<open>A sub-block without bytes is not shown to the program; the result of closing it is not looked at.\<close>

partial_function (option) block_loop_read ::
    "('x dada_client \<Rightarrow> byte list \<Rightarrow> u64 \<Rightarrow> (int \<times> 'x dada_client) option) \<Rightarrow> (nat \<Rightarrow> ring \<Rightarrow> ring) \<Rightarrow> nat \<Rightarrow> u64
     \<Rightarrow> ring \<Rightarrow> 'x dada_client \<Rightarrow> (int, 'x) client_op" where
  "block_loop_read f env k done_bytes r cl =
     (if \<not> more_to_transfer cl done_bytes then Some (c_int64 done_bytes, r, cl)
      else
        let r = env k r
        in if ipcbuf_eod (buf (cl_data cl)) then Some (c_int64 done_bytes, r, cl)
           else do {
             (res, r, cl) \<leftarrow> on_cl_data ipcio_open_block_read r cl;
             case res of
               None \<Rightarrow> Some (- 1, r, cl)
             | Some (b, n, ident) \<Rightarrow>
                 do {
                   (rc, cl) \<leftarrow> (if n = 0 then Some (0, cl) else f cl (get_bytes b 0 n r) ident);
                   if rc < 0 then Some (c_int64 done_bytes, r, cl)
                   else do {
                     (_, r, cl) \<leftarrow> on_cl_data (\<lambda>r c. ipcio_close_block_read r c (word_of_int rc)) r cl;
                     block_loop_read f env (k + 1) (done_bytes + word_of_int rc) r cl
                   }
                 }
           })"

partial_function (option) block_loop_write ::
    "('x dada_client \<Rightarrow> u64 \<Rightarrow> u64 \<Rightarrow> (int \<times> byte list \<times> 'x dada_client) option) \<Rightarrow> (nat \<Rightarrow> ring \<Rightarrow> ring) \<Rightarrow> nat \<Rightarrow> u64
     \<Rightarrow> ring \<Rightarrow> 'x dada_client \<Rightarrow> (int, 'x) client_op" where
  "block_loop_write f env k done_bytes r cl =
     (if \<not> more_to_transfer cl done_bytes then Some (c_int64 done_bytes, r, cl)
      else
        let n = next_bytes cl (ipcbuf_get_bufsz r) done_bytes
        in do {
             (res, r, cl) \<leftarrow> on_cl_data ipcio_open_block_write (env k r) cl;
             case res of
               None \<Rightarrow> Some (- 1, r, cl)
             | Some (b, ident) \<Rightarrow>
                 do {
                   (rc, d, cl) \<leftarrow> (if n = 0 then Some (0, [], cl) else f cl n ident);
                   let r = put_bytes b 0 d r;
                   if rc < 0 then Some (c_int64 done_bytes, r, cl)
                   else do {
                     (e, r, cl) \<leftarrow> on_cl_data (\<lambda>r c. ipcio_close_block_write r c (word_of_int rc)) r cl;
                     if e < 0 then Some (- 1, r, cl)
                     else if word_of_int rc < ipcbuf_get_bufsz r
                     then Some (c_int64 (done_bytes + word_of_int rc), r, cl)
                     else block_loop_write f env (k + 1) (done_bytes + word_of_int rc) r cl
                   }
                 }
           })"

definition dada_client_io_loop_block ::
    "'x client_functions \<Rightarrow> (nat \<Rightarrow> ring \<Rightarrow> ring) \<Rightarrow> ring \<Rightarrow> 'x dada_client \<Rightarrow> (int, 'x) client_op" where
  "dada_client_io_loop_block F env r cl =
     (case (direction cl, io_block_take F, io_block_give F) of
        (Reading, Some f, _) \<Rightarrow> block_loop_read f env 0 0 r cl
      | (Writing_direction, _, Some f) \<Rightarrow> block_loop_write f env 0 0 r cl
      | _ \<Rightarrow> None)"

section \<open>One transfer\<close>

text \<open>
  The header goes through the program's function as well. The number it returns is compared
  with the size as an unsigned number.
\<close>

definition transfer_header ::
    "'x client_functions \<Rightarrow> ring \<Rightarrow> 'x dada_client \<Rightarrow> (bool \<times> ring \<times> 'x dada_client) option" where
  "transfer_header F hr cl =
     (if \<not> header_transfer cl then Some (True, hr, cl)
      else case cl_header cl of
             Some (Private d) \<Rightarrow>
               map_option (\<lambda>(rc, cl'). (cl_header_size cl \<le> word_of_int rc, hr, cl'))
                 (io_take F cl (take (unat (cl_header_size cl)) d))
           | Some (Shared b) \<Rightarrow>
               map_option (\<lambda>(rc, d, cl'). (cl_header_size cl \<le> word_of_int rc, put_bytes b 0 d hr, cl'))
                 (io_give F cl (cl_header_size cl))
           | None \<Rightarrow> Some (True, hr, cl))"

text \<open>\<open>page\<close> is the size of a memory page, 128 of which are the default size of a buffer.\<close>

definition dada_client_transfer ::
    "u64 \<Rightarrow> 'x client_functions \<Rightarrow> (nat \<Rightarrow> ring \<Rightarrow> ring) \<Rightarrow> ring \<Rightarrow> ring \<Rightarrow> 'x dada_client
     \<Rightarrow> (int \<times> ring \<times> ring \<times> 'x dada_client) option" where
  "dada_client_transfer page F env hr dr cl =
     do {
       (rc, hr, cl) \<leftarrow> open_function F hr cl;
       if rc < 0 then Some (- 1, hr, dr, cl)
       else if cl_quit cl then Some (0, hr, dr, cl)
       else if cl_header cl = None \<or> cl_header_size cl = 0 then None
       else do {
         (ok, hr, cl) \<leftarrow> transfer_header F hr cl;
         if \<not> ok then Some (- 1, hr, dr, cl)
         else do {
           (rc, hr, cl) \<leftarrow>
             (if direction cl = Writing_direction
              then on_cl_header (\<lambda>r p. ipcbuf_mark_filled r p (ipcbuf_get_bufsz r)) hr cl
              else Some (0, hr, cl));
           if rc < 0 then Some (1, hr, dr, cl)
           else
             let cl = (if optimal_bytes cl = 0 then cl\<lparr>optimal_bytes := page * 128\<rparr> else cl)
             in do {
               (n, dr, cl) \<leftarrow>
                 (if io_block_take F \<noteq> None \<or> io_block_give F \<noteq> None
                  then dada_client_io_loop_block F env dr cl else dada_client_io_loop F env dr cl);
               (rc, cl) \<leftarrow> close_function F cl (word_of_int n);
               if rc < 0 then Some (- 1, hr, dr, cl) else Some (n, hr, dr, cl)
             }
         }
       }
     }"

section \<open>Reading\<close>

text \<open>The header is awaited as in \<open>dada_hdu_open\<close>, without asking for the kind of the handle.\<close>

partial_function (option) client_next_header :: "ring \<Rightarrow> ipcbuf \<Rightarrow> (int + ptr) ipc" where
  "client_next_header r p =
     do {
       (res, r, p) \<leftarrow> ipcbuf_get_next_read r p;
       case res of
         None \<Rightarrow> Some (Inl (- 3), r, p)
       | Some (b, n) \<Rightarrow>
           if n \<noteq> 0 then Some (Inr b, r, p)
           else do {
             (_, r, p) \<leftarrow> ipcbuf_mark_cleared r p;
             if ipcbuf_eod p
             then do { (_, r, p) \<leftarrow> ipcbuf_reset r p; client_next_header r p }
             else Some (Inl (- 1), r, p)
           }
     }"

definition client_copy_header :: "byte list \<Rightarrow> u64 \<Rightarrow> 'x dada_client \<Rightarrow> 'x dada_client option" where
  "client_copy_header d n cl =
     (if cl_header_size cl < n then Some (cl\<lparr>cl_header := Some (Private (take (unat n) d)), cl_header_size := n\<rparr>)
      else case cl_header cl of
             Some (Private old) \<Rightarrow> Some (cl\<lparr>cl_header := Some (Private (take (unat n) d @ drop (unat n) old))\<rparr>)
           | _ \<Rightarrow> if n = 0 then Some cl else None)"

text \<open>The string in the copy, and a string put there with its NUL.\<close>

definition bytes_string :: "byte list \<Rightarrow> string" where
  "bytes_string d = map char_of_byte (takeWhile (\<lambda>x. x \<noteq> 0) d)"

definition put_header :: "string \<Rightarrow> 'x dada_client \<Rightarrow> 'x dada_client option" where
  "put_header s cl =
     (case cl_header cl of
        Some (Private old) \<Rightarrow>
          Some (cl\<lparr>cl_header := Some (Private (map byte_of_char s @ 0 # drop (length s + 1) old))\<rparr>)
      | _ \<Rightarrow> None)"

definition header_text :: "'x dada_client \<Rightarrow> string" where
  "header_text cl = (case cl_header cl of Some (Private d) \<Rightarrow> bytes_string d | _ \<Rightarrow> [])"

text \<open>Transfers until the end of data, each with the offset of its first byte in the header.\<close>

partial_function (option) read_transfers ::
    "u64 \<Rightarrow> 'x client_functions \<Rightarrow> (nat \<Rightarrow> nat \<Rightarrow> ring \<Rightarrow> ring) \<Rightarrow> nat \<Rightarrow> u64 \<Rightarrow> ring \<Rightarrow> ring \<Rightarrow> 'x dada_client
     \<Rightarrow> (int \<times> ring \<times> ring \<times> 'x dada_client) option" where
  "read_transfers page F env j obs_offset hr dr cl =
     (if ipcbuf_eod (buf (cl_data cl)) then Some (0, hr, dr, cl)
      else
        case ascii_header_set (header_text cl) ''OBS_OFFSET'' (Some (decimal (unat obs_offset))) of
          (rc, s) \<Rightarrow>
            if rc < 0 then Some (- 1, hr, dr, cl)
            else do {
              cl \<leftarrow> put_header s cl;
              (n, hr, dr, cl) \<leftarrow> dada_client_transfer page F (env j) hr dr cl;
              if n < 0 then Some (- 1, hr, dr, cl)
              else read_transfers page F env (j + 1) (obs_offset + word_of_int n) hr dr cl
            })"

definition dada_client_read ::
    "u64 \<Rightarrow> 'x client_functions \<Rightarrow> (nat \<Rightarrow> nat \<Rightarrow> ring \<Rightarrow> ring) \<Rightarrow> ring \<Rightarrow> ring \<Rightarrow> 'x dada_client
     \<Rightarrow> (int \<times> ring \<times> ring \<times> 'x dada_client) option" where
  "dada_client_read page F env hr dr cl =
     do {
       (res, hr, cl) \<leftarrow> on_cl_header client_next_header hr cl;
       case res of
         Inl e \<Rightarrow> Some (e, hr, dr, cl)
       | Inr b \<Rightarrow>
           (case advertised_size b hr of
              (None, hr) \<Rightarrow> Some (- 1, hr, dr, cl)
            | (Some n, hr) \<Rightarrow> do {
                cl \<leftarrow> client_copy_header (drop (unat (snd b)) (mem hr (fst b))) n cl;
                (_, hr, cl) \<leftarrow> on_cl_header ipcbuf_mark_cleared hr cl;
                let obs_offset = (case ascii_header_get (header_text cl) ''OBS_OFFSET'' sscanf_lu of
                                    (rc, v) \<Rightarrow> if rc = 1 then (case v of Some n \<Rightarrow> n | None \<Rightarrow> 0) else 0);
                (rc, hr, dr, cl) \<leftarrow> read_transfers page F env 0 obs_offset hr dr cl;
                if rc < 0 then Some (rc, hr, dr, cl)
                else case ipcbuf_reset dr (buf (cl_data cl)) of
                       None \<Rightarrow> None
                     | Some (_, dr, p) \<Rightarrow> Some (0, hr, dr, cl\<lparr>cl_data := (cl_data cl)\<lparr>buf := p\<rparr>\<rparr>)
              })
     }"

section \<open>Writing and closing\<close>

definition dada_client_write ::
    "u64 \<Rightarrow> 'x client_functions \<Rightarrow> (nat \<Rightarrow> ring \<Rightarrow> ring) \<Rightarrow> ring \<Rightarrow> ring \<Rightarrow> 'x dada_client
     \<Rightarrow> (int \<times> ring \<times> ring \<times> 'x dada_client) option" where
  "dada_client_write page F env hr dr cl =
     (if ipcbuf_get_bufsz hr = 0 then Some (0, hr, dr, cl)
      else
        let size = ipcbuf_get_bufsz hr
        in do {
             (res, hr, cl) \<leftarrow> on_cl_header ipcbuf_get_next_write hr cl;
             case res of
               None \<Rightarrow> Some (1, hr, dr, cl)
             | Some b \<Rightarrow> do {
                 (n, hr, dr, cl) \<leftarrow> dada_client_transfer page F env hr dr
                   (cl\<lparr>cl_header := Some (Shared (b, 0)), cl_header_size := size\<rparr>);
                 Some (if n < 0 then - 1 else 0, hr, dr, cl)
               }
           })"

definition dada_client_stop :: "ring \<Rightarrow> 'x dada_client \<Rightarrow> (int, 'x) client_op" where
  "dada_client_stop r cl =
     do { (rc, r, cl) \<leftarrow> on_cl_data ipcio_stop r cl; Some (if rc < 0 then - 1 else 0, r, cl) }"

definition dada_client_close :: "ring \<Rightarrow> 'x dada_client \<Rightarrow> (int, 'x) client_op" where
  "dada_client_close r cl =
     do { (rc, r, cl) \<leftarrow> on_cl_data ipcio_close r cl; Some (if rc < 0 then - 1 else 0, r, cl) }"

end
