(* ===== verification/Dada_Dbcopydb.thy ===== *)
theory Dada_Dbcopydb
  imports Dada_Client
begin

text \<open>
  The program that copies a stream to any number of units (\<^verbatim>\<open>src/dada_dbcopydb.c\<close>): the functions it gives to the main
  loop of the client, and the loop of \<open>main\<close>. The rings of the outputs are part of its state. \<open>others k j\<close> is what
  the other processes do to the two rings of output \<open>j\<close> before the \<open>k\<close>-th call of a function. The messages of the
  log are left out.
\<close>

section \<open>The state\<close>

record copy_output =
  out_headers :: ring
  out_data :: ring
  out_hdu :: dada_hdu
  out_block_size :: u64
  out_bytes_written :: u64
  out_block_open :: bool
  out_curr_block :: "ptr option"

record dbcopydb =
  cp_outputs :: "copy_output list"
  cp_bytes_in :: u64
  cp_bytes_out :: u64
  cp_final :: bool
  cp_calls :: nat

type_synonym output_env = "nat \<Rightarrow> nat \<Rightarrow> ring \<times> ring \<Rightarrow> ring \<times> ring"

text \<open>An output as \<open>main\<close> sets it up, connected to its two rings.\<close>

definition copy_output_init :: "ring \<Rightarrow> ring \<Rightarrow> dada_hdu \<Rightarrow> copy_output" where
  "copy_output_init hr dr h =
     \<lparr>out_headers = hr, out_data = dr, out_hdu = h, out_block_size = ipcbuf_get_bufsz dr, out_bytes_written = 0,
      out_block_open = False, out_curr_block = None\<rparr>"

definition dbcopydb_init :: "copy_output list \<Rightarrow> dbcopydb" where
  "dbcopydb_init os = \<lparr>cp_outputs = os, cp_bytes_in = 0, cp_bytes_out = 0, cp_final = False, cp_calls = 0\<rparr>"

text \<open>An operation on the unit of an output, and one on its data.\<close>

definition on_unit :: "(ring \<Rightarrow> ring \<Rightarrow> dada_hdu \<Rightarrow> 'a hdu_op) \<Rightarrow> copy_output \<Rightarrow> ('a \<times> copy_output) option" where
  "on_unit f u =
     (case f (out_headers u) (out_data u) (out_hdu u) of
        None \<Rightarrow> None
      | Some (x, hr, dr, h) \<Rightarrow> Some (x, u\<lparr>out_headers := hr, out_data := dr, out_hdu := h\<rparr>))"

definition on_out_data :: "(ring \<Rightarrow> ipcio \<Rightarrow> 'a io) \<Rightarrow> copy_output \<Rightarrow> ('a \<times> copy_output) option" where
  "on_out_data f = on_unit (on_data f)"

definition on_out_header :: "(ring \<Rightarrow> ipcbuf \<Rightarrow> 'a ipc) \<Rightarrow> copy_output \<Rightarrow> ('a \<times> copy_output) option" where
  "on_out_header f = on_unit (on_header f)"

text \<open>A loop over the outputs that stops at the first error.\<close>

fun outputs_until_error :: "(copy_output \<Rightarrow> (int \<times> copy_output) option) \<Rightarrow> copy_output list \<Rightarrow> (int \<times> copy_output list) option" where
  "outputs_until_error f [] = Some (0, [])"
| "outputs_until_error f (u # os) =
     do {
       (rc, u) \<leftarrow> f u;
       if rc < 0 then Some (- 1, u # os)
       else do { (rc, os) \<leftarrow> outputs_until_error f os; Some (rc, u # os) }
     }"

definition interfere :: "output_env \<Rightarrow> nat \<Rightarrow> copy_output list \<Rightarrow> copy_output list" where
  "interfere others k os =
     map (\<lambda>(j, u). case others k j (out_headers u, out_data u) of (hr, dr) \<Rightarrow> u\<lparr>out_headers := hr, out_data := dr\<rparr>)
       (enumerate 0 os)"

text \<open>Every call starts with what the others have done.\<close>

definition begin_call :: "output_env \<Rightarrow> dbcopydb dada_client \<Rightarrow> dbcopydb dada_client" where
  "begin_call others cl =
     (let x = cl_context cl
      in cl\<lparr>cl_context := x\<lparr>cp_outputs := interfere others (cp_calls x) (cp_outputs x), cp_calls := cp_calls x + 1\<rparr>\<rparr>)"

definition set_outputs :: "copy_output list \<Rightarrow> dbcopydb dada_client \<Rightarrow> dbcopydb dada_client" where
  "set_outputs os cl = cl\<lparr>cl_context := (cl_context cl)\<lparr>cp_outputs := os\<rparr>\<rparr>"

section \<open>Opening a transfer\<close>

text \<open>
  The conversion \<open>%li\<close> of \<open>scanf\<close>: a number is octal behind a \<open>0\<close> and hexadecimal behind \<open>0x\<close>.
\<close>

definition hex_digit :: "char \<Rightarrow> nat option" where
  "hex_digit c =
     (let n = of_char c :: nat
      in if is_digit c then Some (digit_value c)
         else if 97 \<le> n \<and> n \<le> 102 then Some (n - 87)
         else if 65 \<le> n \<and> n \<le> 70 then Some (n - 55) else None)"

fun scan_base :: "nat \<Rightarrow> nat \<Rightarrow> string \<Rightarrow> nat" where
  "scan_base b n [] = n"
| "scan_base b n (c # s) =
     (case hex_digit c of Some d \<Rightarrow> if d < b then scan_base b (b * n + d) s else n | None \<Rightarrow> n)"

definition sscanf_li :: "string \<Rightarrow> int \<times> int option" where
  "sscanf_li s =
     (let body = dropWhile c_space s; (sign, r) = scan_sign body
      in if body = [] then (- 1, None)
         else case r of
                c # t \<Rightarrow>
                  if \<not> is_digit c then (0, None)
                  else
                    let n = (if c \<noteq> CHR ''0'' then scan_base 10 0 r
                             else case t of
                                    x # u \<Rightarrow> if x = CHR ''x'' \<or> x = CHR ''X'' then scan_base 16 0 u else scan_base 8 0 t
                                  | [] \<Rightarrow> 0)
                    in (1, Some (max (- (2 ^ 63)) (min (2 ^ 63 - 1) (sign * int n))))
              | [] \<Rightarrow> (0, None))"

definition header_int64 :: "string \<Rightarrow> string \<Rightarrow> int" where
  "header_int64 text keyword =
     (case ascii_header_get text keyword sscanf_li of (rc, v) \<Rightarrow> (case v of Some n \<Rightarrow> n | None \<Rightarrow> 0))"

text \<open>
  The header goes to the next sub-block of an output's header ring; both header rings have sub-blocks of the same size.
  The copy of the client is only as long as the header says it is: \<open>memcpy\<close> must not go beyond it.
\<close>

definition copy_header_to :: "u64 \<Rightarrow> byte list \<Rightarrow> copy_output \<Rightarrow> (int \<times> copy_output) option" where
  "copy_header_to n d u =
     (if n \<noteq> ipcbuf_get_bufsz (out_headers u) then None
      else do {
        (res, u) \<leftarrow> on_out_header ipcbuf_get_next_write u;
        case res of
          None \<Rightarrow> Some (- 1, u)
        | Some b \<Rightarrow>
            if length d < unat n then None
            else do {
              (rc, u) \<leftarrow> on_out_header (\<lambda>r p. ipcbuf_mark_filled r p n)
                          (u\<lparr>out_headers := put_bytes (b, 0) 0 (take (unat n) d) (out_headers u)\<rparr>);
              Some (if rc < 0 then - 1 else 0, u)
            }
      })"

definition dbcopydb_open :: "output_env \<Rightarrow> ring \<Rightarrow> dbcopydb dada_client \<Rightarrow> (int, dbcopydb) client_op" where
  "dbcopydb_open others hr cl =
     (let cl = begin_call others cl
      in case cl_header cl of
           Some (Private d) \<Rightarrow>
             do {
               (rc, os) \<leftarrow> outputs_until_error (on_unit dada_hdu_lock_write) (cp_outputs (cl_context cl));
               let cl = set_outputs os cl;
               if rc < 0 then Some (- 1, hr, cl)
               else
                 let obs_xfer = header_int64 (header_text cl) ''OBS_XFER'';
                     transfer_size = header_int64 (header_text cl) ''TRANSFER_SIZE'';
                     cl = (if obs_xfer = - 1 then cl\<lparr>cl_context := (cl_context cl)\<lparr>cp_final := True\<rparr>\<rparr> else cl)
                 in do {
                      (rc, os) \<leftarrow> outputs_until_error (copy_header_to (ipcbuf_get_bufsz hr) d) (cp_outputs (cl_context cl));
                      let cl = set_outputs os cl;
                      if rc < 0 then Some (- 1, hr, cl)
                      else Some (0, hr, cl\<lparr>transfer_bytes := word_of_int transfer_size, optimal_bytes := 64 * 1024 * 1024,
                             cl_context := (cl_context cl)\<lparr>cp_bytes_in := 0, cp_bytes_out := 0\<rparr>, header_transfer := False\<rparr>)
                    }
             }
         | _ \<Rightarrow> None)"

section \<open>Closing\<close>

definition close_output :: "copy_output \<Rightarrow> (int \<times> copy_output) option" where
  "close_output u =
     do {
       (rc, u) \<leftarrow>
         (if out_block_open u
          then do {
            (rc, u) \<leftarrow> on_out_data (\<lambda>r c. ipcio_close_block_write r c (out_bytes_written u)) u;
            if rc < 0 then Some (- 1, u) else Some (0 :: int, u\<lparr>out_block_open := False, out_bytes_written := 0\<rparr>)
          }
          else Some (0, u));
       if rc < 0 then Some (- 1, u)
       else do { (rc, u) \<leftarrow> on_unit dada_hdu_unlock_write u; Some (if rc < 0 then - 1 else 0, u) }
     }"

definition dbcopydb_close :: "output_env \<Rightarrow> dbcopydb dada_client \<Rightarrow> u64 \<Rightarrow> (int \<times> dbcopydb dada_client) option" where
  "dbcopydb_close others cl n =
     (let cl = begin_call others cl
      in do { (rc, os) \<leftarrow> outputs_until_error close_output (cp_outputs (cl_context cl)); Some (rc, set_outputs os cl) })"

section \<open>Copying\<close>

text \<open>The bytes go to every output; what \<open>ipcio_write\<close> returns is not looked at.\<close>

fun write_outputs :: "byte list \<Rightarrow> copy_output list \<Rightarrow> copy_output list option" where
  "write_outputs d [] = Some []"
| "write_outputs d (u # os) =
     do {
       (_, u) \<leftarrow> on_out_data (\<lambda>r c. ipcio_write r c d) u;
       os \<leftarrow> write_outputs d os;
       Some (u # os)
     }"

definition count_copied :: "u64 \<Rightarrow> dbcopydb dada_client \<Rightarrow> dbcopydb dada_client" where
  "count_copied n cl =
     cl\<lparr>cl_context := (cl_context cl)\<lparr>cp_bytes_in := cp_bytes_in (cl_context cl) + n, cp_bytes_out := cp_bytes_out (cl_context cl) + n\<rparr>\<rparr>"

definition dbcopydb_write :: "output_env \<Rightarrow> dbcopydb dada_client \<Rightarrow> byte list \<Rightarrow> (int \<times> dbcopydb dada_client) option" where
  "dbcopydb_write others cl d =
     (let cl = begin_call others cl
      in do {
           os \<leftarrow> write_outputs d (cp_outputs (cl_context cl));
           Some (c_int64 (of_nat (length d)), count_copied (of_nat (length d)) (set_outputs os cl))
         })"

text \<open>
  Whole sub-blocks: the bytes go behind those already in the open sub-block of an output, or into a new one. A full
  sub-block is closed, the last one of the transfer is left for the end of data. Bytes that run over the end of a
  sub-block, which the program only notes in its log, are \<open>None\<close>.
\<close>

definition current_block :: "copy_output \<Rightarrow> ((ptr \<times> u64) option \<times> copy_output) option" where
  "current_block u =
     (if out_block_open u
      then (case out_curr_block u of None \<Rightarrow> None | Some b \<Rightarrow> Some (Some (b, out_bytes_written u), u))
      else do {
        (res, u) \<leftarrow> on_out_data ipcio_open_block_write u;
        case res of
          None \<Rightarrow> Some (None, u\<lparr>out_curr_block := None\<rparr>)
        | Some (b, ident) \<Rightarrow> Some (Some (b, 0), u\<lparr>out_curr_block := Some b, out_block_open := True\<rparr>)
      })"

definition finish_block :: "bool \<Rightarrow> copy_output \<Rightarrow> (int \<times> copy_output) option" where
  "finish_block last_one u =
     (if out_block_size u \<le> out_bytes_written u
      then do {
        (rc, u) \<leftarrow>
          (if last_one
           then on_out_data (\<lambda>r c. case ipcio_update_block_write r c (out_bytes_written u) of (rc, c) \<Rightarrow> Some (rc, r, c)) u
           else on_out_data (\<lambda>r c. ipcio_close_block_write r c (out_bytes_written u)) u);
        if rc < 0 then Some (- 1, u) else Some (0, u\<lparr>out_block_open := False, out_bytes_written := 0\<rparr>)
      }
      else Some (0, if out_bytes_written u = 0 then u\<lparr>out_bytes_written := 1\<rparr> else u))"

definition copy_block_to :: "bool \<Rightarrow> byte list \<Rightarrow> copy_output \<Rightarrow> (int \<times> copy_output) option" where
  "copy_block_to last_one d u =
     do {
       (res, u) \<leftarrow> current_block u;
       case res of
         None \<Rightarrow> Some (- 1, u)
       | Some (b, at) \<Rightarrow>
           if unat (out_block_size u) < unat at + length d then None
           else finish_block last_one
             (u\<lparr>out_data := put_bytes b at d (out_data u), out_bytes_written := out_bytes_written u + of_nat (length d)\<rparr>)
     }"

definition dbcopydb_write_block ::
    "output_env \<Rightarrow> dbcopydb dada_client \<Rightarrow> byte list \<Rightarrow> u64 \<Rightarrow> (int \<times> dbcopydb dada_client) option" where
  "dbcopydb_write_block others cl d block_id =
     (let cl = begin_call others cl; n = of_nat (length d);
          last_one = (transfer_bytes cl \<noteq> 0 \<and> cp_bytes_in (cl_context cl) + n = transfer_bytes cl)
      in do {
           (rc, os) \<leftarrow> outputs_until_error (copy_block_to last_one d) (cp_outputs (cl_context cl));
           let cl = set_outputs os cl;
           if rc < 0 then Some (- 1, cl) else Some (c_int64 n, count_copied n cl)
         })"

section \<open>The program\<close>

definition dbcopydb_functions :: "output_env \<Rightarrow> bool \<Rightarrow> dbcopydb client_functions" where
  "dbcopydb_functions others zero_copy =
     \<lparr>open_function = dbcopydb_open others, io_take = dbcopydb_write others, io_give = (\<lambda>cl n. None),
      io_block_take = (if zero_copy then Some (dbcopydb_write_block others) else None), io_block_give = None,
      close_function = dbcopydb_close others\<rparr>"

text \<open>
  One round of the loop of \<open>main\<close>: the transfers of an observation, whose errors are only written to the log, and the reader's
  lock given back and taken again. The handle of the client is the one of the unit.
\<close>

definition with_client :: "dada_hdu \<Rightarrow> dbcopydb dada_client \<Rightarrow> dada_hdu" where
  "with_client h cl = h\<lparr>data_block := Some (cl_data cl), header_block := Some (cl_header_block cl)\<rparr>"

definition from_unit :: "dada_hdu \<Rightarrow> dbcopydb dada_client \<Rightarrow> dbcopydb dada_client option" where
  "from_unit h cl =
     (case (data_block h, header_block h) of
        (Some c, Some p) \<Rightarrow> Some (cl\<lparr>cl_data := c, cl_header_block := p\<rparr>) | _ \<Rightarrow> None)"

definition dbcopydb_round ::
    "u64 \<Rightarrow> output_env \<Rightarrow> bool \<Rightarrow> bool \<Rightarrow> bool \<Rightarrow> (nat \<Rightarrow> nat \<Rightarrow> ring \<Rightarrow> ring) \<Rightarrow> dada_hdu \<Rightarrow> ring \<Rightarrow> ring
     \<Rightarrow> dbcopydb dada_client \<Rightarrow> (int \<times> ring \<times> ring \<times> dada_hdu \<times> dbcopydb dada_client) option" where
  "dbcopydb_round page others zero_copy single_transfer quit_xfer env h hr dr cl =
     do {
       (_, hr, dr, cl) \<leftarrow> dada_client_read page (dbcopydb_functions others zero_copy) env hr dr cl;
       (rc, hr, dr, h) \<leftarrow> dada_hdu_unlock_read hr dr (with_client h cl);
       cl \<leftarrow> from_unit h cl;
       if rc < 0 then Some (- 1, hr, dr, h, cl)
       else
         let cl = (if single_transfer \<or> quit_xfer \<and> cp_final (cl_context cl) then cl\<lparr>cl_quit := True\<rparr> else cl)
         in if cl_quit cl then Some (0, hr, dr, h, cl)
            else do {
              (rc, hr, dr, h) \<leftarrow> dada_hdu_lock_read hr dr h;
              cl \<leftarrow> from_unit h cl;
              Some (if rc < 0 then - 1 else 0, hr, dr, h, cl)
            }
     }"

end
