(* ===== verification/Ipcio_Stream.thy ===== *)
theory Ipcio_Stream
  imports Ipcio Ring_Properties
begin

text \<open>
  The byte stream: \<open>ipcio_write\<close> and \<open>ipcio_read\<close> are runs of the stream system of
  the ring. What a call writes is appended to the bytes of the stream, and what a
  call reads are the next bytes of the stream.
\<close>

section \<open>The writer's side\<close>

text \<open>
  Between calls the writer has no sub-block, or the current one open and not yet
  marked filled, also when it is full.
\<close>

definition writer_idle :: "stream \<Rightarrow> ipcio \<Rightarrow> bool" where
  "writer_idle s c \<longleftrightarrow> curbuf c = None \<and> bytes c = 0 \<and> N_of (the_ring s) = W_of (the_ring s)
     \<and> (state (writer s) = WCHANGE \<or> state (writer s) = WRITING)"

definition writer_busy :: "stream \<Rightarrow> ipcio \<Rightarrow> bool" where
  "writer_busy s c \<longleftrightarrow> curbuf c = Some (curr_slot (the_ring s), 0) \<and> \<not> marked_filled c
     \<and> bytes c \<le> bufsz (sync (the_ring s)) \<and> N_of (the_ring s) = W_of (the_ring s) + 1
     \<and> state (writer s) = WRITING"

definition writing_at :: "stream \<Rightarrow> ipcio \<Rightarrow> bool" where
  "writing_at s c \<longleftrightarrow> stream_inv s \<and> buf c = writer s \<and> rdwrt c = CHR ''W'' \<and> \<not> sod_pending c
     \<and> 0 < bufsz (sync (the_ring s)) \<and> (writer_idle s c \<or> writer_busy s c)"

text \<open>The bytes of the stream so far: the sub-blocks marked filled and the part of the current one.\<close>

definition stream_bytes :: "stream \<Rightarrow> ipcio \<Rightarrow> byte list" where
  "stream_bytes s c = concat (sent s)
     @ (case curbuf c of None \<Rightarrow> [] | Some b \<Rightarrow> take (unat (bytes c)) (mem (the_ring s) (fst b)))"

text \<open>What the steps of the writer leave alone.\<close>

definition same_readers :: "stream \<Rightarrow> stream \<Rightarrow> bool" where
  "same_readers s s' \<longleftrightarrow> reader s' = reader s \<and> held s' = held s \<and> got s' = got s \<and> ends s' = ends s
     \<and> bufsz (sync (the_ring s')) = bufsz (sync (the_ring s)) \<and> nbufs (sync (the_ring s')) = nbufs (sync (the_ring s))
     \<and> n_readers (sync (the_ring s')) = n_readers (sync (the_ring s))"

text \<open>The place in the ring's sub-blocks where the next byte goes.\<close>

definition write_pos :: "ring \<Rightarrow> ipcio \<Rightarrow> nat" where
  "write_pos r c = W_of r * bz_of r + unat (bytes c)"

lemma same_readers_refl [simp]: "same_readers s s"
  and same_readers_trans: "same_readers s s' \<Longrightarrow> same_readers s' s'' \<Longrightarrow> same_readers s s''"
  by (auto simp: same_readers_def)

lemma curr_slot_len:
  assumes "stream_inv s"
  shows "length (mem (the_ring s) (curr_slot (the_ring s))) = bz_of (the_ring s)"
  using stream_invD(1) [OF assms] by (simp add: blocks_inv_def slot_unat)

text \<open>A full sub-block is marked filled: a step of the ring, no change to the bytes of the stream.\<close>

lemma flush_refines:
  assumes at: "writing_at s c" and run: "flush_full (the_ring s) c = Some (rc, r', c')" and "\<not> rc < 0"
  shows "\<exists>s'. stream_step\<^sup>*\<^sup>* s s' \<and> the_ring s' = r' \<and> writing_at s' c' \<and> stream_bytes s' c' = stream_bytes s c
     \<and> same_readers s s' \<and> N_of r' = N_of (the_ring s) \<and> (writer_busy s' c' \<longrightarrow> bytes c' < bufsz (sync r'))
     \<and> write_pos r' c' = write_pos (the_ring s) c"
proof (cases "bytes c = bufsz (sync (the_ring s))")
  case False
  then have "r' = the_ring s" "c' = c" using run by (auto simp: flush_full_def ipcbuf_get_bufsz_def)
  with at False show ?thesis
    by (intro exI [of _ s]) (auto simp: writing_at_def writer_busy_def)
next
  case True
  let ?r = "the_ring s"
  have inv: "stream_inv s" and buf: "buf c = writer s" and sod: "\<not> sod_pending c" and pos: "0 < bufsz (sync ?r)"
    using at by (auto simp: writing_at_def)
  have busy: "writer_busy s c" using at True pos by (auto simp: writing_at_def writer_idle_def)
  then have st: "state (writer s) = WRITING" and N: "N_of ?r = W_of ?r + 1" and cb: "curbuf c = Some (curr_slot ?r, 0)"
    and mf: "\<not> marked_filled c" by (auto simp: writer_busy_def)
  have "ipcbuf_is_writer (writer s)" using st by (simp add: ipcbuf_is_writer_def)
  then obtain r1 p1 where m: "ipcbuf_mark_filled ?r (writer s) (bufsz (sync ?r)) = Some (0, r1, p1)"
    and r': "r' = r1" and c': "c' = c\<lparr>buf := p1, curbuf := None, bytes := 0, marked_filled := True\<rparr>"
    using run True mf buf sod assms(3) st
    by (auto simp: flush_full_def on_buf_def ipcbuf_get_bufsz_def ipcio_check_pending_sod_def
        ipcbuf_mark_filled_def split: option.splits if_splits bind_splits)
  have fl: "p1 = writer s" "r1 = filled ?r" using mark_filled_middle [OF m st] by simp_all
  let ?s' = "s\<lparr>the_ring := r1, writer := p1, sent := sent s @ [mem ?r (curr_slot ?r)]\<rparr>"
  have step: "stream_step s ?s'" by (rule stream_step.fill [OF m st]) (simp add: N)
  have "stream_inv ?s'" by (rule stream_step_inv [OF step inv])
  moreover have "N_of r1 = N_of ?r" "W_of r1 = W_of ?r + 1"
    using N filled_W [of ?r] by (simp_all add: fl)
  ultimately have "writing_at ?s' c'" and "\<not> writer_busy ?s' c'"
    using at N st by (auto simp: writing_at_def writer_idle_def writer_busy_def c' fl)
  moreover have "stream_bytes ?s' c' = stream_bytes s c"
    using True cb curr_slot_len [OF inv] by (simp add: stream_bytes_def c')
  moreover have "same_readers s ?s'" by (simp add: same_readers_def fl)
  moreover have "write_pos r' c' = write_pos ?r c"
    using \<open>W_of r1 = W_of ?r + 1\<close> True by (simp add: write_pos_def c' r' fl)
  ultimately show ?thesis using step \<open>N_of r1 = N_of ?r\<close> r' by (intro exI [of _ ?s']) auto
qed

text \<open>The start of a round: afterwards a sub-block with room is open.\<close>

lemma prepare_refines:
  assumes at: "writing_at s c" and run: "write_prepare (the_ring s) c = Some (rc, r', c')" and ok: "\<not> rc < 0"
    and bound: "N_of (the_ring s) + 1 < 2 ^ 64"
  shows "\<exists>s'. stream_step\<^sup>*\<^sup>* s s' \<and> the_ring s' = r' \<and> writing_at s' c' \<and> stream_bytes s' c' = stream_bytes s c
     \<and> same_readers s s' \<and> N_of r' \<le> N_of (the_ring s) + 1 \<and> writer_busy s' c' \<and> bytes c' < bufsz (sync r')
     \<and> write_pos r' c' = write_pos (the_ring s) c"
proof -
  from run ok obtain rc1 r1 c1 where f: "flush_full (the_ring s) c = Some (rc1, r1, c1)" "\<not> rc1 < 0"
    and rest: "(if curbuf c1 \<noteq> None then Some (0, r1, c1)
       else do {
         (res, r, c) \<leftarrow> on_buf ipcbuf_get_next_write r1 c1;
         case res of
           None \<Rightarrow> Some (- 1, r, c)
         | Some b \<Rightarrow> Some (0, r, c\<lparr>curbuf := Some (b, 0), marked_filled := False, bytes := 0\<rparr>)
       }) = Some (rc, r', c')"
    by (auto simp: write_prepare_def split: bind_splits if_splits)
  obtain s1 where s1: "stream_step\<^sup>*\<^sup>* s s1" "the_ring s1 = r1" "writing_at s1 c1" "stream_bytes s1 c1 = stream_bytes s c"
      "same_readers s s1" "N_of r1 = N_of (the_ring s)" "writer_busy s1 c1 \<longrightarrow> bytes c1 < bufsz (sync r1)" "write_pos r1 c1 = write_pos (the_ring s) c"
    using flush_refines [OF at f] by blast
  show ?thesis
  proof (cases "curbuf c1")
    case (Some b)
    then have "writer_busy s1 c1" using s1(3) by (auto simp: writing_at_def writer_idle_def)
    with Some rest s1 show ?thesis by (intro exI [of _ s1]) auto
  next
    case None
    have inv: "stream_inv s1" and buf: "buf c1 = writer s1" and idle: "writer_idle s1 c1"
      using s1(3) None by (auto simp: writing_at_def writer_busy_def)
    from rest ok None buf obtain b p2 where g: "ipcbuf_get_next_write r1 (writer s1) = Some (Some b, r', p2)"
      and c': "c' = c1\<lparr>buf := p2, curbuf := Some (b, 0), marked_filled := False, bytes := 0\<rparr>"
      by (auto simp: on_buf_def split: option.splits)
    let ?s' = "s1\<lparr>the_ring := r', writer := p2, recl := recl s1 + unat (count r1 b)\<rparr>"
    have NW: "N_of r1 = W_of r1" using idle s1(2) by (simp add: writer_idle_def)
    have nb: "0 < nb_of r1" using stream_invD(1) [OF inv] s1(2) by (simp add: blocks_inv_def)
    have step: "stream_step s1 ?s'"
      using stream_step.open_next [of s1 b r' p2] g s1(2,6) NW nb bound by simp
    have inv': "stream_inv ?s'" by (rule stream_step_inv [OF step inv])
    have post: "state p2 = WRITING \<and> N_of r' = N_of r1 + 1 \<and> W_of r' = W_of r1 \<and> b = curr_slot r'
        \<and> bufsz (sync r') = bufsz (sync r1) \<and> nbufs (sync r') = nbufs (sync r1) \<and> n_readers (sync r') = n_readers (sync r1)"
      using g
    proof (cases rule: get_next_write_Some)
      case cont
      have "state (writer s1) = WRITING" using idle cont(2) by (auto simp: writer_idle_def)
      with cont NW bound s1(6) show ?thesis by (simp add: unat_succ_bound slot_unat)
    next
      case (first ra)
      then have "ra = started r1" using enable_sod_Some [OF first(2)] by (simp add: SEMVMX_def)
      with first NW bound s1(6) show ?thesis by (simp add: unat_succ_bound slot_unat)
    qed
    have "writer_busy ?s' c'"
      using post NW by (simp add: writer_busy_def c')
    moreover have "writing_at ?s' c'"
      using calculation inv' s1(2,3) post by (simp add: writing_at_def c')
    moreover have "stream_bytes ?s' c' = stream_bytes s1 c1"
      using None by (simp add: stream_bytes_def c')
    moreover have "same_readers s1 ?s'" using post s1(2) by (simp add: same_readers_def)
    moreover have "bytes c' < bufsz (sync r')" using s1(2,3) post by (simp add: writing_at_def c')
    moreover have "write_pos r' c' = write_pos r1 c1" using post idle by (simp add: write_pos_def c' writer_idle_def)
    ultimately show ?thesis
      using s1 step post same_readers_trans [of s s1 ?s'] by (intro exI [of _ ?s']) auto
  qed
qed

text \<open>\<open>memcpy\<close> behind the bytes already there: the stream grows by the bytes copied.\<close>

lemma put_refines:
  assumes at: "writing_at s c" and busy: "writer_busy s c"
    and room: "unat (bytes c) + length d \<le> bz_of (the_ring s)"
    and r': "r' = put_bytes (the (curbuf c)) (bytes c) d (the_ring s)"
    and c': "c' = c\<lparr>bytes := bytes c + of_nat (length d)\<rparr>"
  shows "\<exists>s'. stream_step\<^sup>*\<^sup>* s s' \<and> the_ring s' = r' \<and> writing_at s' c' \<and> writer_busy s' c'
     \<and> stream_bytes s' c' = stream_bytes s c @ d \<and> same_readers s s' \<and> N_of r' = N_of (the_ring s)"
proof -
  let ?r = "the_ring s"
  let ?b = "curr_slot ?r"
  let ?off = "unat (bytes c)"
  let ?new = "take ?off (mem ?r ?b) @ d @ drop (?off + length d) (mem ?r ?b)"
  let ?s' = "s\<lparr>the_ring := ?r\<lparr>mem := (mem ?r)(W_of ?r mod nb_of ?r := ?new)\<rparr>\<rparr>"
  have inv: "stream_inv s" using at by (simp add: writing_at_def)
  have len: "length (mem ?r ?b) = bz_of ?r" by (rule curr_slot_len [OF inv])
  have cb: "curbuf c = Some (?b, 0)" and N: "N_of ?r = W_of ?r + 1" using busy by (auto simp: writer_busy_def)
  have b: "?b = W_of ?r mod nb_of ?r" by (rule slot_unat)
  have r'': "r' = ?r\<lparr>mem := (mem ?r)(W_of ?r mod nb_of ?r := ?new)\<rparr>"
    by (simp add: r' put_bytes_def cb b Let_def)
  have "length ?new = bz_of ?r" using len room by simp
  then have step: "stream_step s ?s'"
    using stream_step.put [of s "W_of ?r" ?new] N by simp
  have sum: "unat (bytes c + of_nat (length d)) = ?off + length d"
  proof -
    have "?off + length d < 2 ^ 64" using room unat_less_length [of "bufsz (sync ?r)"] by simp
    then show ?thesis by (simp add: unat_word_ariths unat_of_nat)
  qed
  have "writer_busy ?s' c'"
    using busy room sum by (simp add: writer_busy_def c' word_le_nat_alt slot_unat)
  moreover have "writing_at ?s' c'"
    using calculation at stream_step_inv [OF step inv] by (simp add: writing_at_def c')
  moreover have "stream_bytes ?s' c' = stream_bytes s c @ d"
    using len room by (simp add: stream_bytes_def c' cb b sum)
  ultimately show ?thesis
    using step by (intro exI [of _ ?s']) (auto simp: r'' same_readers_def)
qed

text \<open>The whole loop.\<close>

text \<open>What a round copies: up to the end of the sub-block or of the data, and at least one byte.\<close>

lemma write_space:
  assumes room: "bytes c1 < bufsz (sync r1)" and pos: "0 < length data" and len: "length data < 2 ^ 64"
  defines "n \<equiv> unat (min (ipcbuf_get_bufsz r1 - bytes c1) (of_nat (length data)) :: u64)"
  shows "0 < n" and "n \<le> length data" and "unat (bytes c1) + n \<le> bz_of r1"
proof -
  have l: "unat (of_nat (length data) :: u64) = length data" using len by (simp add: unat_of_nat)
  have "0 < unat (bufsz (sync r1) - bytes c1)" "unat (bufsz (sync r1) - bytes c1) + unat (bytes c1) = bz_of r1"
    using room by (simp_all add: unat_diff word_less_nat_alt less_imp_le word_le_nat_alt)
  then show "0 < n" "n \<le> length data" "unat (bytes c1) + n \<le> bz_of r1"
    using l pos by (auto simp: n_def ipcbuf_get_bufsz_def min_def word_le_nat_alt)
qed

lemma write_loop_refines:
  assumes "write_loop data (the_ring s) c = Some (True, r', c')" and "writing_at s c"
    and "N_of (the_ring s) + length data < 2 ^ 64"
  shows "\<exists>s'. stream_step\<^sup>*\<^sup>* s s' \<and> the_ring s' = r' \<and> writing_at s' c'
     \<and> stream_bytes s' c' = stream_bytes s c @ data \<and> same_readers s s'
     \<and> N_of r' \<le> N_of (the_ring s) + length data"
  using assms
proof (induction "length data" arbitrary: data s c rule: less_induct)
  case less
  show ?case
  proof (cases "data = []")
    case True
    with less.prems(1) have "r' = the_ring s" "c' = c" by (simp_all add: write_loop.simps [of "[]"])
    with less.prems(2) True show ?thesis by (intro exI [of _ s]) simp
  next
    case False
    then have pos: "0 < length data" by simp
    from less.prems(1) False obtain rc r1 c1 where p: "write_prepare (the_ring s) c = Some (rc, r1, c1)" "\<not> rc < 0"
      and rest: "write_loop (drop (unat (min (ipcbuf_get_bufsz r1 - bytes c1) (of_nat (length data)))) data)
          (put_bytes (the (curbuf c1)) (bytes c1) (take (unat (min (ipcbuf_get_bufsz r1 - bytes c1) (of_nat (length data)))) data) r1)
          (c1\<lparr>bytes := bytes c1 + min (ipcbuf_get_bufsz r1 - bytes c1) (of_nat (length data))\<rparr>) = Some (True, r', c')"
      by (auto simp: write_loop.simps [of data] Let_def split: bind_splits if_splits)
    have "N_of (the_ring s) + 1 < 2 ^ 64" using less.prems(3) pos by linarith
    from prepare_refines [OF less.prems(2) p this] obtain s1 where
      s1: "stream_step\<^sup>*\<^sup>* s s1" "the_ring s1 = r1" "writing_at s1 c1" "stream_bytes s1 c1 = stream_bytes s c"
        "same_readers s s1" "N_of r1 \<le> N_of (the_ring s) + 1" "writer_busy s1 c1" "bytes c1 < bufsz (sync r1)" by blast
    let ?space = "min (ipcbuf_get_bufsz r1 - bytes c1) (of_nat (length data))"
    let ?n = "unat ?space"
    have "length data < 2 ^ 64" using less.prems(3) by linarith
    note n = write_space [OF s1(8) pos this]
    have "?space = of_nat (length (take ?n data))" using n(2) by simp
    then have "\<exists>s2. stream_step\<^sup>*\<^sup>* s1 s2 \<and> the_ring s2 = put_bytes (the (curbuf c1)) (bytes c1) (take ?n data) r1
        \<and> writing_at s2 (c1\<lparr>bytes := bytes c1 + ?space\<rparr>) \<and> writer_busy s2 (c1\<lparr>bytes := bytes c1 + ?space\<rparr>)
        \<and> stream_bytes s2 (c1\<lparr>bytes := bytes c1 + ?space\<rparr>) = stream_bytes s1 c1 @ take ?n data
        \<and> same_readers s1 s2 \<and> N_of (put_bytes (the (curbuf c1)) (bytes c1) (take ?n data) r1) = N_of (the_ring s1)"
      using put_refines [OF s1(3,7), of "take ?n data"] n s1(2) by simp
    then obtain s2 where s2: "stream_step\<^sup>*\<^sup>* s1 s2" "the_ring s2 = put_bytes (the (curbuf c1)) (bytes c1) (take ?n data) r1"
        "writing_at s2 (c1\<lparr>bytes := bytes c1 + ?space\<rparr>)"
        "stream_bytes s2 (c1\<lparr>bytes := bytes c1 + ?space\<rparr>) = stream_bytes s1 c1 @ take ?n data"
        "same_readers s1 s2" "N_of (the_ring s2) = N_of r1" using s1(2) by auto
    have "length (drop ?n data) < length data" using n(1) pos by simp
    moreover have "N_of (the_ring s2) + length (drop ?n data) < 2 ^ 64"
      using s2(6) s1(6) n(1,2) less.prems(3) by simp
    ultimately obtain s3 where s3: "stream_step\<^sup>*\<^sup>* s2 s3" "the_ring s3 = r'" "writing_at s3 c'"
        "stream_bytes s3 c' = stream_bytes s2 (c1\<lparr>bytes := bytes c1 + ?space\<rparr>) @ drop ?n data" "same_readers s2 s3"
        "N_of r' \<le> N_of (the_ring s2) + length (drop ?n data)"
      using less.hyps [of "drop ?n data" s2 "c1\<lparr>bytes := bytes c1 + ?space\<rparr>"] rest s2(2,3) by auto
    have "stream_step\<^sup>*\<^sup>* s s3" using s1(1) s2(1) s3(1) by (meson rtranclp_trans)
    moreover have "stream_bytes s3 c' = stream_bytes s c @ data"
      using s1(4) s2(4) s3(4) by simp
    moreover have "N_of r' \<le> N_of (the_ring s) + length data"
      using s3(6) s2(6) s1(6) n(1,2) by simp
    moreover have "same_readers s s3" using s1(5) s2(5) s3(5) by (blast intro: same_readers_trans)
    ultimately show ?thesis using s3(2,3) by (intro exI [of _ s3]) blast
  qed
qed

lemma ipcio_write_refines:
  assumes at: "writing_at s c" and run: "ipcio_write (the_ring s) c data = Some (rc, r', c')" and "0 \<le> rc"
    and bound: "N_of (the_ring s) + length data < 2 ^ 64"
  shows "rc = int (length data) \<and> (\<exists>s'. stream_step\<^sup>*\<^sup>* s s' \<and> the_ring s' = r' \<and> writing_at s' c'
     \<and> stream_bytes s' c' = stream_bytes s c @ data \<and> N_of r' \<le> N_of (the_ring s) + length data)"
proof -
  have "rdwrt c = CHR ''W''" using at by (simp add: writing_at_def)
  then have "write_loop data (the_ring s) c = Some (True, r', c')" "rc = int (length data)"
    using run \<open>0 \<le> rc\<close> by (auto simp: ipcio_write_def split: bind_splits if_splits)
  with write_loop_refines [OF _ at bound] show ?thesis by blast
qed

section \<open>A reader's side\<close>

text \<open>
  Between calls a reader holds no sub-block, or one of which it has taken the
  first \<open>bytes\<close> bytes.
\<close>

definition reader_idle :: "stream \<Rightarrow> nat \<Rightarrow> ipcio \<Rightarrow> bool" where
  "reader_idle s i c \<longleftrightarrow> curbuf c = None \<and> bytes c = 0 \<and> \<not> held s i"

definition reader_busy :: "stream \<Rightarrow> nat \<Rightarrow> ipcio \<Rightarrow> bool" where
  "reader_busy s i c \<longleftrightarrow> curbuf c = Some (read_slot (the_ring s) i, 0) \<and> held s i \<and> bytes c \<le> curbufsz c
     \<and> got s i \<noteq> [] \<and> unat (curbufsz c) = length (last (got s i))"

definition reading_at :: "stream \<Rightarrow> nat \<Rightarrow> ipcio \<Rightarrow> bool" where
  "reading_at s i c \<longleftrightarrow> stream_inv s \<and> i \<in> set (readers (the_ring s)) \<and> buf c = reader s i
     \<and> rdwrt c = CHR ''R'' \<and> (reader_idle s i c \<or> reader_busy s i c)"

text \<open>The bytes a reader has taken out of the stream.\<close>

definition taken_bytes :: "stream \<Rightarrow> nat \<Rightarrow> ipcio \<Rightarrow> byte list" where
  "taken_bytes s i c =
     (case curbuf c of
        None \<Rightarrow> concat (got s i)
      | Some _ \<Rightarrow> concat (butlast (got s i)) @ take (unat (bytes c)) (last (got s i)))"

definition same_writer :: "stream \<Rightarrow> stream \<Rightarrow> nat \<Rightarrow> bool" where
  "same_writer s s' i \<longleftrightarrow> writer s' = writer s \<and> sent s' = sent s \<and> ends s' = ends s \<and> recl s' = recl s
     \<and> (\<forall>j. j \<noteq> i \<longrightarrow> got s' j = got s j \<and> reader s' j = reader s j \<and> held s' j = held s j)"

lemma same_writer_refl [simp]: "same_writer s s i"
  and same_writer_trans: "same_writer s s' i \<Longrightarrow> same_writer s' s'' i \<Longrightarrow> same_writer s s'' i"
  by (auto simp: same_writer_def)

text \<open>The sub-block a reader holds still has the bytes it was handed.\<close>

lemma held_bytes:
  assumes inv: "stream_inv s" and i: "i \<in> set (readers (the_ring s))" and h: "held s i"
  shows "got s i \<noteq> [] \<and> last (got s i) = take (length (last (got s i))) (mem (the_ring s) (read_slot (the_ring s) i))"
proof -
  note pos = reader_position [OF assms]
  let ?P = "P_of (the_ring s) i"
  have g: "got s i = take (length (got s i)) (sent s)" and len: "length (got s i) = ?P + 1"
    using stream_invD(5) [OF inv i] pos by (auto simp: reader_inv_def data_ok_def)
  have ne: "got s i \<noteq> []" using len by auto
  have "last (got s i) = got s i ! ?P" using ne len by (simp add: last_conv_nth)
  also have "\<dots> = sent s ! ?P" using g len by (metis less_add_one nth_take)
  finally have l: "last (got s i) = sent s ! ?P" .
  have "sent s ! ?P = take (length (sent s ! ?P)) (mem (the_ring s) (?P mod nb_of (the_ring s)))"
    using stream_invD(1) [OF inv] pos by (simp add: blocks_inv_def)
  then show ?thesis using l ne by (simp add: slot_unat)
qed

lemma get_bytes_held:
  assumes inv: "stream_inv s" and i: "i \<in> set (readers (the_ring s))" and busy: "reader_busy s i c"
    and n: "unat (bytes c) + unat n \<le> unat (curbufsz c)"
  shows "get_bytes (the (curbuf c)) (bytes c) n (the_ring s) = take (unat n) (drop (unat (bytes c)) (last (got s i)))"
proof -
  let ?m = "mem (the_ring s) (read_slot (the_ring s) i)"
  have "last (got s i) = take (length (last (got s i))) ?m"
    using held_bytes [OF inv i] busy by (simp add: reader_busy_def)
  then have "drop (unat (bytes c)) (last (got s i)) = take (length (last (got s i)) - unat (bytes c)) (drop (unat (bytes c)) ?m)"
    by (metis drop_take)
  then show ?thesis using busy n by (simp add: get_bytes_def reader_busy_def min_absorb1)
qed

text \<open>Opening: the next sub-block is handed over, nothing is taken yet.\<close>

lemma read_open_refines:
  assumes at: "reading_at s i c" and run: "read_open (the_ring s) c = Some (True, r', c')"
  shows "\<exists>s'. stream_step\<^sup>*\<^sup>* s s' \<and> the_ring s' = r' \<and> reading_at s' i c' \<and> reader_busy s' i c'
     \<and> taken_bytes s' i c' = taken_bytes s i c \<and> same_writer s s' i"
proof (cases "curbuf c")
  case (Some b)
  then have "r' = the_ring s" "c' = c" "reader_busy s i c"
    using run at by (auto simp: read_open_def reading_at_def reader_idle_def)
  with at show ?thesis by (intro exI [of _ s]) simp
next
  case None
  have inv: "stream_inv s" and i: "i \<in> set (readers (the_ring s))" and buf: "buf c = reader s i"
    and idle: "reader_idle s i c" using at None by (auto simp: reading_at_def reader_busy_def)
  from run None buf obtain b n p' where g: "ipcbuf_get_next_read (the_ring s) (reader s i) = Some (Some (b, n), r', p')"
    and c': "c' = c\<lparr>buf := p', curbuf := Some b, curbufsz := n, bytes := 0\<rparr>"
    by (auto simp: read_open_def on_buf_def split: option.splits)
  have h: "\<not> held s i" using idle by (simp add: reader_idle_def)
  note I = stream_invD [OF inv]
  have rd: "reader_inv (the_ring s) (sent s) (ends s) (recl s) i (reader s i) False (got s i)"
    using I(5) [OF i] h by simp
  let ?s' = "s\<lparr>the_ring := r', reader := (reader s)(i := p'), held := (held s)(i := True),
      got := (got s)(i := got s i @ [bytes_at r' (b, n)])\<rparr>"
  have step: "stream_step s ?s'" by (rule stream_step.fetch [OF i h g])
  have inv': "stream_inv ?s'" by (rule stream_step_inv [OF step inv])
  have res: "b = (read_slot r' i, 0)" "unat n = length (sent s ! length (got s i))"
    using fetch_result [OF I(1,2) rd g] by simp_all
  have iread: "iread (reader s i) = int i" "ipcbuf_is_reader (reader s i)"
    using rd by (auto simp: reader_inv_def acks_ok_def)
  have nr: "n_readers (sync r') = n_readers (sync (the_ring s))"
    using get_next_read_others [OF g iread(2,1)] by (simp add: same_for_others_def)
  have "got s i @ [bytes_at r' (b, n)] = take (length (got s i) + 1) (sent s)"
    using fetch_reader [OF I(1,2) rd g] by (simp add: reader_inv_def data_ok_def)
  then have "bytes_at r' (b, n) = sent s ! length (got s i)"
    by (metis less_add_one nth_append_length nth_take)
  then have "reader_busy ?s' i c'" using res by (simp add: reader_busy_def c')
  moreover have "reading_at ?s' i c'"
    using calculation at inv' i nr by (simp add: reading_at_def c')
  moreover have "taken_bytes ?s' i c' = taken_bytes s i c" using None by (simp add: taken_bytes_def c')
  moreover have "same_writer s ?s' i" by (simp add: same_writer_def)
  ultimately show ?thesis using step by (intro exI [of _ ?s']) auto
qed

text \<open>Taking bytes out of the sub-block.\<close>

lemma take_refines:
  assumes at: "reading_at s i c" and busy: "reader_busy s i c" and n: "n \<le> curbufsz c - bytes c"
    and c': "c' = c\<lparr>bytes := bytes c + n\<rparr>"
    and d: "d = get_bytes (the (curbuf c)) (bytes c) n (the_ring s)"
  shows "reading_at s i c' \<and> reader_busy s i c' \<and> taken_bytes s i c' = taken_bytes s i c @ d \<and> length d = unat n"
proof -
  have le: "bytes c \<le> curbufsz c" and sz: "unat (curbufsz c) = length (last (got s i))"
    using busy by (auto simp: reader_busy_def)
  have room: "unat (bytes c) + unat n \<le> unat (curbufsz c)"
    using n le by (simp add: word_le_nat_alt unat_diff)
  have sum: "unat (bytes c + n) = unat (bytes c) + unat n"
  proof -
    have "unat (bytes c) + unat n < 2 ^ 64" using room unat_less_length [of "curbufsz c"] by simp
    then show ?thesis by (simp add: unat_word_ariths)
  qed
  have d': "d = take (unat n) (drop (unat (bytes c)) (last (got s i)))"
    using get_bytes_held [OF _ _ busy room] at d by (simp add: reading_at_def)
  have "reader_busy s i c'" using busy room sum by (simp add: reader_busy_def c' word_le_nat_alt)
  moreover have "taken_bytes s i c' = taken_bytes s i c @ d"
    using busy by (simp add: taken_bytes_def reader_busy_def c' sum d' take_add)
  ultimately show ?thesis using at room sz d' by (simp add: reading_at_def c')
qed

text \<open>A used-up sub-block is cleared.\<close>

lemma read_done_refines:
  assumes at: "reading_at s i c" and busy: "reader_busy s i c"
    and run: "read_done (the_ring s) c want = Some (res, r', c')" and res: "res \<noteq> Inl False"
  shows "\<exists>s'. stream_step\<^sup>*\<^sup>* s s' \<and> the_ring s' = r' \<and> reading_at s' i c' \<and> taken_bytes s' i c' = taken_bytes s i c
     \<and> same_writer s s' i \<and> (res = Inl True \<and> want = 0 \<or> res = Inr want)"
proof (cases "bytes c = curbufsz c")
  case False
  then have "r' = the_ring s" "c' = c" "res = Inl True \<and> want = 0 \<or> res = Inr want"
    using run by (auto simp: read_done_def split: if_splits)
  with at show ?thesis by (intro exI [of _ s]) simp
next
  case True
  have inv: "stream_inv s" and i: "i \<in> set (readers (the_ring s))" and buf: "buf c = reader s i"
    and md: "rdwrt c = CHR ''R''" and h: "held s i" and ne: "got s i \<noteq> []"
    and sz: "unat (curbufsz c) = length (last (got s i))" and cb: "curbuf c \<noteq> None"
    using at busy by (auto simp: reading_at_def reader_busy_def)
  have ir: "iread (reader s i) = int i" "state (reader s i) = READING"
    using stream_invD(5) [OF inv i] reader_position [OF inv i h] by (auto simp: reader_inv_def acks_ok_def)
  obtain rc r1 p1 where m: "ipcbuf_mark_cleared (the_ring s) (reader s i) = Some (rc, r1, p1)"
    and rest: "(if rc < 0 then Some (Inl False, r1, c\<lparr>buf := p1\<rparr>)
        else Some (Inr want, r1, c\<lparr>buf := p1, curbuf := None, bytes := 0\<rparr>)) = Some (res, r', c')"
    using run True md buf by (auto simp: read_done_def on_buf_def split: option.splits)
  have "rc = 0 \<or> rc = - 1" using m by (auto simp: ipcbuf_mark_cleared_def Let_def split: if_splits bind_splits)
  then have rc: "rc = 0" and out: "res = Inr want" "r' = r1" "c' = c\<lparr>buf := p1, curbuf := None, bytes := 0\<rparr>"
    using rest res by (auto split: if_splits)
  let ?s' = "s\<lparr>the_ring := r1, reader := (reader s)(i := p1), held := (held s)(i := False)\<rparr>"
  have m0: "ipcbuf_mark_cleared (the_ring s) (reader s i) = Some (0, r1, p1)" using m rc by simp
  have step: "stream_step s ?s'" by (rule stream_step.clear [OF i h m0])
  have inv': "stream_inv ?s'" by (rule stream_step_inv [OF step inv])
  have nr: "n_readers (sync r1) = n_readers (sync (the_ring s))"
    using mark_cleared_others [OF m0 ir(1)] by (simp add: same_for_others_def)
  have "reading_at ?s' i c'" using inv' i nr md by (simp add: reading_at_def reader_idle_def out)
  moreover have "taken_bytes ?s' i c' = taken_bytes s i c"
  proof -
    have "concat (butlast (got s i)) @ last (got s i) = concat (butlast (got s i) @ [last (got s i)])" by simp
    then have "concat (got s i) = concat (butlast (got s i)) @ last (got s i)" using ne by simp
    then show ?thesis using True sz cb by (auto simp: taken_bytes_def out)
  qed
  moreover have "same_writer s ?s' i" by (simp add: same_writer_def)
  ultimately show ?thesis using step out by (intro exI [of _ ?s']) auto
qed

text \<open>The whole loop: a call that returns without an error is a run of the reader.\<close>

lemma read_loop_refines:
  assumes "read_loop want taken r c = Some ((True, d), r', c')" and "the_ring s = r" and "reading_at s i c"
  shows "\<exists>s' d1. stream_step\<^sup>*\<^sup>* s s' \<and> the_ring s' = r' \<and> reading_at s' i c' \<and> d = taken @ d1
     \<and> taken_bytes s' i c' = taken_bytes s i c @ d1 \<and> same_writer s s' i
     \<and> (length d1 = unat want \<or> length d1 < unat want \<and> ipcbuf_eod (buf c'))"
proof -
  have "\<forall>s d r' c'. y = ((True, d), r', c') \<longrightarrow> the_ring s = r \<longrightarrow> reading_at s i c \<longrightarrow>
     (\<exists>s' d1. stream_step\<^sup>*\<^sup>* s s' \<and> the_ring s' = r' \<and> reading_at s' i c' \<and> d = taken @ d1
       \<and> taken_bytes s' i c' = taken_bytes s i c @ d1 \<and> same_writer s s' i
       \<and> (length d1 = unat want \<or> length d1 < unat want \<and> ipcbuf_eod (buf c')))"
    if "read_loop want taken r c = Some y" for y
  proof (rule read_loop.raw_induct [OF _ that], goal_cases)
    case (1 loop want taken r c y)
    note IH = 1(1) and body = 1(2)
    show ?case
    proof (intro allI impI)
      fix s d r' c'
      assume y: "y = ((True, d), r', c')" and r: "the_ring s = r" and at: "reading_at s i c"
      show "\<exists>s' d1. stream_step\<^sup>*\<^sup>* s s' \<and> the_ring s' = r' \<and> reading_at s' i c' \<and> d = taken @ d1
       \<and> taken_bytes s' i c' = taken_bytes s i c @ d1 \<and> same_writer s s' i
       \<and> (length d1 = unat want \<or> length d1 < unat want \<and> ipcbuf_eod (buf c'))"
      proof (cases "ipcbuf_eod (buf c)")
        case True
        then have "d = taken" "r' = r" "c' = c" using body y by simp_all
        with at r True show ?thesis by (intro exI [of _ s] exI [of _ "[]"]) auto
      next
        case False
        define Sp where "Sp c1 = min (curbufsz c1 - bytes c1) want" for c1 :: ipcio
        define D where "D r1 c1 = get_bytes (the (curbuf c1)) (bytes c1) (Sp c1) r1" for r1 :: ring and c1 :: ipcio
        from body y False obtain r1 c1 where o: "read_open r c = Some (True, r1, c1)"
          and rest: "(do { (res, r, c) \<leftarrow> read_done r1 (c1\<lparr>bytes := bytes c1 + Sp c1\<rparr>) (want - Sp c1);
             case res of Inl ok \<Rightarrow> Some ((ok, taken @ D r1 c1), r, c)
             | Inr want \<Rightarrow> loop want (taken @ D r1 c1) r c }) = Some ((True, d), r', c')"
          by (auto simp: Let_def Sp_def D_def split: bind_splits if_splits cong: sum.case_cong)
        obtain s1 where s1: "stream_step\<^sup>*\<^sup>* s s1" "the_ring s1 = r1" "reading_at s1 i c1" "reader_busy s1 i c1"
            "taken_bytes s1 i c1 = taken_bytes s i c" "same_writer s s1 i"
          using read_open_refines [OF at, of r1 c1] o r by blast
        let ?c2 = "c1\<lparr>bytes := bytes c1 + Sp c1\<rparr>"
        have n: "Sp c1 \<le> curbufsz c1 - bytes c1" "Sp c1 \<le> want" by (simp_all add: Sp_def)
        note t = take_refines [OF s1(3,4) n(1) refl D_def [of r1 c1, folded s1(2)]]
        from rest obtain res r2 c3 where dn: "read_done r1 ?c2 (want - Sp c1) = Some (res, r2, c3)"
          and rest2: "(case res of Inl ok \<Rightarrow> Some ((ok, taken @ D r1 c1), r2, c3)
             | Inr want \<Rightarrow> loop want (taken @ D r1 c1) r2 c3) = Some ((True, d), r', c')"
          by (auto split: bind_splits)
        have "res \<noteq> Inl False" using rest2 by auto
        then obtain s2 where s2: "stream_step\<^sup>*\<^sup>* s1 s2" "the_ring s2 = r2" "reading_at s2 i c3"
            "taken_bytes s2 i c3 = taken_bytes s1 i ?c2" "same_writer s1 s2 i"
            "res = Inl True \<and> want - Sp c1 = 0 \<or> res = Inr (want - Sp c1)"
          using read_done_refines [of s1 i ?c2 "want - Sp c1" res r2 c3] t dn s1(2) by auto
        have len: "length (D r1 c1) = unat (Sp c1)" using t s1(2) by simp
        have steps: "stream_step\<^sup>*\<^sup>* s s2" using s1(1) s2(1) by simp
        have bytes: "taken_bytes s2 i c3 = taken_bytes s i c @ D r1 c1" using s1(5) s2(4) t s1(2) by simp
        have same: "same_writer s s2 i" using s1(6) s2(5) by (rule same_writer_trans)
        show ?thesis
        proof (cases "res = Inl True")
          case True
          then have "want - Sp c1 = 0" using s2(6) by auto
          then have "length (D r1 c1) = unat want" using len by simp
          moreover have "d = taken @ D r1 c1" "r' = r2" "c' = c3" using rest2 True by auto
          ultimately show ?thesis
            using steps s2(2,3) bytes same by (intro exI [of _ s2] exI [of _ "D r1 c1"]) simp
        next
          case False
          then have "res = Inr (want - Sp c1)" using s2(6) by blast
          then have lp: "loop (want - Sp c1) (taken @ D r1 c1) r2 c3 = Some ((True, d), r', c')" using rest2 by simp
          from IH [OF lp, rule_format, OF refl s2(2,3)] obtain s3 d1 where s3: "stream_step\<^sup>*\<^sup>* s2 s3" "the_ring s3 = r'" "reading_at s3 i c'"
              "d = (taken @ D r1 c1) @ d1" "taken_bytes s3 i c' = taken_bytes s2 i c3 @ d1" "same_writer s2 s3 i"
              "length d1 = unat (want - Sp c1) \<or> length d1 < unat (want - Sp c1) \<and> ipcbuf_eod (buf c')"
            by blast
          have "unat (want - Sp c1) = unat want - unat (Sp c1)" "unat (Sp c1) \<le> unat want"
            using n(2) by (simp_all add: unat_diff word_le_nat_alt)
          then have "length (D r1 c1 @ d1) = unat want \<or> length (D r1 c1 @ d1) < unat want \<and> ipcbuf_eod (buf c')"
            using s3(7) len by auto
          moreover have "stream_step\<^sup>*\<^sup>* s s3" using steps s3(1) by simp
          moreover have "same_writer s s3 i" using same s3(6) by (rule same_writer_trans)
          ultimately show ?thesis
            using s3 bytes by (intro exI [of _ s3] exI [of _ "D r1 c1 @ d1"]) simp
        qed
      qed
    qed
  qed
  with assms show ?thesis by blast
qed

lemma ipcio_read_refines:
  assumes at: "reading_at s i c" and run: "ipcio_read (the_ring s) c want = Some ((rc, d), r', c')" and "0 \<le> rc"
  shows "rc = int (length d) \<and> (length d = unat want \<or> length d < unat want \<and> ipcbuf_eod (buf c'))
     \<and> (\<exists>s'. stream_step\<^sup>*\<^sup>* s s' \<and> the_ring s' = r' \<and> reading_at s' i c'
          \<and> taken_bytes s' i c' = taken_bytes s i c @ d)"
proof -
  have "rdwrt c = CHR ''R''" using at by (simp add: reading_at_def)
  then have "read_loop want [] (the_ring s) c = Some ((True, d), r', c')" "rc = int (length d)"
    using run \<open>0 \<le> rc\<close> by (auto simp: ipcio_read_def split: bind_splits if_splits)
  with read_loop_refines [OF _ refl at] show ?thesis by fastforce
qed

section \<open>Writing\<close>

text \<open>C4. A call of \<open>ipcio_write\<close> that reports no error has written everything: it returns the
  number of bytes it was given, it is a run of ring operations, and exactly these bytes
  are appended to the bytes of the stream, however they spread over sub-blocks.\<close>

theorem ipcio_write_appends:
  assumes "writing_at s c" and "ipcio_write (the_ring s) c data = Some (rc, r', c')" and "0 \<le> rc"
    and "N_of (the_ring s) + length data < 2 ^ 64"
  shows "rc = int (length data) \<and> (\<exists>s'. stream_step\<^sup>*\<^sup>* s s' \<and> the_ring s' = r' \<and> writing_at s' c'
     \<and> stream_bytes s' c' = stream_bytes s c @ data)"
  using ipcio_write_refines [OF assms] by blast

definition small_writer :: ipcio where
  "small_writer = IPCIO_INIT\<lparr>buf := locked_handle WCHANGE (- 1), rdwrt := CHR ''W''\<rparr>"

lemma small_writing: "writing_at (stream_start small_ring) small_writer"
  using stream_start_inv [OF small_ring_fresh]
  by (simp add: writing_at_def small_writer_def writer_idle_def IPCIO_INIT_def)
    (simp add: stream_start_def locked_handle_def)

lemma small_prepare: "write_prepare small_ring small_writer = Some (0, opened (started small_ring) 0,
    small_writer\<lparr>buf := locked_handle WRITING (- 1), curbuf := Some (0, 0)\<rparr>)"
  using small_open
  by (simp add: write_prepare_def flush_full_def small_writer_def IPCIO_INIT_def ipcbuf_get_bufsz_def on_buf_def)

lemma small_write: "ipcio_write small_ring small_writer [7, 8] =
    Some (2, put_bytes (0, 0) 0 [7, 8] (opened (started small_ring) 0),
      small_writer\<lparr>buf := locked_handle WRITING (- 1), curbuf := Some (0, 0), bytes := 2\<rparr>)"
proof -
  have "write_loop [7, 8] small_ring small_writer = Some (True, put_bytes (0, 0) 0 [7, 8] (opened (started small_ring) 0),
      small_writer\<lparr>buf := locked_handle WRITING (- 1), curbuf := Some (0, 0), bytes := 2\<rparr>)"
    using small_prepare
    by (simp add: write_loop.simps [of "[7, 8]"] write_loop.simps [of "[]"] ipcbuf_get_bufsz_def min_def)
      (simp add: small_writer_def IPCIO_INIT_def)
  then show ?thesis by (simp add: ipcio_write_def small_writer_def IPCIO_INIT_def)
qed

lemma ipcio_write_appends_witness:
  "\<exists>s' c'. stream_step\<^sup>*\<^sup>* (stream_start small_ring) s' \<and> writing_at s' c' \<and> stream_bytes s' c' = [7, 8]"
proof -
  have empty: "stream_bytes (stream_start small_ring) small_writer = []"
    by (simp add: stream_bytes_def small_writer_def IPCIO_INIT_def stream_start_def)
  have run: "ipcio_write (the_ring (stream_start small_ring)) small_writer [7, 8] =
    Some (2, put_bytes (0, 0) 0 [7, 8] (opened (started small_ring) 0),
      small_writer\<lparr>buf := locked_handle WRITING (- 1), curbuf := Some (0, 0), bytes := 2\<rparr>)"
    using small_write by (simp add: stream_start_def)
  have bound: "N_of (the_ring (stream_start small_ring)) + length [7, 8 :: byte] < 2 ^ 64"
    by (simp add: stream_start_def)
  have "(0 :: int) \<le> 2" by simp
  from ipcio_write_appends [OF small_writing run this bound] show ?thesis unfolding empty by auto
qed

section \<open>Reading\<close>

text \<open>C5. A call of \<open>ipcio_read\<close> that reports no error returns the bytes that come next: it is a
  run of ring operations of this reader, the bytes stored are appended to what the reader has
  taken, and fewer bytes than asked for mean that the reader has reached the end of data.\<close>

theorem ipcio_read_takes_next:
  assumes "reading_at s i c" and "ipcio_read (the_ring s) c want = Some ((rc, d), r', c')" and "0 \<le> rc"
  shows "rc = int (length d) \<and> (length d = unat want \<or> length d < unat want \<and> ipcbuf_eod (buf c'))
     \<and> (\<exists>s'. stream_step\<^sup>*\<^sup>* s s' \<and> the_ring s' = r' \<and> reading_at s' i c'
          \<and> taken_bytes s' i c' = taken_bytes s i c @ d)"
  using ipcio_read_refines [OF assms] .

definition small_reading :: ipcio where
  "small_reading = IPCIO_INIT\<lparr>buf := locked_handle READER 0, rdwrt := CHR ''R''\<rparr>"

lemma small_reading_at: "reading_at small_waiting 0 small_reading"
  using stream_run [OF small_ring_fresh small_wait_steps]
  by (simp add: reading_at_def small_reading_def reader_idle_def IPCIO_INIT_def)
    (simp add: small_waiting_def stream_start_def small_filled_def small_written_def)

lemma small_clear: "\<exists>r' p'. ipcbuf_mark_cleared small_fetched (locked_handle READING 0) = Some (0, r', p')
    \<and> state p' = RSTOP"
  by (simp add: ipcbuf_mark_cleared_def locked_handle_def IPCBUF_INIT_def data_semop_up sem_data_map_sems
      at_end_of_data_def SEMVMX_def)

lemma small_read: "\<exists>r' c'. ipcio_read small_filled small_reading 5 = Some ((2, [7, 8]), r', c')"
proof -
  obtain r1 p1 where clr: "ipcbuf_mark_cleared small_fetched (locked_handle READING 0) = Some (0, r1, p1)" "state p1 = RSTOP"
    using small_clear by blast
  have o: "read_open small_filled small_reading = Some (True, small_fetched,
      small_reading\<lparr>buf := locked_handle READING 0, curbuf := Some (0, 0), curbufsz := 2\<rparr>)"
    using small_fetch by (simp add: read_open_def on_buf_def small_reading_def IPCIO_INIT_def)
  have g: "get_bytes (0, 0) 0 2 small_fetched = [7, 8]"
    by (simp add: get_bytes_def small_fetched_def small_filled_def small_written_def)
  have e: "\<not> ipcbuf_eod (locked_handle READER 0)" by (simp add: ipcbuf_eod_def locked_handle_def)
  have m: "min 2 5 = (2 :: u64)" by (simp add: min_def)
  let ?c2 = "small_reading\<lparr>buf := p1, curbuf := None, curbufsz := 2, bytes := 0\<rparr>"
  have stop: "read_loop 3 [7, 8] r1 ?c2 = Some ((True, [7, 8]), r1, ?c2)"
    using clr(2) by (subst read_loop.simps) (simp add: ipcbuf_eod_def)
  have dn: "read_done small_fetched (small_reading\<lparr>buf := locked_handle READING 0, curbuf := Some (0, 0), curbufsz := 2, bytes := 2\<rparr>) 3
      = Some (Inr 3, r1, ?c2)"
    using clr(1) by (simp add: read_done_def on_buf_def small_reading_def)
  have "read_loop 5 [] small_filled small_reading = Some ((True, [7, 8]), r1, ?c2)"
    using o g e m dn stop
    by (subst read_loop.simps) (simp add: Let_def small_reading_def IPCIO_INIT_def)
  then show ?thesis by (auto simp: ipcio_read_def small_reading_def IPCIO_INIT_def)
qed

lemma ipcio_read_takes_next_witness:
  "\<exists>s' c'. stream_step\<^sup>*\<^sup>* small_waiting s' \<and> reading_at s' 0 c' \<and> taken_bytes s' 0 c' = [7, 8] \<and> ipcbuf_eod (buf c')"
proof -
  obtain r' c' where rd: "ipcio_read small_filled small_reading 5 = Some ((2, [7, 8]), r', c')" using small_read by blast
  then have rd': "ipcio_read (the_ring small_waiting) small_reading 5 = Some ((2, [7, 8]), r', c')"
    by (simp add: small_waiting_def)
  have "taken_bytes small_waiting 0 small_reading = []"
    by (simp add: taken_bytes_def small_reading_def IPCIO_INIT_def small_waiting_def stream_start_def)
  with ipcio_read_takes_next [OF small_reading_at rd'] show ?thesis by auto
qed



end
