(* ===== verification/Client_Properties.thy ===== *)
theory Client_Properties
  imports Dada_Client Ipcio_Stream
begin

text \<open>
  What the main loops of the client deliver: a reading program is given the next bytes of the
  stream, a writing program's bytes are appended to it, whatever the other processes do
  in between, and what happens to an error in the transfer of the header.
\<close>

section \<open>The program and the other processes\<close>

text \<open>
  A program that takes whatever it is given, as long as its state is one of \<open>I\<close> and it is not given more than \<open>B\<close>
  bytes at a time; \<open>h\<close> reads what it has taken so far.
\<close>

definition takes_while :: "nat \<Rightarrow> ('x \<Rightarrow> bool) \<Rightarrow> 'x client_functions \<Rightarrow> ('x \<Rightarrow> byte list) \<Rightarrow> bool" where
  "takes_while B I F h \<longleftrightarrow>
     (\<forall>cl d. I (cl_context cl) \<longrightarrow> length d \<le> B \<longrightarrow> (\<exists>cl'. io_take F cl d = Some (int (length d), cl') \<and> h (cl_context cl') = h (cl_context cl) @ d
        \<and> I (cl_context cl') \<and> cl_data cl' = cl_data cl \<and> transfer_bytes cl' = transfer_bytes cl))"

definition takes_all :: "'x client_functions \<Rightarrow> ('x \<Rightarrow> byte list) \<Rightarrow> bool" where
  "takes_all F h \<longleftrightarrow> (\<forall>B. takes_while B (\<lambda>_. True) F h)"

lemma takes_whileD:
  "takes_while B I F h \<Longrightarrow> I (cl_context cl) \<Longrightarrow> length d \<le> B \<Longrightarrow>
   \<exists>cl'. io_take F cl d = Some (int (length d), cl') \<and> h (cl_context cl') = h (cl_context cl) @ d
     \<and> I (cl_context cl') \<and> cl_data cl' = cl_data cl \<and> transfer_bytes cl' = transfer_bytes cl"
  by (simp add: takes_while_def)

text \<open>
  More generally a relation between the state and the bytes taken since the start, which every call that returns
  carries on.
\<close>

definition takes_along :: "nat \<Rightarrow> ('x \<Rightarrow> byte list \<Rightarrow> bool) \<Rightarrow> 'x client_functions \<Rightarrow> bool" where
  "takes_along B H F \<longleftrightarrow>
     (\<forall>cl t d rc cl'. H (cl_context cl) t \<longrightarrow> length d \<le> B \<longrightarrow> io_take F cl d = Some (rc, cl') \<longrightarrow>
        rc = int (length d) \<and> H (cl_context cl') (t @ d) \<and> cl_data cl' = cl_data cl \<and> transfer_bytes cl' = transfer_bytes cl)"

lemma takes_alongD:
  "takes_along B H F \<Longrightarrow> io_take F cl d = Some (rc, cl') \<Longrightarrow> H (cl_context cl) t \<Longrightarrow> length d \<le> B \<Longrightarrow>
   rc = int (length d) \<and> H (cl_context cl') (t @ d) \<and> cl_data cl' = cl_data cl \<and> transfer_bytes cl' = transfer_bytes cl"
  unfolding takes_along_def by blast

lemma takes_while_along:
  assumes "takes_while B I F h"
  shows "takes_along B (\<lambda>x t. I x \<and> h x = a @ t) F"
  unfolding takes_along_def
proof (intro allI impI)
  fix cl t d rc cl' assume x: "I (cl_context cl) \<and> h (cl_context cl) = a @ t" "length d \<le> B" "io_take F cl d = Some (rc, cl')"
  obtain cl1 where "io_take F cl d = Some (int (length d), cl1)" "h (cl_context cl1) = h (cl_context cl) @ d" "I (cl_context cl1)"
      "cl_data cl1 = cl_data cl" "transfer_bytes cl1 = transfer_bytes cl"
    using takes_whileD [OF assms _ x(2)] x(1) by blast
  then show "rc = int (length d) \<and> (I (cl_context cl') \<and> h (cl_context cl') = a @ t @ d) \<and> cl_data cl' = cl_data cl
      \<and> transfer_bytes cl' = transfer_bytes cl" using x by (simp only: option.inject prod.inject append_assoc simp_thms)
qed

text \<open>
  A program that gives the bytes of a source as long as the size of the header and its state are in \<open>I\<close>; \<open>h\<close> reads what
  the source has left.
\<close>

definition gives_while :: "(u64 \<Rightarrow> 'x \<Rightarrow> bool) \<Rightarrow> 'x client_functions \<Rightarrow> ('x \<Rightarrow> byte list) \<Rightarrow> bool" where
  "gives_while I F h \<longleftrightarrow>
     (\<forall>cl n. I (cl_header_size cl) (cl_context cl) \<longrightarrow> (\<exists>cl' d. io_give F cl n = Some (int (length d), d, cl') \<and> h (cl_context cl) = d @ h (cl_context cl')
        \<and> length d \<le> unat n \<and> (d = [] \<longrightarrow> h (cl_context cl) = [] \<or> n = 0)
        \<and> I (cl_header_size cl') (cl_context cl') \<and> cl_data cl' = cl_data cl \<and> transfer_bytes cl' = transfer_bytes cl))"

definition gives_all :: "'x client_functions \<Rightarrow> ('x \<Rightarrow> byte list) \<Rightarrow> bool" where
  "gives_all F h \<longleftrightarrow> gives_while (\<lambda>_ _. True) F h"

text \<open>What the others do is a run of ring operations that leaves this process's stream handle as it is.\<close>

definition leaves_reader :: "(nat \<Rightarrow> ring \<Rightarrow> ring) \<Rightarrow> nat \<Rightarrow> bool" where
  "leaves_reader env i \<longleftrightarrow> (\<forall>k s c. reading_at s i c \<longrightarrow> (\<exists>s'. stream_step\<^sup>*\<^sup>* s s' \<and> the_ring s' = env k (the_ring s)
     \<and> reading_at s' i c \<and> taken_bytes s' i c = taken_bytes s i c))"

definition leaves_writer :: "(nat \<Rightarrow> ring \<Rightarrow> ring) \<Rightarrow> bool" where
  "leaves_writer env \<longleftrightarrow> (\<forall>k s c. writing_at s c \<longrightarrow> (\<exists>s'. stream_step\<^sup>*\<^sup>* s s' \<and> the_ring s' = env k (the_ring s)
     \<and> writing_at s' c \<and> stream_bytes s' c = stream_bytes s c \<and> N_of (the_ring s') = N_of (the_ring s)))"

section \<open>Counting the bytes\<close>

lemma next_bytes_0: "transfer_bytes cl = 0 \<Longrightarrow> next_bytes cl sz n = sz"
  by (simp add: next_bytes_def)

text \<open>No round goes beyond the length of the transfer.\<close>

lemma next_bytes_room:
  assumes "transfer_bytes cl \<noteq> 0" and "more_to_transfer cl n" 
  shows "unat n + unat (next_bytes cl sz n) \<le> unat (transfer_bytes cl)"
proof -
  have "n < transfer_bytes cl" using assms by (simp add: more_to_transfer_def)
  then have le: "unat n < unat (transfer_bytes cl)" by (simp add: word_less_nat_alt)
  then have "unat (transfer_bytes cl - n) = unat (transfer_bytes cl) - unat n"
    by (simp add: unat_diff word_le_nat_alt)
  moreover have "next_bytes cl sz n \<le> transfer_bytes cl - n"
    using assms(1) by (auto simp: next_bytes_def Let_def)
  ultimately show ?thesis using le by (simp add: word_le_nat_alt)
qed

lemma next_bytes_le: "unat (next_bytes cl sz n) \<le> unat sz"
  unfolding word_le_nat_alt [symmetric] by (auto simp: next_bytes_def Let_def intro: less_imp_le)

lemma count_word: "word_of_int (int n) = (of_nat n :: u64)" by simp

text \<open>The count of bytes is exact in a transfer of a given length, and modulo \<open>2 ^ 64\<close> without one.\<close>

definition counted :: "'x dada_client \<Rightarrow> u64 \<Rightarrow> nat \<Rightarrow> bool" where
  "counted cl n m \<longleftrightarrow> n = of_nat m \<and> (transfer_bytes cl \<noteq> 0 \<longrightarrow> m \<le> unat (transfer_bytes cl))"

lemma counted_0: "counted cl 0 0" by (simp add: counted_def)

lemma counted_cong: "transfer_bytes cl' = transfer_bytes cl \<Longrightarrow> counted cl' = counted cl"
  by (intro ext) (simp add: counted_def)

lemma counted_more:
  assumes "counted cl n m" and "more_to_transfer cl n" and "k \<le> unat (next_bytes cl sz n)"
  shows "counted cl (n + of_nat k) (m + k)"
proof (cases "transfer_bytes cl = 0")
  case False
  then have "m < 2 ^ 64" using assms(1) unat_less_length [of "transfer_bytes cl"] by (simp add: counted_def)
  then have "unat n = m" using assms(1) by (simp add: counted_def unat_of_nat)
  with next_bytes_room [OF False assms(2), of sz] assms show ?thesis by (simp add: counted_def)
qed (use assms in \<open>simp add: counted_def\<close>)

lemma counted_full:
  assumes "counted cl n m" and "\<not> more_to_transfer cl n"
  shows "transfer_bytes cl \<noteq> 0 \<and> m = unat (transfer_bytes cl)"
proof -
  have T: "transfer_bytes cl \<noteq> 0" "transfer_bytes cl \<le> n" using assms(2) by (auto simp: more_to_transfer_def)
  then have m: "m \<le> unat (transfer_bytes cl)" "n = of_nat m" using assms(1) by (simp_all add: counted_def)
  then have "m < 2 ^ 64" using unat_less_length [of "transfer_bytes cl"] by simp
  then have "unat n = m" using m(2) by (simp add: unat_of_nat)
  with T m show ?thesis by (simp add: word_le_nat_alt)
qed

section \<open>The loop of a reader\<close>

text \<open>What a run from \<open>s\<close> with \<open>m\<close> bytes behind it comes to, the program's state being related to the bytes it takes.\<close>

definition delivered_along ::
    "('x \<Rightarrow> byte list \<Rightarrow> bool) \<Rightarrow> byte list \<Rightarrow> nat \<Rightarrow> stream \<Rightarrow> nat \<Rightarrow> u64 \<Rightarrow> 'x dada_client \<Rightarrow> int \<times> ring \<times> 'x dada_client \<Rightarrow> bool" where
  "delivered_along H t i s m n cl = (\<lambda>(res, r', cl'). \<exists>s' d. stream_step\<^sup>*\<^sup>* s s' \<and> the_ring s' = r' \<and> reading_at s' i (cl_data cl')
     \<and> taken_bytes s' i (cl_data cl') = taken_bytes s i (cl_data cl) @ d \<and> H (cl_context cl') (t @ d)
     \<and> res = c_int64 (n + of_nat (length d))
     \<and> (ipcbuf_eod (buf (cl_data cl')) \<or> transfer_bytes cl \<noteq> 0 \<and> m + length d = unat (transfer_bytes cl))
     \<and> (transfer_bytes cl \<noteq> 0 \<longrightarrow> m + length d \<le> unat (transfer_bytes cl)))"

definition delivered ::
    "('x \<Rightarrow> byte list) \<Rightarrow> nat \<Rightarrow> stream \<Rightarrow> nat \<Rightarrow> u64 \<Rightarrow> 'x dada_client \<Rightarrow> int \<times> ring \<times> 'x dada_client \<Rightarrow> bool" where
  "delivered h i s m n cl = delivered_along (\<lambda>x t. h x = h (cl_context cl) @ t) [] i s m n cl"

lemma delivered_nothing:
  assumes "the_ring s = r" and "reading_at s i (cl_data cl)" and "H (cl_context cl) t"
    and "ipcbuf_eod (buf (cl_data cl)) \<or> transfer_bytes cl \<noteq> 0 \<and> m = unat (transfer_bytes cl)" and "counted cl n m"
  shows "delivered_along H t i s m n cl (c_int64 n, r, cl)"
  unfolding delivered_along_def using assms by (auto simp: counted_def intro!: exI [of _ s])

lemma delivered_round:
  assumes "stream_step\<^sup>*\<^sup>* s s'" and "taken_bytes s' i (cl_data cl') = taken_bytes s i (cl_data cl) @ d"
    and "transfer_bytes cl' = transfer_bytes cl"
    and "delivered_along H (t @ d) i s' (m + length d) (n + of_nat (length d)) cl' y"
  shows "delivered_along H t i s m n cl y"
proof -
  obtain res r2 cl2 where y: "y = (res, r2, cl2)" by (cases y)
  from assms(4) obtain s2 d2 where "stream_step\<^sup>*\<^sup>* s' s2" "the_ring s2 = r2" "reading_at s2 i (cl_data cl2)"
     "taken_bytes s2 i (cl_data cl2) = taken_bytes s' i (cl_data cl') @ d2" "H (cl_context cl2) ((t @ d) @ d2)"
     "res = c_int64 (n + of_nat (length d) + of_nat (length d2))"
     "ipcbuf_eod (buf (cl_data cl2)) \<or> transfer_bytes cl' \<noteq> 0 \<and> m + length d + length d2 = unat (transfer_bytes cl')"
     "transfer_bytes cl' \<noteq> 0 \<longrightarrow> m + length d + length d2 \<le> unat (transfer_bytes cl')"
    unfolding delivered_along_def y by auto
  then have "stream_step\<^sup>*\<^sup>* s s2 \<and> the_ring s2 = r2 \<and> reading_at s2 i (cl_data cl2)
     \<and> taken_bytes s2 i (cl_data cl2) = taken_bytes s i (cl_data cl) @ d @ d2 \<and> H (cl_context cl2) (t @ d @ d2)
     \<and> res = c_int64 (n + of_nat (length (d @ d2)))
     \<and> (ipcbuf_eod (buf (cl_data cl2)) \<or> transfer_bytes cl \<noteq> 0 \<and> m + length (d @ d2) = unat (transfer_bytes cl))
     \<and> (transfer_bytes cl \<noteq> 0 \<longrightarrow> m + length (d @ d2) \<le> unat (transfer_bytes cl))"
    using assms by (auto simp: add.assoc)
  then show ?thesis unfolding delivered_along_def y by blast
qed

lemma read_loop_along:
  assumes "io_loop_read F env sz k n r cl = Some y" and "takes_along B H F" and "unat sz \<le> B" and "H (cl_context cl) t" and "leaves_reader env i"
    and "fst y \<noteq> - 1" and "the_ring s = r" and "reading_at s i (cl_data cl)" and "counted cl n m"
  shows "delivered_along H t i s m n cl y"
  using assms
proof -
  have "\<forall>s m t. takes_along B H F \<longrightarrow> unat sz \<le> B \<longrightarrow> H (cl_context cl) t \<longrightarrow> leaves_reader env i \<longrightarrow> fst y \<noteq> - 1 \<longrightarrow> the_ring s = r \<longrightarrow> reading_at s i (cl_data cl)
      \<longrightarrow> counted cl n m \<longrightarrow> delivered_along H t i s m n cl y"
    if "io_loop_read F env sz k n r cl = Some y" for y
  proof (rule io_loop_read.raw_induct [OF _ that], goal_cases)
    case (1 loop F env sz k n r cl y)
    note IH = 1(1) and body = 1(2)
    show ?case
    proof (intro allI impI)
      fix s m t
      assume F: "takes_along B H F" and B: "unat sz \<le> B" and I: "H (cl_context cl) t" and E: "leaves_reader env i" and ok: "fst y \<noteq> - 1" and r: "the_ring s = r"
        and at: "reading_at s i (cl_data cl)" and cnt: "counted cl n m"
      let ?w = "next_bytes cl sz n"
      obtain s1 where s1: "stream_step\<^sup>*\<^sup>* s s1" "the_ring s1 = env k r" "reading_at s1 i (cl_data cl)"
          "taken_bytes s1 i (cl_data cl) = taken_bytes s i (cl_data cl)"
        using E at r unfolding leaves_reader_def by blast
      show "delivered_along H t i s m n cl y"
      proof (cases "more_to_transfer cl n")
        case False
        then have "y = (c_int64 n, r, cl)" using body by simp
        then show ?thesis using delivered_nothing [of s r i cl H, OF r at I] counted_full [OF cnt False] cnt by simp
      next
        case True
        show ?thesis
        proof (cases "ipcbuf_eod (buf (cl_data cl))")
          case eod: True
          then have "y = (c_int64 n, env k r, cl)" using body True by simp
          then have "delivered_along H t i s1 m n cl y" using delivered_nothing [of s1 _ i cl H, OF s1(2,3) I] eod cnt by simp
          then show ?thesis using delivered_round [of s s1 i cl cl "[]"] s1 by simp
        next
          case False
          from body True False obtain rc d r1 c1 where
            rd: "ipcio_read (env k r) (cl_data cl) ?w = Some ((rc, d), r1, c1)" and
            rest: "(if rc < 0 then Some (- 1, r1, cl\<lparr>cl_data := c1\<rparr>)
              else Option.bind (io_take F (cl\<lparr>cl_data := c1\<rparr>) d) (\<lambda>(rc, cl).
                if rc < 0 then Some (c_int64 n, r1, cl) else loop F env sz (k + 1) (n + word_of_int rc) r1 cl)) = Some y"
            by (auto simp: on_cl_data_def Let_def split: bind_splits option.splits prod.splits if_splits)
          have rc: "0 \<le> rc" using rest ok by (auto split: if_splits)
          from ipcio_read_refines [OF s1(3) rd [folded s1(2)] rc] obtain s2 where
            s2: "stream_step\<^sup>*\<^sup>* s1 s2" "the_ring s2 = r1" "reading_at s2 i c1"
              "taken_bytes s2 i c1 = taken_bytes s1 i (cl_data cl) @ d" and len: "length d \<le> unat ?w"
            by auto
          from rest rc obtain rc2 cl2 where
            call: "io_take F (cl\<lparr>cl_data := c1\<rparr>) d = Some (rc2, cl2)" and
            rest2: "(if rc2 < 0 then Some (c_int64 n, r1, cl2) else loop F env sz (k + 1) (n + word_of_int rc2) r1 cl2) = Some y"
            by (auto split: bind_splits)
          have "H (cl_context (cl\<lparr>cl_data := c1\<rparr>)) t" "length d \<le> B" using I le_trans [OF len next_bytes_le] B by auto
          from takes_alongD [OF F call this]
          have tk: "rc2 = int (length d)" "H (cl_context cl2) (t @ d)" "cl_data cl2 = c1" "transfer_bytes cl2 = transfer_bytes cl"
            by simp_all
          have go: "loop F env sz (k + 1) (n + of_nat (length d)) r1 cl2 = Some y"
            using rest2 tk(1) by simp
          have "counted cl2 (n + of_nat (length d)) (m + length d)"
            using counted_more [OF cnt True len] tk(4) by (simp add: counted_def)
          then have "delivered_along H (t @ d) i s2 (m + length d) (n + of_nat (length d)) cl2 y"
            using IH [OF go] F B E ok s2(2,3) tk(2,3) by simp
          then show ?thesis
            using delivered_round [of s s2 i cl2 cl d H t m n y] rtranclp_trans [OF s1(1) s2(1)] s1 s2 tk by simp
        qed
      qed
    qed
  qed
  with assms show ?thesis by blast
qed

lemma read_loop_delivers:
  assumes "io_loop_read F env sz k n r cl = Some y" and "takes_while B I F h" and "unat sz \<le> B" and "I (cl_context cl)" and "leaves_reader env i"
    and "fst y \<noteq> - 1" and "the_ring s = r" and "reading_at s i (cl_data cl)" and "counted cl n m"
  shows "delivered h i s m n cl y"
proof -
  have "delivered_along (\<lambda>x t. I x \<and> h x = h (cl_context cl) @ t) [] i s m n cl y"
    by (rule read_loop_along [OF assms(1) takes_while_along [OF assms(2)] assms(3) _ assms(5-9)]) (simp add: assms(4))
  then show ?thesis unfolding delivered_def delivered_along_def by (cases y) (simp, blast)
qed

section \<open>The loop of a writer\<close>

definition appended ::
    "('x \<Rightarrow> byte list) \<Rightarrow> stream \<Rightarrow> nat \<Rightarrow> u64 \<Rightarrow> 'x dada_client \<Rightarrow> int \<times> ring \<times> 'x dada_client \<Rightarrow> bool" where
  "appended h s m n cl = (\<lambda>(res, r', cl'). \<exists>s' d. stream_step\<^sup>*\<^sup>* s s' \<and> the_ring s' = r' \<and> writing_at s' (cl_data cl')
     \<and> stream_bytes s' (cl_data cl') = stream_bytes s (cl_data cl) @ d \<and> h (cl_context cl) = d @ h (cl_context cl')
     \<and> res = c_int64 (n + of_nat (length d))
     \<and> (h (cl_context cl') = [] \<or> transfer_bytes cl \<noteq> 0 \<and> m + length d = unat (transfer_bytes cl))
     \<and> (transfer_bytes cl \<noteq> 0 \<longrightarrow> m + length d \<le> unat (transfer_bytes cl)))"

lemma appended_nothing:
  assumes "the_ring s = r" and "writing_at s (cl_data cl)" and "cl_data cl' = cl_data cl"
    and "h (cl_context cl') = h (cl_context cl)"
    and "h (cl_context cl) = [] \<or> transfer_bytes cl \<noteq> 0 \<and> m = unat (transfer_bytes cl)" and "counted cl n m"
  shows "appended h s m n cl (c_int64 n, r, cl')"
  unfolding appended_def using assms by (auto simp: counted_def intro!: exI [of _ s])

lemma appended_round:
  assumes "stream_step\<^sup>*\<^sup>* s s'" and "stream_bytes s' (cl_data cl') = stream_bytes s (cl_data cl) @ d"
    and "h (cl_context cl) = d @ h (cl_context cl')" and "transfer_bytes cl' = transfer_bytes cl"
    and "appended h s' (m + length d) (n + of_nat (length d)) cl' y"
  shows "appended h s m n cl y"
proof -
  obtain res r2 cl2 where y: "y = (res, r2, cl2)" by (cases y)
  from assms(5) obtain s2 d2 where "stream_step\<^sup>*\<^sup>* s' s2" "the_ring s2 = r2" "writing_at s2 (cl_data cl2)"
     "stream_bytes s2 (cl_data cl2) = stream_bytes s' (cl_data cl') @ d2" "h (cl_context cl') = d2 @ h (cl_context cl2)"
     "res = c_int64 (n + of_nat (length d) + of_nat (length d2))"
     "h (cl_context cl2) = [] \<or> transfer_bytes cl' \<noteq> 0 \<and> m + length d + length d2 = unat (transfer_bytes cl')"
     "transfer_bytes cl' \<noteq> 0 \<longrightarrow> m + length d + length d2 \<le> unat (transfer_bytes cl')"
    unfolding appended_def y by auto
  then have "stream_step\<^sup>*\<^sup>* s s2 \<and> the_ring s2 = r2 \<and> writing_at s2 (cl_data cl2)
     \<and> stream_bytes s2 (cl_data cl2) = stream_bytes s (cl_data cl) @ d @ d2 \<and> h (cl_context cl) = (d @ d2) @ h (cl_context cl2)
     \<and> res = c_int64 (n + of_nat (length (d @ d2)))
     \<and> (h (cl_context cl2) = [] \<or> transfer_bytes cl \<noteq> 0 \<and> m + length (d @ d2) = unat (transfer_bytes cl))
     \<and> (transfer_bytes cl \<noteq> 0 \<longrightarrow> m + length (d @ d2) \<le> unat (transfer_bytes cl))"
    using assms by (auto simp: add.assoc)
  then show ?thesis unfolding appended_def y by blast
qed

lemma next_bytes_pos:
  assumes "more_to_transfer cl n" and "sz \<noteq> 0"
  shows "next_bytes cl sz n \<noteq> 0"
proof (cases "transfer_bytes cl = 0")
  case False
  then have "transfer_bytes cl - n \<noteq> 0" using assms(1) by (auto simp: more_to_transfer_def)
  with False assms(2) show ?thesis by (simp add: next_bytes_def Let_def)
qed (simp add: next_bytes_def assms(2))

lemma gives_whileD:
  assumes "gives_while I F h" and "I (cl_header_size cl) (cl_context cl)"
  obtains cl' d where "io_give F cl n = Some (int (length d), d, cl')" and "h (cl_context cl) = d @ h (cl_context cl')"
    and "length d \<le> unat n" and "d = [] \<Longrightarrow> h (cl_context cl) = [] \<or> n = 0"
    and "cl_data cl' = cl_data cl" and "transfer_bytes cl' = transfer_bytes cl" and "I (cl_header_size cl') (cl_context cl')"
  using assms(1) [unfolded gives_while_def, rule_format, OF assms(2), of n] by blast

lemma write_loop_appends:
  assumes "io_loop_write F env sz k n r cl = Some y" and "gives_while I F h" and "I (cl_header_size cl) (cl_context cl)" and "leaves_writer env" and "sz \<noteq> 0"
    and "fst y \<noteq> - 1" and "the_ring s = r" and "writing_at s (cl_data cl)" and "counted cl n m"
    and "N_of r + length (h (cl_context cl)) < 2 ^ 64"
  shows "appended h s m n cl y"
proof -
  have "\<forall>s m. gives_while I F h \<longrightarrow> I (cl_header_size cl) (cl_context cl) \<longrightarrow> leaves_writer env \<longrightarrow> sz \<noteq> 0 \<longrightarrow> fst y \<noteq> - 1 \<longrightarrow> the_ring s = r \<longrightarrow> writing_at s (cl_data cl)
      \<longrightarrow> counted cl n m \<longrightarrow> N_of r + length (h (cl_context cl)) < 2 ^ 64 \<longrightarrow> appended h s m n cl y"
    if "io_loop_write F env sz k n r cl = Some y" for y
  proof (rule io_loop_write.raw_induct [OF _ that], goal_cases)
    case (1 loop F env sz k n r cl y)
    note IH = 1(1) and body = 1(2)
    show ?case
    proof (intro allI impI)
      fix s m
      assume F: "gives_while I F h" and I: "I (cl_header_size cl) (cl_context cl)" and E: "leaves_writer env" and sz: "sz \<noteq> 0" and ok: "fst y \<noteq> - 1" and r: "the_ring s = r"
        and at: "writing_at s (cl_data cl)" and cnt: "counted cl n m"
        and N: "N_of r + length (h (cl_context cl)) < 2 ^ 64"
      let ?w = "next_bytes cl sz n"
      obtain s1 where s1: "stream_step\<^sup>*\<^sup>* s s1" "the_ring s1 = env k r" "writing_at s1 (cl_data cl)"
          "stream_bytes s1 (cl_data cl) = stream_bytes s (cl_data cl)" "N_of (the_ring s1) = N_of r"
        using E at r unfolding leaves_writer_def by blast
      show "appended h s m n cl y"
      proof (cases "more_to_transfer cl n")
        case False
        then have "y = (c_int64 n, r, cl)" using body by simp
        then show ?thesis using appended_nothing [OF r at refl refl _ cnt] counted_full [OF cnt False] by simp
      next
        case more: True
        obtain cl1 d where gv: "io_give F cl ?w = Some (int (length d), d, cl1)" "h (cl_context cl) = d @ h (cl_context cl1)"
            "length d \<le> unat ?w" "d \<noteq> [] \<or> h (cl_context cl) = [] \<or> ?w = 0"
            "cl_data cl1 = cl_data cl" "transfer_bytes cl1 = transfer_bytes cl" "I (cl_header_size cl1) (cl_context cl1)"
          by (rule gives_whileD [OF F I, of ?w]) blast
        show ?thesis
        proof (cases "d = []")
          case True
          then have "y = (c_int64 n, r, cl1)" using body more True gv(1) by simp
          moreover have "h (cl_context cl) = []" using gv(4) True next_bytes_pos [OF more sz] by simp
          ultimately show ?thesis using appended_nothing [OF r at gv(5) _ _ cnt] gv(2) True by simp
        next
          case False
          from body more False gv(1,5) obtain rc r1 c1 where
            wr: "ipcio_write (env k r) (cl_data cl) d = Some (rc, r1, c1)" and
            rest: "(if rc < 0 then Some (- 1, r1, cl1\<lparr>cl_data := c1\<rparr>)
              else loop F env sz (k + 1) (n + word_of_int rc) r1 (cl1\<lparr>cl_data := c1\<rparr>)) = Some y"
            by (auto simp: on_cl_data_def Let_def split: bind_splits option.splits prod.splits if_splits)
          have rc: "0 \<le> rc" using rest ok by (auto split: if_splits)
          have N1: "N_of (the_ring s1) + length d < 2 ^ 64" using N s1(5) gv(2) by simp
          from ipcio_write_refines [OF s1(3) wr [folded s1(2)] rc N1] obtain s2 where
            s2: "rc = int (length d)" "stream_step\<^sup>*\<^sup>* s1 s2" "the_ring s2 = r1" "writing_at s2 c1"
              "stream_bytes s2 c1 = stream_bytes s1 (cl_data cl) @ d" "N_of r1 \<le> N_of (the_ring s1) + length d"
            by auto
          let ?cl2 = "cl1\<lparr>cl_data := c1\<rparr>"
          have go: "loop F env sz (k + 1) (n + of_nat (length d)) r1 ?cl2 = Some y" using rest rc s2(1) by simp
          have "counted ?cl2 (n + of_nat (length d)) (m + length d)"
            using counted_more [OF cnt more gv(3)] gv(6) by (simp add: counted_def)
          moreover have "N_of r1 + length (h (cl_context ?cl2)) < 2 ^ 64" using N s1(5) s2(6) gv(2) by simp
          ultimately have "appended h s2 (m + length d) (n + of_nat (length d)) ?cl2 y"
            using IH [OF go] F E sz ok s2(3,4) gv(7) by simp
          then show ?thesis
            using appended_round [of s s2 ?cl2 cl d h m n y] rtranclp_trans [OF s1(1) s2(2)] s1 s2 gv by simp
        qed
      qed
    qed
  qed
  with assms show ?thesis by blast
qed

section \<open>Clients\<close>

text \<open>The simplest programs: one keeps what it is given, the other gives what it keeps.\<close>

definition keeping :: "byte list client_functions" where
  "keeping = \<lparr>open_function = (\<lambda>r cl. Some (0, r, cl)),
     io_take = (\<lambda>cl d. Some (int (length d), cl\<lparr>cl_context := cl_context cl @ d\<rparr>)),
     io_give = (\<lambda>cl n. let d = take (unat n) (cl_context cl)
                        in Some (int (length d), d, cl\<lparr>cl_context := drop (unat n) (cl_context cl)\<rparr>)),
     io_block_take = None, io_block_give = None, close_function = (\<lambda>cl n. Some (0, cl))\<rparr>"

lemma keeping_takes: "takes_all keeping (\<lambda>x. x)"
  by (simp add: takes_all_def takes_while_def keeping_def)

lemma keeping_gives: "gives_all keeping (\<lambda>x. x)"
  by (simp add: gives_all_def gives_while_def keeping_def Let_def unat_eq_0) 

lemma alone: "leaves_reader (\<lambda>_ r. r) i" "leaves_writer (\<lambda>_ r. r)"
  unfolding leaves_reader_def leaves_writer_def by blast+

text \<open>C19. A reading client whose program takes what it is given hands it exactly the next bytes of the
  stream, in order and without a gap, while the other processes go on with the ring: unless a read fails
  the loop ends at the end of the data or at the length of the transfer, and returns the number of bytes.\<close>

theorem reading_client_gets_the_next_bytes:
  assumes "dada_client_io_loop F env (the_ring s) cl = Some (n, r', cl')" and "direction cl = Reading" and "n \<noteq> - 1"
    and "reading_at s i (cl_data cl)" and "takes_all F h" and "leaves_reader env i"
  shows "\<exists>s' d. stream_step\<^sup>*\<^sup>* s s' \<and> the_ring s' = r' \<and> reading_at s' i (cl_data cl')
     \<and> taken_bytes s' i (cl_data cl') = taken_bytes s i (cl_data cl) @ d \<and> h (cl_context cl') = h (cl_context cl) @ d
     \<and> n = c_int64 (of_nat (length d))
     \<and> (ipcbuf_eod (buf (cl_data cl')) \<or> transfer_bytes cl \<noteq> 0 \<and> length d = unat (transfer_bytes cl))"
proof -
  have "delivered h i s 0 0 cl (n, r', cl')"
    using read_loop_delivers [of F env "optimal_bytes cl" 0 0 "the_ring s" cl "(n, r', cl')" "unat (optimal_bytes cl)" "\<lambda>_. True" h i s 0] assms
    by (simp add: dada_client_io_loop_def counted_0 takes_all_def)
  then show ?thesis unfolding delivered_def delivered_along_def by (simp, blast)
qed

lemma reading_client_gets_the_next_bytes_witness:
  "\<exists>s' (cl' :: byte list dada_client). stream_step\<^sup>*\<^sup>* small_waiting s' \<and> reading_at s' 0 (cl_data cl') \<and> cl_context cl' = [7, 8]"
proof -
  let ?cl = "(dada_client_create small_reading IPCBUF_INIT ([] :: byte list))\<lparr>direction := Reading, optimal_bytes := 5\<rparr>"
  obtain r' c' where rd: "ipcio_read small_filled small_reading 5 = Some ((2, [7, 8]), r', c')" using small_read by blast
  have ring: "the_ring small_waiting = small_filled" by (simp add: small_waiting_def)
  have eod: "ipcbuf_eod (buf c')" using ipcio_read_refines [OF small_reading_at, of 5] rd ring by simp
  have go: "\<not> ipcbuf_eod (buf small_reading)"
    by (simp add: small_reading_def IPCIO_INIT_def locked_handle_def ipcbuf_eod_def)
  let ?cl' = "?cl\<lparr>cl_data := c', cl_context := [7, 8]\<rparr>"
  have "dada_client_io_loop keeping (\<lambda>_ r. r) (the_ring small_waiting) ?cl = Some (c_int64 2, r', ?cl')"
    using rd eod go ring
    by (simp add: dada_client_io_loop_def io_loop_read.simps [of _ _ _ 0] io_loop_read.simps [of _ _ _ "Suc 0"] dada_client_create_def
        more_to_transfer_def next_bytes_def on_cl_data_def keeping_def)
  moreover have "reading_at small_waiting 0 (cl_data ?cl)"
    using small_reading_at by (simp add: dada_client_create_def)
  ultimately obtain s' d where "stream_step\<^sup>*\<^sup>* small_waiting s'" "reading_at s' 0 (cl_data ?cl')" "cl_context ?cl' = cl_context ?cl @ d"
    using reading_client_gets_the_next_bytes [OF _ _ _ _ keeping_takes alone(1),
        of small_waiting ?cl "c_int64 2" r' ?cl' 0] 
    by (auto simp: dada_client_create_def c_int64_def)
  then show ?thesis by (intro exI [of _ s'] exI [of _ ?cl']) (simp add: dada_client_create_def)
qed

text \<open>C20. A writing client whose program gives the bytes of a source appends exactly these bytes to the
  stream, in order, while the other processes go on with the ring: unless a write fails the loop ends
  when the source is exhausted or at the length of the transfer, and returns the number of bytes.\<close>

theorem writing_client_appends_its_source:
  assumes "dada_client_io_loop F env (the_ring s) cl = Some (n, r', cl')" and "direction cl = Writing_direction" and "n \<noteq> - 1"
    and "optimal_bytes cl \<noteq> 0" and "writing_at s (cl_data cl)" and "gives_all F h" and "leaves_writer env"
    and "N_of (the_ring s) + length (h (cl_context cl)) < 2 ^ 64"
  shows "\<exists>s' d. stream_step\<^sup>*\<^sup>* s s' \<and> the_ring s' = r' \<and> writing_at s' (cl_data cl')
     \<and> stream_bytes s' (cl_data cl') = stream_bytes s (cl_data cl) @ d \<and> h (cl_context cl) = d @ h (cl_context cl')
     \<and> n = c_int64 (of_nat (length d))
     \<and> (h (cl_context cl') = [] \<or> transfer_bytes cl \<noteq> 0 \<and> length d = unat (transfer_bytes cl))"
proof -
  have "appended h s 0 0 cl (n, r', cl')"
    using write_loop_appends [of F env "optimal_bytes cl" 0 0 "the_ring s" cl "(n, r', cl')" "\<lambda>_ _. True" h s 0] assms
    by (simp add: dada_client_io_loop_def counted_0 gives_all_def)
  then show ?thesis unfolding appended_def by auto
qed

lemma writing_client_appends_its_source_witness:
  "\<exists>s' (cl' :: byte list dada_client). stream_step\<^sup>*\<^sup>* (stream_start small_ring) s' \<and> writing_at s' (cl_data cl') \<and> stream_bytes s' (cl_data cl') = [7, 8]"
proof -
  let ?cl = "(dada_client_create small_writer IPCBUF_INIT ([7, 8] :: byte list))\<lparr>direction := Writing_direction, optimal_bytes := 5\<rparr>"
  obtain r' c' where wr: "ipcio_write small_ring small_writer [7, 8] = Some (2, r', c')" using small_write by blast
  have ring: "the_ring (stream_start small_ring) = small_ring" by (simp add: stream_start_def)
  let ?cl' = "?cl\<lparr>cl_data := c', cl_context := []\<rparr>"
  have empty: "stream_bytes (stream_start small_ring) small_writer = []"
    by (simp add: stream_bytes_def small_writer_def IPCIO_INIT_def stream_start_def)
  have "dada_client_io_loop keeping (\<lambda>_ r. r) (the_ring (stream_start small_ring)) ?cl = Some (c_int64 2, r', ?cl')"
    using wr ring
    by (simp add: dada_client_io_loop_def io_loop_write.simps [of _ _ _ 0] io_loop_write.simps [of _ _ _ "Suc 0"] dada_client_create_def
        more_to_transfer_def next_bytes_def on_cl_data_def keeping_def)
  from writing_client_appends_its_source [OF this _ _ _ _ keeping_gives alone(2)] small_writing empty
  obtain s' d where "stream_step\<^sup>*\<^sup>* (stream_start small_ring) s'" "writing_at s' (cl_data ?cl')"
      "stream_bytes s' (cl_data ?cl') = d" "cl_context ?cl = d @ cl_context ?cl'"
    by (auto simp: dada_client_create_def c_int64_def ring)
  then show ?thesis by (intro exI [of _ s'] exI [of _ ?cl']) (simp add: dada_client_create_def)
qed

text \<open>The transfer of the header to the program counts as failed exactly when the program took a part of
  it: the result is compared with the size as an unsigned number, so that the \<open>-1\<close> of an error passes
  for a count larger than any header, and the data follow a header that was not transferred.\<close>

theorem header_error_passes_for_success:
  assumes "header_transfer cl" and "cl_header cl = Some (Private d)" and "unat (cl_header_size cl) < 2 ^ 63"
    and "io_take F cl (take (unat (cl_header_size cl)) d) = Some (rc, cl')" and "- (2 ^ 63) \<le> rc" and "rc < 2 ^ 63"
  shows "transfer_header F hr cl = Some (rc < 0 \<or> int (unat (cl_header_size cl)) \<le> rc, hr, cl')"
proof -
  have "unat (word_of_int rc :: u64) = nat (rc mod 2 ^ 64)" by (simp add: unsigned_of_int take_bit_eq_mod)
  moreover have "rc mod 2 ^ 64 = (if rc < 0 then rc + 2 ^ 64 else rc)"
    using assms(5,6) by (auto intro: int_mod_pos_eq [of _ _ "- 1"])
  moreover obtain u where "unat (cl_header_size cl) = u" by blast
  ultimately have "cl_header_size cl \<le> word_of_int rc \<longleftrightarrow> rc < 0 \<or> int (unat (cl_header_size cl)) \<le> rc"
    using assms(3,5,6) unfolding word_le_nat_alt by (auto simp del: of_nat_unat)
  with assms show ?thesis by (simp add: transfer_header_def)
qed

lemma header_error_passes_for_success_witness:
  "transfer_header (keeping\<lparr>io_take := (\<lambda>cl d. Some (- 1, cl))\<rparr>) small_ring
     ((dada_client_create IPCIO_INIT IPCBUF_INIT [])\<lparr>cl_header := Some (Private [65]), cl_header_size := 1\<rparr>)
   = Some (True, small_ring,
     (dada_client_create IPCIO_INIT IPCBUF_INIT [])\<lparr>cl_header := Some (Private [65]), cl_header_size := 1\<rparr>)"
  using header_error_passes_for_success [of
      "(dada_client_create IPCIO_INIT IPCBUF_INIT [])\<lparr>cl_header := Some (Private [65]), cl_header_size := 1\<rparr>" "[65]"
      "keeping\<lparr>io_take := (\<lambda>cl d. Some (- 1, cl))\<rparr>" "- 1"]
  by (simp add: dada_client_create_def)

end
