(* ===== verification/Stream_Room.thy ===== *)
theory Stream_Room
  imports Ipcio_Stream
begin

text \<open>
  When a write returns: as long as the data fit into the sub-blocks the readers have given back
  and those not yet used, no operation of \<open>ipcio_write\<close> sleeps or fails; and no write fails that has to wait.
\<close>

section \<open>Room in the ring\<close>

text \<open>The sub-blocks a reader has cleared; the sub-block after the last that can be opened is a ring further on.\<close>

definition given_back :: "stream \<Rightarrow> nat \<Rightarrow> nat" where
  "given_back s i = length (got s i) - of_bool (held s i)"

definition fits :: "stream \<Rightarrow> ipcio \<Rightarrow> nat \<Rightarrow> bool" where
  "fits s c n \<longleftrightarrow> (\<forall>i\<in>set (readers (the_ring s)).
     write_pos (the_ring s) c + n \<le> (given_back s i + nb_of (the_ring s)) * bz_of (the_ring s))"

lemma fits_mono: "fits s c n \<Longrightarrow> m \<le> n \<Longrightarrow> fits s c m"
  by (auto simp: fits_def intro: order_trans add_left_mono)

lemma fits_same:
  assumes "same_readers s s'" and "write_pos (the_ring s') c' + n' = write_pos (the_ring s) c + n"
  shows "fits s' c' n' \<longleftrightarrow> fits s c n"
  using assms by (simp add: fits_def given_back_def same_readers_def)

text \<open>What the semaphores of a reader say of it.\<close>

lemma reader_counts:
  assumes inv: "stream_inv s" and i: "i \<in> set (readers (the_ring s))"
  shows "sem_data (the_ring s) i IPCBUF_CLEAR + recl s = given_back s i"
    and "sem_data (the_ring s) i IPCBUF_FULL + given_back s i \<le> W_of (the_ring s)"
  using stream_invD(1) [OF inv] stream_invD(5) [OF inv i]
  by (auto simp: reader_inv_def data_ok_def blocks_inv_def given_back_def)

text \<open>A transfer is under way, or may begin: no reader is eight transfers behind.\<close>

definition may_write :: "stream \<Rightarrow> bool" where
  "may_write s \<longleftrightarrow> state (writer s) = WRITING
     \<or> state (writer s) = WCHANGE \<and> soclock_buf (writer s) \<le> w_buf_curr (sync (the_ring s))
       \<and> (\<forall>i\<in>set (readers (the_ring s)). length (ends s) < k_of (the_ring s) i + 8)"

section \<open>No step of a write sleeps\<close>

lemma flush_returns:
  assumes at: "writing_at s c" and nb: "nb_of (the_ring s) \<le> SEMVMX"
  shows "\<exists>r' c'. flush_full (the_ring s) c = Some (0, r', c') \<and> state (buf c') = state (buf c)"
proof (cases "bytes c = bufsz (sync (the_ring s))")
  case False
  then show ?thesis by (simp add: flush_full_def ipcbuf_get_bufsz_def)
next
  case True
  let ?r = "the_ring s"
  have inv: "stream_inv s" and buf: "buf c = writer s" and sod: "\<not> sod_pending c"
    using at by (auto simp: writing_at_def)
  have busy: "writer_busy s c" using at True by (auto simp: writing_at_def writer_idle_def)
  then have st: "state (writer s) = WRITING" and N: "N_of ?r = W_of ?r + 1" and mf: "\<not> marked_filled c"
    by (auto simp: writer_busy_def)
  have "sem_data ?r i IPCBUF_FULL < SEMVMX" if i: "i \<in> set (readers ?r)" for i
    using reader_counts [OF inv i] stream_invD(1) [OF inv] N nb by (auto simp: blocks_inv_def)
  then have "each (data_semop IPCBUF_FULL 1 False) (readers ?r) (count_filled ?r) = Some (None, filled ?r)"
    by (subst each_up_ok) simp_all
  then have "ipcbuf_mark_filled ?r (writer s) (bufsz (sync ?r)) = Some (0, filled ?r, writer s)"
    using st by (simp add: ipcbuf_mark_filled_def ipcbuf_is_writer_def)
  then show ?thesis
    using True mf sod buf
    by (simp add: flush_full_def ipcbuf_get_bufsz_def on_buf_def ipcio_check_pending_sod_def)
qed

lemma open_returns:
  assumes at: "writing_at s c" and idle: "writer_idle s c" and may: "may_write s" and fit: "fits s c 1"
  shows "\<exists>b r' p'. ipcbuf_get_next_write (the_ring s) (writer s) = Some (Some b, r', p')"
proof -
  let ?r = "the_ring s"
  have inv: "stream_inv s" using at by (simp add: writing_at_def)
  note B = stream_invD(1) [OF inv]
  have NW: "N_of ?r = W_of ?r" and b0: "bytes c = 0" using idle by (simp_all add: writer_idle_def)
  have "0 < nb_of ?r" using B by (simp add: blocks_inv_def)
  then have room: "N_of ?r < W_of ?r + nb_of ?r" using NW by simp
  note c = blocks_next_count [OF B room]
  have clear: "unat (count ?r (next_slot ?r)) \<le> sem_data ?r i IPCBUF_CLEAR" if i: "i \<in> set (readers ?r)" for i
  proof -
    have "W_of ?r * bz_of ?r < (given_back s i + nb_of ?r) * bz_of ?r"
      using bspec [OF fit [unfolded fits_def] i] b0 by (simp add: write_pos_def Suc_le_eq)
    then have "W_of ?r < given_back s i + nb_of ?r" by (rule mult_less_cancel2 [THEN iffD1, THEN conjunct2])
    then show ?thesis using c NW reader_counts(1) [OF inv i] by (auto simp: of_bool_def)
  qed
  show ?thesis
  proof (cases "state (writer s) = WRITING")
    case True
    then show ?thesis using clear by (simp add: get_next_write_opens ipcbuf_is_writer_def)
  next
    case False
    then have st: "state (writer s) = WCHANGE" and so: "soclock_buf (writer s) \<le> w_buf_curr (sync ?r)"
      and near: "\<forall>i\<in>set (readers ?r). length (ends s) < k_of ?r i + 8" using may by (auto simp: may_write_def)
    have "w_state (sync ?r) \<noteq> WRITING" using stream_invD(3) [OF inv] st by (auto simp: handle_inv_def)
    then have "0 < sem_data ?r i IPCBUF_SODACK" if i: "i \<in> set (readers ?r)" for i
      using stream_invD(5) [OF inv i] bspec [OF near i] unfolding reader_inv_def acks_ok_def begun_def by auto
    with first_write_allowed [OF B st so room] show ?thesis
      using st clear enable_sod_none_written [of ?r "writer s" 0]
      by (simp add: get_next_write_first get_next_write_opens ipcbuf_is_writer_def sem_data_map_sems)
  qed
qed

lemma prepare_returns:
  assumes at: "writing_at s c" and may: "may_write s" and nb: "nb_of (the_ring s) \<le> SEMVMX"
    and fit: "fits s c 1"
  shows "\<exists>r' c'. write_prepare (the_ring s) c = Some (0, r', c')"
proof -
  obtain r1 c1 where f: "flush_full (the_ring s) c = Some (0, r1, c1)" "state (buf c1) = state (buf c)"
    using flush_returns [OF at nb] by blast
  obtain s1 where s1: "the_ring s1 = r1" "writing_at s1 c1" "same_readers s s1"
      "write_pos r1 c1 = write_pos (the_ring s) c"
    using flush_refines [OF at f(1)] by auto
  show ?thesis
  proof (cases "curbuf c1")
    case (Some b)
    with f show ?thesis by (simp add: write_prepare_def)
  next
    case None
    then have "writer_idle s1 c1" using s1(2) by (auto simp: writing_at_def writer_busy_def)
    moreover have "may_write s1"
    proof (cases "state (writer s) = WRITING")
      case True
      then show ?thesis using f(2) at s1(2) by (simp add: writing_at_def may_write_def)
    next
      case False
      then have "writer_idle s c" and b: "bytes c \<noteq> bufsz (sync (the_ring s))"
        using at by (auto simp: writing_at_def writer_busy_def writer_idle_def)
      then have "r1 = the_ring s" "c1 = c" using f(1) by (auto simp: flush_full_def ipcbuf_get_bufsz_def)
      with may s1 at show ?thesis by (simp add: may_write_def same_readers_def writing_at_def)
    qed
    moreover have "fits s1 c1 1" using fit s1 by (subst fits_same [OF s1(3), where c = c and n = 1]) simp_all
    ultimately obtain b r' p' where "ipcbuf_get_next_write r1 (writer s1) = Some (Some b, r', p')"
      using open_returns [OF s1(2)] s1(1) by blast
    then show ?thesis using f(1) None s1(2) by (simp add: write_prepare_def on_buf_def writing_at_def)
  qed
qed

text \<open>So the whole loop returns, and leaves the ring ready for the next write.\<close>

lemma write_loop_goes_on:
  assumes "writing_at s c" and "may_write s" and "nb_of (the_ring s) \<le> SEMVMX"
    and "fits s c (length data)" and "N_of (the_ring s) + length data < 2 ^ 64"
  shows "\<exists>s' c'. write_loop data (the_ring s) c = Some (True, the_ring s', c') \<and> stream_step\<^sup>*\<^sup>* s s' \<and> writing_at s' c'
     \<and> stream_bytes s' c' = stream_bytes s c @ data \<and> same_readers s s' \<and> may_write s'
     \<and> N_of (the_ring s') \<le> N_of (the_ring s) + length data
     \<and> write_pos (the_ring s') c' = write_pos (the_ring s) c + length data"
  using assms
proof (induction "length data" arbitrary: data s c rule: less_induct)
  case less
  show ?case
  proof (cases "data = []")
    case True
    with less.prems show ?thesis by (intro exI [of _ s] exI [of _ c]) (simp add: write_loop.simps [of "[]"])
  next
    case False
    then have pos: "0 < length data" by simp
    then have "fits s c 1" using fits_mono [OF less.prems(4)] by (simp add: Suc_le_eq)
    then obtain r1 c1 where p: "write_prepare (the_ring s) c = Some (0, r1, c1)"
      using prepare_returns [OF less.prems(1-3)] by blast
    have "N_of (the_ring s) + 1 < 2 ^ 64" using less.prems(5) pos by linarith
    from prepare_refines [OF less.prems(1) p _ this] obtain s1 where
      s1: "the_ring s1 = r1" "writing_at s1 c1" "same_readers s s1" "N_of r1 \<le> N_of (the_ring s) + 1"
        "writer_busy s1 c1" "bytes c1 < bufsz (sync r1)" "write_pos r1 c1 = write_pos (the_ring s) c"
        "stream_step\<^sup>*\<^sup>* s s1" "stream_bytes s1 c1 = stream_bytes s c" by auto
    let ?space = "min (ipcbuf_get_bufsz r1 - bytes c1) (of_nat (length data)) :: u64"
    let ?n = "unat ?space"
    have "length data < 2 ^ 64" using less.prems(5) by linarith
    note n = write_space [OF s1(6) pos this]
    let ?c2 = "c1\<lparr>bytes := bytes c1 + ?space\<rparr>"
    let ?r2 = "put_bytes (the (curbuf c1)) (bytes c1) (take ?n data) r1"
    have sp: "?space = of_nat (length (take ?n data))" using n(2) by simp
    obtain s2 where s2: "the_ring s2 = ?r2" "writing_at s2 ?c2" "writer_busy s2 ?c2" "same_readers s1 s2" "N_of ?r2 = N_of r1"
        "stream_step\<^sup>*\<^sup>* s1 s2" "stream_bytes s2 ?c2 = stream_bytes s1 c1 @ take ?n data"
      using put_refines [OF s1(2,5), of "take ?n data"] n s1(1) sp by auto
    have same: "same_readers s s2" using s1(3) s2(4) by (rule same_readers_trans)
    have "W_of ?r2 = W_of r1" using s2 s1(1,5) by (auto simp: writer_busy_def)
    moreover have "unat (bytes c1 + ?space) = unat (bytes c1) + ?n"
      using n(3) unat_less_length [of "bufsz (sync r1)"] by (simp add: unat_word_ariths)
    ultimately have wp: "write_pos ?r2 ?c2 = write_pos (the_ring s) c + ?n"
      using s1(1,7) s2(1,4) by (simp add: write_pos_def same_readers_def)
    have "fits s2 ?c2 (length (drop ?n data))"
      using less.prems(4) fits_same [OF same, of ?c2 "length (drop ?n data)" c "length data"] wp n(2) s2(1) by simp
    moreover have "may_write s2" using s2(3) by (simp add: may_write_def writer_busy_def)
    moreover have "nb_of (the_ring s2) \<le> SEMVMX" using less.prems(3) same by (simp add: same_readers_def)
    moreover have "length (drop ?n data) < length data" using n(1) pos by simp
    moreover have "N_of (the_ring s2) + length (drop ?n data) < 2 ^ 64"
      using s2(1,5) s1(4) n(1,2) less.prems(5) by simp
    ultimately obtain s3 c3 where s3: "write_loop (drop ?n data) ?r2 ?c2 = Some (True, the_ring s3, c3)" "stream_step\<^sup>*\<^sup>* s2 s3"
        "writing_at s3 c3" "stream_bytes s3 c3 = stream_bytes s2 ?c2 @ drop ?n data" "same_readers s2 s3" "may_write s3"
        "N_of (the_ring s3) \<le> N_of ?r2 + length (drop ?n data)"
        "write_pos (the_ring s3) c3 = write_pos ?r2 ?c2 + length (drop ?n data)"
      using less.hyps [of "drop ?n data" s2 ?c2] s2(1,2) by auto
    have "write_loop data (the_ring s) c = Some (True, the_ring s3, c3)"
      using p False s3(1) by (simp add: write_loop.simps [of data] Let_def)
    moreover have "stream_bytes s3 c3 = stream_bytes s c @ data" using s1(9) s2(7) s3(4) by simp
    moreover have "N_of (the_ring s3) \<le> N_of (the_ring s) + length data" using s3(7) s2(5) s1(4) n(1,2) by simp
    moreover have "write_pos (the_ring s3) c3 = write_pos (the_ring s) c + length data" using s3(8) wp n(2) by simp
    moreover have "stream_step\<^sup>*\<^sup>* s s3" using s1(8) s2(6) s3(2) by (meson rtranclp_trans)
    ultimately show ?thesis using s3(3,6) same_readers_trans [OF same s3(5)] by blast
  qed
qed

lemma ipcio_write_goes_on:
  assumes at: "writing_at s c" and "may_write s" and "nb_of (the_ring s) \<le> SEMVMX"
    and fit: "fits s c n" and len: "length data \<le> n" and "N_of (the_ring s) + length data < 2 ^ 64"
  obtains s' c' where "ipcio_write (the_ring s) c data = Some (int (length data), the_ring s', c')"
    and "stream_step\<^sup>*\<^sup>* s s'" and "writing_at s' c'" and "may_write s'" and "nb_of (the_ring s') \<le> SEMVMX"
    and "fits s' c' (n - length data)" and "stream_bytes s' c' = stream_bytes s c @ data"
    and "N_of (the_ring s') \<le> N_of (the_ring s) + length data" and "same_readers s s'"
proof -
  have "rdwrt c = CHR ''W''" using at by (simp add: writing_at_def)
  from write_loop_goes_on [OF assms(1-3) fits_mono [OF fit len] assms(6)] obtain s' c' where
    s: "write_loop data (the_ring s) c = Some (True, the_ring s', c')" "stream_step\<^sup>*\<^sup>* s s'" "writing_at s' c'"
      "stream_bytes s' c' = stream_bytes s c @ data" "same_readers s s'" "may_write s'"
      "N_of (the_ring s') \<le> N_of (the_ring s) + length data"
      "write_pos (the_ring s') c' = write_pos (the_ring s) c + length data" by blast
  moreover have "fits s' c' (n - length data)" using fit fits_same [OF s(5)] s(8) len by simp
  moreover have "ipcio_write (the_ring s) c data = Some (int (length data), the_ring s', c')"
    using s(1) \<open>rdwrt c = CHR ''W''\<close> by (simp add: ipcio_write_def)
  moreover have "nb_of (the_ring s') \<le> SEMVMX" using assms(3) s(5) by (simp add: same_readers_def)
  ultimately show thesis by (intro that) auto
qed

section \<open>No write fails\<close>

text \<open>
  Even when a write has to wait, it does not fail: a semaphore cannot overflow, and a transfer can begin as soon as the
  readers are near enough.
\<close>

definition may_begin :: "stream \<Rightarrow> bool" where
  "may_begin s \<longleftrightarrow> state (writer s) = WRITING
     \<or> state (writer s) = WCHANGE \<and> soclock_buf (writer s) \<le> w_buf_curr (sync (the_ring s))"

lemma may_write_begin: "may_write s \<Longrightarrow> may_begin s"
  by (auto simp: may_write_def may_begin_def)

lemma open_succeeds:
  assumes at: "writing_at s c" and idle: "writer_idle s c" and may: "may_begin s"
    and run: "ipcbuf_get_next_write (the_ring s) (writer s) = Some (res, r', p')"
  shows "res \<noteq> None \<and> state p' = WRITING"
proof (cases "state (writer s) = WRITING")
  case True
  then show ?thesis using run by (auto simp: get_next_write_opens ipcbuf_is_writer_def split: if_splits)
next
  case False
  let ?r = "the_ring s"
  have st: "state (writer s) = WCHANGE" and so: "soclock_buf (writer s) \<le> w_buf_curr (sync ?r)"
    using may False by (auto simp: may_begin_def)
  have inv: "stream_inv s" using at by (simp add: writing_at_def)
  note B = stream_invD(1) [OF inv]
  have "N_of ?r < W_of ?r + nb_of ?r" using B idle by (simp add: blocks_inv_def writer_idle_def)
  note ok = first_write_allowed [OF B st so this]
  have near: "\<forall>i\<in>set (readers ?r). 0 < sem_data ?r i IPCBUF_SODACK"
  proof (rule ccontr)
    assume "\<not> ?thesis"
    then obtain i where "i \<in> set (readers ?r)" "sem_data ?r i IPCBUF_SODACK = 0" by auto
    then have "ipcbuf_enable_sod ?r (writer s) (w_buf_curr (sync ?r)) 0 = None"
      using ok each_down_blocks by (simp add: ipcbuf_enable_sod_def)
    then show False using run st by (simp add: get_next_write_first)
  qed
  have "state (sod_handle ?r (writer s)) = WRITING" by simp
  then show ?thesis
    using run st enable_sod_none_written [OF ok near]
    by (auto simp: get_next_write_first get_next_write_opens ipcbuf_is_writer_def split: if_splits)
qed

lemma prepare_succeeds:
  assumes at: "writing_at s c" and may: "may_begin s" and nb: "nb_of (the_ring s) \<le> SEMVMX"
    and run: "write_prepare (the_ring s) c = Some (rc, r', c')"
  shows "rc = 0 \<and> state (buf c') = WRITING"
proof -
  obtain r1 c1 where f: "flush_full (the_ring s) c = Some (0, r1, c1)" "state (buf c1) = state (buf c)"
    using flush_returns [OF at nb] by blast
  obtain s1 where s1: "the_ring s1 = r1" "writing_at s1 c1"
    using flush_refines [OF at f(1)] by auto
  show ?thesis
  proof (cases "curbuf c1")
    case (Some b)
    then have "state (buf c1) = WRITING" using s1(2) by (auto simp: writing_at_def writer_idle_def writer_busy_def)
    with Some f run show ?thesis by (simp add: write_prepare_def)
  next
    case None
    then have idle: "writer_idle s1 c1" using s1(2) by (auto simp: writing_at_def writer_busy_def)
    have "may_begin s1"
    proof (cases "state (writer s) = WRITING")
      case True
      then show ?thesis using f(2) at s1(2) by (simp add: writing_at_def may_begin_def)
    next
      case False
      then have "writer_idle s c" and b: "bytes c \<noteq> bufsz (sync (the_ring s))"
        using at by (auto simp: writing_at_def writer_busy_def writer_idle_def)
      then have "r1 = the_ring s" "c1 = c" using f(1) by (auto simp: flush_full_def ipcbuf_get_bufsz_def)
      with may s1 at show ?thesis by (simp add: may_begin_def writing_at_def)
    qed
    note op = open_succeeds [OF s1(2) idle this]
    from run f(1) None obtain res r2 p2 where g: "ipcbuf_get_next_write r1 (buf c1) = Some (res, r2, p2)"
      and rest: "(rc, r', c') = (case res of None \<Rightarrow> (- 1, r2, c1\<lparr>buf := p2\<rparr>)
         | Some b \<Rightarrow> (0, r2, c1\<lparr>buf := p2, curbuf := Some (b, 0), marked_filled := False, bytes := 0\<rparr>))"
      by (auto simp: write_prepare_def on_buf_def split: option.splits bind_splits)
    have "buf c1 = writer s1" using s1(2) by (simp add: writing_at_def)
    with op [of res r2 p2] g s1(1) rest show ?thesis by auto
  qed
qed

lemma write_loop_succeeds:
  assumes "write_loop data (the_ring s) c = Some (ok, r', c')" and "writing_at s c" and "may_begin s"
    and "nb_of (the_ring s) \<le> SEMVMX" and "N_of (the_ring s) + length data < 2 ^ 64"
  shows "ok \<and> (data \<noteq> [] \<longrightarrow> state (buf c') = WRITING)"
  using assms
proof (induction "length data" arbitrary: data s c rule: less_induct)
  case less
  show ?case
  proof (cases "data = []")
    case True
    with less.prems(1) show ?thesis by (simp add: write_loop.simps [of "[]"])
  next
    case False
    then have pos: "0 < length data" by simp
    from less.prems(1) False obtain rc r1 c1 where p: "write_prepare (the_ring s) c = Some (rc, r1, c1)"
      and rest: "(if rc < 0 then Some (False, r1, c1) else
        write_loop (drop (unat (min (ipcbuf_get_bufsz r1 - bytes c1) (of_nat (length data)))) data)
          (put_bytes (the (curbuf c1)) (bytes c1) (take (unat (min (ipcbuf_get_bufsz r1 - bytes c1) (of_nat (length data)))) data) r1)
          (c1\<lparr>bytes := bytes c1 + min (ipcbuf_get_bufsz r1 - bytes c1) (of_nat (length data))\<rparr>)) = Some (ok, r', c')"
      by (auto simp: write_loop.simps [of data] Let_def split: bind_splits if_splits)
    have p0: "rc = 0" "state (buf c1) = WRITING" using prepare_succeeds [OF less.prems(2-4) p] by simp_all
    have "N_of (the_ring s) + 1 < 2 ^ 64" using less.prems(5) pos by linarith
    from prepare_refines [OF less.prems(2) p _ this] p0 obtain s1 where
      s1: "the_ring s1 = r1" "writing_at s1 c1" "same_readers s s1" "N_of r1 \<le> N_of (the_ring s) + 1" "writer_busy s1 c1"
        "bytes c1 < bufsz (sync r1)" by auto
    let ?space = "min (ipcbuf_get_bufsz r1 - bytes c1) (of_nat (length data))"
    let ?n = "unat ?space" and ?c2 = "c1\<lparr>bytes := bytes c1 + min (ipcbuf_get_bufsz r1 - bytes c1) (of_nat (length data))\<rparr>"
    have "length data < 2 ^ 64" using less.prems(5) by linarith
    note n = write_space [OF s1(6) pos this]
    have "?space = of_nat (length (take ?n data))" using n(2) by simp
    then obtain s2 where s2: "the_ring s2 = put_bytes (the (curbuf c1)) (bytes c1) (take ?n data) r1" "writing_at s2 ?c2"
        "same_readers s1 s2" "N_of (the_ring s2) = N_of r1"
      using put_refines [OF s1(2,5), of "take ?n data"] n s1(1) by auto
    have "length (drop ?n data) < length data" using n(1) pos by simp
    moreover have "N_of (the_ring s2) + length (drop ?n data) < 2 ^ 64" using s2(4) s1(4) n(1,2) less.prems(5) by simp
    moreover have "may_begin s2" using s2(2) p0(2) by (simp add: may_begin_def writing_at_def)
    moreover have "nb_of (the_ring s2) \<le> SEMVMX" using less.prems(4) s1(3) s2(3) by (simp add: same_readers_def)
    moreover have go: "write_loop (drop ?n data) (the_ring s2) ?c2 = Some (ok, r', c')" using rest p0(1) s2(1) by simp
    ultimately have IH: "ok \<and> (drop ?n data \<noteq> [] \<longrightarrow> state (buf c') = WRITING)"
      using less.hyps [of "drop ?n data" s2 ?c2] s2(2) by blast
    moreover have "state (buf c') = WRITING" if "drop ?n data = []"
      using go that p0(2) by (auto simp: write_loop.simps [of "[]"])
    ultimately show ?thesis by blast
  qed
qed

lemma ipcio_write_succeeds:
  assumes run: "ipcio_write (the_ring s) c data = Some (rc, r', c')" and at: "writing_at s c" and may: "may_begin s"
    and nb: "nb_of (the_ring s) \<le> SEMVMX" and N: "N_of (the_ring s) + length data < 2 ^ 64"
  obtains s' where "rc = int (length data)" and "stream_step\<^sup>*\<^sup>* s s'" and "the_ring s' = r'" and "writing_at s' c'"
    and "may_begin s'" and "nb_of (the_ring s') \<le> SEMVMX" and "stream_bytes s' c' = stream_bytes s c @ data"
    and "N_of r' \<le> N_of (the_ring s) + length data"
proof -
  have "rdwrt c = CHR ''W''" using at by (simp add: writing_at_def)
  then obtain ok where l: "write_loop data (the_ring s) c = Some (ok, r', c')" "rc = (if ok then int (length data) else - 1)"
    using run by (auto simp: ipcio_write_def split: bind_splits)
  note ok = write_loop_succeeds [OF l(1) at may nb N]
  then have "write_loop data (the_ring s) c = Some (True, r', c')" using l(1) by simp
  from write_loop_refines [OF this at N] obtain s' where s': "stream_step\<^sup>*\<^sup>* s s'" "the_ring s' = r'" "writing_at s' c'"
      "stream_bytes s' c' = stream_bytes s c @ data" "same_readers s s'" "N_of r' \<le> N_of (the_ring s) + length data" by blast
  have "may_begin s'"
  proof (cases "data = []")
    case True
    then have "r' = the_ring s" "c' = c" using l(1) by (simp_all add: write_loop.simps [of "[]"])
    then show ?thesis using may at s'(2,3) by (simp add: may_begin_def writing_at_def)
  next
    case False
    then show ?thesis using ok s'(3) by (simp add: may_begin_def writing_at_def)
  qed
  moreover have "nb_of (the_ring s') \<le> SEMVMX" using nb s'(5) by (simp add: same_readers_def)
  ultimately show thesis using that ok l(2) s' by simp
qed

section \<open>A write that fits\<close>

text \<open>C12. A write returns, and writes everything, whenever its data fit into
  the ring and no reader is eight transfers behind: into what is left of the current sub-block, the sub-blocks not used yet and those every
  reader has given back. No reader needs to do anything for it to complete.\<close>

theorem ipcio_write_returns:
  assumes "writing_at s c" and "may_write s" and "nb_of (the_ring s) \<le> SEMVMX"
    and "fits s c (length data)" and "N_of (the_ring s) + length data < 2 ^ 64"
  shows "\<exists>r' c'. ipcio_write (the_ring s) c data = Some (int (length data), r', c')"
  by (rule ipcio_write_goes_on [OF assms(1-4) order_refl assms(5)]) blast

lemma ipcio_write_returns_witness:
  "\<exists>r' c'. ipcio_write small_ring small_writer [1, 2, 3, 4, 5, 6] = Some (6, r', c')"
proof -
  let ?s = "stream_start small_ring"
  have start: "the_ring ?s = small_ring" by (simp add: stream_start_def)
  have "given_back ?s i = 0" for i by (simp add: given_back_def stream_start_def)
  then have "fits ?s small_writer (length [1, 2, 3, 4, 5, 6 :: byte])"
    by (simp add: fits_def start write_pos_def small_writer_def IPCIO_INIT_def)
  moreover have "may_write ?s"
    by (simp add: may_write_def stream_start_def locked_handle_def IPCBUF_INIT_def)
  ultimately show ?thesis
    using ipcio_write_returns [OF small_writing, of "[1, 2, 3, 4, 5, 6]"] start by (simp add: SEMVMX_def)
qed

end
