(* ===== verification/Dbcopydb_Properties.thy ===== *)
theory Dbcopydb_Properties
  imports Dada_Dbcopydb Client_Properties Stream_Room
begin

text \<open>
  What the copying program leaves in its outputs: each has the bytes that were read, in their order, whatever the readers
  of the outputs do meanwhile.
\<close>

section \<open>An output\<close>

text \<open>The stream of an output, open for writing, and the bytes written to it.\<close>

definition output_at :: "stream \<Rightarrow> copy_output \<Rightarrow> bool" where
  "output_at s u \<longleftrightarrow> (\<exists>c. data_block (out_hdu u) = Some c \<and> the_ring s = out_data u \<and> writing_at s c \<and> may_begin s
     \<and> nb_of (the_ring s) \<le> SEMVMX)"

definition output_bytes :: "stream \<Rightarrow> copy_output \<Rightarrow> byte list" where
  "output_bytes s u = (case data_block (out_hdu u) of None \<Rightarrow> [] | Some c \<Rightarrow> stream_bytes s c)"

text \<open>From \<open>s0\<close>, where the output was \<open>u0\<close>, a run of its ring has appended \<open>t\<close>, unless its sub-blocks cannot be counted any more.\<close>

definition has_copied :: "stream \<Rightarrow> copy_output \<Rightarrow> byte list \<Rightarrow> copy_output \<Rightarrow> bool" where
  "has_copied s0 u0 t u \<longleftrightarrow> (N_of (the_ring s0) + length t < 2 ^ 64 \<longrightarrow>
     (\<exists>s. stream_step\<^sup>*\<^sup>* s0 s \<and> output_at s u \<and> output_bytes s u = output_bytes s0 u0 @ t
        \<and> N_of (the_ring s) \<le> N_of (the_ring s0) + length t))"

definition leaves_outputs :: "output_env \<Rightarrow> bool" where
  "leaves_outputs others \<longleftrightarrow> (\<forall>k j h s c. writing_at s c \<longrightarrow> (\<exists>s'. stream_step\<^sup>*\<^sup>* s s' \<and> the_ring s' = snd (others k j (h, the_ring s))
     \<and> writing_at s' c \<and> stream_bytes s' c = stream_bytes s c \<and> N_of (the_ring s') = N_of (the_ring s)
     \<and> nb_of (the_ring s') = nb_of (the_ring s) \<and> (may_begin s \<longrightarrow> may_begin s')))"

lemma has_copied_nothing: "output_at s u \<Longrightarrow> has_copied s u [] u"
  unfolding has_copied_def by auto

lemma write_copies:
  assumes "has_copied s0 u0 t u" and "on_out_data (\<lambda>r c. ipcio_write r c d) u = Some (rc, u')"
  shows "has_copied s0 u0 (t @ d) u'"
  unfolding has_copied_def
proof
  assume N: "N_of (the_ring s0) + length (t @ d) < 2 ^ 64"
  then have "N_of (the_ring s0) + length t < 2 ^ 64" by simp
  with assms(1) obtain s where s: "stream_step\<^sup>*\<^sup>* s0 s" "output_at s u" "output_bytes s u = output_bytes s0 u0 @ t"
      "N_of (the_ring s) \<le> N_of (the_ring s0) + length t" unfolding has_copied_def by blast
  from s(2) obtain c where c: "data_block (out_hdu u) = Some c" "the_ring s = out_data u" "writing_at s c" "may_begin s"
      "nb_of (the_ring s) \<le> SEMVMX" unfolding output_at_def by blast
  from assms(2) c(1,2) obtain r' c' where wr: "ipcio_write (the_ring s) c d = Some (rc, r', c')"
    and u': "u' = u\<lparr>out_data := r', out_hdu := (out_hdu u)\<lparr>data_block := Some c'\<rparr>\<rparr>"
    by (auto simp: on_out_data_def on_unit_def on_data_def split: option.splits)
  have "N_of (the_ring s) + length d < 2 ^ 64" using N s(4) by simp
  from ipcio_write_succeeds [OF wr c(3-5) this] obtain s' where
    s': "stream_step\<^sup>*\<^sup>* s s'" "the_ring s' = r'" "writing_at s' c'" "may_begin s'" "nb_of (the_ring s') \<le> SEMVMX"
      "stream_bytes s' c' = stream_bytes s c @ d" "N_of r' \<le> N_of (the_ring s) + length d" .
  have "output_at s' u'" using s' by (auto simp: output_at_def u')
  moreover have "output_bytes s' u' = output_bytes s0 u0 @ t @ d"
    using s'(6) s(3) c(1) by (simp add: output_bytes_def u')
  moreover have "N_of (the_ring s') \<le> N_of (the_ring s0) + length (t @ d)" using s'(2,7) s(4) by simp
  ultimately show "\<exists>s. stream_step\<^sup>*\<^sup>* s0 s \<and> output_at s u' \<and> output_bytes s u' = output_bytes s0 u0 @ t @ d
      \<and> N_of (the_ring s) \<le> N_of (the_ring s0) + length (t @ d)" using rtranclp_trans [OF s(1) s'(1)] by blast
qed

lemma others_keep_copied:
  assumes "has_copied s0 u0 t u" and "leaves_outputs others" and "others k j (out_headers u, out_data u) = (hr, dr)"
  shows "has_copied s0 u0 t (u\<lparr>out_headers := hr, out_data := dr\<rparr>)"
  unfolding has_copied_def
proof
  assume "N_of (the_ring s0) + length t < 2 ^ 64"
  with assms(1) obtain s where s: "stream_step\<^sup>*\<^sup>* s0 s" "output_at s u" "output_bytes s u = output_bytes s0 u0 @ t"
      "N_of (the_ring s) \<le> N_of (the_ring s0) + length t" unfolding has_copied_def by blast
  from s(2) obtain c where c: "data_block (out_hdu u) = Some c" "the_ring s = out_data u" "writing_at s c" "may_begin s"
      "nb_of (the_ring s) \<le> SEMVMX" unfolding output_at_def by blast
  from assms(2) c(3) obtain s' where s': "stream_step\<^sup>*\<^sup>* s s'" "the_ring s' = snd (others k j (out_headers u, the_ring s))"
     "writing_at s' c" "stream_bytes s' c = stream_bytes s c" "N_of (the_ring s') = N_of (the_ring s)"
     "nb_of (the_ring s') = nb_of (the_ring s)" "may_begin s \<longrightarrow> may_begin s'" unfolding leaves_outputs_def by blast
  let ?u = "u\<lparr>out_headers := hr, out_data := dr\<rparr>"
  have "output_at s' ?u" using s' c assms(3) by (simp add: output_at_def)
  moreover have "output_bytes s' ?u = output_bytes s0 u0 @ t" using s(3) s'(4) c(1) by (simp add: output_bytes_def)
  moreover have "N_of (the_ring s') \<le> N_of (the_ring s0) + length t" using s'(5) s(4) by simp
  ultimately show "\<exists>s. stream_step\<^sup>*\<^sup>* s0 s \<and> output_at s ?u \<and> output_bytes s ?u = output_bytes s0 u0 @ t
      \<and> N_of (the_ring s) \<le> N_of (the_ring s0) + length t" using rtranclp_trans [OF s(1) s'(1)] by blast
qed

section \<open>All outputs\<close>

lemma write_outputs_each:
  assumes "write_outputs d us = Some us'"
  shows "length us' = length us \<and> (\<forall>j<length us. \<exists>rc. on_out_data (\<lambda>r c. ipcio_write r c d) (us ! j) = Some (rc, us' ! j))"
  using assms
proof (induction us arbitrary: us')
  case (Cons u us)
  from Cons.prems obtain rc u1 us1 where u1: "on_out_data (\<lambda>r c. ipcio_write r c d) u = Some (rc, u1)"
    and us1: "write_outputs d us = Some us1" and us': "us' = u1 # us1" by (auto split: bind_splits)
  show ?case using Cons.IH [OF us1] u1 by (auto simp: us' nth_Cons split: nat.splits)
qed simp

definition all_copied :: "stream list \<Rightarrow> copy_output list \<Rightarrow> byte list \<Rightarrow> copy_output list \<Rightarrow> bool" where
  "all_copied ss us0 t us \<longleftrightarrow> length us = length us0 \<and> (\<forall>j<length us0. has_copied (ss ! j) (us0 ! j) t (us ! j))"

lemma interfere_copied: "all_copied ss us0 t us \<Longrightarrow> leaves_outputs others \<Longrightarrow> all_copied ss us0 t (interfere others k us)"
  by (auto simp: all_copied_def interfere_def nth_enumerate_eq others_keep_copied split: prod.splits)

lemma write_all_copied:
  assumes "all_copied ss us0 t us" and "write_outputs d us = Some us'"
  shows "all_copied ss us0 (t @ d) us'"
  using write_outputs_each [OF assms(2)] assms(1) write_copies by (fastforce simp: all_copied_def)

lemma copying_takes:
  assumes "leaves_outputs others" and "B < 2 ^ 63"
  shows "takes_along B (\<lambda>x t. all_copied ss us0 t (cp_outputs x)) (dbcopydb_functions others z)"
  unfolding takes_along_def
proof (intro allI impI)
  fix cl t d rc cl'
  assume H: "all_copied ss us0 t (cp_outputs (cl_context cl))" and len: "length d \<le> B"
    and run: "io_take (dbcopydb_functions others z) cl d = Some (rc, cl')"
  let ?us = "interfere others (cp_calls (cl_context cl)) (cp_outputs (cl_context cl))"
  from run obtain us' where w: "write_outputs d ?us = Some us'"
    and rc: "rc = c_int64 (of_nat (length d))"
    and cl': "cl' = count_copied (of_nat (length d)) (set_outputs us' (begin_call others cl))"
    by (auto simp: dbcopydb_functions_def dbcopydb_write_def begin_call_def Let_def split: bind_splits)
  have "all_copied ss us0 (t @ d) us'" by (rule write_all_copied [OF interfere_copied [OF H assms(1)] w])
  moreover have "rc = int (length d)"
    using len assms(2) by (simp add: rc c_int64_def signed_of_nat signed_take_bit_int_eq_self)
  ultimately show "rc = int (length d) \<and> all_copied ss us0 (t @ d) (cp_outputs (cl_context cl')) \<and> cl_data cl' = cl_data cl
      \<and> transfer_bytes cl' = transfer_bytes cl"
    by (simp add: cl' count_copied_def set_outputs_def begin_call_def Let_def)
qed


lemma alone_outputs: "leaves_outputs (\<lambda>_ _ x. x)"
  unfolding leaves_outputs_def by auto

text \<open>Two bytes are copied to one output.\<close>

definition small_output :: copy_output where
  "small_output = copy_output_init small_ring small_ring (dada_hdu_create\<lparr>data_block := Some small_writer\<rparr>)"

definition copying_client :: "dbcopydb dada_client" where
  "copying_client = (dada_client_create small_reading IPCBUF_INIT (dbcopydb_init [small_output]))\<lparr>direction := Reading, optimal_bytes := 5, transfer_bytes := 5\<rparr>"

lemma small_output_at: "output_at (stream_start small_ring) small_output"
  using small_writing
  by (auto simp: output_at_def small_output_def copy_output_init_def stream_start_def may_begin_def locked_handle_def IPCBUF_INIT_def SEMVMX_def)


end
