(* ===== verification/Udp_Headers.thy ===== *)
theory Udp_Headers
  imports Ring_State
begin

text \<open>
  The headers of the packets that the telescopes send (\<open>encode\<close> and \<open>decode\<close> functions of \<^verbatim>\<open>bpsr_udp.h\<close>,
  \<^verbatim>\<open>caspsr_udp.c\<close>, \<^verbatim>\<open>gmrt_udp.c\<close>, \<^verbatim>\<open>comap_udp.c\<close>, \<^verbatim>\<open>leda_udp.c\<close>, \<^verbatim>\<open>ska1_udp.c\<close>, \<^verbatim>\<open>hispec_udp.c\<close>,
  \<^verbatim>\<open>mopsr_udp.c\<close>, \<^verbatim>\<open>snapsr_udp.c\<close> and \<^verbatim>\<open>dada_ib_datagram.c\<close>). A packet is its bytes, the header in front. What the
  formats have in common is a locale.
\<close>

unbundle bit_operations_syntax

section \<open>Numbers in a packet\<close>

text \<open>\<open>n\<close> bytes of a number at \<open>at\<close>, the most significant first, as the functions write and read them one by one.\<close>

definition be_bytes :: "nat \<Rightarrow> 'a::len word \<Rightarrow> byte list" where
  "be_bytes n w = map (\<lambda>i. ucast (drop_bit (8 * (n - 1 - i)) w)) [0..<n]"

definition put_be :: "nat \<Rightarrow> nat \<Rightarrow> 'a::len word \<Rightarrow> byte list \<Rightarrow> byte list" where
  "put_be at n w b = take at b @ be_bytes n w @ drop (at + n) b"

definition get_be :: "nat \<Rightarrow> nat \<Rightarrow> byte list \<Rightarrow> 'a::len word" where
  "get_be at n b = fold (\<lambda>i num. num OR push_bit (8 * i) (ucast (b ! (at + n - i - 1)))) [0..<n] 0"

lemma length_be_bytes [simp]: "length (be_bytes n w) = n"
  by (simp add: be_bytes_def)

lemma length_put_be [simp]: "at + n \<le> length b \<Longrightarrow> length (put_be at n w b) = length b"
  by (simp add: put_be_def)

lemma nth_put_be:
  assumes "at + n \<le> length b"
  shows "put_be at n w b ! k = (if at \<le> k \<and> k < at + n then ucast (drop_bit (8 * (n - 1 - (k - at))) w) else b ! k)"
  using assms by (auto simp: put_be_def be_bytes_def nth_append not_less)

lemma bit_get_be:
  "bit (get_be at n b :: 'a::len word) k \<longleftrightarrow>
     k < LENGTH('a) \<and> (\<exists>i<n. 8 * i \<le> k \<and> bit (b ! (at + n - i - 1)) (k - 8 * i))"
proof -
  have "bit (fold (\<lambda>i num. num OR push_bit (8 * i) (f i)) is (a :: 'a word)) k
      \<longleftrightarrow> bit a k \<or> (\<exists>i\<in>set is. bit (push_bit (8 * i) (f i)) k)" for f "is" a
    by (induction "is" arbitrary: a) (auto simp: bit_or_iff)
  then show ?thesis
    unfolding get_be_def by (auto simp: bit_push_bit_iff bit_unsigned_iff dest: bit_imp_le_length)
qed

lemma get_be_cong:
  assumes "\<And>k. at \<le> k \<Longrightarrow> k < at + n \<Longrightarrow> b' ! k = b ! k"
  shows "get_be at n b' = (get_be at n b :: 'a::len word)"
proof (rule bit_word_eqI)
  fix k
  have "b' ! (at + n - i - 1) = b ! (at + n - i - 1)" if "i < n" for i using that by (intro assms) auto
  then show "bit (get_be at n b' :: 'a word) k = bit (get_be at n b :: 'a word) k" unfolding bit_get_be by auto
qed

text \<open>A number is read back up to the bits there are bytes for.\<close>

lemma get_put_be:
  assumes "at + n \<le> length b"
  shows "get_be at n (put_be at n w b) = take_bit (8 * n) (w :: 'a::len word)"
proof (rule bit_word_eqI)
  fix k assume "k < LENGTH('a)"
  have nth: "put_be at n w b ! (at + n - i - 1) = ucast (drop_bit (8 * i) w)" if "i < n" for i
  proof -
    have "n - 1 - (at + n - i - 1 - at) = i" using that by simp
    then show ?thesis using that assms by (subst nth_put_be) auto
  qed
  have "bit (get_be at n (put_be at n w b) :: 'a word) k \<longleftrightarrow> (\<exists>i<n. 8 * i \<le> k \<and> k - 8 * i < 8 \<and> bit w k)"
    unfolding bit_get_be using \<open>k < LENGTH('a)\<close> nth by (auto simp: bit_unsigned_iff bit_drop_bit_eq)
  also have "\<dots> \<longleftrightarrow> k < 8 * n \<and> bit w k"
  proof
    assume "k < 8 * n \<and> bit w k"
    then have "k div 8 < n \<and> 8 * (k div 8) \<le> k \<and> k - 8 * (k div 8) < 8 \<and> bit w k" by auto
    then show "\<exists>i<n. 8 * i \<le> k \<and> k - 8 * i < 8 \<and> bit w k" by blast
  qed auto
  finally show "bit (get_be at n (put_be at n w b) :: 'a word) k = bit (take_bit (8 * n) w) k" by (simp add: bit_take_bit_iff)
qed

lemma get_put_be_other:
  assumes "at' + n' \<le> length b" and "at + n \<le> at' \<or> at' + n' \<le> at"
  shows "get_be at n (put_be at' n' w b) = (get_be at n b :: 'a::len word)"
  by (rule get_be_cong) (use assms in \<open>auto simp: nth_put_be\<close>)

lemma get_put_u64 [simp]: "at + 8 \<le> length b \<Longrightarrow> get_be at 8 (put_be at 8 w b) = (w :: u64)"
  by (simp add: get_put_be take_bit_word_eq_self)

text \<open>Two numbers of four bits in a byte.\<close>

definition nibbles :: "byte \<Rightarrow> byte \<Rightarrow> byte" where
  "nibbles hi lo = (push_bit 4 hi AND 0xF0) OR (lo AND 0x0F)"

lemma bit_F0: "bit (0xF0 :: int) k \<longleftrightarrow> 4 \<le> k \<and> k < 8" and bit_0F: "bit (0x0F :: int) k \<longleftrightarrow> k < 4"
proof -
  have F0: "(0xF0 :: int) = push_bit 4 (mask 4)" and OF: "(0x0F :: int) = mask 4" by (simp_all add: mask_eq_exp_minus_1 push_bit_eq_mult)
  show "bit (0xF0 :: int) k \<longleftrightarrow> 4 \<le> k \<and> k < 8" unfolding F0 by (auto simp: bit_push_bit_iff bit_mask_iff)
  show "bit (0x0F :: int) k \<longleftrightarrow> k < 4" unfolding OF by (auto simp: bit_mask_iff)
qed

lemma bit_nibbles: "bit (nibbles hi lo) k \<longleftrightarrow> k < 8 \<and> (if k < 4 then bit lo k else bit hi (k - 4))"
  by (auto simp: nibbles_def bit_or_iff bit_and_iff bit_push_bit_iff bit_F0 bit_0F)

lemma high_nibble: "drop_bit 4 (nibbles hi lo) = take_bit 4 hi"
  by (rule bit_word_eqI) (auto simp: bit_drop_bit_eq bit_nibbles bit_take_bit_iff dest: bit_imp_le_length)

lemma low_nibble: "nibbles hi lo AND 0x0F = take_bit 4 lo"
  by (rule bit_word_eqI) (auto simp: bit_and_iff bit_nibbles bit_0F bit_take_bit_iff)

text \<open>A small number goes through a byte, or half of one.\<close>

lemma take_bit_small: "unat x < 2 ^ n \<Longrightarrow> take_bit n x = (x :: 'a::len word)"
  by (simp add: word_unat_eq_iff unsigned_take_bit_eq take_bit_nat_eq_self)

lemma through_byte:
  assumes "x < 256"
  shows "ucast (ucast x :: byte) = (x :: u32)"
proof -
  have "ucast (ucast x :: byte) = take_bit 8 x"
    by (rule bit_word_eqI) (auto simp: bit_unsigned_iff bit_take_bit_iff)
  then show ?thesis using assms by (simp add: take_bit_small word_less_nat_alt)
qed

lemma through_nibble:
  assumes "x < 16"
  shows "ucast (take_bit 4 (ucast x :: byte)) = (x :: u32)"
proof -
  have "ucast (take_bit 4 (ucast x :: byte)) = take_bit 4 x"
    by (rule bit_word_eqI) (auto simp: bit_unsigned_iff bit_take_bit_iff)
  then show ?thesis using assms by (simp add: take_bit_small word_less_nat_alt)
qed

section \<open>What the formats promise\<close>

text \<open>
  A format has a header of fixed length in front of the data: writing one touches nothing behind it, reading one looks at
  nothing behind it, and what was written is read back, if it is in the range of the format.
\<close>

locale header_format =
  fixes enc :: "'h \<Rightarrow> byte list \<Rightarrow> byte list" and dec :: "byte list \<Rightarrow> 'h" and valid :: "'h \<Rightarrow> bool" and hlen :: nat
  assumes enc_length: "hlen \<le> length b \<Longrightarrow> length (enc h b) = length b"
    and enc_behind: "hlen \<le> length b \<Longrightarrow> drop hlen (enc h b) = drop hlen b"
    and dec_front: "hlen \<le> length b \<Longrightarrow> dec (take hlen b) = dec b"
    and dec_enc: "hlen \<le> length b \<Longrightarrow> valid h \<Longrightarrow> dec (enc h b) = h"
begin

text \<open>A packet is made in a buffer that may have had another header.\<close>

lemma packet_read_back:
  assumes "length b = hlen" and "valid h"
  shows "dec (take hlen (enc h (b @ d))) = h \<and> drop hlen (enc h (b @ d)) = d"
  using assms by (simp add: dec_front enc_length dec_enc enc_behind)

lemma same_packet_same_header:
  assumes "length b = hlen" and "length b' = hlen" and "valid h" and "valid h'" and "enc h (b @ d) = enc h' (b' @ d')"
  shows "h = h' \<and> d = d'"
  using packet_read_back [OF assms(1,3), of d] packet_read_back [OF assms(2,4), of d'] assms(5) by simp

lemma packets_read_back:
  assumes "length b = hlen" and "\<forall>(h, d)\<in>set xs. valid h"
  shows "map (\<lambda>p. (dec p, drop hlen p)) (map (\<lambda>(h, d). enc h (b @ d)) xs) = xs"
proof -
  have "(dec (enc h (b @ d)), drop hlen (enc h (b @ d))) = (h, d)" if "(h, d) \<in> set xs" for h d
    using assms that dec_enc [of "b @ d" h] enc_behind [of "b @ d" h] by auto
  then show ?thesis by (auto intro!: map_idI)
qed

end

section \<open>Sequence numbers\<close>

text \<open>BPSR: the counter, in a byte order that is chosen by a flag.\<close>

datatype byte_order = LITTLE | BIG

definition uint64ToByteArray :: "u64 \<Rightarrow> nat \<Rightarrow> byte_order \<Rightarrow> byte list" where
  "uint64ToByteArray num n ty =
     (let ch = (\<lambda>i. ucast (drop_bit (8 * (i mod 8)) num AND 0xFF))
      in case ty of LITTLE \<Rightarrow> map ch [0..<n] | BIG \<Rightarrow> map (\<lambda>k. ch (n - k - 1)) [0..<n])"

definition byteArrayToUInt64 :: "byte list \<Rightarrow> nat \<Rightarrow> byte_order \<Rightarrow> u64" where
  "byteArrayToUInt64 arr n ty =
     fold (\<lambda>i num. num OR push_bit (8 * (i mod 8)) (ucast (arr ! (case ty of LITTLE \<Rightarrow> i | BIG \<Rightarrow> n - i - 1)))) [0..<n] 0"

definition bpsr_encode_header :: "u64 \<Rightarrow> byte list \<Rightarrow> byte list" where
  "bpsr_encode_header counter b = uint64ToByteArray counter 8 BIG @ drop 8 b"

definition bpsr_decode_header :: "byte list \<Rightarrow> u64" where
  "bpsr_decode_header b = byteArrayToUInt64 b 8 BIG"

lemma low_byte: "ucast (w AND 0xFF :: u64) = (ucast w :: byte)"
proof -
  have "w AND 0xFF = take_bit 8 w" by (simp add: take_bit_eq_mask mask_eq_exp_minus_1)
  moreover have "ucast (take_bit 8 w) = (ucast w :: byte)"
    by (rule bit_word_eqI) (simp add: bit_unsigned_iff bit_take_bit_iff)
  ultimately show ?thesis by simp
qed

lemma bpsr_encode_be: "8 \<le> length b \<Longrightarrow> bpsr_encode_header w b = put_be 0 8 w b"
proof -
  have "uint64ToByteArray w 8 BIG = be_bytes 8 w"
    by (simp add: uint64ToByteArray_def be_bytes_def Let_def low_byte)
  then show ?thesis by (simp add: bpsr_encode_header_def put_be_def)
qed

lemma bpsr_decode_be: "bpsr_decode_header b = get_be 0 8 b"
proof -
  have "i \<in> set [0..<8] \<Longrightarrow> i mod 8 = i" for i :: nat by simp
  then show ?thesis
    unfolding bpsr_decode_header_def byteArrayToUInt64_def get_be_def
    by (intro fold_cong) auto
qed

text \<open>The datagrams over InfiniBand, CASPSR, GMRT, COMAP, LEDA and SKA1: one number, or two.\<close>

definition dada_ib_dg_encode_header :: "u64 \<Rightarrow> byte list \<Rightarrow> byte list" where
  "dada_ib_dg_encode_header seq_no b = put_be 0 8 seq_no b"

definition dada_ib_dg_decode_header :: "byte list \<Rightarrow> u64" where
  "dada_ib_dg_decode_header b = get_be 0 8 b"

definition caspsr_encode_header :: "u64 \<times> u64 \<Rightarrow> byte list \<Rightarrow> byte list" where
  "caspsr_encode_header h b = put_be 8 8 (snd h) (put_be 0 8 (fst h) b)"

definition caspsr_decode_header :: "byte list \<Rightarrow> u64 \<times> u64" where
  "caspsr_decode_header b = (get_be 0 8 b, get_be 8 8 b)"

definition gmrt_encode_header :: "u64 \<times> u64 \<Rightarrow> byte list \<Rightarrow> byte list" where
  "gmrt_encode_header h b = put_be 8 8 (snd h) (put_be 0 8 (fst h) b)"

definition gmrt_decode_header :: "byte list \<Rightarrow> u64 \<times> u64" where
  "gmrt_decode_header b = (get_be 0 8 b, get_be 8 8 b)"

definition comap_encode_header :: "u64 \<times> u8 \<Rightarrow> byte list \<Rightarrow> byte list" where
  "comap_encode_header h b = (put_be 0 8 (fst h) b)[8 := snd h]"

definition comap_decode_header :: "byte list \<Rightarrow> u64 \<times> u8" where
  "comap_decode_header b = (get_be 0 8 b, b ! 8)"

definition leda_encode_header :: "u64 \<times> 16 word \<Rightarrow> byte list \<Rightarrow> byte list" where
  "leda_encode_header h b = put_be 8 8 (ucast (snd h) :: u64) (put_be 0 8 (fst h) b)"

definition leda_decode_header :: "byte list \<Rightarrow> u64 \<times> 16 word" where
  "leda_decode_header b = (get_be 0 8 b, ucast (get_be 8 8 b :: u64))"

definition ska1_encode_header :: "u64 \<times> 16 word \<Rightarrow> byte list \<Rightarrow> byte list" where
  "ska1_encode_header h b = put_be 8 8 (ucast (snd h) :: u64) (put_be 0 8 (fst h) b)"

definition ska1_decode_header :: "byte list \<Rightarrow> u64 \<times> 16 word" where
  "ska1_decode_header b = (get_be 0 8 b, ucast (get_be 8 8 b :: u64))"

text \<open>HiSpec: a counter of four bytes between four single ones.\<close>

record hispec_udp_header =
  hs_version :: u8
  hs_beam_id :: u8
  hs_pkt_cnt :: u32
  hs_diode_state :: u8
  hs_freq_state :: u8

definition hispec_encode_header :: "hispec_udp_header \<Rightarrow> byte list \<Rightarrow> byte list" where
  "hispec_encode_header h b =
     (put_be 2 4 (hs_pkt_cnt h) b)[0 := hs_version h, 1 := hs_beam_id h, 6 := hs_diode_state h, 7 := hs_freq_state h]"

definition hispec_decode_header :: "byte list \<Rightarrow> hispec_udp_header" where
  "hispec_decode_header b =
     \<lparr>hs_version = b ! 0, hs_beam_id = b ! 1, hs_pkt_cnt = get_be 2 4 b, hs_diode_state = b ! 6, hs_freq_state = b ! 7\<rparr>"

text \<open>SNAPSR: the number of the board is read and set to 0 at once.\<close>

record snapsr_udp_hdr =
  sn_subband_id :: u32
  sn_snap_id :: u32
  sn_seq_no :: u64
  sn_nframe :: u32
  sn_nant :: u32
  sn_nchan :: u32

definition snapsr_encode :: "snapsr_udp_hdr \<Rightarrow> byte list \<Rightarrow> byte list" where
  "snapsr_encode h b = (put_be 1 6 (sn_seq_no h) b)[0 := ucast (sn_snap_id h), 7 := ucast (sn_subband_id h)]"

definition snapsr_decode :: "byte list \<Rightarrow> snapsr_udp_hdr" where
  "snapsr_decode b =
     \<lparr>sn_subband_id = ucast (b ! 7), sn_snap_id = 0, sn_seq_no = get_be 1 6 b, sn_nframe = 8, sn_nant = 12, sn_nchan = 32\<rparr>"

definition snapsr_valid :: "snapsr_udp_hdr \<Rightarrow> bool" where
  "snapsr_valid h \<longleftrightarrow> sn_snap_id h = 0 \<and> sn_subband_id h < 256 \<and> sn_seq_no h < 2 ^ 48
     \<and> sn_nframe h = 8 \<and> sn_nant h = 12 \<and> sn_nchan h = 32"

section \<open>The formats keep their promises\<close>

lemma drop_put_be: "at + n \<le> m \<Longrightarrow> m \<le> length b \<Longrightarrow> drop m (put_be at n w b) = drop m b"
  by (rule nth_equalityI) (auto simp: nth_put_be)

lemma long_not_Nil: "8 \<le> length b \<Longrightarrow> b \<noteq> []" "16 \<le> length b \<Longrightarrow> b \<noteq> []"
  by auto

lemma get_be_take: "at + n \<le> m \<Longrightarrow> m \<le> length b \<Longrightarrow> get_be at n (take m b) = (get_be at n b :: 'a::len word)"
  by (rule get_be_cong) simp

lemma get_be_update: "k < at \<or> at + n \<le> k \<Longrightarrow> get_be at n (b[k := x]) = (get_be at n b :: 'a::len word)"
  by (rule get_be_cong) auto

lemma ucast_through_u64: "ucast (ucast (x :: 16 word) :: u64) = x"
  by (rule bit_word_eqI) (simp add: bit_unsigned_iff)

lemma take_bit_full: "take_bit 64 x = (x :: u64)" "take_bit 32 y = (y :: u32)"
  by (simp_all add: take_bit_word_eq_self)

lemmas header_simps = take_bit_full drop_put_be get_be_take get_be_update get_put_be_other get_put_be ucast_through_u64 nth_put_be long_not_Nil

interpretation bpsr: header_format bpsr_encode_header bpsr_decode_header "\<lambda>_. True" 8
  by unfold_locales (simp_all add: bpsr_encode_be bpsr_decode_be header_simps)

interpretation ib_dg: header_format dada_ib_dg_encode_header dada_ib_dg_decode_header "\<lambda>_. True" 8
  by unfold_locales (simp_all add: dada_ib_dg_encode_header_def dada_ib_dg_decode_header_def header_simps)

interpretation caspsr: header_format caspsr_encode_header caspsr_decode_header "\<lambda>_. True" 16
  by unfold_locales (simp_all add: caspsr_encode_header_def caspsr_decode_header_def header_simps)

interpretation gmrt: header_format gmrt_encode_header gmrt_decode_header "\<lambda>_. True" 16
  by unfold_locales (simp_all add: gmrt_encode_header_def gmrt_decode_header_def header_simps)

interpretation comap: header_format comap_encode_header comap_decode_header "\<lambda>_. True" 9
  by unfold_locales (simp_all add: comap_encode_header_def comap_decode_header_def header_simps)

interpretation leda: header_format leda_encode_header leda_decode_header "\<lambda>_. True" 16
  by unfold_locales (simp_all add: leda_encode_header_def leda_decode_header_def header_simps)

interpretation ska1: header_format ska1_encode_header ska1_decode_header "\<lambda>_. True" 16
  by unfold_locales (simp_all add: ska1_encode_header_def ska1_decode_header_def header_simps)

interpretation hispec: header_format hispec_encode_header hispec_decode_header "\<lambda>_. True" 8
  by unfold_locales (simp_all add: hispec_encode_header_def hispec_decode_header_def header_simps)

interpretation snapsr: header_format snapsr_encode snapsr_decode snapsr_valid 8
  by unfold_locales
    (simp_all add: snapsr_encode_def snapsr_decode_def snapsr_valid_def header_simps through_byte take_bit_small word_less_nat_alt)

section \<open>MOPSR\<close>

text \<open>
  Four layouts in time. The functions for a layout read and write some of the fields and leave the others as they are. The
  sequence number is always in the second eight bytes.
\<close>

record mopsr_hdr =
  mo_seq_no :: u64
  mo_mgt_locks_long :: "16 word"
  mo_mgt_locks :: "16 word"
  mo_start_chan :: u32
  mo_nbit :: u32
  mo_nant :: u32
  mo_nchan :: u32
  mo_nframe :: u32
  mo_nsamp :: u32
  mo_ant_id :: u32
  mo_ant_id2 :: u32
  mo_lock2 :: u8
  mo_lock :: u8

definition mopsr_decode_seq :: "byte list \<Rightarrow> mopsr_hdr \<Rightarrow> mopsr_hdr" where
  "mopsr_decode_seq b h = h\<lparr>mo_seq_no := get_be 8 8 b\<rparr>"

text \<open>The fourth: the start channel and the number of channels have twelve bits.\<close>

definition mopsr_decode_v4 :: "byte list \<Rightarrow> mopsr_hdr \<Rightarrow> mopsr_hdr" where
  "mopsr_decode_v4 b h =
     h\<lparr>mo_mgt_locks_long := get_be 0 2 b, mo_mgt_locks := get_be 2 2 b,
       mo_start_chan := (push_bit 4 (ucast (b ! 4)) OR ucast (drop_bit 4 (b ! 5))) + 1,
       mo_nbit := ucast (b ! 5 AND 0x0F) + 1, mo_nant := ucast (drop_bit 4 (b ! 6)) + 1,
       mo_nchan := (push_bit 8 (ucast (b ! 6 AND 0x0F)) OR ucast (b ! 7)) + 1,
       mo_seq_no := get_be 8 8 b, mo_nframe := 1\<rparr>"

text \<open>The channel is cut to a byte before it is shifted.\<close>

definition mopsr_encode_v4 :: "mopsr_hdr \<Rightarrow> byte list \<Rightarrow> byte list" where
  "mopsr_encode_v4 h b =
     put_be 8 8 (mo_seq_no h)
       ((put_be 2 2 (mo_mgt_locks h) (put_be 0 2 (mo_mgt_locks_long h) b))
         [4 := drop_bit 4 (ucast (mo_start_chan h - 1)),
          5 := nibbles (ucast (mo_start_chan h - 1)) (ucast (mo_nbit h - 1)),
          6 := nibbles (ucast (mo_nant h - 1)) (ucast (drop_bit 8 (mo_nchan h - 1))),
          7 := ucast ((mo_nchan h - 1) AND 0xFF)])"

text \<open>The third.\<close>

definition mopsr_decode_v3 :: "byte list \<Rightarrow> mopsr_hdr \<Rightarrow> mopsr_hdr" where
  "mopsr_decode_v3 b h =
     h\<lparr>mo_mgt_locks_long := get_be 0 2 b, mo_mgt_locks := get_be 2 2 b, mo_start_chan := ucast (b ! 4) + 1,
       mo_nbit := ucast (drop_bit 4 (b ! 5)) + 1, mo_nant := ucast (b ! 5 AND 0x0F) + 1, mo_nchan := ucast (b ! 6) + 1,
       mo_nframe := ucast (drop_bit 4 (b ! 7)) + 1, mo_seq_no := get_be 8 8 b\<rparr>"

definition mopsr_encode_v3 :: "mopsr_hdr \<Rightarrow> byte list \<Rightarrow> byte list" where
  "mopsr_encode_v3 h b =
     put_be 8 8 (mo_seq_no h)
       ((put_be 2 2 (mo_mgt_locks h) (put_be 0 2 (mo_mgt_locks_long h) b))
         [4 := ucast (mo_start_chan h - 1), 5 := nibbles (ucast (mo_nbit h - 1)) (ucast (mo_nant h - 1)),
          6 := ucast (mo_nchan h - 1), 7 := push_bit 4 (ucast (mo_nframe h - 1)) AND 0xF0])"

text \<open>The second: two kinds of packets, told apart by the first byte.\<close>

definition mopsr_decode_v2 :: "byte list \<Rightarrow> mopsr_hdr \<Rightarrow> mopsr_hdr" where
  "mopsr_decode_v2 b h =
     (let h = h\<lparr>mo_mgt_locks := push_bit 12 (ucast (b ! 1)) OR push_bit 4 (ucast (b ! 2)) OR ucast (drop_bit 4 (b ! 3)),
                mo_start_chan := ucast ((push_bit 4 (b ! 3) OR drop_bit 4 (b ! 4)) + 1),
                mo_nbit := ucast (b ! 4 AND 0x0F) + 1, mo_nant := ucast (drop_bit 4 (b ! 5)) + 1,
                mo_nchan := ucast ((push_bit 4 (b ! 5) OR drop_bit 4 (b ! 6)) + 1),
                mo_nframe := ucast (b ! 6 AND 0x0F) + 1,
                mo_ant_id := ucast ((b ! 7 AND 0x0F) AND 0x07), mo_ant_id2 := ucast (drop_bit 4 (b ! 7) AND 0x07),
                mo_lock := drop_bit 7 (b ! 7 AND 0x80), mo_lock2 := drop_bit 3 (b ! 7 AND 0x08),
                mo_seq_no := get_be 8 8 b\<rparr>
      in if b ! 0 = 0x12
         then let nsamp = push_bit 12 (ucast (b ! 2)) XOR push_bit 4 (ucast (b ! 3)) XOR ucast (drop_bit 4 (b ! 4)) :: 16 word
              in h\<lparr>mo_nsamp := ucast nsamp + 1, mo_ant_id := 2, mo_ant_id2 := 3\<rparr>
         else h)"

text \<open>The last byte of its first half: two antennas and two flags.\<close>

definition v2_flags :: "u32 \<Rightarrow> u32 \<Rightarrow> u8 \<Rightarrow> u8 \<Rightarrow> byte" where
  "v2_flags id1 id2 lock lock2 =
     (push_bit 4 (ucast id2) AND 0xF0) OR push_bit 7 (lock2 AND 0x01) OR ucast (id1 AND 0x0F) OR push_bit 3 (lock AND 0x01)"

definition mopsr_encode_v2 :: "mopsr_hdr \<Rightarrow> byte list \<Rightarrow> byte list" where
  "mopsr_encode_v2 h b =
     (let b = (if 1 < mo_nchan h
               then b[0 := 0x01, 1 := 0x20 OR (ucast (drop_bit 12 (mo_mgt_locks h)) AND 0x0F),
                      2 := ucast (drop_bit 4 (mo_mgt_locks h)),
                      3 := nibbles (ucast (mo_mgt_locks h)) (drop_bit 4 (ucast (mo_start_chan h - 1))),
                      4 := push_bit 4 (ucast (mo_start_chan h - 1)) AND 0xF0]
               else let nsamp = ucast (mo_nsamp h - 1) :: 16 word
                    in b[0 := 0x12, 1 := 0x34, 2 := 0x50 OR (ucast (drop_bit 12 nsamp) AND 0x0F),
                         3 := ucast (drop_bit 4 nsamp), 4 := push_bit 4 (ucast nsamp) AND 0xF0]);
          b = b[4 := b ! 4 OR (ucast (mo_nbit h - 1) AND 0x0F),
                5 := nibbles (ucast (mo_nant h - 1)) (drop_bit 4 (ucast (mo_nchan h - 1))),
                6 := nibbles (ucast (mo_nchan h - 1)) (ucast (mo_nframe h - 1)),
                7 := v2_flags (mo_ant_id h) (mo_ant_id2 h) (mo_lock h) (mo_lock2 h)]
      in put_be 8 8 (mo_seq_no h) b)"

text \<open>The numbers of the antennas on a board.\<close>

definition mopsr_new_ant_mapping :: "nat list" where
  "mopsr_new_ant_mapping = [0, 2, 8, 10, 4, 6, 12, 14, 1, 3, 9, 11, 5, 7, 13, 15]"

definition mopsr_hires_ant_mapping :: "nat list" where
  "mopsr_hires_ant_mapping = [0, 2, 4, 6, 1, 3, 5, 7, 8, 10, 12, 14, 9, 11, 13, 15]"

definition mopsr_get_new_ant_number :: "nat \<Rightarrow> nat option" where
  "mopsr_get_new_ant_number i = (if i < 16 then Some (mopsr_new_ant_mapping ! i) else None)"

definition mopsr_get_new_ant_index :: "nat \<Rightarrow> nat" where
  "mopsr_get_new_ant_index number = fold (\<lambda>i index. if mopsr_new_ant_mapping ! i = number then i else index) [0..<16] 0"

definition mopsr_get_hires_ant_number :: "nat \<Rightarrow> nat option" where
  "mopsr_get_hires_ant_number i = (if i < 16 then Some (mopsr_hires_ant_mapping ! i) else None)"

definition mopsr_get_hires_ant_index :: "nat \<Rightarrow> nat" where
  "mopsr_get_hires_ant_index number = fold (\<lambda>i index. if mopsr_hires_ant_mapping ! i = number then i else index) [0..<8] 0"

section \<open>What the layouts of MOPSR carry\<close>

definition mopsr_v3_valid :: "mopsr_hdr \<Rightarrow> mopsr_hdr \<Rightarrow> bool" where
  "mopsr_v3_valid h0 h \<longleftrightarrow> mo_start_chan h - 1 < 256 \<and> mo_nbit h - 1 < 16 \<and> mo_nant h - 1 < 16 \<and> mo_nchan h - 1 < 256
     \<and> mo_nframe h - 1 < 16 \<and> mo_nsamp h = mo_nsamp h0 \<and> mo_ant_id h = mo_ant_id h0 \<and> mo_ant_id2 h = mo_ant_id2 h0
     \<and> mo_lock2 h = mo_lock2 h0 \<and> mo_lock h = mo_lock h0"

lemma high_alone: "push_bit 4 x AND 0xF0 = nibbles x 0"
  by (simp add: nibbles_def)

lemma through_byte_1: "x - 1 < 256 \<Longrightarrow> ucast (ucast (x - 1) :: byte) + 1 = (x :: u32)"
  and through_nibble_1: "x - 1 < 16 \<Longrightarrow> ucast (take_bit 4 (ucast (x - 1) :: byte)) + 1 = (x :: u32)"
  by (simp_all add: through_byte through_nibble)

interpretation mopsr_v3: header_format mopsr_encode_v3 "\<lambda>b. mopsr_decode_v3 b h0" "mopsr_v3_valid h0" 16 for h0
  by unfold_locales
    (simp_all add: mopsr_encode_v3_def mopsr_decode_v3_def mopsr_v3_valid_def header_simps high_alone high_nibble low_nibble
      through_byte_1 through_nibble_1 take_bit_word_eq_self)

definition mopsr_v4_valid :: "mopsr_hdr \<Rightarrow> mopsr_hdr \<Rightarrow> bool" where
  "mopsr_v4_valid h0 h \<longleftrightarrow> mo_start_chan h - 1 < 256 \<and> mo_nbit h - 1 < 16 \<and> mo_nant h - 1 < 16 \<and> mo_nchan h - 1 < 4096
     \<and> mo_nframe h = 1 \<and> mo_nsamp h = mo_nsamp h0 \<and> mo_ant_id h = mo_ant_id h0 \<and> mo_ant_id2 h = mo_ant_id2 h0
     \<and> mo_lock2 h = mo_lock2 h0 \<and> mo_lock h = mo_lock h0"

lemma cut_to_byte:
  "push_bit 4 (ucast (drop_bit 4 (ucast x :: byte))) OR ucast (take_bit 4 (ucast x :: byte)) = (take_bit 8 x :: u32)"
  by (rule bit_word_eqI) (auto simp: bit_or_iff bit_push_bit_iff bit_unsigned_iff bit_take_bit_iff bit_drop_bit_eq)

lemma twelve_bits:
  assumes "x < 4096"
  shows "push_bit 8 (ucast (take_bit 4 (ucast (drop_bit 8 x) :: byte))) OR ucast (ucast (x AND 0xFF) :: byte) = (x :: u32)"
proof -
  have "x AND 0xFF = take_bit 8 x" by (simp add: take_bit_eq_mask mask_eq_exp_minus_1)
  moreover have "push_bit 8 (ucast (take_bit 4 (ucast (drop_bit 8 x) :: byte))) OR ucast (ucast (take_bit 8 x) :: byte) = take_bit 12 x"
    by (rule bit_word_eqI) (auto simp: bit_or_iff bit_push_bit_iff bit_unsigned_iff bit_take_bit_iff bit_drop_bit_eq)
  ultimately show ?thesis using assms by (simp add: take_bit_small word_less_nat_alt)
qed

lemma v4_read_back:
  assumes "16 \<le> length b" and "mo_nbit h - 1 < 16" and "mo_nant h - 1 < 16" and "mo_nchan h - 1 < 4096"
  shows "mopsr_decode_v4 (mopsr_encode_v4 h b) h0 =
     h0\<lparr>mo_seq_no := mo_seq_no h, mo_mgt_locks_long := mo_mgt_locks_long h, mo_mgt_locks := mo_mgt_locks h,
        mo_start_chan := take_bit 8 (mo_start_chan h - 1) + 1, mo_nbit := mo_nbit h, mo_nant := mo_nant h,
        mo_nchan := mo_nchan h, mo_nframe := 1\<rparr>"
  using assms
  by (simp add: mopsr_encode_v4_def mopsr_decode_v4_def header_simps high_nibble low_nibble through_nibble_1 take_bit_word_eq_self
      cut_to_byte twelve_bits)

interpretation mopsr_v4: header_format mopsr_encode_v4 "\<lambda>b. mopsr_decode_v4 b h0" "mopsr_v4_valid h0" 16 for h0
proof unfold_locales
  fix b h assume "16 \<le> length (b :: byte list)" "mopsr_v4_valid h0 h"
  then show "mopsr_decode_v4 (mopsr_encode_v4 h b) h0 = h"
    by (simp add: v4_read_back mopsr_v4_valid_def take_bit_small word_less_nat_alt)
qed (simp_all add: mopsr_encode_v4_def mopsr_decode_v4_def header_simps)

text \<open>The second layout, in packets with more than one channel.\<close>

lemma bit_flags: "bit (0x80 :: int) k \<longleftrightarrow> k = 7" "bit (0x08 :: int) k \<longleftrightarrow> k = 3" "bit (0x07 :: int) k \<longleftrightarrow> k < 3" "bit (0x20 :: int) k \<longleftrightarrow> k = 5"
proof -
  have n: "(0x80 :: int) = push_bit 7 1" "(0x08 :: int) = push_bit 3 1" "(0x07 :: int) = mask 3" "(0x20 :: int) = push_bit 5 1"
    by (simp_all add: mask_eq_exp_minus_1 push_bit_eq_mult)
  show "bit (0x80 :: int) k \<longleftrightarrow> k = 7" "bit (0x08 :: int) k \<longleftrightarrow> k = 3" "bit (0x07 :: int) k \<longleftrightarrow> k < 3" "bit (0x20 :: int) k \<longleftrightarrow> k = 5"
    unfolding n by (simp_all only: bit_push_bit_iff bit_mask_iff bit_1_iff) auto
qed

lemma bit_v2_flags:
  "bit (v2_flags id1 id2 lock lock2) k \<longleftrightarrow> k < 8 \<and> (4 \<le> k \<and> bit id2 (k - 4) \<or> k = 7 \<and> bit lock2 0 \<or> k < 4 \<and> bit id1 k \<or> k = 3 \<and> bit lock 0)"
  by (auto simp: v2_flags_def bit_or_iff bit_and_iff bit_push_bit_iff bit_unsigned_iff bit_F0 bit_0F bit_1_iff bit_flags)

lemma v2_lock:
  assumes "id1 < 8" and "id2 < 8" and "lock < 2" and "lock2 < 2"
  shows "drop_bit 7 (v2_flags id1 id2 lock lock2) AND 1 = lock2" and "drop_bit 3 (v2_flags id1 id2 lock lock2) AND 1 = lock"
    and "ucast ((v2_flags id1 id2 lock lock2 AND 0x0F) AND 0x07) = id1" and "ucast (drop_bit 4 (v2_flags id1 id2 lock lock2) AND 0x07) = id2"
proof -
  have i: "take_bit 3 id1 = id1" "take_bit 3 id2 = id2" using assms by (simp_all add: take_bit_small word_less_nat_alt)
  have l: "take_bit 1 lock = lock" "take_bit 1 lock2 = lock2"
    by (rule take_bit_small, use assms in \<open>simp add: word_less_nat_alt\<close>)+
  have id3: "\<not> bit id1 3" "\<not> bit id2 3"
    using i [THEN arg_cong, of "\<lambda>x. bit x 3"] by (simp_all add: bit_take_bit_iff)
  have "drop_bit 7 (v2_flags id1 id2 lock lock2) AND 1 = take_bit 1 lock2"
    by (rule bit_word_eqI) (auto simp: bit_drop_bit_eq bit_and_iff bit_v2_flags bit_1_iff bit_take_bit_iff id3 bit_0)
  then show "drop_bit 7 (v2_flags id1 id2 lock lock2) AND 1 = lock2" using l by simp
  have "drop_bit 3 (v2_flags id1 id2 lock lock2) AND 1 = take_bit 1 lock"
    by (rule bit_word_eqI) (auto simp: bit_drop_bit_eq bit_and_iff bit_v2_flags bit_1_iff bit_take_bit_iff id3 bit_0)
  then show "drop_bit 3 (v2_flags id1 id2 lock lock2) AND 1 = lock" using l by simp
  have "ucast ((v2_flags id1 id2 lock lock2 AND 0x0F) AND 0x07) = take_bit 3 id1"
    by (rule bit_word_eqI) (auto simp: bit_unsigned_iff bit_and_iff bit_v2_flags bit_0F bit_flags bit_take_bit_iff)
  then show "ucast ((v2_flags id1 id2 lock lock2 AND 0x0F) AND 0x07) = id1" using i by simp
  have "ucast (drop_bit 4 (v2_flags id1 id2 lock lock2) AND 0x07) = take_bit 3 id2"
    by (rule bit_word_eqI) (auto simp: bit_unsigned_iff bit_drop_bit_eq bit_and_iff bit_v2_flags bit_flags bit_take_bit_iff)
  then show "ucast (drop_bit 4 (v2_flags id1 id2 lock lock2) AND 0x07) = id2" using i by simp
qed

lemma v2_number:
  "push_bit 4 (nibbles hi (drop_bit 4 x)) OR take_bit 4 x = x"
  by (rule bit_word_eqI) (auto simp: bit_or_iff bit_push_bit_iff bit_nibbles bit_take_bit_iff bit_drop_bit_eq)

lemma v2_mgt:
  "push_bit 12 (ucast (0x20 OR (ucast (drop_bit 12 m) AND 0x0F) :: byte)) OR push_bit 4 (ucast (ucast (drop_bit 4 m) :: byte))
     OR ucast (take_bit 4 (ucast m :: byte)) = (m :: 16 word)"
  by (rule bit_word_eqI) (auto simp: bit_or_iff bit_and_iff bit_push_bit_iff bit_unsigned_iff bit_take_bit_iff bit_drop_bit_eq bit_0F bit_flags)

lemma through_byte_plus_1:
  assumes "x - 1 < 255"
  shows "ucast (ucast (x - 1) + 1 :: byte) = (x :: u32)"
proof -
  define y where "y = x - 1"
  have "unat (ucast y :: byte) = unat y" using assms by (simp add: y_def unsigned_ucast_eq take_bit_nat_eq_self word_less_nat_alt)
  moreover have "unat y < 255" using assms by (simp add: y_def word_less_nat_alt)
  ultimately have "unat (ucast (ucast y + 1 :: byte) :: u32) = unat (y + 1)" by (simp add: unsigned_ucast_eq take_bit_nat_eq_self unat_word_ariths)
  then show ?thesis by (simp add: y_def word_unat_eq_iff)
qed

lemma fold_nibbles: "push_bit 4 hi AND 0xF0 OR lo AND 0x0F = nibbles hi lo"
  by (simp add: nibbles_def)

text \<open>In the fourth layout of MOPSR everything but the start channel is read back in the range of its bits; of the start
  channel, which has twelve bits in the packet, only the lower eight are, because it is cut to a byte before it is shifted.\<close>

theorem start_channel_is_cut:
  assumes "16 \<le> length b" and "mo_nbit h - 1 < 16" and "mo_nant h - 1 < 16" and "mo_nchan h - 1 < 4096"
  shows "mopsr_decode_v4 (mopsr_encode_v4 h b) h0 =
     h0\<lparr>mo_seq_no := mo_seq_no h, mo_mgt_locks_long := mo_mgt_locks_long h, mo_mgt_locks := mo_mgt_locks h,
        mo_start_chan := take_bit 8 (mo_start_chan h - 1) + 1, mo_nbit := mo_nbit h, mo_nant := mo_nant h,
        mo_nchan := mo_nchan h, mo_nframe := 1\<rparr>"
  by (rule v4_read_back [OF assms])

lemma start_channel_is_cut_witness:
  "mo_start_chan (mopsr_decode_v4 (mopsr_encode_v4 (h\<lparr>mo_start_chan := 300, mo_nbit := 8, mo_nant := 16, mo_nchan := 320\<rparr>) (replicate 16 0)) h0) = 44"
proof -
  have "take_bit 8 (299 :: u32) = 43" by (simp add: take_bit_eq_mask mask_eq_exp_minus_1)
  then show ?thesis
    using start_channel_is_cut [of "replicate 16 0" "h\<lparr>mo_start_chan := 300, mo_nbit := 8, mo_nant := 16, mo_nchan := 320\<rparr>" h0] by simp
qed

text \<open>In the second layout, with more than one channel, the two lock flags change places between the sender and the
  reader; everything else is read back in the range of its bits.\<close>

theorem lock_flags_change_places:
  assumes "16 \<le> length b" and "1 < mo_nchan h" and "mo_start_chan h - 1 < 255" and "mo_nbit h - 1 < 16" and "mo_nant h - 1 < 16"
    and "mo_nchan h - 1 < 255" and "mo_nframe h - 1 < 16" and "mo_ant_id h < 8" and "mo_ant_id2 h < 8"
    and "mo_lock h < 2" and "mo_lock2 h < 2"
  shows "mopsr_decode_v2 (mopsr_encode_v2 h b) h0 =
     h0\<lparr>mo_seq_no := mo_seq_no h, mo_mgt_locks := mo_mgt_locks h, mo_start_chan := mo_start_chan h, mo_nbit := mo_nbit h,
        mo_nant := mo_nant h, mo_nchan := mo_nchan h, mo_nframe := mo_nframe h, mo_ant_id := mo_ant_id h,
        mo_ant_id2 := mo_ant_id2 h, mo_lock := mo_lock2 h, mo_lock2 := mo_lock h\<rparr>"
  using assms
  by (simp add: mopsr_encode_v2_def mopsr_decode_v2_def Let_def header_simps fold_nibbles high_nibble low_nibble through_nibble_1
      v2_number v2_mgt v2_lock through_byte_plus_1)

lemma lock_flags_change_places_witness:
  "mo_lock (mopsr_decode_v2 (mopsr_encode_v2 (h\<lparr>mo_start_chan := 30, mo_nbit := 8, mo_nant := 2, mo_nchan := 40, mo_nframe := 3,
     mo_ant_id := 4, mo_ant_id2 := 5, mo_lock := 1, mo_lock2 := 0\<rparr>) (replicate 16 0)) h0) = 0"
  using lock_flags_change_places [of "replicate 16 0" "h\<lparr>mo_start_chan := 30, mo_nbit := 8, mo_nant := 2, mo_nchan := 40, mo_nframe := 3,
     mo_ant_id := 4, mo_ant_id2 := 5, mo_lock := 1, mo_lock2 := 0\<rparr>" h0] by simp

text \<open>The numbers of the antennas: the index of a number is found, in the other mapping only for the first eight.\<close>

lemma new_antenna_index: "i < 16 \<Longrightarrow> map_option mopsr_get_new_ant_index (mopsr_get_new_ant_number i) = Some i"
  by (auto simp: less_Suc_eq eval_nat_numeral mopsr_get_new_ant_index_def mopsr_get_new_ant_number_def mopsr_new_ant_mapping_def)

lemma hires_antenna_index:
  "i < 16 \<Longrightarrow> map_option mopsr_get_hires_ant_index (mopsr_get_hires_ant_number i) = Some (if i < 8 then i else 0)"
  by (auto simp: less_Suc_eq eval_nat_numeral mopsr_get_hires_ant_index_def mopsr_get_hires_ant_number_def mopsr_hires_ant_mapping_def)

section \<open>All formats\<close>

text \<open>A run of packets, each made in a buffer for the header followed by its data, is read back.\<close>

definition carries :: "('h \<Rightarrow> byte list \<Rightarrow> byte list) \<Rightarrow> (byte list \<Rightarrow> 'h) \<Rightarrow> nat \<Rightarrow> ('h \<Rightarrow> bool) \<Rightarrow> bool" where
  "carries enc dec n ok \<longleftrightarrow> (\<forall>b xs. length b = n \<longrightarrow> (\<forall>(h, d)\<in>set xs. ok h) \<longrightarrow>
     map (\<lambda>p. (dec p, drop n p)) (map (\<lambda>(h, d). enc h (b @ d)) xs) = xs)"


end
