(* ===== verification/Command_Parse.thy ===== *)
theory Command_Parse
  imports C_String
begin

text \<open>
  The command parser (\<^verbatim>\<open>src/command_parse.c\<close>) that text interfaces of the programs are
  built on: a table of named commands, and the line that is taken apart and handed to
  the first command of its name. A command of a client is a value \<open>'f\<close>, its context a
  value \<open>'x\<close>; what calling it does to the client is a parameter of the parsing functions.
  Memory is taken to be available, and the assertions on it to hold.
\<close>

section \<open>The table of commands\<close>

datatype 'f command_fn = Parse_help | Parse_exit | Client 'f

record ('f, 'x) command =
  cmd :: "'f command_fn"
  context_of :: "'x option"
  name :: "string"
  short_help :: "string option"
  long_help :: "string option"

type_synonym ('f, 'x) parser = "('f, 'x) command list"

definition COMMAND_PARSE_EXIT :: int where "COMMAND_PARSE_EXIT = 13"

definition command_parse_add ::
  "('f, 'x) parser \<Rightarrow> 'f command_fn \<Rightarrow> 'x option \<Rightarrow> string option \<Rightarrow> string option \<Rightarrow> string option
   \<Rightarrow> int \<times> ('f, 'x) parser" where
  "command_parse_add p f x command_name h m =
     (case command_name of
        None \<Rightarrow> (- 1, p)
      | Some n \<Rightarrow>
          (0, p @ [\<lparr>cmd = f, context_of = x, name = n, short_help = h, long_help = m\<rparr>]))"

text \<open>The context of the two commands of the parser is the parser, \<open>None\<close> here.\<close>

definition command_parse_create :: "('f, 'x) parser" where
  "command_parse_create =
     snd (command_parse_add
            (snd (command_parse_add [] Parse_help None (Some ''help'') (Some ''print this list'') None))
            Parse_exit None (Some ''exit'') (Some ''exit parser'') None)"

text \<open>The position of the first command of a name, or the number of commands.\<close>

fun find_command :: "('f, 'x) parser \<Rightarrow> string \<Rightarrow> nat" where
  "find_command [] key = 0"
| "find_command (c # p) key = (if key = name c then 0 else Suc (find_command p key))"

definition command_parse_remove :: "('f, 'x) parser \<Rightarrow> string \<Rightarrow> int \<times> ('f, 'x) parser" where
  "command_parse_remove p key =
     (let icmd = find_command p key
      in if icmd = length p then (- 1, p) else (0, take icmd p @ drop (icmd + 1) p))"

section \<open>Parsing a line\<close>

definition parse_whitespace :: string where
  "parse_whitespace = [CHR '' '', CHR 0x0D, tab, nl]"

definition skip_white :: "string \<Rightarrow> string" where
  "skip_white s = dropWhile (\<lambda>c. c \<in> set parse_whitespace) s"

text \<open>\<open>strsep\<close>: the token, and what follows its delimiter, or \<open>NULL\<close> when none ends it.\<close>

definition strsep :: "string \<Rightarrow> string \<Rightarrow> string \<times> string option" where
  "strsep s delim =
     (let tok = takeWhile (\<lambda>c. c \<notin> set delim) s
      in (tok, if length tok < length s then Some (drop (length tok + 1) s) else None))"

text \<open>The loop that cuts trailing whitespace never cuts the first character.\<close>

function cut_trailing :: "string \<Rightarrow> string" where
  "cut_trailing s =
     (if 1 < length s \<and> last s \<in> set parse_whitespace then cut_trailing (butlast s) else s)"
  by pat_completeness auto
termination by (relation "measure length") auto

declare cut_trailing.simps [simp del]

definition command_argument :: "string \<Rightarrow> string option" where
  "command_argument rest =
     (let arg = cut_trailing (skip_white rest) in if arg = [] then None else Some arg)"

definition command_parse_help :: "('f, 'x) parser \<Rightarrow> string" where
  "command_parse_help p =
     ''Available commands:'' @ [nl, nl]
     @ concat (map (\<lambda>c. name c @ [tab] @ (case short_help c of Some h \<Rightarrow> h | None \<Rightarrow> ''(null)'') @ [nl]) p)"

text \<open>
  Calling a command: \<open>run\<close> is the client's part, from its state and the text printed so
  far to its result, the new state and the text printed then.
\<close>

type_synonym ('f, 'x, 's) client =
  "'f \<Rightarrow> 'x option \<Rightarrow> string option \<Rightarrow> 's \<times> string \<Rightarrow> int \<times> 's \<times> string"

definition call_command ::
  "('f, 'x, 's) client \<Rightarrow> ('f, 'x) parser \<Rightarrow> ('f, 'x) command \<Rightarrow> string option \<Rightarrow> 's \<times> string
   \<Rightarrow> int \<times> 's \<times> string" where
  "call_command run p c arg st =
     (case cmd c of
        Parse_help \<Rightarrow> (0, fst st, snd st @ command_parse_help p)
      | Parse_exit \<Rightarrow> (COMMAND_PARSE_EXIT, fst st, snd st)
      | Client f \<Rightarrow> run f (context_of c) arg st)"

text \<open>\<open>None\<close> is the access through the null pointer that \<open>strsep\<close> leaves.\<close>

definition command_parse_output ::
  "('f, 'x, 's) client \<Rightarrow> ('f, 'x) parser \<Rightarrow> string \<Rightarrow> 's \<times> string \<Rightarrow> (int \<times> 's \<times> string) option" where
  "command_parse_output run p line st =
     (let (key, rest) = strsep (skip_white line) parse_whitespace; icmd = find_command p key
      in if icmd = length p then Some (- 1, fst st, snd st)
         else case rest of
                None \<Rightarrow> None
              | Some r \<Rightarrow> Some (call_command run p (p ! icmd) (command_argument r) st))"

text \<open>\<open>command_parse\<close> writes to the stream of the parser.\<close>

definition command_parse ::
  "('f, 'x, 's) client \<Rightarrow> ('f, 'x) parser \<Rightarrow> string \<Rightarrow> 's \<times> string \<Rightarrow> (int \<times> 's \<times> string) option" where
  "command_parse = command_parse_output"

section \<open>What is found and handed over\<close>

definition white :: "string \<Rightarrow> bool" where
  "white s \<longleftrightarrow> set s \<subseteq> set parse_whitespace"

definition word :: "string \<Rightarrow> bool" where
  "word s \<longleftrightarrow> s \<noteq> [] \<and> set s \<inter> set parse_whitespace = {}"

text \<open>An argument starts and ends with something other than whitespace.\<close>

definition trimmed :: "string \<Rightarrow> bool" where
  "trimmed s \<longleftrightarrow> s \<noteq> [] \<and> hd s \<notin> set parse_whitespace \<and> last s \<notin> set parse_whitespace"

lemma find_command_le: "find_command p key \<le> length p"
  by (induction p) auto

lemma find_command_found: "find_command p key < length p \<Longrightarrow> name (p ! find_command p key) = key"
  by (induction p) auto

lemma find_command_first: "i < find_command p key \<Longrightarrow> name (p ! i) \<noteq> key"
  by (induction p arbitrary: i) (auto simp: nth_Cons split: nat.splits if_splits)

lemma find_command_none: "find_command p key = length p \<longleftrightarrow> key \<notin> name ` set p"
  by (induction p) auto

lemma find_command_append:
  "find_command (p @ q) key = (if key \<in> name ` set p then find_command p key else length p + find_command q key)"
  by (induction p) auto

lemma skip_white_append: "white a \<Longrightarrow> skip_white (a @ b) = skip_white b"
  unfolding skip_white_def white_def by (rule dropWhile_append2) blast

lemma skip_white_trimmed: "s = [] \<or> hd s \<notin> set parse_whitespace \<Longrightarrow> skip_white s = s"
  by (cases s) (simp_all add: skip_white_def)

lemma cut_trailing_append: "white b \<Longrightarrow> trimmed s \<Longrightarrow> cut_trailing (s @ b) = s"
proof (induction b rule: rev_induct)
  case Nil
  then show ?case by (subst cut_trailing.simps) (simp add: trimmed_def)
next
  case (snoc c b)
  then have "s @ b \<noteq> []" by (simp add: trimmed_def)
  then have "1 < length (s @ b @ [c])" by (cases s) simp_all
  moreover have "c \<in> set parse_whitespace" "white b" using snoc.prems(1) by (auto simp: white_def)
  ultimately have "cut_trailing (s @ b @ [c]) = cut_trailing (s @ b)"
    by (subst cut_trailing.simps) (simp add: butlast_append)
  then show ?case using snoc.IH \<open>white b\<close> snoc.prems(2) by simp
qed

lemma argument_trimmed:
  assumes "white a" and "white b" and "trimmed arg"
  shows "command_argument (a @ arg @ b) = Some arg"
proof -
  have "skip_white (a @ arg @ b) = arg @ b"
    using assms by (simp add: skip_white_append skip_white_trimmed trimmed_def)
  then show ?thesis using cut_trailing_append [OF assms(2,3)] assms(3) by (simp add: command_argument_def trimmed_def)
qed

lemma argument_none:
  assumes "white a"
  shows "command_argument a = None"
proof -
  have "skip_white a = []" using skip_white_append [OF assms, of "[]"] by (simp add: skip_white_def)
  moreover have "cut_trailing [] = []" by (subst cut_trailing.simps) simp
  ultimately show ?thesis by (simp add: command_argument_def)
qed

lemma strsep_word:
  assumes "word key" and "rest = [] \<or> hd rest \<in> set parse_whitespace"
  shows "strsep (key @ rest) parse_whitespace = (key, if rest = [] then None else Some (tl rest))"
proof -
  have tw: "takeWhile (\<lambda>c. c \<notin> set parse_whitespace) (key @ rest) = key"
    using assms by (cases rest) (auto simp: word_def takeWhile_append disjoint_iff takeWhile_eq_all_conv)
  show ?thesis by (auto simp: strsep_def Let_def tw drop_Suc)
qed

lemma key_of_line:
  assumes "white a" and "word key" and "rest = [] \<or> hd rest \<in> set parse_whitespace"
  shows "strsep (skip_white (a @ key @ rest)) parse_whitespace = (key, if rest = [] then None else Some (tl rest))"
proof -
  have "hd (key @ rest) \<notin> set parse_whitespace" using assms(2) by (cases key) (auto simp: word_def)
  then have "skip_white (a @ key @ rest) = key @ rest"
    using assms(1,2) by (simp add: skip_white_append skip_white_trimmed word_def)
  then show ?thesis using strsep_word [OF assms(2,3)] by simp
qed

lemma parse_line:
  assumes "white a" and "word (name c)" and "sep \<in> set parse_whitespace" and "white b" and "white d"
    and "trimmed arg \<or> arg = []" and "p = before @ c # after" and "name c \<notin> name ` set before"
  shows "command_parse_output run p (a @ name c @ [sep] @ b @ arg @ d) st
       = Some (call_command run p c (if arg = [] then None else Some arg) st)"
proof -
  have "strsep (skip_white (a @ name c @ sep # b @ arg @ d)) parse_whitespace = (name c, Some (b @ arg @ d))"
    using key_of_line [OF assms(1,2), of "sep # b @ arg @ d"] assms(3) by simp
  moreover have "find_command p (name c) = length before"
    using assms(8) by (simp add: assms(7) find_command_append)
  moreover have "command_argument (b @ arg @ d) = (if arg = [] then None else Some arg)"
    using assms(4,5,6) argument_trimmed [of b d arg] argument_none [of "b @ d"]
    by (auto simp: white_def trimmed_def)
  ultimately show ?thesis by (simp add: command_parse_output_def assms(7))
qed

section \<open>Properties\<close>

text \<open>A line of a command name and an argument, in any whitespace, calls the first command
  of that name, with exactly the argument, or with none when there is only whitespace.\<close>

theorem parse_calls_first_match:
  assumes "white a" and "word (name c)" and "sep \<in> set parse_whitespace" and "white b" and "white d"
    and "trimmed arg \<or> arg = []" and "p = before @ c # after" and "name c \<notin> name ` set before"
  shows "command_parse_output run p (a @ name c @ [sep] @ b @ arg @ d) st
       = Some (call_command run p c (if arg = [] then None else Some arg) st)"
  by (rule parse_line [OF assms])

lemma parse_calls_first_match_witness:
  "command_parse_output (\<lambda>f x arg st. (5, arg, snd st)) 
     (snd (command_parse_add command_parse_create (Client ()) (Some ()) (Some ''start'') None None))
     ('' start'' @ [CHR '' ''] @ '' 10 20 '' @ [CHR 0x0D, nl]) (None, [])
   = Some (5, Some ''10 20'', [])"
proof -
  let ?c = "\<lparr>cmd = Client (), context_of = Some (), name = ''start'', short_help = None, long_help = None\<rparr>"
  have p: "snd (command_parse_add command_parse_create (Client ()) (Some ()) (Some ''start'') None None)
      = command_parse_create @ ?c # []" by (simp add: command_parse_add_def)
  have "command_parse_output (\<lambda>f x arg st. (5, arg, snd st)) (command_parse_create @ ?c # [])
      ('' '' @ name ?c @ [CHR '' ''] @ '' '' @ ''10 20'' @ ('' '' @ [CHR 0x0D, nl])) (None, [])
    = Some (call_command (\<lambda>f x arg st. (5, arg, snd st)) (command_parse_create @ ?c # []) ?c
             (if ''10 20'' = [] then None else Some ''10 20'') (None, []))"
    by (rule parse_calls_first_match [OF _ _ _ _ _ _ refl])
      (simp_all add: white_def word_def trimmed_def parse_whitespace_def command_parse_create_def
        command_parse_add_def tab_def nl_def)
  then show ?thesis unfolding p by (simp add: call_command_def)
qed

text \<open>A line whose first word is no command's name does nothing and is reported as unknown;
  a line that is the name of a command and nothing behind it ends in an access through a null
  pointer.\<close>

theorem parse_unknown_or_bare:
  assumes "white a" and "word key"
  shows "(if key \<in> name ` set p then command_parse_output run p (a @ key) st = None
          else command_parse_output run p (a @ key) st = Some (- 1, fst st, snd st))"
  using key_of_line [OF assms, of "[]"] find_command_none [of p key]
  by (simp add: command_parse_output_def)

lemma parse_unknown_or_bare_witness:
  "command_parse_output (\<lambda>_ _ _ st. (0, st)) (command_parse_create :: (unit, unit) parser) ''exit'' ((), []) = None
   \<and> command_parse_output (\<lambda>_ _ _ st. (0, st)) (command_parse_create :: (unit, unit) parser) ''quit'' ((), []) = Some (- 1, (), [])"
  using parse_unknown_or_bare [of "[]" "''exit''" "command_parse_create :: (unit, unit) parser" "\<lambda>_ _ _ st. (0, st)" "((), [])"]
    parse_unknown_or_bare [of "[]" "''quit''" "command_parse_create :: (unit, unit) parser" "\<lambda>_ _ _ st. (0, st)" "((), [])"]
  by (simp add: white_def word_def parse_whitespace_def command_parse_create_def command_parse_add_def tab_def nl_def)

text \<open>Removing a command undoes adding it under a name of its own, and
  before it was added there was nothing of that name to remove.\<close>

theorem remove_undoes_add:
  assumes "n \<notin> name ` set p" and "command_parse_add p f x (Some n) h m = (rc, p')"
  shows "rc = 0 \<and> length p' = length p + 1 \<and> command_parse_remove p' n = (0, p)
    \<and> command_parse_remove p n = (- 1, p)"
  using assms find_command_none [of p n]
  by (auto simp: command_parse_add_def command_parse_remove_def find_command_append)

lemma remove_undoes_add_witness:
  "command_parse_remove (snd (command_parse_add command_parse_create (Client ()) (Some ()) (Some ''start'') None None)) ''start''
   = (0, command_parse_create)"
proof -
  have "''start'' \<notin> name ` set (command_parse_create :: (unit, unit) parser)"
    by (simp add: command_parse_create_def command_parse_add_def)
  then show ?thesis using remove_undoes_add [OF _ surjective_pairing] by blast
qed

end
