(* ===== verification/Tmutil.thy ===== *)
theory Tmutil
  imports C_String
begin

text \<open>
  Times (\<^verbatim>\<open>src/tmutil.c\<close>): \<open>str2utctime\<close>, which every command with a time uses. The
  conversion functions of the C library are written out as far as the format
  \<open>%Y-%m-%d-%H:%M:%S %Z\<close> uses them. The broken-down time is a local variable the source
  does not initialise, and the result of \<open>strptime\<close> is not looked at: what the fields
  hold that were not parsed is a parameter.
\<close>

section \<open>Broken-down time\<close>

record tm =
  tm_year :: int
  tm_mon :: int
  tm_mday :: int
  tm_hour :: int
  tm_min :: int
  tm_sec :: int

text \<open>
  \<open>timegm\<close>: seconds since 1970, with the fields taken as they are. Years are counted from
  March, in eras of 400 years, as every fourth year but three of the hundredth has a leap
  day at its end then.
\<close>

definition days_from_civil :: "int \<Rightarrow> int \<Rightarrow> int" where
  "days_from_civil y m =
     (let y = (if m < 3 then y - 1 else y); m = (if m < 3 then m + 9 else m - 3)
      in 365 * y + y div 4 - y div 100 + y div 400 + (153 * m + 2) div 5 - 719468)"

definition timegm :: "tm \<Rightarrow> int" where
  "timegm t =
     (let y = 1900 + tm_year t + tm_mon t div 12; m = tm_mon t mod 12 + 1
      in (((days_from_civil y m + tm_mday t - 1) * 24 + tm_hour t) * 60 + tm_min t) * 60 + tm_sec t)"

section \<open>Parsing\<close>

text \<open>
  A number of at most \<open>n\<close> digits, behind blanks, inside bounds; and the character that
  has to follow.
\<close>

fun take_digits :: "nat \<Rightarrow> string \<Rightarrow> string" where
  "take_digits (Suc n) (c # s) = (if is_digit c then c # take_digits n s else [])"
| "take_digits _ _ = []"

definition get_number :: "nat \<Rightarrow> int \<Rightarrow> int \<Rightarrow> string \<Rightarrow> (int \<times> string) option" where
  "get_number n lo hi s =
     (let s = dropWhile (\<lambda>c. c = CHR '' '') s; ds = take_digits n s; v = int (digits_value 0 ds)
      in if ds = [] \<or> v < lo \<or> hi < v then None else Some (v, drop (length ds) s))"

definition expect :: "char \<Rightarrow> string \<Rightarrow> string option" where
  "expect c s = (case s of [] \<Rightarrow> None | d # r \<Rightarrow> if d = c then Some r else None)"

text \<open>
  One conversion after the other, each with the character in front of it; the first that
  fails ends it, with the fields stored so far.
\<close>

definition conversion ::
  "nat \<times> int \<times> int \<times> char option \<times> (int \<Rightarrow> tm \<Rightarrow> tm) \<Rightarrow> tm \<times> string option \<Rightarrow> tm \<times> string option" where
  "conversion c st =
     (case c of (n, lo, hi, sep, store) \<Rightarrow>
       (case st of
          (t, None) \<Rightarrow> (t, None)
        | (t, Some s) \<Rightarrow>
            (case (case sep of None \<Rightarrow> Some s | Some d \<Rightarrow> expect d s) of
               None \<Rightarrow> (t, None)
             | Some s \<Rightarrow>
                 (case get_number n lo hi s of
                    None \<Rightarrow> (t, None)
                  | Some (v, r) \<Rightarrow> (store v t, Some r)))))"

definition utc_format :: "(nat \<times> int \<times> int \<times> char option \<times> (int \<Rightarrow> tm \<Rightarrow> tm)) list" where
  "utc_format =
     [(4, 0, 9999, None, \<lambda>v t. t\<lparr>tm_year := v - 1900\<rparr>),
      (2, 1, 12, Some CHR ''-'', \<lambda>v t. t\<lparr>tm_mon := v - 1\<rparr>),
      (2, 1, 31, Some CHR ''-'', \<lambda>v t. t\<lparr>tm_mday := v\<rparr>),
      (2, 0, 23, Some CHR ''-'', \<lambda>v t. t\<lparr>tm_hour := v\<rparr>),
      (2, 0, 59, Some CHR '':'', \<lambda>v t. t\<lparr>tm_min := v\<rparr>),
      (2, 0, 61, Some CHR '':'', \<lambda>v t. t\<lparr>tm_sec := v\<rparr>)]"

text \<open>The blank and the name of the zone at the end store nothing.\<close>

definition str2utctm :: "tm \<Rightarrow> string \<Rightarrow> tm \<times> int" where
  "str2utctm junk s =
     (let t = fst (fold conversion utc_format (junk, Some (s @ '' UTC''))) in (t, timegm t))"

definition str2utctime :: "tm \<Rightarrow> string \<Rightarrow> int" where
  "str2utctime junk s = snd (str2utctm junk s)"

section \<open>Reading what is written\<close>

text \<open>\<open>strftime\<close> with the same format.\<close>

definition digit :: "nat \<Rightarrow> char" where "digit d = char_of (48 + d mod 10)"

definition two_digits :: "nat \<Rightarrow> string" where "two_digits n = [digit (n div 10), digit n]"

definition four_digits :: "nat \<Rightarrow> string" where
  "four_digits n = [digit (n div 1000), digit (n div 100), digit (n div 10), digit n]"

definition utc_string :: "nat \<Rightarrow> nat \<Rightarrow> nat \<Rightarrow> nat \<Rightarrow> nat \<Rightarrow> nat \<Rightarrow> string" where
  "utc_string y mo d h mi s =
     four_digits y @ ''-'' @ two_digits mo @ ''-'' @ two_digits d @ ''-'' @ two_digits h @ '':'' @ two_digits mi
     @ '':'' @ two_digits s"

lemma digit_props [simp]: "is_digit (digit d)" "digit_value (digit d) = d mod 10" "digit d \<noteq> CHR '' ''"
proof -
  have "d mod 10 < 10" by simp
  note c = digit_char [OF this]
  show "is_digit (digit d)" "digit_value (digit d) = d mod 10" using c by (simp_all add: digit_def)
  show "digit d \<noteq> CHR '' ''" using c(3) by (auto simp: digit_def c_space_def)
qed

lemma two_digits_number:
  assumes "n < 100" and "lo \<le> int n" and "int n \<le> hi"
  shows "get_number 2 lo hi (two_digits n @ r) = Some (int n, r)"
proof -
  have "n div 10 mod 10 * 10 + n mod 10 = n" using assms(1) by simp
  then show ?thesis
    using assms by (simp add: get_number_def two_digits_def numeral_2_eq_2 mult.commute)
qed

lemma four_digits_number:
  assumes "n < 10000"
  shows "get_number 4 0 9999 (four_digits n @ r) = Some (int n, r)"
proof -
  have "n div 1000 = n div 100 div 10" "n div 100 = n div 10 div 10"
    by (simp_all add: div_mult2_eq [symmetric])
  moreover have "n div 1000 mod 10 = n div 1000" using assms by simp
  ultimately have "10 * (10 * (10 * (n div 1000 mod 10) + n div 100 mod 10) + n div 10 mod 10) + n mod 10 = n"
    by (simp only: mult_div_mod_eq)
  then have v: "digits_value 0 (four_digits n) = n" using assms by (simp add: four_digits_def)
  have "take_digits (Suc (Suc (Suc (Suc 0)))) (four_digits n @ r) = four_digits n"
    by (simp add: four_digits_def)
  moreover have "Suc (Suc (Suc (Suc 0))) = 4" by simp
  ultimately have t: "take_digits 4 (four_digits n @ r) = four_digits n" by (simp only:)
  have l: "length (four_digits n) = 4" "four_digits n \<noteq> []" "hd (four_digits n @ r) \<noteq> CHR '' ''"
    by (simp_all add: four_digits_def)
  then have "dropWhile (\<lambda>c. c = CHR '' '') (four_digits n @ r) = four_digits n @ r"
    by (cases "four_digits n") simp_all
  then show ?thesis using assms l by (simp add: get_number_def t v)
qed

lemma utc_read_back:
  assumes "y < 10000" and "1 \<le> mo \<and> mo \<le> 12" and "1 \<le> d \<and> d \<le> 31" and "h < 24" and "mi < 60" and "s \<le> 61"
  shows "str2utctime junk (utc_string y mo d h mi s)
       = timegm (junk\<lparr>tm_year := int y - 1900, tm_mon := int mo - 1, tm_mday := int d,
                      tm_hour := int h, tm_min := int mi, tm_sec := int s\<rparr>)"
  using assms
  by (simp add: str2utctime_def str2utctm_def Let_def utc_string_def utc_format_def conversion_def expect_def
      two_digits_number four_digits_number)

section \<open>From seconds to fields\<close>

text \<open>
  \<open>gmtime\<close>: the same count of days, taken apart into eras of 400 years, centuries, four
  years and years; a year again starts in March.
\<close>

definition march_year :: "int \<Rightarrow> int \<times> int" where
  "march_year z =
     (let r = z mod 146097; c = min 3 (r div 36524); r = r - 36524 * c;
          q = r div 1461; r = r mod 1461; y = min 3 (r div 365)
      in (400 * (z div 146097) + 100 * c + 4 * q + y, r - 365 * y))"

definition gmtime :: "int \<Rightarrow> tm" where
  "gmtime t =
     (let (y, doy) = march_year (t div 86400 + 719468); mp = (5 * doy + 2) div 153; s = t mod 86400
      in \<lparr>tm_year = (if mp < 10 then y else y + 1) - 1900, tm_mon = (if mp < 10 then mp + 2 else mp - 10),
          tm_mday = doy - (153 * mp + 2) div 5 + 1,
          tm_hour = s div 3600, tm_min = s div 60 mod 60, tm_sec = s mod 60\<rparr>)"

text \<open>\<open>strftime\<close> with the format of the headers, for the years it writes with four digits.\<close>

definition utc_of :: "int \<Rightarrow> string" where
  "utc_of t =
     (let f = gmtime t
      in utc_string (nat (1900 + tm_year f)) (nat (tm_mon f + 1)) (nat (tm_mday f)) (nat (tm_hour f))
           (nat (tm_min f)) (nat (tm_sec f)))"

lemma march_year:
  assumes "march_year z = (y, doy)"
  shows "365 * y + y div 4 - y div 100 + y div 400 + doy = z" and "0 \<le> doy" and "doy \<le> 365"
proof -
  define e where "e = z div 146097"
  define r0 where "r0 = z mod 146097"
  define c where "c = min 3 (r0 div 36524)"
  define r1 where "r1 = r0 - 36524 * c"
  define q where "q = r1 div 1461"
  define r2 where "r2 = r1 mod 1461"
  define n where "n = min 3 (r2 div 365)"
  have r0: "0 \<le> r0" "r0 < 146097" "z = 146097 * e + r0" by (simp_all add: r0_def e_def)
  have c: "0 \<le> c" "c \<le> 3" "0 \<le> r1" "r1 \<le> 36524" "c < 3 \<Longrightarrow> r1 < 36524"
    using r0 unfolding c_def r1_def by linarith+
  have q: "r1 = 1461 * q + r2" "0 \<le> r2" "r2 < 1461" "0 \<le> q" using c(3) by (simp_all add: q_def r2_def pos_imp_zdiv_nonneg_iff)
  have n: "0 \<le> n" "n \<le> 3" "0 \<le> r2 - 365 * n" "r2 - 365 * n \<le> 365"
    using q unfolding n_def by linarith+
  have q24: "q \<le> 24" using q c(4) by linarith
  have y: "y = 400 * e + 100 * c + 4 * q + n" "doy = r2 - 365 * n"
    using assms by (simp_all add: march_year_def Let_def e_def r0_def c_def r1_def q_def r2_def n_def)
  have "y div 4 = 100 * e + 25 * c + q" "y div 100 = 4 * e + c" "y div 400 = e"
    unfolding y using n q24 q c by linarith+
  with y r0(3) show "365 * y + y div 4 - y div 100 + y div 400 + doy = z" using q(1) r1_def by linarith
  show "0 \<le> doy" "doy \<le> 365" using y n by simp_all
qed

lemma gmtime_fields:
  shows "0 \<le> tm_mon (gmtime t) \<and> tm_mon (gmtime t) \<le> 11" and "1 \<le> tm_mday (gmtime t) \<and> tm_mday (gmtime t) \<le> 31"
    and "0 \<le> tm_hour (gmtime t) \<and> tm_hour (gmtime t) < 24" and "0 \<le> tm_min (gmtime t) \<and> tm_min (gmtime t) < 60"
    and "0 \<le> tm_sec (gmtime t) \<and> tm_sec (gmtime t) < 60"
proof -
  obtain y doy where m: "march_year (t div 86400 + 719468) = (y, doy)" by (cases "march_year (t div 86400 + 719468)")
  note b = march_year(2,3) [OF m]
  obtain s where s: "t mod 86400 = s" "0 \<le> s" "s < 86400" by simp
  define mp where "mp = (5 * doy + 2) div 153"
  have mp: "0 \<le> mp" "mp \<le> 11" using b unfolding mp_def by linarith+
  have "1 \<le> doy - (153 * mp + 2) div 5 + 1" "doy - (153 * mp + 2) div 5 + 1 \<le> 31" using b unfolding mp_def by linarith+
  then show "0 \<le> tm_mon (gmtime t) \<and> tm_mon (gmtime t) \<le> 11" "1 \<le> tm_mday (gmtime t) \<and> tm_mday (gmtime t) \<le> 31"
    using mp by (simp_all add: gmtime_def m Let_def flip: mp_def)
  have "0 \<le> s div 3600" "s div 3600 < 24" "0 \<le> s div 60 mod 60" "s div 60 mod 60 < 60" using s(2,3) by linarith+
  then show "0 \<le> tm_hour (gmtime t) \<and> tm_hour (gmtime t) < 24" "0 \<le> tm_min (gmtime t) \<and> tm_min (gmtime t) < 60"
    "0 \<le> tm_sec (gmtime t) \<and> tm_sec (gmtime t) < 60"
    by (simp_all add: gmtime_def m Let_def s(1))
qed

text \<open>\<open>timegm\<close> takes the fields back to the seconds.\<close>

lemma timegm_gmtime: "timegm (gmtime t) = t"
proof -
  obtain y doy where m: "march_year (t div 86400 + 719468) = (y, doy)" by (cases "march_year (t div 86400 + 719468)")
  note b = march_year [OF m]
  define mp where "mp = (5 * doy + 2) div 153"
  have mp: "0 \<le> mp" "mp \<le> 11" using b(2,3) unfolding mp_def by linarith+
  define d where "d = doy - (153 * mp + 2) div 5 + 1"
  define s where "s = t mod 86400"
  let ?f = "gmtime t"
  have f: "tm_year ?f = (if mp < 10 then y else y + 1) - 1900" "tm_mon ?f = (if mp < 10 then mp + 2 else mp - 10)"
      "tm_mday ?f = d" "tm_hour ?f = s div 3600" "tm_min ?f = s div 60 mod 60" "tm_sec ?f = s mod 60"
    by (simp_all add: gmtime_def m Let_def mp_def d_def s_def)
  have days: "days_from_civil (1900 + tm_year ?f + tm_mon ?f div 12) (tm_mon ?f mod 12 + 1)
      = 365 * y + y div 4 - y div 100 + y div 400 + (153 * mp + 2) div 5 - 719468"
    using mp by (auto simp: days_from_civil_def Let_def f div_pos_pos_trivial)
  have clock: "(a * 60 + b) * 60 + c = s" if "a = s div 3600" "b = s div 60 mod 60" "c = s mod 60" for a b c
  proof -
    have "s div 3600 = s div 60 div 60" by (simp add: zdiv_zmult2_eq [symmetric])
    then have "a * 60 + b = s div 60" unfolding that by (simp only: div_mult_mod_eq)
    then show ?thesis unfolding that by (simp only: div_mult_mod_eq)
  qed
  have "((z * 24 + a) * 60 + b) * 60 + c = z * 86400 + ((a * 60 + b) * 60 + c)" for z a b c :: int by simp
  moreover have "days_from_civil (1900 + tm_year ?f + tm_mon ?f div 12) (tm_mon ?f mod 12 + 1) + tm_mday ?f - 1 = t div 86400"
    using b(1) unfolding days f(3) d_def by linarith
  ultimately have "timegm ?f = t div 86400 * 86400 + s"
    unfolding timegm_def Let_def f(4-6) by (simp only: clock)
  then show ?thesis by (simp add: s_def)
qed

lemma gmtime_year:
  assumes "0 \<le> t" and "t < 253402300800"
  shows "0 \<le> 1900 + tm_year (gmtime t) \<and> 1900 + tm_year (gmtime t) < 10000"
proof -
  obtain y doy where m: "march_year (t div 86400 + 719468) = (y, doy)" by (cases "march_year (t div 86400 + 719468)")
  note b = march_year [OF m]
  have t: "0 \<le> t div 86400" "t div 86400 \<le> 2932896" using assms by linarith+
  define mp where "mp = (5 * doy + 2) div 153"
  have f: "1900 + tm_year (gmtime t) = (if mp < 10 then y else y + 1)"
    by (simp add: gmtime_def m Let_def mp_def)
  have "0 \<le> y" using b t by linarith
  moreover have "y \<le> 9999" using b t by linarith
  moreover have "mp < 10" if "y = 9999"
  proof -
    have "doy \<le> 305" using b(1) t(2) that by simp
    then show ?thesis unfolding mp_def by linarith
  qed
  ultimately show ?thesis using f by (cases "mp < 10"; cases "y = 9999") simp_all
qed

section \<open>Properties\<close>

lemma str2utctime_utc_of:
  assumes "0 \<le> t" and "t < 253402300800"
  shows "str2utctime junk (utc_of t) = t"
proof -
  let ?f = "gmtime t"
  note f = gmtime_fields [of t] gmtime_year [OF assms]
  have "str2utctime junk (utc_of t) = timegm (junk\<lparr>tm_year := tm_year ?f, tm_mon := tm_mon ?f, tm_mday := tm_mday ?f,
      tm_hour := tm_hour ?f, tm_min := tm_min ?f, tm_sec := tm_sec ?f\<rparr>)"
    unfolding utc_of_def Let_def using f by (subst utc_read_back) auto
  also have "junk\<lparr>tm_year := tm_year ?f, tm_mon := tm_mon ?f, tm_mday := tm_mday ?f, tm_hour := tm_hour ?f,
      tm_min := tm_min ?f, tm_sec := tm_sec ?f\<rparr> = ?f" by (rule tm.equality) simp_all
  finally show ?thesis by (simp only: timegm_gmtime)
qed

text \<open>C18. A time written with \<open>strftime\<close> in the format of the headers is read back by \<open>str2utctime\<close> as the
  same time, whatever the variable held before, for all times of the years 1970 to 9999.\<close>

theorem written_time_is_read_back:
  assumes "0 \<le> t" and "t < 253402300800"
  shows "str2utctime junk (utc_of t) = t"
  using str2utctime_utc_of [OF assms] .

lemma written_time_is_read_back_witness:
  "str2utctime \<lparr>tm_year = 0, tm_mon = 0, tm_mday = 0, tm_hour = 0, tm_min = 0, tm_sec = 0\<rparr> (utc_of 1223296200) = 1223296200"
  by (rule written_time_is_read_back) simp_all

text \<open>A text that does not start with a number is no error: the time is that of whatever
  the uninitialised variable held.\<close>

theorem unparsable_time_is_garbage:
  assumes "s \<noteq> []" and "\<not> is_digit (hd s)" and "hd s \<noteq> CHR '' ''"
  shows "str2utctime junk s = timegm junk"
proof -
  have "get_number 4 0 9999 (s @ r) = None" for r
    using assms take_digits.simps(1) [of 3 "hd s" "tl s @ r"]
    by (cases s) (simp_all add: get_number_def)
  then show ?thesis by (simp add: str2utctime_def str2utctm_def Let_def utc_format_def conversion_def)
qed

lemma unparsable_time_is_garbage_witness:
  "str2utctime \<lparr>tm_year = 70, tm_mon = 0, tm_mday = 1, tm_hour = 0, tm_min = 0, tm_sec = 7\<rparr> ''now'' = 7"
  using unparsable_time_is_garbage [of "''now''" "\<lparr>tm_year = 70, tm_mon = 0, tm_mday = 1, tm_hour = 0, tm_min = 0, tm_sec = 7\<rparr>"]
  by (simp add: is_digit_def timegm_def days_from_civil_def)

end
