(* ===== verification/Pwc.thy ===== *)
theory Pwc
  imports Ascii_Header Command_Parse Tmutil "HOL-Library.Monad_Syntax"
begin

text \<open>
  The control interface of a primary write client (\<^verbatim>\<open>src/dada_pwc.c\<close>): text commands that
  arrive on a connection are checked against the state of the client and queued, one
  at a time, for the thread that writes the data; that thread takes the command, and
  moves the client from state to state. The mutex makes queueing and taking a command
  one step; a command that has to wait for the queue is not taken in that state of the
  client (\<open>None\<close>). Messages to the user are left out, but for the answer to \<open>state\<close>.
\<close>

section \<open>States and commands\<close>

datatype dada_pwc_state_t =
    dada_pwc_undefined | dada_pwc_pending | dada_pwc_idle | dada_pwc_prepared | dada_pwc_clocking
  | dada_pwc_recording | dada_pwc_soft_error | dada_pwc_hard_error | dada_pwc_fatal_error

datatype dada_pwc_code =
    dada_pwc_no_command | dada_pwc_header | dada_pwc_clock | dada_pwc_record_start | dada_pwc_record_stop
  | dada_pwc_start | dada_pwc_stop | dada_pwc_set_utc_start | dada_pwc_reset | dada_pwc_exit

text \<open>The header of a command is the null pointer or the header of the client.\<close>

record dada_pwc_command_t =
  code :: dada_pwc_code
  utc :: int
  byte_count :: u64
  with_header :: bool

definition DADA_PWC_COMMAND_INIT :: dada_pwc_command_t where
  "DADA_PWC_COMMAND_INIT = \<lparr>code = dada_pwc_no_command, utc = 0, byte_count = 0, with_header = False\<rparr>"

text \<open>
  A header that was not written since it was allocated, or was cut off, is no string:
  \<open>None\<close>.
\<close>

record dada_pwc_t =
  quit :: bool
  pstate :: dada_pwc_state_t
  convert_to_bytes :: bool
  bytes_per_second :: u64
  bits_per_sample :: u32
  byte_resolution :: u32
  utc_start :: int
  queued :: dada_pwc_command_t
  header :: "string option"
  header_size :: u32

text \<open>\<open>strcasecmp\<close> in the C locale.\<close>

definition lower_char :: "char \<Rightarrow> char" where
  "lower_char c = (if (65::nat) \<le> of_char c \<and> of_char c \<le> (90::nat) then char_of (of_char c + (32::nat)) else c)"

definition same_word :: "string \<Rightarrow> string \<Rightarrow> bool" where
  "same_word s t \<longleftrightarrow> map lower_char s = map lower_char t"

definition dada_pwc_string_to_state :: "string \<Rightarrow> dada_pwc_state_t" where
  "dada_pwc_string_to_state key =
     (if same_word key ''pending'' then dada_pwc_pending
      else if same_word key ''idle'' then dada_pwc_idle
      else if same_word key ''prepared'' then dada_pwc_prepared
      else if same_word key ''clocking'' then dada_pwc_clocking
      else if same_word key ''recording'' then dada_pwc_recording
      else if same_word key ''soft_error'' then dada_pwc_soft_error
      else if same_word key ''hard_error'' then dada_pwc_hard_error
      else if same_word key ''fatal_error'' then dada_pwc_fatal_error
      else dada_pwc_undefined)"

fun dada_pwc_state_to_string :: "dada_pwc_state_t \<Rightarrow> string" where
  "dada_pwc_state_to_string dada_pwc_pending = ''pending''"
| "dada_pwc_state_to_string dada_pwc_idle = ''idle''"
| "dada_pwc_state_to_string dada_pwc_prepared = ''prepared''"
| "dada_pwc_state_to_string dada_pwc_clocking = ''clocking''"
| "dada_pwc_state_to_string dada_pwc_recording = ''recording''"
| "dada_pwc_state_to_string dada_pwc_soft_error = ''soft_error''"
| "dada_pwc_state_to_string dada_pwc_hard_error = ''hard_error''"
| "dada_pwc_state_to_string dada_pwc_fatal_error = ''fatal_error''"
| "dada_pwc_state_to_string dada_pwc_undefined = ''undefined''"

fun dada_pwc_cmd_code_string :: "dada_pwc_code \<Rightarrow> string" where
  "dada_pwc_cmd_code_string dada_pwc_no_command = ''no_command''"
| "dada_pwc_cmd_code_string dada_pwc_header = ''header''"
| "dada_pwc_cmd_code_string dada_pwc_clock = ''clock''"
| "dada_pwc_cmd_code_string dada_pwc_record_start = ''record_start''"
| "dada_pwc_cmd_code_string dada_pwc_record_stop = ''record_stop''"
| "dada_pwc_cmd_code_string dada_pwc_start = ''start''"
| "dada_pwc_cmd_code_string dada_pwc_stop = ''stop''"
| "dada_pwc_cmd_code_string dada_pwc_set_utc_start = ''set_utc_start''"
| "dada_pwc_cmd_code_string dada_pwc_reset = ''reset''"
| "dada_pwc_cmd_code_string dada_pwc_exit = ''exit''"

section \<open>Queueing and taking a command\<close>

definition dada_pwc_command_set_byte_count ::
  "dada_pwc_t \<Rightarrow> dada_pwc_command_t \<Rightarrow> int \<times> dada_pwc_command_t" where
  "dada_pwc_command_set_byte_count p c =
     (if \<not> convert_to_bytes p then (0, c\<lparr>byte_count := 0\<rparr>)
      else if utc c = 0 then (0, c\<lparr>byte_count := 0\<rparr>)
      else if utc_start p = 0 then (- 1, c)
      else if bytes_per_second p = 0 then (- 1, c)
      else if utc c < utc_start p then (0, c\<lparr>utc := 0, byte_count := 0\<rparr>)
      else
        let n = word_of_int (utc c - utc_start p) * bytes_per_second p;
            res = ucast (byte_resolution p) :: u64;
            n = (if 1 < byte_resolution p then
                   let packets = n div res; m = packets * res
                   in if code c = dada_pwc_record_stop \<or> code c = dada_pwc_stop then m + res else m
                 else n)
        in (0, c\<lparr>byte_count := n\<rparr>))"

text \<open>The switch of \<open>dada_pwc_command_set\<close>: in which state a command is accepted.\<close>

fun accepted_in :: "dada_pwc_code \<Rightarrow> dada_pwc_state_t \<Rightarrow> bool" where
  "accepted_in dada_pwc_header s = (s = dada_pwc_idle)"
| "accepted_in dada_pwc_clock s = (s = dada_pwc_prepared)"
| "accepted_in dada_pwc_record_start s = (s = dada_pwc_clocking)"
| "accepted_in dada_pwc_record_stop s = (s = dada_pwc_recording)"
| "accepted_in dada_pwc_start s = (s = dada_pwc_prepared)"
| "accepted_in dada_pwc_stop s = True"
| "accepted_in dada_pwc_set_utc_start s = (s = dada_pwc_clocking \<or> s = dada_pwc_recording)"
| "accepted_in dada_pwc_reset s = (s = dada_pwc_soft_error \<or> s = dada_pwc_hard_error)"
| "accepted_in dada_pwc_exit s = (s = dada_pwc_idle)"
| "accepted_in dada_pwc_no_command s = True"

definition dada_pwc_command_set :: "dada_pwc_t \<Rightarrow> dada_pwc_command_t \<Rightarrow> (int \<times> dada_pwc_t) option" where
  "dada_pwc_command_set p c =
     (if code (queued p) \<noteq> dada_pwc_no_command then None
      else if accepted_in (code c) (pstate p) then Some (0, p\<lparr>queued := c\<rparr>)
      else Some (- 1, p))"

definition dada_pwc_command_check :: "dada_pwc_t \<Rightarrow> int" where
  "dada_pwc_command_check p = (if code (queued p) = dada_pwc_no_command then 0 else 1)"

definition dada_pwc_command_get :: "dada_pwc_t \<Rightarrow> (dada_pwc_command_t \<times> dada_pwc_t) option" where
  "dada_pwc_command_get p =
     (if code (queued p) = dada_pwc_no_command then None
      else Some (queued p, p\<lparr>queued := (queued p)\<lparr>code := dada_pwc_no_command, byte_count := 0\<rparr>\<rparr>))"

definition dada_pwc_quit :: "dada_pwc_t \<Rightarrow> bool" where "dada_pwc_quit p = quit p"

section \<open>The state of the client\<close>

text \<open>The switch of \<open>dada_pwc_set_state\<close>.\<close>

fun may_become :: "dada_pwc_state_t \<Rightarrow> dada_pwc_state_t \<Rightarrow> bool" where
  "may_become dada_pwc_idle n \<longleftrightarrow>
     n \<in> {dada_pwc_prepared, dada_pwc_soft_error, dada_pwc_hard_error, dada_pwc_fatal_error}"
| "may_become dada_pwc_prepared n \<longleftrightarrow>
     n \<in> {dada_pwc_idle, dada_pwc_clocking, dada_pwc_recording,
          dada_pwc_soft_error, dada_pwc_hard_error, dada_pwc_fatal_error}"
| "may_become dada_pwc_clocking n \<longleftrightarrow>
     n \<in> {dada_pwc_recording, dada_pwc_idle, dada_pwc_soft_error, dada_pwc_hard_error, dada_pwc_fatal_error}"
| "may_become dada_pwc_recording n \<longleftrightarrow>
     n \<in> {dada_pwc_clocking, dada_pwc_idle, dada_pwc_soft_error, dada_pwc_hard_error, dada_pwc_fatal_error}"
| "may_become dada_pwc_soft_error n \<longleftrightarrow> n = dada_pwc_idle"
| "may_become dada_pwc_hard_error n \<longleftrightarrow> n = dada_pwc_idle"
| "may_become dada_pwc_fatal_error n \<longleftrightarrow> False"
| "may_become dada_pwc_pending n \<longleftrightarrow> False"
| "may_become dada_pwc_undefined n \<longleftrightarrow> False"

definition dada_pwc_set_state :: "dada_pwc_t \<Rightarrow> dada_pwc_state_t \<Rightarrow> int \<Rightarrow> int \<times> dada_pwc_t" where
  "dada_pwc_set_state p new_state t =
     (if \<not> may_become (pstate p) new_state then (- 1, p)
      else
        let p = (if pstate p = dada_pwc_prepared then p\<lparr>utc_start := t\<rparr> else p)
        in (0, p\<lparr>pstate := new_state\<rparr>))"

definition dada_pwc_set_header_size :: "dada_pwc_t \<Rightarrow> u32 \<Rightarrow> int \<times> dada_pwc_t" where
  "dada_pwc_set_header_size p n =
     (0, p\<lparr>header_size := n,
           header := (case header p of
                        None \<Rightarrow> None
                      | Some h \<Rightarrow> if length h < unat n then Some h else None)\<rparr>)"

section \<open>What the commands parse\<close>

text \<open>
  What the C code leaves open: the numbers an unparsed variable holds, by the name of
  its keyword, the time fields, and the arithmetic on doubles of the sampling interval.
\<close>

record 'd machine =
  unset :: "string \<Rightarrow> u32"
  unset_tm :: tm
  unset_double :: 'd
  scan_double :: "string \<Rightarrow> int \<times> 'd option"
  over_interval :: "u64 \<Rightarrow> 'd \<Rightarrow> u64"

definition header_number :: "string \<Rightarrow> string \<Rightarrow> u32 \<Rightarrow> u32 \<Rightarrow> u32" where
  "header_number h w missing junk =
     (case ascii_header_get h w sscanf_ld of
        (rc, v) \<Rightarrow> if rc < 0 then missing else case v of Some n \<Rightarrow> word_of_int n | None \<Rightarrow> junk)"

definition dada_pwc_parse_bytes_per_second :: "'d machine \<Rightarrow> dada_pwc_t \<Rightarrow> string \<Rightarrow> int \<times> dada_pwc_t" where
  "dada_pwc_parse_bytes_per_second m p h =
     (let npol = header_number h ''NPOL'' 2 (unset m ''NPOL'');
          nbit = header_number h ''NBIT'' 8 (unset m ''NBIT'');
          ndim = header_number h ''NDIM'' 1 (unset m ''NDIM'');
          nchan = header_number h ''NCHAN'' 1 (unset m ''NCHAN'');
          nant = header_number h ''NANT'' 1 (unset m ''NANT'');
          p = p\<lparr>byte_resolution := header_number h ''RESOLUTION'' 1 1,
                bits_per_sample := nbit * npol * ndim\<rparr>
      in case ascii_header_get h ''TSAMP'' (scan_double m) of
           (rc, v) \<Rightarrow>
             if rc < 0 then (- 1, p\<lparr>bytes_per_second := 0\<rparr>)
             else
               let interval = (case v of Some d \<Rightarrow> d | None \<Rightarrow> unset_double m);
                   megasample = 1000000 * ucast (bits_per_sample p) * ucast nchan * ucast nant
               in (0, p\<lparr>bytes_per_second := over_interval m megasample interval div 8\<rparr>))"

text \<open>
  \<open>sscanf\<close> with \<open>%u:%u:%u\<close>.
\<close>

definition scan_hms :: "string \<Rightarrow> (u32 \<times> u32 \<times> u32) option" where
  "scan_hms s =
     do {
       (hh, s) \<leftarrow> scan_unsigned s;
       s \<leftarrow> expect CHR '':'' s;
       (mm, s) \<leftarrow> scan_unsigned s;
       s \<leftarrow> expect CHR '':'' s;
       (ss, s) \<leftarrow> scan_unsigned s;
       Some (ucast hh, ucast mm, ucast ss)
     }"

definition dada_pwc_parse_duration :: "dada_pwc_t \<Rightarrow> string \<Rightarrow> u64" where
  "dada_pwc_parse_duration p args =
     (case scan_hms args of
        Some (hh, mm, ss) \<Rightarrow>
          if bytes_per_second p = 0 then 0
          else if 59 < mm then 0
          else if 59 < ss then 0
          else (ucast hh * 3600 + ucast (60 * mm) + ucast ss) * bytes_per_second p
      | None \<Rightarrow>
          (case scan_unsigned args of
             Some (n, _) \<Rightarrow> if bits_per_sample p = 0 then 0 else n * ucast (bits_per_sample p) div 8
           | None \<Rightarrow> 0))"

definition dada_pwc_parse_time :: "'d machine \<Rightarrow> string option \<Rightarrow> int" where
  "dada_pwc_parse_time m args =
     (case args of
        None \<Rightarrow> 0
      | Some s \<Rightarrow> let t = str2utctime (unset_tm m) s in if t = - 1 then - 1 else t)"

section \<open>The commands\<close>

text \<open>
  A command is refused by its own checks, or hands a command over to
  \<open>dada_pwc_command_set\<close>; what it changes before that stays changed, whatever
  \<open>dada_pwc_command_set\<close> says.
\<close>

definition dada_pwc_cmd_state :: "dada_pwc_t \<Rightarrow> string" where
  "dada_pwc_cmd_state p = dada_pwc_state_to_string (pstate p) @ [nl]"

text \<open>A line end is added where the header has none; of an empty header the source looks at
  the byte in front of it, here taken as no line end.\<close>

definition end_line :: "u32 \<Rightarrow> string \<Rightarrow> string" where
  "end_line n h = (if (h = [] \<or> last h \<noteq> nl) \<and> length h + 1 < unat n then h @ [nl] else h)"

definition store_header :: "dada_pwc_t \<Rightarrow> string \<Rightarrow> dada_pwc_t" where
  "store_header p h =
     p\<lparr>header := Some (snd (ascii_header_set (end_line (header_size p) h) ''BYTES_PER_SECOND''
                             (Some (decimal (unat (bytes_per_second p))))))\<rparr>"

definition dada_pwc_cmd_header :: "'d machine \<Rightarrow> dada_pwc_t \<Rightarrow> string option \<Rightarrow> (int \<times> dada_pwc_t) option" where
  "dada_pwc_cmd_header m p args =
     (case args of
        None \<Rightarrow> Some (- 1, p)
      | Some args \<Rightarrow>
          if unat (header_size p) < length args then Some (- 1, p)
          else
            let h = map (\<lambda>c. if c = CHR 0x5C then nl else c) args;
                (rc, p) = dada_pwc_parse_bytes_per_second m p h
            in if rc < 0 then Some (- 1, p)
               else dada_pwc_command_set (store_header p h)
                      (DADA_PWC_COMMAND_INIT\<lparr>code := dada_pwc_header, with_header := True\<rparr>))"

definition dada_pwc_cmd_duration :: "dada_pwc_t \<Rightarrow> string option \<Rightarrow> (int \<times> dada_pwc_t) option" where
  "dada_pwc_cmd_duration p args =
     (case args of
        None \<Rightarrow> Some (- 1, p)
      | Some s \<Rightarrow>
          let n = dada_pwc_parse_duration p s
          in if n = 0 then Some (- 1, p)
             else if code (queued p) \<noteq> dada_pwc_no_command then None
             else if pstate p = dada_pwc_recording then Some (- 1, p)
             else Some (0, p\<lparr>queued := (queued p)\<lparr>byte_count := n\<rparr>\<rparr>))"

definition dada_pwc_cmd_clock :: "dada_pwc_t \<Rightarrow> (int \<times> dada_pwc_t) option" where
  "dada_pwc_cmd_clock p = dada_pwc_command_set p (DADA_PWC_COMMAND_INIT\<lparr>code := dada_pwc_clock\<rparr>)"

text \<open>The commands that are converted to a byte count before they are queued.\<close>

definition set_at_byte_count :: "dada_pwc_t \<Rightarrow> dada_pwc_command_t \<Rightarrow> (int \<times> dada_pwc_t) option" where
  "set_at_byte_count p c =
     (case dada_pwc_command_set_byte_count p c of
        (rc, c) \<Rightarrow> if rc < 0 then Some (- 1, p) else dada_pwc_command_set p c)"

definition dada_pwc_cmd_record_start :: "'d machine \<Rightarrow> dada_pwc_t \<Rightarrow> string option \<Rightarrow> (int \<times> dada_pwc_t) option" where
  "dada_pwc_cmd_record_start m p args =
     (let c = DADA_PWC_COMMAND_INIT\<lparr>code := dada_pwc_record_start, utc := dada_pwc_parse_time m args\<rparr>
      in if utc c = 0 then Some (- 1, p) else set_at_byte_count p c)"

definition dada_pwc_cmd_record_stop :: "'d machine \<Rightarrow> dada_pwc_t \<Rightarrow> string option \<Rightarrow> (int \<times> dada_pwc_t) option" where
  "dada_pwc_cmd_record_stop m p args =
     (let c = DADA_PWC_COMMAND_INIT\<lparr>code := dada_pwc_record_stop, utc := dada_pwc_parse_time m args\<rparr>
      in if utc c = 0 then Some (- 1, p) else set_at_byte_count p c)"

definition dada_pwc_cmd_start :: "'d machine \<Rightarrow> dada_pwc_t \<Rightarrow> string option \<Rightarrow> (int \<times> dada_pwc_t) option" where
  "dada_pwc_cmd_start m p args =
     dada_pwc_command_set p
       (DADA_PWC_COMMAND_INIT\<lparr>code := dada_pwc_start, utc := dada_pwc_parse_time m args,
                               byte_count := byte_count (queued p)\<rparr>)"

definition dada_pwc_cmd_stop :: "'d machine \<Rightarrow> dada_pwc_t \<Rightarrow> string option \<Rightarrow> (int \<times> dada_pwc_t) option" where
  "dada_pwc_cmd_stop m p args =
     set_at_byte_count p
       (DADA_PWC_COMMAND_INIT\<lparr>code := dada_pwc_stop, utc := dada_pwc_parse_time m args\<rparr>)"

definition dada_pwc_cmd_set_utc_start :: "'d machine \<Rightarrow> dada_pwc_t \<Rightarrow> string option \<Rightarrow> (int \<times> dada_pwc_t) option" where
  "dada_pwc_cmd_set_utc_start m p args =
     (let c = DADA_PWC_COMMAND_INIT\<lparr>code := dada_pwc_set_utc_start, utc := dada_pwc_parse_time m args\<rparr>
      in set_at_byte_count (p\<lparr>utc_start := utc c\<rparr>) c)"

definition dada_pwc_cmd_reset :: "dada_pwc_t \<Rightarrow> (int \<times> dada_pwc_t) option" where
  "dada_pwc_cmd_reset p = dada_pwc_command_set p (DADA_PWC_COMMAND_INIT\<lparr>code := dada_pwc_reset\<rparr>)"

definition dada_pwc_cmd_quit :: "dada_pwc_t \<Rightarrow> (int \<times> dada_pwc_t) option" where
  "dada_pwc_cmd_quit p =
     dada_pwc_command_set (p\<lparr>quit := True\<rparr>) (DADA_PWC_COMMAND_INIT\<lparr>code := dada_pwc_exit\<rparr>)"

section \<open>The client and its table of commands\<close>

datatype pwc_fn =
    Cmd_state | Cmd_header | Cmd_duration | Cmd_start | Cmd_stop | Cmd_clock | Cmd_record_start
  | Cmd_record_stop | Cmd_set_utc_start | Cmd_quit | Cmd_reset

definition pwc_commands :: "(pwc_fn \<times> string \<times> string) list" where
  "pwc_commands =
     [(Cmd_state, ''state'', ''get the current state''),
      (Cmd_header, ''header'', ''set the primary header''),
      (Cmd_duration, ''duration'', ''set the duration of next recording''),
      (Cmd_start, ''start'', ''enter the recording state''),
      (Cmd_stop, ''stop'', ''enter the idle state''),
      (Cmd_clock, ''clock'', ''enter the clocking state''),
      (Cmd_record_start, ''rec_start'', ''enter the recording state''),
      (Cmd_record_stop, ''rec_stop'', ''enter the clocking state''),
      (Cmd_set_utc_start, ''set_utc_start'', ''set the UTC_START header parameter''),
      (Cmd_quit, ''quit'', ''quit''),
      (Cmd_reset, ''reset'', ''reset error state to idle'')]"

definition pwc_parser :: "(pwc_fn, unit) parser" where
  "pwc_parser =
     fold (\<lambda>(f, n, h) p. snd (command_parse_add p (Client f) (Some ()) (Some n) (Some h) None))
       pwc_commands command_parse_create"

text \<open>Of the command only the code is set.\<close>

definition dada_pwc_create :: "u32 \<Rightarrow> dada_pwc_command_t \<Rightarrow> dada_pwc_t" where
  "dada_pwc_create page junk =
     \<lparr>quit = False, pstate = dada_pwc_idle, convert_to_bytes = True, bytes_per_second = 0,
      bits_per_sample = 0, byte_resolution = 0, utc_start = 0, queued = junk\<lparr>code := dada_pwc_no_command\<rparr>,
      header = None, header_size = page\<rparr>"

text \<open>What a text command does; \<open>None\<close> when it has to wait for the queue.\<close>

fun pwc_call :: "'d machine \<Rightarrow> pwc_fn \<Rightarrow> dada_pwc_t \<Rightarrow> string option \<Rightarrow> (int \<times> dada_pwc_t) option" where
  "pwc_call m Cmd_state p args = Some (0, p)"
| "pwc_call m Cmd_header p args = dada_pwc_cmd_header m p args"
| "pwc_call m Cmd_duration p args = dada_pwc_cmd_duration p args"
| "pwc_call m Cmd_start p args = dada_pwc_cmd_start m p args"
| "pwc_call m Cmd_stop p args = dada_pwc_cmd_stop m p args"
| "pwc_call m Cmd_clock p args = dada_pwc_cmd_clock p"
| "pwc_call m Cmd_record_start p args = dada_pwc_cmd_record_start m p args"
| "pwc_call m Cmd_record_stop p args = dada_pwc_cmd_record_stop m p args"
| "pwc_call m Cmd_set_utc_start p args = dada_pwc_cmd_set_utc_start m p args"
| "pwc_call m Cmd_quit p args = dada_pwc_cmd_quit p"
| "pwc_call m Cmd_reset p args = dada_pwc_cmd_reset p"

text \<open>As the parser calls it: the client is \<open>None\<close> from the moment a command waits.\<close>

definition pwc_run :: "'d machine \<Rightarrow> (pwc_fn, unit, dada_pwc_t option) client" where
  "pwc_run m f x args st =
     (case st of
        (None, txt) \<Rightarrow> (- 1, None, txt)
      | (Some p, txt) \<Rightarrow>
          (case pwc_call m f p args of
             None \<Rightarrow> (- 1, None, txt)
           | Some (rc, p') \<Rightarrow> (rc, Some p', if f = Cmd_state then txt @ dada_pwc_cmd_state p else txt)))"

end
