(* ===== verification/Pwc_Main.thy ===== *)
theory Pwc_Main
  imports Pwc Dada_Hdu
begin

text \<open>
  The main loop of a primary write client (\<^verbatim>\<open>src/dada_pwc_main.c\<close>): it takes the commands
  of the control interface one after the other, opens the rings for a transfer, writes the
  data the program supplies, and changes between clocking and recording at the bytes the
  commands ask for. The functions of the program are parameters. What the control interface and
  the processes on the other side of the rings do between two looks at the queue of commands is
  a parameter as well, \<open>env k\<close> before the \<open>k\<close>-th look. \<open>None\<close> is a call that does not return:
  it sleeps, fails an assertion or goes through a null pointer.
\<close>

section \<open>The client\<close>

text \<open>The rings are those the handles are attached to; \<open>turn\<close> counts the looks at the queue.\<close>

record 'x dada_pwc_main_t =
  pwc :: dada_pwc_t
  pm_data :: "ipcio option"
  pm_hdr :: "ipcbuf option"
  pm_command :: dada_pwc_command_t
  pm_header :: "ptr option"
  pm_header_size :: u32
  header_valid :: bool
  pm_context :: 'x
  data_ring :: ring
  header_ring :: ring
  turn :: nat

type_synonym ('a, 'x) pm = "('a \<times> 'x dada_pwc_main_t) option"

text \<open>
  The buffer function returns an address, \<open>None\<close> for the null pointer, and the number of
  bytes there; from the address on there is more memory behind these bytes. The block function
  returns the number of bytes and what it has put into the sub-block.
\<close>

type_synonym address = "nat \<Rightarrow> byte"

record 'x pwc_main_functions =
  start_function :: "'x dada_pwc_main_t \<Rightarrow> int \<Rightarrow> int \<times> 'x dada_pwc_main_t"
  buffer_function :: "'x dada_pwc_main_t \<Rightarrow> (address option \<times> int) \<times> 'x dada_pwc_main_t"
  block_function :: "('x dada_pwc_main_t \<Rightarrow> u64 \<Rightarrow> u64 \<Rightarrow> (int \<times> byte list) \<times> 'x dada_pwc_main_t) option"
  stop_function :: "'x dada_pwc_main_t \<Rightarrow> int \<times> 'x dada_pwc_main_t"
  error_function :: "('x dada_pwc_main_t \<Rightarrow> int \<times> 'x dada_pwc_main_t) option"
  header_valid_function :: "('x dada_pwc_main_t \<Rightarrow> int \<times> 'x dada_pwc_main_t) option"
  xfer_pending_function :: "('x dada_pwc_main_t \<Rightarrow> int \<times> 'x dada_pwc_main_t) option"
  new_xfer_function :: "('x dada_pwc_main_t \<Rightarrow> u64 \<times> 'x dada_pwc_main_t) option"

definition DADA_XFER_NORMAL :: int where "DADA_XFER_NORMAL = 0"
definition DADA_OBS_ENDING :: int where "DADA_OBS_ENDING = 2"

abbreviation (input) "DADA_ERROR_SOFT \<equiv> (- 1 :: int)"
abbreviation (input) "DADA_ERROR_HARD \<equiv> (- 2 :: int)"
abbreviation (input) "DADA_ERROR_FATAL \<equiv> (- 3 :: int)"

definition dada_pwc_main_create :: "dada_pwc_t \<Rightarrow> ipcio option \<Rightarrow> ipcbuf option \<Rightarrow> ring \<Rightarrow> ring \<Rightarrow> 'x \<Rightarrow> 'x dada_pwc_main_t" where
  "dada_pwc_main_create p c h dr hr x =
     \<lparr>pwc = p, pm_data = c, pm_hdr = h, pm_command = DADA_PWC_COMMAND_INIT, pm_header = None, pm_header_size = 0,
      header_valid = False, pm_context = x, data_ring = dr, header_ring = hr, turn = 0\<rparr>"

section \<open>Operations on the parts\<close>

definition on_stream :: "(ring \<Rightarrow> ipcio \<Rightarrow> 'a io) \<Rightarrow> 'x dada_pwc_main_t \<Rightarrow> ('a, 'x) pm" where
  "on_stream f m =
     do { c \<leftarrow> pm_data m; (x, r, c) \<leftarrow> f (data_ring m) c; Some (x, m\<lparr>data_ring := r, pm_data := Some c\<rparr>) }"

text \<open>Where the source tests for a data block first; without one the value is \<open>x\<close>.\<close>

definition on_stream_if :: "'a \<Rightarrow> (ring \<Rightarrow> ipcio \<Rightarrow> 'a io) \<Rightarrow> 'x dada_pwc_main_t \<Rightarrow> ('a, 'x) pm" where
  "on_stream_if x f m = (if pm_data m = None then Some (x, m) else on_stream f m)"

definition on_hdr :: "(ring \<Rightarrow> ipcbuf \<Rightarrow> 'a ipc) \<Rightarrow> 'x dada_pwc_main_t \<Rightarrow> ('a, 'x) pm" where
  "on_hdr f m =
     do { p \<leftarrow> pm_hdr m; (x, r, p) \<leftarrow> f (header_ring m) p; Some (x, m\<lparr>header_ring := r, pm_hdr := Some p\<rparr>) }"

definition on_pwc :: "(dada_pwc_t \<Rightarrow> 'a \<times> dada_pwc_t) \<Rightarrow> 'x dada_pwc_main_t \<Rightarrow> 'a \<times> 'x dada_pwc_main_t" where
  "on_pwc f m = (case f (pwc m) of (x, p) \<Rightarrow> (x, m\<lparr>pwc := p\<rparr>))"

definition to_state :: "dada_pwc_state_t \<Rightarrow> int \<Rightarrow> 'x dada_pwc_main_t \<Rightarrow> int \<times> 'x dada_pwc_main_t" where
  "to_state s t = on_pwc (\<lambda>p. dada_pwc_set_state p s t)"

text \<open>The header is the string in its sub-block.\<close>

definition header_string :: "'x dada_pwc_main_t \<Rightarrow> string option" where
  "header_string m = do { b \<leftarrow> pm_header m; Some (block_string (header_ring m) b) }"

definition header_put :: "string \<Rightarrow> string \<Rightarrow> 'x dada_pwc_main_t \<Rightarrow> 'x dada_pwc_main_t option" where
  "header_put w v m =
     do {
       b \<leftarrow> pm_header m;
       let h = snd (ascii_header_set (block_string (header_ring m) b) w (Some v));
       Some (m\<lparr>header_ring := put_string b h (header_ring m)\<rparr>)
     }"

text \<open>\<open>strncpy\<close>: cut off at the size, or filled up with zeros.\<close>

definition header_copy :: "string \<Rightarrow> 'x dada_pwc_main_t \<Rightarrow> 'x dada_pwc_main_t option" where
  "header_copy s m =
     do {
       b \<leftarrow> pm_header m;
       let n = unat (pm_header_size m);
       Some (m\<lparr>header_ring := put_bytes b 0 (take n (map byte_of_char s @ replicate n 0)) (header_ring m)\<rparr>)
     }"

definition header_is_valid :: "'x pwc_main_functions \<Rightarrow> 'x dada_pwc_main_t \<Rightarrow> 'x dada_pwc_main_t" where
  "header_is_valid F m =
     (case header_valid_function F of
        None \<Rightarrow> m\<lparr>header_valid := True\<rparr>
      | Some f \<Rightarrow> (case f m of (v, m) \<Rightarrow> m\<lparr>header_valid := v \<noteq> 0\<rparr>))"

definition fill_header :: "'x dada_pwc_main_t \<Rightarrow> (int, 'x) pm" where
  "fill_header m = on_hdr (\<lambda>r p. ipcbuf_mark_filled r p (ucast (pm_header_size m))) m"

text \<open>Handing over the header, if it is valid now.\<close>

definition fill_if_valid :: "'x pwc_main_functions \<Rightarrow> 'x dada_pwc_main_t \<Rightarrow> (int, 'x) pm" where
  "fill_if_valid F m =
     (let m = header_is_valid F m in if header_valid m then fill_header m else Some (0, m))"

text \<open>A look at the queue: taking a command sleeps until there is one.\<close>

definition next_turn :: "(nat \<Rightarrow> 'x dada_pwc_main_t \<Rightarrow> 'x dada_pwc_main_t) \<Rightarrow> 'x dada_pwc_main_t \<Rightarrow> 'x dada_pwc_main_t" where
  "next_turn env m = (env (turn m) m)\<lparr>turn := turn m + 1\<rparr>"

definition take_command :: "'x dada_pwc_main_t \<Rightarrow> 'x dada_pwc_main_t option" where
  "take_command m = do { (c, p) \<leftarrow> dada_pwc_command_get (pwc m); Some (m\<lparr>pwc := p, pm_command := c\<rparr>) }"

section \<open>Idle and prepared\<close>

partial_function (option) prepare_loop ::
    "(nat \<Rightarrow> 'x dada_pwc_main_t \<Rightarrow> 'x dada_pwc_main_t) \<Rightarrow> 'x dada_pwc_main_t \<Rightarrow> (int, 'x) pm" where
  "prepare_loop env m =
     (if dada_pwc_quit (pwc m) then Some (0, m)
      else do {
        m \<leftarrow> take_command (next_turn env m);
        if dada_pwc_quit (pwc m) then Some (0, m)
        else if code (pm_command m) = dada_pwc_reset then prepare_loop env (snd (to_state dada_pwc_idle 0 m))
        else if code (pm_command m) = dada_pwc_header
        then do {
          m \<leftarrow> (if pm_hdr m = None then Some m
               else if \<not> with_header (pm_command m) then None
               else do { h \<leftarrow> header (pwc m); header_copy h m });
          prepare_loop env (snd (to_state dada_pwc_prepared 0 m))
        }
        else if code (pm_command m) = dada_pwc_clock
        then if byte_count (pm_command m) \<noteq> 0 then Some (DADA_ERROR_SOFT, m)
             else do {
               (rc, m) \<leftarrow> on_stream_if 0 (\<lambda>r c. ipcio_open r c CHR ''w'') m;
               Some (if rc < 0 then DADA_ERROR_HARD else 0, m)
             }
        else if code (pm_command m) = dada_pwc_start
        then do {
          (rc, m) \<leftarrow> on_stream_if 0 (\<lambda>r c. ipcio_open r c CHR ''W'') m;
          Some (if rc < 0 then DADA_ERROR_HARD else 0, m)
        }
        else if code (pm_command m) = dada_pwc_stop then prepare_loop env (snd (to_state dada_pwc_idle 0 m))
        else Some (DADA_ERROR_HARD, m)
      })"

definition dada_pwc_main_prepare ::
    "(nat \<Rightarrow> 'x dada_pwc_main_t \<Rightarrow> 'x dada_pwc_main_t) \<Rightarrow> 'x dada_pwc_main_t \<Rightarrow> (int, 'x) pm" where
  "dada_pwc_main_prepare env m =
     do {
       (ok, m) \<leftarrow>
         (if pm_hdr m = None then Some (True, m)
          else do {
            (b, m) \<leftarrow> on_hdr ipcbuf_get_next_write (m\<lparr>pm_header_size := ucast (ipcbuf_get_bufsz (header_ring m))\<rparr>);
            Some (b \<noteq> None, m\<lparr>pm_header := map_option (\<lambda>b. (b, 0)) b\<rparr>)
          });
       if \<not> ok then Some (DADA_ERROR_HARD, m)
       else do {
         (rc, m) \<leftarrow> on_stream_if 0 (\<lambda>r c. if ipcio_is_open c then ipcio_close r c else Some (0, r, c)) m;
         if rc < 0 then Some (DADA_ERROR_HARD, m) else prepare_loop env m
       }
     }"

section \<open>Starting\<close>

text \<open>The header is handed over at a start; when clocking, recording hands it over.\<close>

definition dada_pwc_main_start_transfer :: "'x pwc_main_functions \<Rightarrow> 'x dada_pwc_main_t \<Rightarrow> (int, 'x) pm" where
  "dada_pwc_main_start_transfer F m =
     (case start_function F m (utc (pm_command m)) of
        (t, m) \<Rightarrow>
          if t < 0 then Some (DADA_ERROR_HARD, m)
          else do {
            (rc, m) \<leftarrow>
              (if pm_hdr m = None then Some (0, m)
               else do {
                 m \<leftarrow> header_put ''UTC_START'' (if t = 0 then ''UNKNOWN'' else utc_of t) m;
                 let m = (if 0 < t then m\<lparr>pwc := (pwc m)\<lparr>utc_start := t\<rparr>\<rparr> else m);
                 if code (pm_command m) = dada_pwc_start then fill_if_valid F m else Some (0, m)
               });
            if rc < 0 then Some (DADA_ERROR_HARD, m)
            else do {
              (_, m) \<leftarrow> on_stream (\<lambda>r c. case ipcbuf_set_soclock_buf r (buf c) of (n, p) \<Rightarrow> Some (n, r, c\<lparr>buf := p\<rparr>)) m;
              Some (if code (pm_command m) = dada_pwc_clock then to_state dada_pwc_clocking t m
                    else if code (pm_command m) = dada_pwc_start then to_state dada_pwc_recording t m
                    else (DADA_ERROR_HARD, m))
            }
          })"

section \<open>From clocking to recording\<close>

text \<open>The byte recording starts at: the one asked for, or the first that is still in the ring.\<close>

definition record_start_byte :: "'x dada_pwc_main_t \<Rightarrow> (u64 \<times> 'x dada_pwc_main_t) option" where
  "record_start_byte m =
     do {
       c \<leftarrow> pm_data m;
       let first = ipcio_get_start_minimum (data_ring m) c;
       let zero = ipcio_get_soclock_byte (data_ring m) c;
       let start = zero + byte_count (pm_command m);
       Some (if start < first
             then (first, m\<lparr>pm_command := (pm_command m)\<lparr>byte_count := first - zero\<rparr>\<rparr>)
             else (start, m))
     }"

definition next_header_block :: "'x dada_pwc_main_t \<Rightarrow> 'x dada_pwc_main_t option" where
  "next_header_block m =
     do {
       (b, m) \<leftarrow> on_hdr ipcbuf_get_next_write m;
       let b = map_option (\<lambda>b. (b, 0)) b;
       if b = pm_header m then Some m
       else do {
         old \<leftarrow> pm_header m;
         new \<leftarrow> b;
         let n = ucast (pm_header_size m);
         let r = put_bytes new 0 (get_bytes old 0 n (header_ring m)) (header_ring m);
         Some (m\<lparr>header_ring := r, pm_header := Some new\<rparr>)
       }
     }"

definition dada_pwc_main_record_start :: "'x pwc_main_functions \<Rightarrow> 'x dada_pwc_main_t \<Rightarrow> (int, 'x) pm" where
  "dada_pwc_main_record_start F m =
     do {
       (start, m) \<leftarrow> record_start_byte m;
       m \<leftarrow> next_header_block m;
       m \<leftarrow> header_put ''UTC_START'' (utc_of (utc (pm_command m))) m;
       m \<leftarrow> header_put ''OBS_OFFSET'' (decimal 0) m;
       (rc, m) \<leftarrow> on_stream (\<lambda>r c. ipcio_start r c start) m;
       if rc < 0 then Some (DADA_ERROR_HARD, m)
       else if header_valid m then Some (0, m)
       else
         let m = header_is_valid F m
         in if \<not> header_valid m then Some (DADA_ERROR_HARD, m)
            else do { (rc, m) \<leftarrow> fill_header m; Some (if rc < 0 then DADA_ERROR_HARD else 0, m) }
     }"

section \<open>The next transfer of an observation\<close>

text \<open>
  At the end of a transfer both rings are closed and opened again, the header goes on into
  its next sub-block, and at the end of the observation one more byte is written. The results \<open>- 1\<close> and
  less are errors, but a failure of the data block is \<open>- 3\<close>.
\<close>

definition next_xfer :: "'x pwc_main_functions \<Rightarrow> ('x dada_pwc_main_t \<Rightarrow> int \<times> 'x dada_pwc_main_t) \<Rightarrow> u64
    \<Rightarrow> 'x dada_pwc_main_t \<Rightarrow> (int, 'x) pm" where
  "next_xfer F pend buf_bytes m =
     do {
       (rc, m) \<leftarrow> on_stream (\<lambda>r c. case ipcio_update_block_write r c buf_bytes of (rc, c) \<Rightarrow> Some (rc, r, c)) m;
       if rc < 0 then Some (DADA_ERROR_FATAL, m)
       else do {
         old \<leftarrow> pm_header m;
         let last_header = get_bytes old 0 (ucast (pm_header_size m)) (header_ring m);
         (rc, m) \<leftarrow> on_stream ipcio_close m;
         if rc < 0 then Some (- 2, m)
         else do {
           (rc, m) \<leftarrow> on_hdr ipcbuf_unlock_write m;
           if rc < 0 then Some (- 2, m)
           else do {
             (rc, m) \<leftarrow> on_hdr ipcbuf_lock_write m;
             if rc < 0 then Some (- 2, m)
             else do {
               (rc, m) \<leftarrow> on_stream (\<lambda>r c. ipcio_open r c CHR ''W'') m;
               if rc < 0 then Some (- 2, m)
               else do {
                 (b, m) \<leftarrow> on_hdr ipcbuf_get_next_write m;
                 b \<leftarrow> b;
                 new_xfer \<leftarrow> new_xfer_function F;
                 let m = m\<lparr>pm_header := Some (b, 0), header_ring := put_bytes (b, 0) 0 last_header (header_ring m)\<rparr>;
                 let (first_byte, m) = new_xfer m;
                 (rc, m) \<leftarrow> fill_header m;
                 if rc < 0 then Some (- 2, m)
                 else case pend m of
                        (xfer_status, m) \<Rightarrow>
                          if xfer_status = DADA_OBS_ENDING
                          then do {
                            (rc, m) \<leftarrow> on_stream (\<lambda>r c. ipcio_write r c [byte_of_char (CHR ''0'')]) m;
                            Some (if rc \<noteq> 1 then - 2 else c_int64 first_byte, m)
                          }
                          else Some (c_int64 first_byte, m)
               }
             }
           }
         }
       }
     }"

definition dada_pwc_main_process_xfer ::
    "'x pwc_main_functions \<Rightarrow> u64 \<Rightarrow> 'x dada_pwc_main_t \<Rightarrow> (int, 'x) pm" where
  "dada_pwc_main_process_xfer F buf_bytes m =
     do {
       pend \<leftarrow> xfer_pending_function F;
       let (xfer_status, m) = pend m;
       if xfer_status = DADA_XFER_NORMAL
       then do {
         (rc, m) \<leftarrow> on_stream (\<lambda>r c. ipcio_close_block_write r c buf_bytes) m;
         Some (if rc < 0 then DADA_ERROR_FATAL else 0, m)
       }
       else if xfer_status = DADA_OBS_ENDING then Some (0, m)
       else next_xfer F pend buf_bytes m
     }"

section \<open>Clocking and recording through a buffer\<close>

text \<open>The local variables of the loop. A step returns \<open>Inl\<close> the result of the loop, or \<open>Inr\<close> the variables.\<close>

record progress =
  total_bytes_written :: u64
  transit_byte :: u64
  bytes_to_write :: u64
  buf_bytes :: u64
  buffer :: "address option"
  buffer_size :: int
  data_transfer_error_state :: u64
  utc_start_set :: bool

type_synonym 'x step = "(int + progress, 'x) pm"

text \<open>The bytes at an address, and the address further on.\<close>

definition bytes_at :: "address option \<Rightarrow> u64 \<Rightarrow> byte list option" where
  "bytes_at a n = (case a of None \<Rightarrow> if n = 0 then Some [] else None | Some f \<Rightarrow> Some (map f [0..<unat n]))"

definition advance :: "address option \<Rightarrow> u64 \<Rightarrow> address option" where
  "advance a n = map_option (\<lambda>f i. f (unat n + i)) a"

text \<open>A start time that comes later goes into the header, which is handed over when recording.\<close>

definition late_utc_start :: "'x pwc_main_functions \<Rightarrow> progress \<Rightarrow> 'x dada_pwc_main_t \<Rightarrow> 'x step" where
  "late_utc_start F s m =
     (if utc (pm_command m) \<le> 0 then None
      else if utc_start_set s then Some (Inr s, m)
      else do {
        m \<leftarrow> header_put ''UTC_START'' (utc_of (utc (pm_command m))) m;
        (rc, m) \<leftarrow> (if pstate (pwc m) = dada_pwc_recording then fill_if_valid F m else Some (0, m));
        Some (if rc < 0 then Inl DADA_ERROR_HARD else Inr (s\<lparr>utc_start_set := True\<rparr>), m)
      })"

definition is_transition :: "dada_pwc_code \<Rightarrow> bool" where
  "is_transition c \<longleftrightarrow> c = dada_pwc_record_stop \<or> c = dada_pwc_record_start \<or> c = dada_pwc_stop"

text \<open>The other commands set the byte at which they take effect; that of one overdue is the present byte,
  and at least the first.\<close>

definition set_transit :: "u64 \<Rightarrow> progress \<Rightarrow> progress" where
  "set_transit n s =
     (if total_bytes_written s < n
      then s\<lparr>transit_byte := n, bytes_to_write := n - total_bytes_written s\<rparr>
      else let s = (if total_bytes_written s = 0 then s\<lparr>total_bytes_written := 1\<rparr> else s)
           in s\<lparr>transit_byte := total_bytes_written s, bytes_to_write := 0\<rparr>)"

definition next_command :: "'x pwc_main_functions \<Rightarrow> progress \<Rightarrow> 'x dada_pwc_main_t \<Rightarrow> 'x step" where
  "next_command F s m =
     (if dada_pwc_command_check (pwc m) = 0 then Some (Inr s, m)
      else do {
        m \<leftarrow> take_command m;
        if code (pm_command m) = dada_pwc_set_utc_start then late_utc_start F s m
        else if is_transition (code (pm_command m)) then Some (Inr (set_transit (byte_count (pm_command m)) s), m)
        else Some (Inl DADA_ERROR_HARD, m)
      })"

text \<open>An empty buffer is the end of a transfer, or an error that may pass.\<close>

definition no_data :: "'x pwc_main_functions \<Rightarrow> progress \<Rightarrow> 'x dada_pwc_main_t \<Rightarrow> 'x step" where
  "no_data F s m =
     (if xfer_pending_function F \<noteq> None
      then do {
        (first_byte, m) \<leftarrow> dada_pwc_main_process_xfer F 0 m;
        Some (if first_byte = - 2 then Inl DADA_ERROR_HARD
              else if first_byte = - 1 then Inl 0
              else if first_byte = 0 then Inr s
              else Inr (s\<lparr>total_bytes_written := word_of_int first_byte\<rparr>), m)
      }
      else
        let (e, m) = (case error_function F of None \<Rightarrow> (2, m) | Some f \<Rightarrow> f m);
            s = s\<lparr>data_transfer_error_state := word_of_int e\<rparr>
        in if data_transfer_error_state s = 2
           then do {
             d \<leftarrow> bytes_at (buffer s) 1;
             (_, m) \<leftarrow> on_stream (\<lambda>r c. ipcio_write r c d) m;
             Some (Inl DADA_ERROR_HARD, m)
           }
           else Some (Inr s, m))"

text \<open>A header that was not valid before is handed over as soon as it is, while recording.\<close>

definition recheck_header :: "'x pwc_main_functions \<Rightarrow> 'x dada_pwc_main_t \<Rightarrow> (int, 'x) pm" where
  "recheck_header F m =
     (if header_valid m \<or> pstate (pwc m) \<noteq> dada_pwc_recording then Some (0, m)
      else do {
        f \<leftarrow> header_valid_function F;
        let (v, m) = f m;
        let m = m\<lparr>header_valid := v \<noteq> 0\<rparr>;
        if header_valid m then fill_header m else Some (0, m)
      })"

text \<open>Up to the byte of the next transition, and not without a start time when the ring is full.\<close>

definition write_buffer :: "progress \<Rightarrow> 'x dada_pwc_main_t \<Rightarrow> 'x step" where
  "write_buffer s m =
     (let n = word_of_int (buffer_size s);
          n = (if transit_byte s \<noteq> 0 \<and> bytes_to_write s < n then bytes_to_write s else n);
          s' = s\<lparr>buf_bytes := n, total_bytes_written := total_bytes_written s + n,
                 bytes_to_write := (if bytes_to_write s = 0 then 0 else bytes_to_write s - n)\<rparr>
      in case pm_data m of
           None \<Rightarrow> Some (Inr s', m)
         | Some c \<Rightarrow>
             if \<not> utc_start_set s \<and> word_of_int (ipcio_space_left (data_ring m) c) < n
             then Some (Inl DADA_ERROR_FATAL, m)
             else do {
               d \<leftarrow> bytes_at (buffer s) n;
               (rc, m) \<leftarrow> on_stream (\<lambda>r c. ipcio_write r c d) m;
               Some (if rc < 0 \<or> word_of_int rc < n then Inl DADA_ERROR_FATAL else Inr s', m)
             })"

definition next_buffer :: "'x pwc_main_functions \<Rightarrow> progress \<Rightarrow> 'x dada_pwc_main_t \<Rightarrow> 'x step" where
  "next_buffer F s m =
     (if transit_byte s \<noteq> 0 \<and> bytes_to_write s = 0 then Some (Inr s, m)
      else
        let ((a, n), m) = buffer_function F m;
            s = s\<lparr>buffer := a, buffer_size := n\<rparr>
        in if n < 0 then Some (Inl n, m)
           else do {
             let s = (if n \<noteq> 0 then s\<lparr>data_transfer_error_state := 0\<rparr> else s);
             (res, m) \<leftarrow> (if n = 0 then no_data F s m else Some (Inr s, m));
             case res of
               Inl rc \<Rightarrow> Some (Inl rc, m)
             | Inr s \<Rightarrow>
                 if buffer s = None then Some (Inl DADA_ERROR_HARD, m)
                 else do {
                   (rc, m) \<leftarrow> recheck_header F m;
                   if rc < 0 then Some (Inl DADA_ERROR_HARD, m) else write_buffer s m
                 }
           })"

text \<open>The transition itself. At a stop the last transfer is ended with \<open>n\<close> bytes, whatever comes of it.\<close>

definition change_state :: "'x pwc_main_functions \<Rightarrow> u64 \<Rightarrow> progress \<Rightarrow> 'x dada_pwc_main_t \<Rightarrow> 'x step" where
  "change_state F n s m =
     (case code (pm_command m) of
        dada_pwc_record_stop \<Rightarrow> do {
          (rc, m) \<leftarrow> on_stream_if 0 ipcio_stop m;
          Some (if rc < 0 then (Inl DADA_ERROR_FATAL, m) else (Inr s, snd (to_state dada_pwc_clocking 0 m)))
        }
      | dada_pwc_record_start \<Rightarrow> do {
          (rc, m) \<leftarrow> dada_pwc_main_record_start F m;
          Some (if rc < 0 then (Inl DADA_ERROR_HARD, m) else (Inr s, snd (to_state dada_pwc_recording 0 m)))
        }
      | dada_pwc_stop \<Rightarrow> do {
          (_, m) \<leftarrow> (if xfer_pending_function F = None then Some (0, m) else dada_pwc_main_process_xfer F n m);
          Some (Inl 0, m)
        }
      | c \<Rightarrow> Some (if (c = dada_pwc_set_utc_start \<or> c = dada_pwc_clock \<or> c = dada_pwc_start) \<and> total_bytes_written s = 0
                  then Inr s else Inl DADA_ERROR_HARD, m))"

text \<open>What is left in the buffer belongs behind the transition. The result of writing it is compared as an
  unsigned number.\<close>

definition rest_of_buffer :: "progress \<Rightarrow> byte list option" where
  "rest_of_buffer s = bytes_at (advance (buffer s) (buf_bytes s)) (word_of_int (buffer_size s) - buf_bytes s)"

definition write_rest :: "progress \<Rightarrow> 'x dada_pwc_main_t \<Rightarrow> 'x step" where
  "write_rest s m =
     (let n = word_of_int (buffer_size s) - buf_bytes s;
          s' = s\<lparr>buffer := advance (buffer s) (buf_bytes s), buf_bytes := n\<rparr>
      in case pm_data m of
           None \<Rightarrow> Some (Inr s', m)
         | Some c \<Rightarrow>
             if n = 0 then Some (Inr s', m)
             else if word_of_int (ipcio_space_left (data_ring m) c) < n \<and> \<not> utc_start_set s
             then Some (Inl DADA_ERROR_FATAL, m)
             else do {
               d \<leftarrow> rest_of_buffer s;
               (rc, m) \<leftarrow> on_stream (\<lambda>r c. ipcio_write r c d) m;
               Some (if (word_of_int rc :: u64) < n then Inl DADA_ERROR_FATAL
                     else Inr (s'\<lparr>total_bytes_written := total_bytes_written s + n\<rparr>), m)
             })"

definition reached :: "progress \<Rightarrow> bool" where
  "reached s \<longleftrightarrow> transit_byte s \<noteq> 0 \<and> transit_byte s \<le> total_bytes_written s"

definition transition :: "'x pwc_main_functions \<Rightarrow> progress \<Rightarrow> 'x dada_pwc_main_t \<Rightarrow> 'x step" where
  "transition F s m =
     (if \<not> reached s then Some (Inr s, m)
      else do {
        (res, m) \<leftarrow> change_state F 2 (s\<lparr>transit_byte := 0\<rparr>) m;
        case res of Inl rc \<Rightarrow> Some (Inl rc, m) | Inr s \<Rightarrow> write_rest s m
      })"

definition and_then :: "'x step \<Rightarrow> (progress \<Rightarrow> 'x dada_pwc_main_t \<Rightarrow> 'x step) \<Rightarrow> 'x step" where
  "and_then r f = do { (res, m) \<leftarrow> r; case res of Inl rc \<Rightarrow> Some (Inl rc, m) | Inr s \<Rightarrow> f s m }"

definition transfer_round :: "'x pwc_main_functions \<Rightarrow> progress \<Rightarrow> 'x dada_pwc_main_t \<Rightarrow> 'x step" where
  "transfer_round F s m = and_then (and_then (next_command F s m) (next_buffer F)) (transition F)"

partial_function (option) transfer_loop ::
    "(progress \<Rightarrow> 'x dada_pwc_main_t \<Rightarrow> 'x step) \<Rightarrow> (nat \<Rightarrow> 'x dada_pwc_main_t \<Rightarrow> 'x dada_pwc_main_t) \<Rightarrow> progress
     \<Rightarrow> 'x dada_pwc_main_t \<Rightarrow> (int, 'x) pm" where
  "transfer_loop round env s m =
     (let m = next_turn env m in
      if dada_pwc_quit (pwc m) \<or> 1 < data_transfer_error_state s then Some (0, m)
      else do {
        (res, m) \<leftarrow> round s m;
        case res of Inl rc \<Rightarrow> Some (rc, m) | Inr s \<Rightarrow> transfer_loop round env s m
      })"

text \<open>The loop starts with the byte count of the command that led here.\<close>

definition start_progress :: "u64 \<Rightarrow> u64 \<Rightarrow> bool \<Rightarrow> progress" where
  "start_progress first n known =
     \<lparr>total_bytes_written = first, transit_byte = n, bytes_to_write = n, buf_bytes = 0, buffer = None,
      buffer_size = 0, data_transfer_error_state = 0, utc_start_set = known\<rparr>"

definition enter_transfer ::
    "'x pwc_main_functions \<Rightarrow> (progress \<Rightarrow> 'x dada_pwc_main_t \<Rightarrow> 'x step) \<Rightarrow> (nat \<Rightarrow> 'x dada_pwc_main_t \<Rightarrow> 'x dada_pwc_main_t)
     \<Rightarrow> 'x dada_pwc_main_t \<Rightarrow> (int, 'x) pm" where
  "enter_transfer F round env m =
     (let (first, m) = (case new_xfer_function F of None \<Rightarrow> (0, m) | Some f \<Rightarrow> f m)
      in do {
        h \<leftarrow> header_string m;
        let (rc, v) = ascii_header_get h ''UTC_START'' sscanf_s;
        if rc < 0 then Some (DADA_ERROR_HARD, m)
        else transfer_loop round env (start_progress first (byte_count (pm_command m)) (v \<noteq> Some ''UNKNOWN'')) m
      })"

definition dada_pwc_main_transfer_data ::
    "'x pwc_main_functions \<Rightarrow> (nat \<Rightarrow> 'x dada_pwc_main_t \<Rightarrow> 'x dada_pwc_main_t) \<Rightarrow> 'x dada_pwc_main_t \<Rightarrow> (int, 'x) pm" where
  "dada_pwc_main_transfer_data F = enter_transfer F (transfer_round F)"

section \<open>Clocking and recording by sub-blocks\<close>

text \<open>Here a command that is overdue takes effect at the present byte, whatever it is.\<close>

definition set_transit_block :: "u64 \<Rightarrow> progress \<Rightarrow> progress" where
  "set_transit_block n s =
     (if total_bytes_written s < n
      then s\<lparr>transit_byte := n, bytes_to_write := n - total_bytes_written s\<rparr>
      else s\<lparr>transit_byte := total_bytes_written s, bytes_to_write := 0\<rparr>)"

definition next_command_block :: "'x pwc_main_functions \<Rightarrow> progress \<Rightarrow> 'x dada_pwc_main_t \<Rightarrow> 'x step" where
  "next_command_block F s m =
     (if dada_pwc_command_check (pwc m) = 0 then Some (Inr s, m)
      else do {
        m \<leftarrow> take_command m;
        if code (pm_command m) = dada_pwc_set_utc_start then late_utc_start F s m
        else if is_transition (code (pm_command m)) then Some (Inr (set_transit_block (byte_count (pm_command m)) s), m)
        else Some (Inl DADA_ERROR_HARD, m)
      })"

text \<open>The sub-block is closed, or the state of the transfer looked at; the last bytes before a transition
  are announced to the program.\<close>

definition end_block ::
    "'x pwc_main_functions \<Rightarrow> ('x dada_pwc_main_t \<Rightarrow> u64 \<Rightarrow> u64 \<Rightarrow> (int \<times> byte list) \<times> 'x dada_pwc_main_t) \<Rightarrow> u64
     \<Rightarrow> progress \<Rightarrow> 'x dada_pwc_main_t \<Rightarrow> 'x step" where
  "end_block F f ident s m =
     (if xfer_pending_function F = None
      then do {
        (rc, m) \<leftarrow> on_stream (\<lambda>r c. ipcio_close_block_write r c (buf_bytes s)) m;
        Some (if rc < 0 then Inl DADA_ERROR_FATAL else Inr s, m)
      }
      else
        let m = (if transit_byte s \<noteq> 0 \<and> transit_byte s = total_bytes_written s then snd (f m 0 ident) else m)
        in do {
          (first_byte, m) \<leftarrow> dada_pwc_main_process_xfer F (buf_bytes s) m;
          Some (if first_byte = 0 then Inr s
                else if first_byte < 0 then Inl DADA_ERROR_HARD
                else Inr (s\<lparr>total_bytes_written := word_of_int first_byte\<rparr>), m)
        })"

definition fill_block ::
    "'x pwc_main_functions \<Rightarrow> ('x dada_pwc_main_t \<Rightarrow> u64 \<Rightarrow> u64 \<Rightarrow> (int \<times> byte list) \<times> 'x dada_pwc_main_t) \<Rightarrow> ptr \<times> u64
     \<Rightarrow> progress \<Rightarrow> 'x dada_pwc_main_t \<Rightarrow> 'x step" where
  "fill_block F f b s m =
     (let block_size = ipcbuf_get_bufsz (data_ring m);
          ((n, d), m) = f m block_size (snd b);
          m = m\<lparr>data_ring := put_bytes (fst b) 0 d (data_ring m)\<rparr>
      in if n < 0
         then do {
           (_, m) \<leftarrow> on_stream (\<lambda>r c. ipcio_close_block_write r c 0) m;
           Some (Inl DADA_ERROR_FATAL, m)
         }
         else if int (unat block_size) < n
         then do {
           (_, m) \<leftarrow> on_stream (\<lambda>r c. ipcio_close_block_write r c block_size) m;
           Some (Inl DADA_ERROR_FATAL, m)
         }
         else
           let k = word_of_int n;
               k = (if transit_byte s \<noteq> 0 \<and> bytes_to_write s < k then bytes_to_write s else k)
           in end_block F f (snd b)
                (s\<lparr>buf_bytes := k, total_bytes_written := total_bytes_written s + k,
                   bytes_to_write := (if bytes_to_write s = 0 then 0 else bytes_to_write s - k)\<rparr>) m)"

definition next_block :: "'x pwc_main_functions \<Rightarrow> progress \<Rightarrow> 'x dada_pwc_main_t \<Rightarrow> 'x step" where
  "next_block F s m =
     (let s = s\<lparr>buf_bytes := 0\<rparr> in
      if transit_byte s \<noteq> 0 \<and> bytes_to_write s = 0 then Some (Inr s, m)
      else do {
        f \<leftarrow> block_function F;
        (b, m) \<leftarrow> on_stream ipcio_open_block_write m;
        case b of
          None \<Rightarrow> Some (Inl DADA_ERROR_FATAL, m)
        | Some (b, ident) \<Rightarrow>
            and_then (fill_block F f (b, ident) s m) (\<lambda>s m. do {
              (rc, m) \<leftarrow> recheck_header F m;
              Some (if rc < 0 then Inl DADA_ERROR_HARD else Inr s, m)
            })
      })"

definition transition_block :: "'x pwc_main_functions \<Rightarrow> progress \<Rightarrow> 'x dada_pwc_main_t \<Rightarrow> 'x step" where
  "transition_block F s m =
     (if \<not> reached s then Some (Inr s, m) else change_state F (buf_bytes s) (s\<lparr>transit_byte := 0\<rparr>) m)"

definition block_round :: "'x pwc_main_functions \<Rightarrow> progress \<Rightarrow> 'x dada_pwc_main_t \<Rightarrow> 'x step" where
  "block_round F s m = and_then (and_then (next_command_block F s m) (next_block F)) (transition_block F)"

definition dada_pwc_main_transfer_data_block ::
    "'x pwc_main_functions \<Rightarrow> (nat \<Rightarrow> 'x dada_pwc_main_t \<Rightarrow> 'x dada_pwc_main_t) \<Rightarrow> 'x dada_pwc_main_t \<Rightarrow> (int, 'x) pm" where
  "dada_pwc_main_transfer_data_block F = enter_transfer F (block_round F)"

section \<open>Stopping, errors and the main loop\<close>

definition is_error_state :: "dada_pwc_state_t \<Rightarrow> bool" where
  "is_error_state s \<longleftrightarrow> s = dada_pwc_soft_error \<or> s = dada_pwc_hard_error \<or> s = dada_pwc_fatal_error"

definition dada_pwc_main_stop_transfer :: "'x pwc_main_functions \<Rightarrow> 'x dada_pwc_main_t \<Rightarrow> (int, 'x) pm" where
  "dada_pwc_main_stop_transfer F m =
     (case stop_function F (m\<lparr>header_valid := False\<rparr>) of
        (rc, m) \<Rightarrow>
          if rc < 0 then Some (DADA_ERROR_HARD, m)
          else do {
            (rc, m) \<leftarrow> on_stream_if 0 ipcio_close m;
            if rc < 0 then Some (DADA_ERROR_FATAL, m)
            else Some (0, if is_error_state (pstate (pwc m)) then m else snd (to_state dada_pwc_idle 0 m))
          })"

definition error_state :: "int \<Rightarrow> dada_pwc_state_t \<Rightarrow> dada_pwc_state_t" where
  "error_state rval s =
     (if rval = DADA_ERROR_SOFT
      then if s \<noteq> dada_pwc_hard_error \<and> s \<noteq> dada_pwc_fatal_error then dada_pwc_soft_error else s
      else if rval = DADA_ERROR_HARD
      then if s \<noteq> dada_pwc_fatal_error then dada_pwc_hard_error else s
      else dada_pwc_fatal_error)"

definition dada_pwc_main_process_error :: "int \<Rightarrow> 'x dada_pwc_main_t \<Rightarrow> 'x dada_pwc_main_t" where
  "dada_pwc_main_process_error rval m = snd (to_state (error_state rval (pstate (pwc m))) 0 m)"

definition note_error :: "int \<Rightarrow> 'x dada_pwc_main_t \<Rightarrow> 'x dada_pwc_main_t" where
  "note_error rval m = (if rval < 0 then dada_pwc_main_process_error rval m else m)"

text \<open>The missing functions the source asks for first are taken to be there.\<close>

definition transfer_once ::
    "'x pwc_main_functions \<Rightarrow> (nat \<Rightarrow> 'x dada_pwc_main_t \<Rightarrow> 'x dada_pwc_main_t) \<Rightarrow> 'x dada_pwc_main_t \<Rightarrow> (int, 'x) pm" where
  "transfer_once F env m =
     do {
       (rval, m) \<leftarrow> dada_pwc_main_start_transfer F m;
       m \<leftarrow> (if rval < 0 then Some (note_error rval m)
            else do {
              (rval, m) \<leftarrow> (if block_function F = None then dada_pwc_main_transfer_data F env m
                            else dada_pwc_main_transfer_data_block F env m);
              Some (note_error rval m)
            });
       (rval, m) \<leftarrow> dada_pwc_main_stop_transfer F m;
       Some (rval, note_error rval m)
     }"

partial_function (option) dada_pwc_main_loop ::
    "'x pwc_main_functions \<Rightarrow> (nat \<Rightarrow> 'x dada_pwc_main_t \<Rightarrow> 'x dada_pwc_main_t) \<Rightarrow> int \<Rightarrow> 'x dada_pwc_main_t \<Rightarrow> (int, 'x) pm" where
  "dada_pwc_main_loop F env rval m =
     (if dada_pwc_quit (pwc m) then Some (rval, m)
      else do {
        (rval, m) \<leftarrow> dada_pwc_main_prepare env m;
        if dada_pwc_quit (pwc m) then Some (rval, m)
        else do {
          (rval, m) \<leftarrow> (if rval < 0 then Some (rval, note_error rval m) else transfer_once F env m);
          let m = (if pstate (pwc m) = dada_pwc_fatal_error then m\<lparr>pwc := (pwc m)\<lparr>quit := True\<rparr>\<rparr> else m);
          dada_pwc_main_loop F env rval m
        }
      })"

definition dada_pwc_main ::
    "'x pwc_main_functions \<Rightarrow> (nat \<Rightarrow> 'x dada_pwc_main_t \<Rightarrow> 'x dada_pwc_main_t) \<Rightarrow> 'x dada_pwc_main_t \<Rightarrow> (int, 'x) pm" where
  "dada_pwc_main F env = dada_pwc_main_loop F env 0"

end
