(* ===== verification/Bpsr_Udpdb.thy ===== *)
theory Bpsr_Udpdb
  imports Udp_Headers Pwc_Main
begin

text \<open>
  The program that puts the packets of the BPSR spectrometers into a unit (\<^verbatim>\<open>src/bpsr/src/bpsr_udpdb.c\<close>,
  \<^verbatim>\<open>bpsr_udpdb.h\<close>): the functions it gives to the main loop of the acquiring program, above all the one that
  collects the packets of a block. What the socket brings is a list of events. The socket's own calls, the clock, the
  messages and the percentages they show are left out; \<open>None\<close> is a call that does not return: it waits for a packet, an
  assertion fails, it divides by zero or writes outside a buffer.
\<close>

section \<open>The state\<close>

text \<open>
  A second without a packet, a packet, of which \<open>recvfrom\<close> keeps as many bytes as it is asked for, or an error, for which it
  returns \<open>-1\<close>.
\<close>

datatype socket_event = Quiet | Datagram "byte list" | Receive_error

record stats =
  st_received :: u64
  st_dropped :: u64
  st_received_per_sec :: u64
  st_dropped_per_sec :: u64

definition init_stats :: stats where
  "init_stats = \<lparr>st_received = 0, st_dropped = 0, st_received_per_sec = 0, st_dropped_per_sec = 0\<rparr>"

record udpdb =
  sock_buf :: "byte list"
  packet_header_size :: u64
  packet_data_size :: u64
  packet_payload_size :: u64
  block_size :: u64
  packets_per_block :: u64
  next_buffer :: "byte list"
  curr_buffer :: "byte list"
  packet_in_buffer :: bool
  curr_buffer_count :: u64
  next_buffer_count :: u64
  received :: u64
  expected_sequence_no :: u64
  curr_sequence_no :: u64
  min_sequence :: u64
  mid_sequence :: u64
  max_sequence :: u64
  acc_len :: u64
  sequence_incr :: u64
  spectra_per_second :: u64
  bytes_per_second :: u64
  packets :: stats
  pkt_bytes :: stats
  error_seconds :: u64
  prev_seq :: u64

section \<open>Starting\<close>

definition zeros :: "u64 \<Rightarrow> byte list" where
  "zeros n = replicate (unat n) 0"

text \<open>
  \<open>acc\<close> is the accumulation length. It is read as a C \<open>int\<close> into a field of 64 bits, whose upper half stays what it was. The
  rates are only shown. (The header also gets the
  name of the host, and the default of the accumulation length when it has none.)
\<close>

definition BPSR_DEFAULT_ACC_LEN :: int where "BPSR_DEFAULT_ACC_LEN = 25"
definition BPSR_IBOB_CLOCK :: u64 where "BPSR_IBOB_CLOCK = 400"
definition BPSR_IBOB_NCHANNELS :: u64 where "BPSR_IBOB_NCHANNELS = 1024"

definition udpdb_start :: "int option \<Rightarrow> udpdb \<Rightarrow> udpdb option" where
  "udpdb_start header_acc_len u =
     (let acc = (case header_acc_len of
                  Some n \<Rightarrow> push_bit 32 (drop_bit 32 (acc_len u)) OR ucast (word_of_int n :: u32)
                | None \<Rightarrow> word_of_int BPSR_DEFAULT_ACC_LEN)
      in if acc = 0 then None
         else
           let spectra = (BPSR_IBOB_CLOCK * 1000000 div acc) div BPSR_IBOB_NCHANNELS
           in Some (u\<lparr>packets := init_stats, pkt_bytes := init_stats, error_seconds := 5, packet_in_buffer := False,
                      curr_buffer_count := 0, next_buffer_count := 0, acc_len := acc, sequence_incr := 512 * acc,
                      spectra_per_second := spectra, bytes_per_second := spectra * packet_data_size u,
                      curr_buffer := zeros (block_size u), next_buffer := zeros (block_size u),
                      expected_sequence_no := 0, prev_seq := 0\<rparr>))"

text \<open>The header is valid when it has a start time that is known; without one the test reads an uninitialised array.\<close>

definition udpdb_header_valid :: "string \<Rightarrow> bool option" where
  "udpdb_header_valid hdr =
     (case ascii_header_get hdr ''UTC_START'' sscanf_s of
        (rc, v) \<Rightarrow> if rc < 0 then Some False else map_option (\<lambda>w. w \<noteq> ''UNKNOWN'') v)"

text \<open>The seconds that are left are a number without sign: the test for less than zero is one for zero.\<close>

definition udpdb_error :: "bool \<Rightarrow> udpdb \<Rightarrow> int \<times> udpdb" where
  "udpdb_error valid u =
     (if valid then let left = error_seconds u - 1 in (if left \<le> 0 then 2 else 1, u\<lparr>error_seconds := left\<rparr>) else (0, u))"

section \<open>A block of packets\<close>

text \<open>What the function keeps in local variables.\<close>

record collecting =
  co_quit :: bool
  co_timeout :: bool
  co_data_received :: u64
  co_ignore :: bool
  co_max_ignore :: int
  co_size :: int
  co_break :: bool

text \<open>The buffers change places, and the bounds of the sequence numbers move.\<close>

definition begin_block :: "udpdb \<Rightarrow> udpdb" where
  "begin_block u =
     (let u = u\<lparr>curr_buffer := next_buffer u, next_buffer := zeros (block_size u),
                curr_buffer_count := next_buffer_count u, next_buffer_count := 0, min_sequence := expected_sequence_no u\<rparr>;
          u = u\<lparr>mid_sequence := min_sequence u + packets_per_block u\<rparr>
      in u\<lparr>max_sequence := mid_sequence u + packets_per_block u\<rparr>)"

definition begin_collecting :: "udpdb \<Rightarrow> collecting" where
  "begin_collecting u =
     \<lparr>co_quit = False, co_timeout = False, co_data_received = 0, co_ignore = False, co_max_ignore = c_int64 (block_size u),
      co_size = c_int64 (block_size u), co_break = False\<rparr>"

text \<open>Into the socket's buffer.\<close>

definition receive :: "socket_event \<Rightarrow> udpdb \<Rightarrow> collecting \<Rightarrow> udpdb \<times> collecting" where
  "receive e u l =
     (case e of
        Quiet \<Rightarrow> (u\<lparr>received := 0\<rparr>, l\<lparr>co_quit := True, co_timeout := True\<rparr>)
      | Datagram d \<Rightarrow>
          let d = take (unat (packet_payload_size u)) d
          in (u\<lparr>sock_buf := d @ drop (length d) (sock_buf u), received := of_nat (length d)\<rparr>, l\<lparr>co_ignore := False\<rparr>)
      | Receive_error \<Rightarrow> (u\<lparr>received := - 1\<rparr>, l\<lparr>co_ignore := False\<rparr>))"

text \<open>
  The first packet: of the packets missing before it the counts are raised, as if they had come. A packet of another
  size ends the loop.
\<close>

definition first_packet :: "udpdb \<Rightarrow> collecting \<Rightarrow> udpdb \<times> collecting" where
  "first_packet u l =
     (if expected_sequence_no u = 0 \<and> co_data_received l = 0
      then
        let u = u\<lparr>prev_seq := curr_sequence_no u\<rparr>;
            n = curr_sequence_no u;
            (u, l) =
              (if n < max_sequence u
               then (if n < mid_sequence u
                     then u\<lparr>curr_buffer_count := curr_buffer_count u + n\<rparr>
                     else u\<lparr>curr_buffer_count := curr_buffer_count u + packets_per_block u,
                            next_buffer_count := next_buffer_count u + (n - mid_sequence u)\<rparr>, l)
               else (u, l\<lparr>co_ignore := True\<rparr>))
        in if received u \<noteq> packet_payload_size u then (u, l\<lparr>co_size := DADA_ERROR_HARD, co_break := True\<rparr>) else (u, l)
      else (u, l))"

text \<open>The data behind the header go to a place in the current buffer, whichever of the two blocks they belong to.\<close>

definition put_in_current :: "u64 \<Rightarrow> udpdb \<Rightarrow> udpdb option" where
  "put_in_current at u =
     (let off = unat at; n = unat (packet_data_size u); d = take n (drop (unat (packet_header_size u)) (sock_buf u))
      in if length (curr_buffer u) < off + n \<or> length d < n then None
         else Some (u\<lparr>curr_buffer := take off (curr_buffer u) @ d @ drop (off + n) (curr_buffer u)\<rparr>))"

definition place_packet :: "udpdb \<Rightarrow> collecting \<Rightarrow> (udpdb \<times> collecting) option" where
  "place_packet u l =
     (let n = curr_sequence_no u
      in if min_sequence u \<le> n \<and> n < mid_sequence u
         then map_option (\<lambda>u. (u\<lparr>curr_buffer_count := curr_buffer_count u + 1\<rparr>, l))
                (put_in_current ((n - min_sequence u) * packet_data_size u) u)
         else if mid_sequence u \<le> n \<and> n < max_sequence u
         then map_option (\<lambda>u. (u\<lparr>next_buffer_count := next_buffer_count u + 1\<rparr>, l))
                (put_in_current ((n - mid_sequence u) * packet_data_size u) u)
         else if n < min_sequence u then Some (u, l)
         else if max_sequence u \<le> n then Some (u\<lparr>packet_in_buffer := True\<rparr>, l\<lparr>co_quit := True\<rparr>)
         else Some (u, l))"

definition pad_packet :: "udpdb \<Rightarrow> udpdb" where
  "pad_packet u =
     (if received u < packet_payload_size u
      then u\<lparr>sock_buf := take (unat (received u)) (sock_buf u)
               @ zeros (packet_payload_size u - received u) @ drop (unat (packet_payload_size u)) (sock_buf u)\<rparr>
      else u)"

definition count_received :: "udpdb \<Rightarrow> udpdb" where
  "count_received u =
     u\<lparr>packets := (packets u)\<lparr>st_received := st_received (packets u) + 1, st_received_per_sec := st_received_per_sec (packets u) + 1\<rparr>,
       pkt_bytes := (pkt_bytes u)\<lparr>st_received := st_received (pkt_bytes u) + packet_data_size u,
                                  st_received_per_sec := st_received_per_sec (pkt_bytes u) + packet_data_size u\<rparr>\<rparr>"

text \<open>The block ends when it is full, or when more than half of the next one has come.\<close>

definition enough :: "udpdb \<Rightarrow> collecting \<Rightarrow> (udpdb \<times> collecting) option" where
  "enough u l =
     (if curr_buffer_count u \<noteq> packets_per_block u \<and> \<not> curr_buffer_count u < packets_per_block u then None
      else
        let l = (if curr_buffer_count u = packets_per_block u then l\<lparr>co_quit := True\<rparr> else l);
            l = (if packets_per_block u div 2 < next_buffer_count u then l\<lparr>co_quit := True\<rparr> else l)
        in Some (u, l))"

definition take_packet :: "udpdb \<Rightarrow> collecting \<Rightarrow> (udpdb \<times> collecting) option" where
  "take_packet u l =
     (if sequence_incr u = 0 then None
      else
        let u = u\<lparr>curr_sequence_no := bpsr_decode_header (sock_buf u) div sequence_incr u\<rparr>;
            (u, l) = first_packet u l
        in if co_break l then Some (u, l)
           else if co_ignore l
           then let l = l\<lparr>co_max_ignore := c_int64 (word_of_int (co_max_ignore l) - packet_payload_size u)\<rparr>
                in Some (u, if co_max_ignore l < 0 then l\<lparr>co_quit := True\<rparr> else l)
           else do {
             (u, l) \<leftarrow> place_packet (count_received (pad_packet u)) (l\<lparr>co_data_received := co_data_received l + packet_data_size u\<rparr>);
             enough u l
           })"

text \<open>The loop, until there is enough; a packet left in the buffer by the call before comes first.\<close>

fun receive_packets :: "socket_event list \<Rightarrow> udpdb \<Rightarrow> collecting \<Rightarrow> (socket_event list \<times> udpdb \<times> collecting) option" where
  "receive_packets es u l =
     (if co_quit l \<or> co_break l then Some (es, u, l)
      else
        case es of
          [] \<Rightarrow> None
        | e # es \<Rightarrow>
            (case receive e u l of
               (u, l) \<Rightarrow>
                 if co_quit l then Some (es, u, l)
                 else (case take_packet u l of None \<Rightarrow> None | Some (u, l) \<Rightarrow> receive_packets es u l)))"

declare receive_packets.simps [simp del]

text \<open>
  What is missing was dropped. A block that a quiet second ended is cut to as many bytes as there were packets; a block
  without packets has size 0, also after an error. \<open>tick\<close> says whether the clock has gone on a second since the last call.
\<close>

definition count_dropped :: "udpdb \<Rightarrow> udpdb" where
  "count_dropped u =
     (let n = packets_per_block u - curr_buffer_count u; b = packet_data_size u * n
      in u\<lparr>packets := (packets u)\<lparr>st_dropped := st_dropped (packets u) + n, st_dropped_per_sec := st_dropped_per_sec (packets u) + n\<rparr>,
           pkt_bytes := (pkt_bytes u)\<lparr>st_dropped := st_dropped (pkt_bytes u) + b, st_dropped_per_sec := st_dropped_per_sec (pkt_bytes u) + b\<rparr>\<rparr>)"

definition new_second :: "udpdb \<Rightarrow> udpdb" where
  "new_second u =
     u\<lparr>packets := (packets u)\<lparr>st_received_per_sec := 0, st_dropped_per_sec := 0\<rparr>,
       pkt_bytes := (pkt_bytes u)\<lparr>st_received_per_sec := 0, st_dropped_per_sec := 0\<rparr>\<rparr>"

definition end_block :: "bool \<Rightarrow> udpdb \<Rightarrow> collecting \<Rightarrow> int \<times> udpdb" where
  "end_block tick u l =
     (let (n, u) =
        (if co_data_received l \<noteq> 0
         then
           let u = (if curr_buffer_count u < packets_per_block u \<and> \<not> co_timeout l then count_dropped u else u);
               n = (if co_timeout l then c_int64 (curr_buffer_count u * packet_data_size u) else co_size l)
           in (n, u\<lparr>expected_sequence_no := expected_sequence_no u + packets_per_block u\<rparr>)
         else (0, u))
      in (n, if tick then new_second u else u))"

text \<open>The block is the current buffer, its size the first component of the result.\<close>

definition udpdb_buffer :: "bool \<Rightarrow> socket_event list \<Rightarrow> udpdb \<Rightarrow> (int \<times> socket_event list \<times> udpdb) option" where
  "udpdb_buffer tick es u =
     (let u = begin_block u; l = begin_collecting u
      in do {
           (es, u, l) \<leftarrow>
             (if packet_in_buffer u
              then do { (u, l) \<leftarrow> take_packet (u\<lparr>packet_in_buffer := False\<rparr>) l; receive_packets es u l }
              else receive_packets es u l);
           (case end_block tick u l of (n, u) \<Rightarrow> Some (n, es, u))
         })"

end
