(* ===== verification/Bpsr_Properties.thy ===== *)
theory Bpsr_Properties
  imports Bpsr_Udpdb "HOL-Library.Multiset"
begin

text \<open>
  What a block of packets is: complete when they all come, in whatever order; and what becomes of a packet that is
  early, and of one that has the wrong size.
\<close>

section \<open>Places in a block\<close>

definition slot :: "nat \<Rightarrow> nat \<Rightarrow> byte list \<Rightarrow> byte list" where
  "slot n k c = take n (drop (k * n) c)"

lemma length_slot: "Suc k * n \<le> length c \<Longrightarrow> length (slot n k c) = n"
  by (simp add: slot_def min_absorb2)

lemma nth_slot: "Suc k * n \<le> length c \<Longrightarrow> i < n \<Longrightarrow> slot n k c ! i = c ! (k * n + i)"
  by (simp add: slot_def)

lemma slot_put:
  assumes "length d = n" and "Suc j * n \<le> length c" and "Suc k * n \<le> length c"
  shows "slot n k (take (j * n) c @ d @ drop (j * n + n) c) = (if k = j then d else slot n k c)"
proof (rule nth_equalityI)
  let ?c = "take (j * n) c @ d @ drop (j * n + n) c"
  have len: "length ?c = length c" using assms(1,2) by simp
  then show "length (slot n k ?c) = length (if k = j then d else slot n k c)"
    using length_slot [of k n ?c] length_slot [of k n c] assms(1,3) by simp
  fix i assume "i < length (slot n k ?c)"
  then have i: "i < n" using length_slot [of k n ?c] len assms(3) by simp
  have "slot n k ?c ! i = ?c ! (k * n + i)" using nth_slot [of k n ?c i] i assms(3) len by simp
  moreover have "slot n k c ! i = c ! (k * n + i)" using nth_slot i assms(3) by simp
  moreover have "?c ! (k * n + i) = (if k = j then d ! i else c ! (k * n + i))"
  proof (cases k j rule: linorder_cases)
    case less
    then have "Suc k * n \<le> j * n" by (intro mult_right_mono) simp_all
    then have "k * n + i < j * n" using i by simp
    then show ?thesis using less assms(2) by (simp add: nth_append)
  next
    case equal
    then show ?thesis using i assms(1,2) by (simp add: nth_append)
  next
    case greater
    then have "Suc j * n \<le> k * n" by (intro mult_right_mono) simp_all
    then have le: "j * n + n \<le> k * n" by simp
    have "j * n + n + (k * n + i - (j * n + n)) = k * n + i" using le by linarith
    then have "drop (j * n + n) c ! (k * n + i - j * n - n) = c ! (k * n + i)" using assms(2,3) i by (subst nth_drop) simp_all
    moreover have "\<not> k * n + i < j * n" "\<not> k * n + i - j * n < n" using le by linarith+
    ultimately show ?thesis using greater assms(1,2) by (simp add: nth_append min_absorb2)
  qed
  ultimately show "slot n k ?c ! i = (if k = j then d else slot n k c) ! i" by simp
qed

section \<open>The set-up\<close>

text \<open>The sizes, as \<open>main\<close> and the start function set them, and sequence numbers far enough from their end.\<close>

definition packet_bytes :: "udpdb \<Rightarrow> nat" where "packet_bytes u = unat (packet_data_size u)"

definition block_packets :: "udpdb \<Rightarrow> nat" where "block_packets u = unat (packets_per_block u)"

definition next_seq :: "udpdb \<Rightarrow> nat" where "next_seq u = unat (expected_sequence_no u)"

definition set_up :: "udpdb \<Rightarrow> bool" where
  "set_up u \<longleftrightarrow> sequence_incr u \<noteq> 0 \<and> packet_header_size u = 8 \<and> 0 < packet_bytes u
     \<and> unat (packet_payload_size u) = 8 + packet_bytes u \<and> 0 < block_packets u
     \<and> unat (block_size u) = block_packets u * packet_bytes u \<and> block_packets u * packet_bytes u < 2 ^ 63
     \<and> next_seq u + 2 * block_packets u < 2 ^ 64"

text \<open>The number of a packet.\<close>

definition seq_of :: "udpdb \<Rightarrow> byte list \<Rightarrow> nat" where
  "seq_of u d = unat (bpsr_decode_header d div sequence_incr u)"

lemma decode_front: "8 \<le> length d \<Longrightarrow> bpsr_decode_header (d @ b) = bpsr_decode_header d"
  using bpsr.dec_front [of "d @ b"] bpsr.dec_front [of d] by simp

section \<open>Collecting a block\<close>

lemma unat_small: "n < 2 ^ 64 \<Longrightarrow> unat (of_nat n :: u64) = n"
  by (simp add: unat_of_nat)

text \<open>The packets \<open>ps\<close> of the block that begins with \<open>u0\<close> have come.\<close>

definition collected :: "udpdb \<Rightarrow> byte list list \<Rightarrow> udpdb \<Rightarrow> collecting \<Rightarrow> bool" where
  "collected u0 ps u l \<longleftrightarrow>
     sequence_incr u = sequence_incr u0 \<and> packet_header_size u = packet_header_size u0
     \<and> packet_data_size u = packet_data_size u0 \<and> packet_payload_size u = packet_payload_size u0
     \<and> packets_per_block u = packets_per_block u0 \<and> expected_sequence_no u = expected_sequence_no u0
     \<and> min_sequence u = expected_sequence_no u0 \<and> mid_sequence u = expected_sequence_no u0 + packets_per_block u0
     \<and> max_sequence u = expected_sequence_no u0 + packets_per_block u0 + packets_per_block u0
     \<and> curr_buffer_count u = of_nat (length ps) \<and> next_buffer_count u = 0 \<and> \<not> packet_in_buffer u
     \<and> length (curr_buffer u) = block_packets u0 * packet_bytes u0
     \<and> (\<forall>d\<in>set ps. slot (packet_bytes u0) (seq_of u0 d - next_seq u0) (curr_buffer u) = drop 8 d)
     \<and> co_data_received l = of_nat (length ps * packet_bytes u0) \<and> \<not> co_break l \<and> \<not> co_timeout l \<and> \<not> co_ignore l
     \<and> co_size l = int (unat (block_size u0))"

lemma unat_bounds:
  assumes "set_up u0"
  shows "unat (expected_sequence_no u0 + packets_per_block u0) = next_seq u0 + block_packets u0"
    and "unat (expected_sequence_no u0 + packets_per_block u0 + packets_per_block u0) = next_seq u0 + 2 * block_packets u0"
  using assms by (simp_all add: set_up_def next_seq_def block_packets_def unat_word_ariths)

lemma first_packet_fits:
  assumes "set_up u0" and "collected u0 ps u l" and "curr_sequence_no u = w" and "received u = packet_payload_size u"
    and "next_seq u0 = 0 \<and> ps = [] \<Longrightarrow> w = 0" and "length ps < block_packets u0"
  obtains x where "first_packet u l = (u\<lparr>prev_seq := x\<rparr>, l)"
proof (cases "expected_sequence_no u = 0 \<and> co_data_received l = 0")
  case False
  then have "first_packet u l = (u\<lparr>prev_seq := prev_seq u\<rparr>, l)" unfolding first_packet_def by (subst if_not_P) simp_all
  then show ?thesis by (rule that)
next
  case True
  have s: "0 < packet_bytes u0" "block_packets u0 * packet_bytes u0 < 2 ^ 63" using assms(1) by (simp_all add: set_up_def)
  have "length ps * packet_bytes u0 \<le> block_packets u0 * packet_bytes u0" using assms(6) by simp
  moreover have "(2 :: nat) ^ 63 < 2 ^ 64" by simp
  ultimately have "length ps * packet_bytes u0 < 2 ^ 64" using s(2) by linarith
  then have "unat (of_nat (length ps * packet_bytes u0) :: u64) = length ps * packet_bytes u0" by (rule unat_small)
  moreover have "of_nat (length ps * packet_bytes u0) = (0 :: u64)" using assms(2) True by (simp add: collected_def)
  ultimately have "ps = []" using s(1) by simp
  moreover have e: "next_seq u0 = 0" "expected_sequence_no u0 = 0" using assms(2) True by (simp_all add: collected_def next_seq_def)
  ultimately have w: "w = 0" using assms(5) by simp
  have "0 < packets_per_block u0" using assms(1) by (simp add: set_up_def block_packets_def word_less_nat_alt)
  moreover have "0 < packets_per_block u0 + packets_per_block u0"
    using unat_bounds(2) [OF assms(1)] assms(1) e by (simp add: set_up_def word_less_nat_alt)
  ultimately have "first_packet u l = (u\<lparr>prev_seq := 0\<rparr>, l)"
    using True w assms(2-4) e by (simp add: first_packet_def collected_def Let_def)
  then show ?thesis by (rule that)
qed

lemma put_in_current_ok:
  assumes "unat (packet_data_size u) = n" and "take n (drop (unat (packet_header_size u)) (sock_buf u)) = d" and "length d = n"
    and "unat at + n \<le> length (curr_buffer u)"
  shows "put_in_current at u = Some (u\<lparr>curr_buffer := take (unat at) (curr_buffer u) @ d @ drop (unat at + n) (curr_buffer u)\<rparr>)"
  by (simp only: put_in_current_def Let_def assms(1-3)) (use assms(4) in simp)

text \<open>A packet of the right size comes to its place in a block.\<close>

lemma packet_arrives:
  assumes su: "set_up u0" and c: "collected u0 ps u l" and more: "length ps < block_packets u0"
    and len: "length d = 8 + packet_bytes u0" and first: "next_seq u0 = 0 \<and> ps = [] \<Longrightarrow> seq_of u0 d = 0"
    and rec: "receive (Datagram d) u l = (u1, l1)"
  obtains u3 where "l1 = l\<lparr>co_ignore := False\<rparr>" and "collected u0 ps u3 l1" and "curr_buffer u3 = curr_buffer u"
    and "next_buffer u3 = next_buffer u" and "unat (curr_sequence_no u3) = seq_of u0 d"
    and "\<And>at. unat at + packet_bytes u0 \<le> length (curr_buffer u) \<Longrightarrow> put_in_current at u3 =
       Some (u3\<lparr>curr_buffer := take (unat at) (curr_buffer u) @ drop 8 d @ drop (unat at + packet_bytes u0) (curr_buffer u)\<rparr>)"
    and "take_packet u1 l1 =
       Option.bind (place_packet u3 (l1\<lparr>co_data_received := co_data_received l1 + packet_data_size u0\<rparr>)) (\<lambda>(u, l). enough u l)"
proof -
  let ?n = "packet_bytes u0"
  have S: "packet_header_size u0 = 8" "unat (packet_payload_size u0) = 8 + ?n" "sequence_incr u0 \<noteq> 0"
    using su by (simp_all add: set_up_def)
  have C: "sequence_incr u = sequence_incr u0" "packet_header_size u = packet_header_size u0" "packet_data_size u = packet_data_size u0"
    "packet_payload_size u = packet_payload_size u0" "\<not> co_break l"
    using c unfolding collected_def by blast+
  define w where "w = bpsr_decode_header d div sequence_incr u0"
  have w: "unat w = seq_of u0 d" by (simp add: w_def seq_of_def)
  have sz: "unat (packet_payload_size u) = 8 + ?n" using S C by simp
  have "of_nat (8 + ?n) = packet_payload_size u" by (simp only: sz [symmetric]) simp
  then have got: "8 + of_nat ?n = packet_payload_size u" by simp
  have "take (unat (packet_payload_size u)) d = d" using sz len by simp
  then have u1: "u1 = u\<lparr>sock_buf := d @ drop (8 + ?n) (sock_buf u), received := packet_payload_size u\<rparr>" "l1 = l\<lparr>co_ignore := False\<rparr>"
    using rec len got by (simp_all add: receive_def Let_def)
  let ?u = "u1\<lparr>curr_sequence_no := w\<rparr>"
  have dec: "bpsr_decode_header (sock_buf u1) div sequence_incr u1 = w" and incr: "sequence_incr u1 \<noteq> 0"
    using C(1) S(3) len by (simp_all add: u1 w_def decode_front)
  have c1: "collected u0 ps ?u l1" using c by (simp add: u1 collected_def)
  have "next_seq u0 = 0 \<and> ps = [] \<Longrightarrow> w = 0" using first w by (simp add: unat_eq_zero)
  then obtain x where f: "first_packet ?u l1 = (?u\<lparr>prev_seq := x\<rparr>, l1)"
    using first_packet_fits [OF su c1 _ _ _ more, of w] by (auto simp: u1)
  define u3 where "u3 = count_received (pad_packet (?u\<lparr>prev_seq := x\<rparr>))"
  have u3: "collected u0 ps u3 l1" "sock_buf u3 = sock_buf u1" "curr_sequence_no u3 = w" "curr_buffer u3 = curr_buffer u"
    "next_buffer u3 = next_buffer u" "packet_data_size u3 = packet_data_size u0" "packet_header_size u3 = packet_header_size u0"
    using c1 C by (simp_all add: u3_def pad_packet_def u1 count_received_def collected_def)
  have data: "take ?n (drop 8 (sock_buf u1)) = drop 8 d" using len by (simp add: u1)
  show ?thesis
  proof (rule that [OF u1(2) u3(1,4,5)])
    show "unat (curr_sequence_no u3) = seq_of u0 d" using u3(3) w by simp
    show "put_in_current at u3 = Some (u3\<lparr>curr_buffer := take (unat at) (curr_buffer u) @ drop 8 d @ drop (unat at + ?n) (curr_buffer u)\<rparr>)"
      if "unat at + ?n \<le> length (curr_buffer u)" for at
      using put_in_current_ok [of u3 ?n "drop 8 d" at] that data u3 S(1) len by (simp add: packet_bytes_def)
    show "take_packet u1 l1 =
       Option.bind (place_packet u3 (l1\<lparr>co_data_received := co_data_received l1 + packet_data_size u0\<rparr>)) (\<lambda>(u, l). enough u l)"
      using f dec incr C(3,5) by (simp add: take_packet_def u3_def) (simp add: u1)
  qed
qed

text \<open>The place of a packet, \<open>j\<close> packets behind the number \<open>a\<close>.\<close>

lemma place_of:
  assumes "set_up u0" and "unat w = unat a + j" and "j < block_packets u0"
  shows "unat ((w - a) * packet_data_size u0) = j * packet_bytes u0" and "Suc j * packet_bytes u0 \<le> block_packets u0 * packet_bytes u0"
proof -
  show le: "Suc j * packet_bytes u0 \<le> block_packets u0 * packet_bytes u0" using assms(3) by (intro mult_right_mono) simp_all
  have "unat (w - a) = j" using assms(2) by (simp add: unat_sub word_le_nat_alt)
  moreover have "j * packet_bytes u0 < 2 ^ 64" using le assms(1) by (simp add: set_up_def)
  ultimately show "unat ((w - a) * packet_data_size u0) = j * packet_bytes u0" by (simp add: unat_word_ariths packet_bytes_def)
qed

text \<open>What other packets are at after one is put in place.\<close>

lemma slots_after_put:
  assumes "collected u0 ps u l" and "length d = 8 + packet_bytes u0" and "j < block_packets u0" and "d' \<in> set ps"
    and "seq_of u0 d' < next_seq u0 + block_packets u0" "next_seq u0 \<le> seq_of u0 d'"
  shows "slot (packet_bytes u0) (seq_of u0 d' - next_seq u0)
      (take (j * packet_bytes u0) (curr_buffer u) @ drop 8 d @ drop (j * packet_bytes u0 + packet_bytes u0) (curr_buffer u))
    = (if seq_of u0 d' = next_seq u0 + j then drop 8 d else drop 8 d')"
proof -
  let ?n = "packet_bytes u0" and ?m = "block_packets u0" and ?k = "seq_of u0 d' - next_seq u0"
  have C: "length (curr_buffer u) = ?m * ?n" "\<forall>d\<in>set ps. slot ?n (seq_of u0 d - next_seq u0) (curr_buffer u) = drop 8 d"
    using assms(1) unfolding collected_def by blast+
  have "?k < ?m" using assms(5,6) by linarith
  then have "Suc ?k * ?n \<le> ?m * ?n" "Suc j * ?n \<le> ?m * ?n" using assms(3) by (auto intro!: mult_right_mono simp del: mult_Suc)
  then have "Suc ?k * ?n \<le> length (curr_buffer u)" "Suc j * ?n \<le> length (curr_buffer u)" using C(1) by simp_all
  moreover have "length (drop 8 d) = ?n" using assms(2) by simp
  ultimately have "slot ?n ?k (take (j * ?n) (curr_buffer u) @ drop 8 d @ drop (j * ?n + ?n) (curr_buffer u))
      = (if ?k = j then drop 8 d else slot ?n ?k (curr_buffer u))" using slot_put by blast
  moreover have "?k = j \<longleftrightarrow> seq_of u0 d' = next_seq u0 + j" using assms(6) by linarith
  ultimately show ?thesis using C(2) assms(4) by simp
qed

text \<open>One more packet.\<close>

lemma packet_collected:
  assumes su: "set_up u0" and c: "collected u0 ps u l" and more: "length ps < block_packets u0"
    and len: "length d = 8 + packet_bytes u0" and seq: "next_seq u0 \<le> seq_of u0 d" "seq_of u0 d < next_seq u0 + block_packets u0"
    and new: "\<forall>d'\<in>set ps. seq_of u0 d' \<noteq> seq_of u0 d"
    and all: "\<forall>d'\<in>set ps. next_seq u0 \<le> seq_of u0 d' \<and> seq_of u0 d' < next_seq u0 + block_packets u0"
    and first: "next_seq u0 = 0 \<and> ps = [] \<Longrightarrow> seq_of u0 d = 0"
    and rec: "receive (Datagram d) u l = (u1, l1)"
  obtains u2 l2 where "take_packet u1 l1 = Some (u2, l2)" and "collected u0 (ps @ [d]) u2 (l2\<lparr>co_quit := co_quit l\<rparr>)"
    and "co_quit l2 \<longleftrightarrow> co_quit l \<or> length ps + 1 = block_packets u0"
proof -
  let ?n = "packet_bytes u0" and ?m = "block_packets u0" and ?j = "seq_of u0 d - next_seq u0"
  from packet_arrives [OF su c more len first rec] obtain u3 where
    u3: "l1 = l\<lparr>co_ignore := False\<rparr>" "collected u0 ps u3 l1" "curr_buffer u3 = curr_buffer u" "unat (curr_sequence_no u3) = seq_of u0 d"
    and put: "\<And>at. unat at + ?n \<le> length (curr_buffer u) \<Longrightarrow> put_in_current at u3 =
       Some (u3\<lparr>curr_buffer := take (unat at) (curr_buffer u) @ drop 8 d @ drop (unat at + ?n) (curr_buffer u)\<rparr>)"
    and run: "take_packet u1 l1 =
       Option.bind (place_packet u3 (l1\<lparr>co_data_received := co_data_received l1 + packet_data_size u0\<rparr>)) (\<lambda>(u, l). enough u l)" by metis
  have C: "packet_data_size u3 = packet_data_size u0" "packets_per_block u3 = packets_per_block u0" "min_sequence u3 = expected_sequence_no u0"
    "mid_sequence u3 = expected_sequence_no u0 + packets_per_block u0" "curr_buffer_count u3 = of_nat (length ps)" "next_buffer_count u3 = 0"
    "length (curr_buffer u3) = ?m * ?n" "co_data_received l1 = of_nat (length ps * ?n)"
    using u3(2) unfolding collected_def by blast+
  have j: "?j < ?m" "unat (curr_sequence_no u3) = unat (expected_sequence_no u0) + ?j" using seq u3(4) by (simp_all add: next_seq_def)
  note at = place_of [OF su j(2,1)]
  let ?buf = "take (?j * ?n) (curr_buffer u) @ drop 8 d @ drop (?j * ?n + ?n) (curr_buffer u)"
  let ?u4 = "u3\<lparr>curr_buffer := ?buf, curr_buffer_count := of_nat (length ps) + 1\<rparr>"
  let ?l3 = "l1\<lparr>co_data_received := co_data_received l1 + packet_data_size u0\<rparr>"
  have "expected_sequence_no u0 \<le> curr_sequence_no u3" "curr_sequence_no u3 < expected_sequence_no u0 + packets_per_block u0"
    using seq u3(4) unat_bounds(1) [OF su] by (simp_all add: word_le_nat_alt word_less_nat_alt next_seq_def)
  moreover have "put_in_current ((curr_sequence_no u3 - expected_sequence_no u0) * packet_data_size u0) u3 = Some (u3\<lparr>curr_buffer := ?buf\<rparr>)"
    using put [of "(curr_sequence_no u3 - expected_sequence_no u0) * packet_data_size u0"] at C(7) u3(3) by simp
  ultimately have place: "place_packet u3 ?l3 = Some (?u4, ?l3)" using C by (simp add: place_packet_def)
  have small: "length ps + 1 < 2 ^ 64" using more unat_less_length [of "packets_per_block u0"] by (simp add: block_packets_def)
  have cnt: "unat (of_nat (length ps) + 1 :: u64) = length ps + 1" using unat_small [OF small] by (simp add: add.commute)
  have full: "curr_buffer_count ?u4 = packets_per_block ?u4 \<longleftrightarrow> length ps + 1 = ?m"
    using cnt C(2) by (simp add: word_unat_eq_iff block_packets_def)
  have le: "curr_buffer_count ?u4 \<le> packets_per_block ?u4"
    using cnt C(2) more unfolding word_le_nat_alt block_packets_def by simp
  let ?l4 = "if length ps + 1 = ?m then ?l3\<lparr>co_quit := True\<rparr> else ?l3"
  have "enough ?u4 ?l3 = Some (?u4, ?l4)" using full le C(6) by (auto simp: enough_def)
  then have "take_packet u1 l1 = Some (?u4, ?l4)" using run place by simp
  moreover have "collected u0 (ps @ [d]) ?u4 (?l4\<lparr>co_quit := co_quit l\<rparr>)"
  proof -
    have "slot ?n (seq_of u0 d' - next_seq u0) ?buf = drop 8 d'" if "d' \<in> set ps" for d'
      using slots_after_put [OF c len j(1) that] all new that seq(1) by auto
    moreover have "slot ?n ?j ?buf = drop 8 d"
      using slot_put [of "drop 8 d" ?n ?j "curr_buffer u" ?j] at(2) C(7) u3(3) len by simp
    moreover have "length ?buf = ?m * ?n" using C(7) at(2) len u3(3) by simp
    moreover have "of_nat (length ps * ?n) + packet_data_size u0 = of_nat (length (ps @ [d]) * ?n)"
      by (simp add: packet_bytes_def distrib_right)
    ultimately show ?thesis using u3(2) C(8) unfolding collected_def by simp
  qed
  moreover have "co_quit ?l4 \<longleftrightarrow> co_quit l \<or> length ps + 1 = ?m" by (simp add: u3(1))
  ultimately show ?thesis by (rule that)
qed

text \<open>The rest of the block.\<close>

lemma block_collected:
  assumes "set_up u0" and "collected u0 ps u l" and "\<not> co_quit l" and "ds \<noteq> []" and "length ps + length ds = block_packets u0"
    and "\<forall>d\<in>set (ps @ ds). length d = 8 + packet_bytes u0 \<and> next_seq u0 \<le> seq_of u0 d \<and> seq_of u0 d < next_seq u0 + block_packets u0"
    and "distinct (map (seq_of u0) (ps @ ds))" and "next_seq u0 = 0 \<and> ps = [] \<Longrightarrow> seq_of u0 (hd ds) = 0"
  shows "\<exists>u' l'. receive_packets (map Datagram ds @ es) u l = Some (es, u', l') \<and> collected u0 (ps @ ds) u' (l'\<lparr>co_quit := False\<rparr>) \<and> co_quit l'"
  using assms(2-8)
proof (induction ds arbitrary: ps u l)
  case (Cons d ds)
  obtain u1 l1 where rec: "receive (Datagram d) u l = (u1, l1)" by fastforce
  have go: "\<not> co_quit l1" "\<not> co_break l" using rec Cons.prems(1,2) by (auto simp: receive_def Let_def collected_def)
  have new: "seq_of u0 d \<notin> seq_of u0 ` set ps" using Cons.prems(6) by simp
  obtain u2 l2 where t: "take_packet u1 l1 = Some (u2, l2)" "collected u0 (ps @ [d]) u2 (l2\<lparr>co_quit := co_quit l\<rparr>)"
      "co_quit l2 \<longleftrightarrow> co_quit l \<or> length ps + 1 = block_packets u0"
  proof (rule packet_collected [OF assms(1) Cons.prems(1) _ _ _ _ _ _ _ rec])
    show "length ps < block_packets u0" using Cons.prems(4) by simp
    show "length d = 8 + packet_bytes u0" "next_seq u0 \<le> seq_of u0 d" "seq_of u0 d < next_seq u0 + block_packets u0"
      "\<forall>d'\<in>set ps. next_seq u0 \<le> seq_of u0 d' \<and> seq_of u0 d' < next_seq u0 + block_packets u0" using Cons.prems(5) by auto
    show "\<forall>d'\<in>set ps. seq_of u0 d' \<noteq> seq_of u0 d" using new by (metis imageI)
    show "seq_of u0 d = 0" if "next_seq u0 = 0 \<and> ps = []" using Cons.prems(7) that by simp
  qed blast
  have run: "receive_packets (map Datagram (d # ds) @ es) u l = receive_packets (map Datagram ds @ es) u2 l2"
    using go Cons.prems(2) rec t(1) by (subst receive_packets.simps) simp
  show ?case
  proof (cases "ds = []")
    case True
    then have "co_quit l2" using t(3) Cons.prems(4) by simp
    moreover from this have "receive_packets es u2 l2 = Some (es, u2, l2)" by (subst receive_packets.simps) simp
    ultimately show ?thesis using run True t(2) Cons.prems(2) by simp
  next
    case False
    then have nq: "\<not> co_quit l2" using t(3) Cons.prems(2,4) by (cases ds) auto
    then have "l2\<lparr>co_quit := co_quit l\<rparr> = l2" using Cons.prems(2) by simp
    then have "\<exists>u' l'. receive_packets (map Datagram ds @ es) u2 l2 = Some (es, u', l') \<and> collected u0 ((ps @ [d]) @ ds) u' (l'\<lparr>co_quit := False\<rparr>) \<and> co_quit l'"
      using Cons.IH [of "ps @ [d]" u2 l2] t(2) nq False Cons.prems(4-6) by simp
    then show ?thesis using run by simp
  qed
qed simp

section \<open>The data in order\<close>

lemma c_int64_in_range: "unat w < 2 ^ 63 \<Longrightarrow> c_int64 w = int (unat w)"
proof -
  have "c_int64 (of_nat n) = int n" if "n < 2 ^ 63" for n
    using that by (simp add: c_int64_def signed_of_nat signed_take_bit_int_eq_self)
  from this [of "unat w"] show "unat w < 2 ^ 63 \<Longrightarrow> c_int64 w = int (unat w)" by simp
qed

lemma concat_slots: "length c = m * n \<Longrightarrow> concat (map (\<lambda>k. slot n k c) [0..<m]) = c"
proof (induction m arbitrary: c)
  case (Suc m)
  have "slot n k (take (m * n) c) = slot n k c" if "k < m" for k
  proof -
    have "Suc k * n \<le> m * n" using that by (intro mult_right_mono) simp_all
    then show ?thesis by (simp add: slot_def drop_take min_absorb1)
  qed
  then have "concat (map (\<lambda>k. slot n k c) [0..<m]) = concat (map (\<lambda>k. slot n k (take (m * n) c)) [0..<m])"
    by (auto intro!: arg_cong [of _ _ concat])
  also have "\<dots> = take (m * n) c" using Suc.prems by (intro Suc.IH) simp
  finally show ?case using Suc.prems by (simp add: slot_def)
qed simp

lemma slots_in_order:
  assumes "length c = m * n" and "mset (map f ps) = mset [e..<e + m]" and "\<forall>d\<in>set ps. slot n (f d - e) c = drop 8 d"
  shows "c = concat (map (drop 8) (sort_key f ps))"
proof -
  let ?qs = "sort_key f ps"
  have "sort [e..<e + m] = map f ?qs" by (rule properties_for_sort) (use assms(2) in \<open>simp_all\<close>)
  then have qs: "map f ?qs = [e..<e + m]" by (simp add: sorted_sort_id)
  have len: "length ?qs = m" using arg_cong [OF qs, of length] by simp
  have f: "f (?qs ! k) = e + k" if "k < m" for k
    using arg_cong [OF qs, of "\<lambda>xs. xs ! k"] that len by simp
  have "slot n k c = drop 8 (?qs ! k)" if "k < m" for k
  proof -
    have "?qs ! k \<in> set ps" using that len by (metis nth_mem set_sort)
    then show ?thesis using assms(3) f [OF that] by auto
  qed
  then have "map (\<lambda>k. slot n k c) [0..<m] = map (drop 8) ?qs" using len by (intro nth_equalityI) simp_all
  then show ?thesis using concat_slots [OF assms(1)] by simp
qed

text \<open>C38. When the packets of a block come, each once and in whatever order, the block is complete as soon as the last of them has
  come: its bytes are the data of the packets in the order of their sequence numbers, its size is that of the block, and the
  next one follows it. (The first packet of an observation has to be the first that comes.)\<close>

theorem packets_make_a_block:
  assumes "set_up u" and "\<not> packet_in_buffer u" and "next_buffer_count u = 0" and "length (next_buffer u) = block_packets u * packet_bytes u"
    and "mset (map (seq_of u) ps) = mset [next_seq u..<next_seq u + block_packets u]"
    and "\<forall>d\<in>set ps. length d = 8 + packet_bytes u" and "next_seq u = 0 \<Longrightarrow> seq_of u (hd ps) = 0"
  shows "\<exists>u'. udpdb_buffer tick (map Datagram ps @ es) u = Some (int (block_packets u * packet_bytes u), es, u')
     \<and> curr_buffer u' = concat (map (drop 8) (sort_key (seq_of u) ps))
     \<and> next_seq u' = next_seq u + block_packets u \<and> next_buffer_count u' = 0 \<and> \<not> packet_in_buffer u'"
proof -
  have S: "0 < packet_bytes u" "0 < block_packets u" "unat (block_size u) = block_packets u * packet_bytes u"
      "block_packets u * packet_bytes u < 2 ^ 63" using assms(1) by (simp_all add: set_up_def)
  have size: "c_int64 (block_size u) = int (unat (block_size u))" by (rule c_int64_in_range) (use S(3,4) in \<open>simp\<close>)
  let ?u = "begin_block u" and ?l = "begin_collecting (begin_block u)"
  have same: "seq_of ?u = seq_of u" "next_seq ?u = next_seq u" "block_packets ?u = block_packets u" "packet_bytes ?u = packet_bytes u"
      "set_up ?u \<longleftrightarrow> set_up u"
    by (simp_all add: begin_block_def Let_def seq_of_def fun_eq_iff next_seq_def block_packets_def packet_bytes_def set_up_def)
  have in_range: "next_seq u \<le> seq_of u d \<and> seq_of u d < next_seq u + block_packets u" if "d \<in> set ps" for d
  proof -
    have "seq_of u d \<in> set [next_seq u..<next_seq u + block_packets u]"
      using that assms(5) by (metis image_eqI list.set_map set_mset_mset)
    then show ?thesis by simp
  qed
  have "distinct (map (seq_of u) ps)" using assms(5) by (metis distinct_upt mset_eq_imp_distinct_iff)
  moreover have n: "length ps = block_packets u" using arg_cong [OF assms(5), of size] by simp
  moreover have "ps \<noteq> []" using S(2) n by auto
  moreover have "collected u [] ?u ?l"
    using assms(2-4) size by (simp add: collected_def begin_block_def begin_collecting_def Let_def)
  moreover have "\<not> co_quit ?l" by (simp add: begin_collecting_def)
  ultimately obtain u' l' where r: "receive_packets (map Datagram ps @ es) ?u ?l = Some (es, u', l')"
      "collected u ps u' (l'\<lparr>co_quit := False\<rparr>)"
    using block_collected [OF assms(1), of "[]" ?u ?l ps es] assms(6,7) in_range by auto
  have c: "curr_buffer_count u' = of_nat (length ps)" "packets_per_block u' = packets_per_block u" "\<not> co_timeout l'"
    "co_data_received l' = of_nat (length ps * packet_bytes u)" "co_size l' = int (unat (block_size u))"
    "length (curr_buffer u') = block_packets u * packet_bytes u" "next_buffer_count u' = 0" "\<not> packet_in_buffer u'"
    "expected_sequence_no u' = expected_sequence_no u"
    "\<forall>d\<in>set ps. slot (packet_bytes u) (seq_of u d - next_seq u) (curr_buffer u') = drop 8 d"
    using r(2) unfolding collected_def by simp_all
  have "0 < length ps * packet_bytes u" "length ps * packet_bytes u < 2 ^ 64" using n S by simp_all
  then have "of_nat (length ps * packet_bytes u) \<noteq> (0 :: u64)" by (metis less_not_refl unat_0 unat_small)
  then have got: "co_data_received l' \<noteq> 0" using c(4) by simp
  have full: "\<not> curr_buffer_count u' < packets_per_block u'" using c(1,2) n by (simp add: block_packets_def)
  have e: "end_block tick u' l' = (int (block_packets u * packet_bytes u),
      if tick then new_second (u'\<lparr>expected_sequence_no := expected_sequence_no u + packets_per_block u\<rparr>)
      else u'\<lparr>expected_sequence_no := expected_sequence_no u + packets_per_block u\<rparr>)"
    using got full c(2,3,5,9) S(3) by (simp add: end_block_def)
  have "udpdb_buffer tick (map Datagram ps @ es) u = Some (fst (end_block tick u' l'), es, snd (end_block tick u' l'))"
    using r(1) assms(2) by (simp add: udpdb_buffer_def Let_def begin_block_def split: prod.split)
  moreover have "curr_buffer u' = concat (map (drop 8) (sort_key (seq_of u) ps))" by (rule slots_in_order [OF c(6) assms(5) c(10)])
  moreover have "unat (expected_sequence_no u + packets_per_block u) = next_seq u + block_packets u" by (rule unat_bounds(1) [OF assms(1)])
  ultimately show ?thesis using c(7,8) by (simp add: e new_second_def next_seq_def)
qed

section \<open>Packets that go wrong\<close>

text \<open>C39. A packet of the next block that comes while packets of this one are missing is written into this block, over the packet in the
  same place if that has come. It is counted for the next block, which does not have it.\<close>

theorem early_packet_overwrites_this_block:
  assumes "set_up u0" and "collected u0 ps u l" and "length ps < block_packets u0"
    and "length d = 8 + packet_bytes u0" and "next_seq u0 + block_packets u0 \<le> seq_of u0 d" and "seq_of u0 d < next_seq u0 + 2 * block_packets u0"
    and "d' \<in> set ps" and "next_seq u0 \<le> seq_of u0 d'" and "seq_of u0 d' < next_seq u0 + block_packets u0"
    and "receive (Datagram d) u l = (u1, l1)"
  shows "\<exists>u2 l2. take_packet u1 l1 = Some (u2, l2)
     \<and> slot (packet_bytes u0) (seq_of u0 d' - next_seq u0) (curr_buffer u2)
         = (if seq_of u0 d = seq_of u0 d' + block_packets u0 then drop 8 d else drop 8 d')
     \<and> curr_buffer (begin_block u2) = next_buffer u \<and> curr_buffer_count (begin_block u2) = 1"
proof -
  let ?n = "packet_bytes u0" and ?m = "block_packets u0" and ?j = "seq_of u0 d - (next_seq u0 + block_packets u0)"
  note su = assms(1)
  have "next_seq u0 = 0 \<and> ps = [] \<Longrightarrow> seq_of u0 d = 0" using assms(7) by auto
  from packet_arrives [OF su assms(2-4) this assms(10)] obtain u3 where
    u3: "collected u0 ps u3 l1" "curr_buffer u3 = curr_buffer u" "next_buffer u3 = next_buffer u" "unat (curr_sequence_no u3) = seq_of u0 d"
    and put: "\<And>at. unat at + ?n \<le> length (curr_buffer u) \<Longrightarrow> put_in_current at u3 =
       Some (u3\<lparr>curr_buffer := take (unat at) (curr_buffer u) @ drop 8 d @ drop (unat at + ?n) (curr_buffer u)\<rparr>)"
    and run: "take_packet u1 l1 =
       Option.bind (place_packet u3 (l1\<lparr>co_data_received := co_data_received l1 + packet_data_size u0\<rparr>)) (\<lambda>(u, l). enough u l)" by metis
  let ?mid = "expected_sequence_no u0 + packets_per_block u0"
  have C: "packet_data_size u3 = packet_data_size u0" "packets_per_block u3 = packets_per_block u0"
    "mid_sequence u3 = ?mid" "max_sequence u3 = ?mid + packets_per_block u0" "curr_buffer_count u3 = of_nat (length ps)" "next_buffer_count u3 = 0"
    "length (curr_buffer u3) = ?m * ?n"
    using u3(1) unfolding collected_def by blast+
  have j: "?j < ?m" "unat (curr_sequence_no u3) = unat ?mid + ?j" using assms(5,6) u3(4) unat_bounds(1) [OF su] by simp_all
  note at = place_of [OF su j(2,1)]
  let ?buf = "take (?j * ?n) (curr_buffer u) @ drop 8 d @ drop (?j * ?n + ?n) (curr_buffer u)"
  let ?u4 = "u3\<lparr>curr_buffer := ?buf, next_buffer_count := 1\<rparr>"
  let ?l3 = "l1\<lparr>co_data_received := co_data_received l1 + packet_data_size u0\<rparr>"
  have "?mid \<le> curr_sequence_no u3" "curr_sequence_no u3 < ?mid + packets_per_block u0"
    using assms(5,6) u3(4) unat_bounds [OF su] by (simp_all add: word_le_nat_alt word_less_nat_alt)
  moreover from this(1) have "\<not> curr_sequence_no u3 < ?mid" by (simp add: not_less)
  moreover have "put_in_current ((curr_sequence_no u3 - ?mid) * packet_data_size u0) u3 = Some (u3\<lparr>curr_buffer := ?buf\<rparr>)"
    using put [of "(curr_sequence_no u3 - ?mid) * packet_data_size u0"] at C(7) u3(2) by simp
  ultimately have place: "place_packet u3 ?l3 = Some (?u4, ?l3)" using C by (simp add: place_packet_def Let_def)
  have "length ps < 2 ^ 64" using assms(3) unat_less_length [of "packets_per_block u0"] by (simp add: block_packets_def)
  then have less: "curr_buffer_count ?u4 < packets_per_block ?u4"
    using assms(3) C(2,5) unat_small by (simp add: word_less_nat_alt block_packets_def)
  obtain l4 where "enough ?u4 ?l3 = Some (?u4, l4)" using less by (auto simp: enough_def Let_def)
  then have "take_packet u1 l1 = Some (?u4, l4)" using run place by simp
  moreover have "slot ?n (seq_of u0 d' - next_seq u0) ?buf = (if seq_of u0 d' = next_seq u0 + ?j then drop 8 d else drop 8 d')"
    by (rule slots_after_put [OF assms(2,4) j(1) assms(7,9,8)])
  moreover have "seq_of u0 d' = next_seq u0 + ?j \<longleftrightarrow> seq_of u0 d = seq_of u0 d' + ?m" using assms(5,8) by linarith
  moreover have "curr_buffer (begin_block ?u4) = next_buffer u" "curr_buffer_count (begin_block ?u4) = 1"
    using u3(3) by (simp_all add: begin_block_def Let_def)
  ultimately show ?thesis by auto
qed

text \<open>A first packet that is too short ends the call with an error, which the end of the call turns into an empty block.\<close>

lemma size_error_is_lost:
  assumes "\<not> packet_in_buffer u" and "expected_sequence_no u = 0" and "sequence_incr u \<noteq> 0" and "length d < unat (packet_payload_size u)"
  obtains u' where "udpdb_buffer tick (Datagram d # es) u = Some (0, es, u')"
proof -
  let ?u = "begin_block u" and ?l = "begin_collecting (begin_block u)"
  obtain u1 l1 where rec: "receive (Datagram d) ?u ?l = (u1, l1)" by fastforce
  have "length d < 2 ^ 64" using assms(4) unat_less_length [of "packet_payload_size u"] by simp
  then have "unat (of_nat (length d) :: u64) < unat (packet_payload_size u)" using assms(4) unat_small by simp
  then have short: "of_nat (length d) \<noteq> packet_payload_size u" by auto
  have u1: "received u1 = of_nat (length d)" "packet_payload_size u1 = packet_payload_size u" "expected_sequence_no u1 = 0"
      "sequence_incr u1 = sequence_incr u" "co_data_received l1 = 0" "\<not> co_break ?l" "\<not> co_quit ?l" "\<not> co_quit l1"
    using rec assms(2,4) by (auto simp: receive_def begin_block_def begin_collecting_def Let_def)
  let ?w = "u1\<lparr>curr_sequence_no := bpsr_decode_header (sock_buf u1) div sequence_incr u1\<rparr>"
  obtain u2 l2 where f: "first_packet ?w l1 = (u2, l2)" by fastforce
  then have b: "co_break l2" "co_data_received l2 = 0"
    using u1 short by (auto simp: first_packet_def Let_def split: prod.splits if_splits)
  then have "take_packet u1 l1 = Some (u2, l2)" using f u1(4) assms(3) by (simp add: take_packet_def)
  moreover have "receive_packets es u2 l2 = Some (es, u2, l2)" using b by (subst receive_packets.simps) simp
  ultimately have "receive_packets (Datagram d # es) ?u ?l = Some (es, u2, l2)"
    using rec u1(6-8) by (subst receive_packets.simps) simp
  moreover have "end_block tick u2 l2 = (0, snd (end_block tick u2 l2))" using b by (simp add: end_block_def)
  moreover have "\<not> packet_in_buffer ?u" using assms(1) by (simp add: begin_block_def Let_def)
  ultimately have "udpdb_buffer tick (Datagram d # es) u = Some (0, es, snd (end_block tick u2 l2))"
    by (auto simp: udpdb_buffer_def Let_def split: prod.splits)
  then show thesis by (rule that)
qed

section \<open>Small blocks\<close>

text \<open>Blocks of two packets of one byte.\<close>

definition small_udpdb :: udpdb where
  "small_udpdb =
     \<lparr>sock_buf = replicate 9 0, packet_header_size = 8, packet_data_size = 1, packet_payload_size = 9, block_size = 2,
      packets_per_block = 2, next_buffer = [0, 0], curr_buffer = [0, 0], packet_in_buffer = False, curr_buffer_count = 0,
      next_buffer_count = 0, received = 0, expected_sequence_no = 4, curr_sequence_no = 0, min_sequence = 0, mid_sequence = 0,
      max_sequence = 0, acc_len = 0, sequence_incr = 1, spectra_per_second = 0, bytes_per_second = 0, packets = init_stats,
      pkt_bytes = init_stats, error_seconds = 5, prev_seq = 0\<rparr>"

definition small_packet :: "u64 \<Rightarrow> byte \<Rightarrow> byte list" where
  "small_packet n x = bpsr_encode_header n (replicate 8 0 @ [x])"

lemma small_udpdb: "set_up small_udpdb" "next_seq small_udpdb = 4" "block_packets small_udpdb = 2" "packet_bytes small_udpdb = 1"
  by (simp_all add: set_up_def next_seq_def block_packets_def packet_bytes_def small_udpdb_def)

lemma small_packet:
  "length (small_packet n x) = 9" "drop 8 (small_packet n x) = [x]" "seq_of small_udpdb (small_packet n x) = unat n"
  using bpsr.enc_length [of "replicate 8 0 @ [x]" n] bpsr.enc_behind [of "replicate 8 0 @ [x]" n] bpsr.dec_enc [of "replicate 8 0 @ [x]" n]
  by (simp_all add: small_packet_def seq_of_def small_udpdb_def)

text \<open>The packets 5 and 4, in this order.\<close>

lemma packets_make_a_block_witness:
  "\<exists>u'. udpdb_buffer False [Datagram (small_packet 5 80), Datagram (small_packet 4 70), Quiet] small_udpdb = Some (2, [Quiet], u')
     \<and> curr_buffer u' = [70, 80]"
proof -
  let ?ps = "[small_packet 5 80, small_packet 4 70]"
  have "mset (map (seq_of small_udpdb) ?ps) = mset [next_seq small_udpdb..<next_seq small_udpdb + block_packets small_udpdb]"
    by (simp add: small_udpdb small_packet upt_rec add_mset_commute)
  moreover have "concat (map (drop 8) (sort_key (seq_of small_udpdb) ?ps)) = [70, 80]" by (simp add: small_packet)
  moreover have "\<not> packet_in_buffer small_udpdb" "next_buffer_count small_udpdb = 0"
      "length (next_buffer small_udpdb) = block_packets small_udpdb * packet_bytes small_udpdb"
    by (simp_all add: small_udpdb) (simp_all add: small_udpdb_def)
  moreover have "\<forall>d\<in>set ?ps. length d = 8 + packet_bytes small_udpdb" by (simp add: small_udpdb small_packet)
  ultimately show ?thesis
    using packets_make_a_block [of small_udpdb ?ps False "[Quiet]"] small_udpdb by auto
qed

text \<open>The packets 4 and 6: the data of the first one are lost.\<close>

lemma early_packet_overwrites_this_block_witness:
  "\<exists>u l u1 l1 u2 l2. collected small_udpdb [small_packet 4 70] u l \<and> curr_buffer u = [70, 0]
     \<and> receive (Datagram (small_packet 6 90)) u l = (u1, l1) \<and> take_packet u1 l1 = Some (u2, l2)
     \<and> slot 1 0 (curr_buffer u2) = [90] \<and> curr_buffer (begin_block u2) = [0, 0]"
proof -
  let ?u = "(begin_block small_udpdb)\<lparr>curr_buffer := [70, 0], curr_buffer_count := 1\<rparr>"
  let ?l = "(begin_collecting small_udpdb)\<lparr>co_data_received := 1\<rparr>"
  have c: "collected small_udpdb [small_packet 4 70] ?u ?l"
    by (simp add: collected_def small_udpdb small_packet slot_def)
      (simp add: small_udpdb_def begin_block_def begin_collecting_def Let_def c_int64_in_range zeros_def)
  have next_b: "next_buffer ?u = [0, 0]"
  proof -
    have "unat (block_size small_udpdb) = Suc (Suc 0)" by (simp add: small_udpdb_def)
    then show ?thesis by (simp add: begin_block_def zeros_def Let_def)
  qed
  obtain u1 l1 where r: "receive (Datagram (small_packet 6 90)) ?u ?l = (u1, l1)" by fastforce
  have "\<exists>u2 l2. take_packet u1 l1 = Some (u2, l2) \<and> slot 1 0 (curr_buffer u2) = [90] \<and> curr_buffer (begin_block u2) = [0, 0]"
    using early_packet_overwrites_this_block [OF small_udpdb(1) c _ _ _ _ _ _ _ r, of "small_packet 4 70"]
    by (auto simp: small_udpdb small_packet next_b)
  moreover have "curr_buffer ?u = [70, 0]" by simp
  ultimately show ?thesis using c r by blast
qed

end
