(* ===== verification/String_Array.thy ===== *)
theory String_Array
  imports C_String
begin

text \<open>
  Arrays of strings (\<^verbatim>\<open>src/string_array.c\<close>): a block of pointers that grows and shrinks
  by one, and the lists of words and lines read into it. An array is the list of the
  strings its \<open>size\<close> pointers point to; memory is taken to be available. What a string
  holds is copied on insertion, so no two entries share a string, unless
  \<open>string_array_switch\<close> makes them.
\<close>

section \<open>Insertion and removal\<close>

type_synonym string_array = "string list"

definition string_array_create :: string_array where "string_array_create = []"

definition string_array_size :: "string_array \<Rightarrow> nat" where "string_array_size l = length l"

definition string_array_get :: "string_array \<Rightarrow> nat \<Rightarrow> string option" where
  "string_array_get l pos = (if pos < string_array_size l then Some (l ! pos) else None)"

text \<open>The loops that move the pointers behind \<open>pos\<close> up, and down.\<close>

fun move_up :: "'a list \<Rightarrow> nat \<Rightarrow> nat \<Rightarrow> 'a list" where
  "move_up strs pos val =
     (if pos < val then move_up (strs[val := strs ! (val - 1)]) pos (val - 1) else strs)"

function move_down :: "'a list \<Rightarrow> nat \<Rightarrow> nat \<Rightarrow> 'a list" where
  "move_down strs n val =
     (if val < n then move_down (strs[val := strs ! (val + 1)]) n (val + 1) else strs)"
  by pat_completeness auto
termination by (relation "measure (\<lambda>(strs, n, val). n - val)") auto

declare move_up.simps [simp del] move_down.simps [simp del]

text \<open>\<open>fresh\<close> is what the new cell of the grown block holds, before it is overwritten.\<close>

definition string_array_insert :: "string \<Rightarrow> string_array \<Rightarrow> string \<Rightarrow> nat \<Rightarrow> int \<times> string_array" where
  "string_array_insert fresh l entry pos =
     (if string_array_size l < pos then (- 1, l)
      else (0, (move_up (l @ [fresh]) pos (length l))[pos := entry]))"

definition string_array_append :: "string \<Rightarrow> string_array \<Rightarrow> string \<Rightarrow> int \<times> string_array" where
  "string_array_append fresh l entry = string_array_insert fresh l entry (string_array_size l)"

definition string_array_remove :: "string_array \<Rightarrow> nat \<Rightarrow> int \<times> string_array" where
  "string_array_remove l pos =
     (if string_array_size l = 0 then (- 1, l)
      else if string_array_size l \<le> pos then (- 1, l)
      else (0, take (length l - 1) (move_down l (length l - 1) pos)))"

text \<open>Positions outside the array are not checked; \<open>None\<close> is the access behind its end.\<close>

definition string_array_switch :: "string_array \<Rightarrow> nat \<Rightarrow> nat \<Rightarrow> (int \<times> string_array) option" where
  "string_array_switch l pos1 pos2 =
     (if pos1 < length l \<and> pos2 < length l
      then let temp = l ! pos1 in Some (0, l[pos2 := l ! pos1, pos1 := temp])
      else None)"

fun string_array_search :: "string_array \<Rightarrow> string \<Rightarrow> string option" where
  "string_array_search [] m = None"
| "string_array_search (s # l) m = (if s = m then Some s else string_array_search l m)"

section \<open>Lists of words and lines\<close>

function filter_from :: "string \<Rightarrow> string_array \<Rightarrow> nat \<Rightarrow> string_array" where
  "filter_from words l istr =
     (if istr < string_array_size l
      then filter_from words
             (if strstr words (l ! istr) = None then snd (string_array_remove l istr) else l) (istr + 1)
      else l)"
  by pat_completeness auto
termination
proof (relation "measure (\<lambda>(words, l, istr). length l - istr)")
  have len: "length (move_down strs n val) = length strs" for strs :: "'b list" and n val
    by (induction strs n val rule: move_down.induct) (subst move_down.simps, simp)
  show "((words, if strstr words (l ! istr) = None then snd (string_array_remove l istr) else l, istr + 1), words, l, istr)
      \<in> measure (\<lambda>(words, l, istr). length l - istr)"
    if "istr < string_array_size l" for words l istr
    using that by (auto simp: string_array_remove_def string_array_size_def len)
qed simp

declare filter_from.simps [simp del]

definition string_array_filter :: "string_array \<Rightarrow> string \<Rightarrow> int \<times> string_array" where
  "string_array_filter l words = (0, filter_from words l 0)"

text \<open>The words \<open>strtok\<close> gives one after the other.\<close>

function strtok_words :: "string \<Rightarrow> string \<Rightarrow> string list" where
  "strtok_words white s =
     (let s' = dropWhile (\<lambda>c. c \<in> set white) s
      in if s' = [] then []
         else takeWhile (\<lambda>c. c \<notin> set white) s'
              # strtok_words white (drop 1 (dropWhile (\<lambda>c. c \<notin> set white) s')))"
  by pat_completeness auto
termination
proof (relation "measure (\<lambda>(white, s). length s)")
  show "((white, drop 1 (dropWhile (\<lambda>c. c \<notin> set white) s')), white, s) \<in> measure (\<lambda>(white, s). length s)"
    if "s' = dropWhile (\<lambda>c. c \<in> set white) s" "s' \<noteq> []" for white s s'
  proof -
    have "length (dropWhile (\<lambda>c. c \<notin> set white) s') \<le> length s'" by (rule length_dropWhile_le)
    moreover have "length s' \<le> length s" unfolding that(1) by (rule length_dropWhile_le)
    moreover have "0 < length s'" using that(2) by simp
    ultimately show ?thesis unfolding in_measure prod.case length_drop by linarith
  qed
qed simp

declare strtok_words.simps [simp del]

definition add_word :: "string \<Rightarrow> string \<Rightarrow> string_array \<Rightarrow> string_array" where
  "add_word fresh word l =
     (if string_array_search l word = None then snd (string_array_append fresh l word) else l)"

definition string_array_tok :: "string \<Rightarrow> string_array \<Rightarrow> string \<Rightarrow> string \<Rightarrow> int \<times> string_array" where
  "string_array_tok fresh l s white = (0, fold (add_word fresh) (strtok_words white s) l)"

text \<open>\<open>fgets\<close> with a buffer of 1024 bytes: up to the end of a line, at most 1023 bytes.\<close>

definition fgets_line :: "string \<Rightarrow> string" where
  "fgets_line s =
     (let line = takeWhile (\<lambda>c. c \<noteq> nl) s
      in if length line < 1023 \<and> length line < length s then line @ [nl] else take 1023 line)"

function fgets_lines :: "string \<Rightarrow> string list" where
  "fgets_lines s = (if s = [] then [] else fgets_line s # fgets_lines (drop (length (fgets_line s)) s))"
  by pat_completeness auto
termination
proof (relation "measure length")
  show "(drop (length (fgets_line s)) s, s) \<in> measure length" if "s \<noteq> []" for s
  proof -
    have "fgets_line s \<noteq> []" using that by (cases s) (auto simp: fgets_line_def Let_def)
    then show ?thesis using that by simp
  qed
qed simp

declare fgets_lines.simps [simp del]

definition load_whitespace :: string where
  "load_whitespace = [CHR '' '', CHR 0x0D, tab, nl]"

definition load_text :: "string \<Rightarrow> string" where
  "load_text buffer =
     dropWhile (\<lambda>c. c \<in> set load_whitespace)
       (takeWhile (\<lambda>c. c \<noteq> CHR ''#'') (takeWhile (\<lambda>c. c \<noteq> CHR 0x00) buffer))"

definition load_line :: "string \<Rightarrow> string \<Rightarrow> string_array \<Rightarrow> string_array" where
  "load_line fresh buffer l =
     (if load_text buffer \<noteq> [] then snd (string_array_append fresh l (load_text buffer)) else l)"

text \<open>The file is what it holds, or \<open>None\<close> when it cannot be opened.\<close>

definition string_array_load :: "string \<Rightarrow> string_array \<Rightarrow> string option \<Rightarrow> int \<times> string_array" where
  "string_array_load fresh l file =
     (case file of
        None \<Rightarrow> (- 1, l)
      | Some s \<Rightarrow> (0, fold (load_line fresh) (fgets_lines s) l))"

section \<open>What the loops do\<close>

lemma move_up_eq:
  assumes "pos \<le> val" and "val < length strs"
  shows "move_up strs pos val = take pos strs @ (strs ! pos # drop pos (take val strs)) @ drop (val + 1) strs"
  using assms
proof (induction strs pos val rule: move_up.induct)
  case (1 strs pos val)
  show ?case
  proof (cases "pos < val")
    case False
    then show ?thesis using "1.prems" by (subst move_up.simps) (simp add: id_take_nth_drop)
  next
    case True
    let ?s = "strs[val := strs ! (val - 1)]"
    have "move_up strs pos val = move_up ?s pos (val - 1)" using True by (subst move_up.simps) simp
    also have "\<dots> = take pos ?s @ (?s ! pos # drop pos (take (val - 1) ?s)) @ drop (val - 1 + 1) ?s"
      by (rule "1.IH" [OF True]) (use True "1.prems" in auto)
    also have "\<dots> = take pos strs @ (strs ! pos # drop pos (take (val - 1) strs)) @ strs ! (val - 1) # drop (val + 1) strs"
    proof -
      have "drop val ?s = strs ! (val - 1) # drop (val + 1) strs"
        using "1.prems"(2) by (simp add: Cons_nth_drop_Suc [symmetric])
      then show ?thesis using True by simp
    qed
    also have "drop pos (take (val - 1) strs) @ [strs ! (val - 1)] = drop pos (take val strs)"
    proof -
      have "take val strs = take (val - 1) strs @ [strs ! (val - 1)]"
        using True "1.prems"(2) take_Suc_conv_app_nth [of "val - 1" strs] by simp
      then show ?thesis using True "1.prems"(2) by simp
    qed
    then have "take pos strs @ (strs ! pos # drop pos (take (val - 1) strs)) @ strs ! (val - 1) # drop (val + 1) strs
        = take pos strs @ (strs ! pos # drop pos (take val strs)) @ drop (val + 1) strs" by simp
    finally show ?thesis .
  qed
qed

lemma move_down_eq:
  assumes "val \<le> n" and "n < length strs"
  shows "move_down strs n val = take val strs @ drop (val + 1) (take (n + 1) strs) @ drop n strs"
  using assms
proof (induction strs n val rule: move_down.induct)
  case (1 strs n val)
  show ?case
  proof (cases "val < n")
    case False
    then show ?thesis using "1.prems" by (subst move_down.simps) simp
  next
    case True
    let ?s = "strs[val := strs ! (val + 1)]"
    have "move_down strs n val = move_down ?s n (val + 1)" using True by (subst move_down.simps) simp
    also have "\<dots> = take (val + 1) ?s @ drop (val + 1 + 1) (take (n + 1) ?s) @ drop n ?s"
      by (rule "1.IH" [OF True]) (use True "1.prems" in auto)
    also have "\<dots> = take val strs @ strs ! (val + 1) # drop (val + 2) (take (n + 1) strs) @ drop n strs"
      using True "1.prems" by (simp add: take_Suc_conv_app_nth drop_take)
    also have "strs ! (val + 1) # drop (val + 2) (take (n + 1) strs) = drop (val + 1) (take (n + 1) strs)"
      using True "1.prems" Cons_nth_drop_Suc [of "val + 1" "take (n + 1) strs"] by simp
    then have "take val strs @ strs ! (val + 1) # drop (val + 2) (take (n + 1) strs) @ drop n strs
        = take val strs @ drop (val + 1) (take (n + 1) strs) @ drop n strs" by simp
    finally show ?thesis .
  qed
qed

lemma insert_eq:
  "pos \<le> length l \<Longrightarrow> string_array_insert fresh l entry pos = (0, take pos l @ entry # drop pos l)"
  by (cases "pos = length l")
    (simp_all add: string_array_insert_def string_array_size_def move_up_eq list_update_append nth_append)

lemma append_eq [simp]: "string_array_append fresh l entry = (0, l @ [entry])"
  by (simp add: string_array_append_def string_array_size_def insert_eq)

lemma remove_eq: "pos < length l \<Longrightarrow> string_array_remove l pos = (0, take pos l @ drop (pos + 1) l)"
  by (auto simp: string_array_remove_def string_array_size_def move_down_eq)

lemma search_eq: "string_array_search l m = (if m \<in> set l then Some m else None)"
  by (induction l) auto

lemma add_word_eq: "add_word fresh word l = (if word \<in> set l then l else l @ [word])"
  by (simp add: add_word_def search_eq)

lemma load_line_eq: "load_line fresh buffer l = l @ (if load_text buffer = [] then [] else [load_text buffer])"
  by (simp add: load_line_def)

lemma fold_add_word: "prefix l (fold (add_word fresh) ws l)"
proof (induction ws arbitrary: l)
  case (Cons w ws)
  have "prefix l (add_word fresh w l)" by (simp add: add_word_eq)
  also have "prefix \<dots> (fold (add_word fresh) ws (add_word fresh w l))" by (rule Cons.IH)
  finally show ?case by simp
qed simp

lemma fold_add_word_set:
  "set (fold (add_word fresh) ws l) = set l \<union> set ws \<and> (distinct l \<longrightarrow> distinct (fold (add_word fresh) ws l))"
  by (induction ws arbitrary: l) (auto simp: add_word_eq)

lemma fold_load_line: "fold (load_line fresh) bs l = l @ filter (\<lambda>t. t \<noteq> []) (map load_text bs)"
  by (induction bs arbitrary: l) (simp_all add: load_line_eq)

lemma fgets_lines_concat:
  assumes "\<forall>line\<in>set lines. length line < 1023 \<and> nl \<notin> set line"
  shows "fgets_lines (concat (map (\<lambda>line. line @ [nl]) lines)) = map (\<lambda>line. line @ [nl]) lines"
  using assms
proof (induction lines)
  case Nil
  then show ?case by (simp add: fgets_lines.simps)
next
  case (Cons line lines)
  let ?rest = "concat (map (\<lambda>line. line @ [nl]) lines)"
  have "takeWhile (\<lambda>c. c \<noteq> nl) (line @ nl # ?rest) = line"
    using Cons.prems by (auto simp: takeWhile_append takeWhile_eq_all_conv)
  then have "fgets_line (line @ nl # ?rest) = line @ [nl]"
    using Cons.prems by (simp add: fgets_line_def)
  then show ?case
    using Cons by (subst fgets_lines.simps) simp
qed

text \<open>The entry behind one that is removed is not looked at.\<close>

function keep_words :: "string \<Rightarrow> string_array \<Rightarrow> string_array" where
  "keep_words words [] = []"
| "keep_words words (s # l) =
     (if strstr words s \<noteq> None then s # keep_words words l
      else take 1 l @ keep_words words (drop 1 l))"
  by pat_completeness auto
termination by (relation "measure (\<lambda>(words, l). length l)") auto

lemma filter_from_eq:
  "n \<le> length l \<Longrightarrow> filter_from words l n = take n l @ keep_words words (drop n l)"
proof (induction words l n rule: filter_from.induct)
  case (1 words l n)
  show ?case
  proof (cases "n < length l")
    case False
    then show ?thesis using "1.prems" by (subst filter_from.simps) (simp add: string_array_size_def)
  next
    case True
    let ?l = "if strstr words (l ! n) = None then snd (string_array_remove l n) else l"
    have step: "filter_from words l n = filter_from words ?l (n + 1)"
      using True by (subst filter_from.simps) (simp add: string_array_size_def)
    have d: "drop n l = l ! n # drop (n + 1) l" using True Cons_nth_drop_Suc [of n l] by simp
    show ?thesis
    proof (cases "strstr words (l ! n) = None")
      case False
      then have "filter_from words l (n + 1) = take (n + 1) l @ keep_words words (drop (n + 1) l)"
      proof -
        have keep: "?l = l" using False by (rule if_not_P)
        have "n + 1 \<le> length ?l" using True unfolding keep by simp
        with "1.IH" True have "filter_from words ?l (n + 1) = take (n + 1) ?l @ keep_words words (drop (n + 1) ?l)"
          unfolding string_array_size_def by blast
        then show ?thesis unfolding keep .
      qed
      then show ?thesis
        using False True step [unfolded if_not_P [OF False]] d by (auto simp: take_Suc_conv_app_nth)
    next
      case gone: True
      let ?r = "take n l @ drop (n + 1) l"
      have r: "?l = ?r" using gone True by (simp add: remove_eq)
      show ?thesis
      proof (cases "n + 1 < length l")
        case True
        then have "filter_from words ?r (n + 1) = take (n + 1) ?r @ keep_words words (drop (n + 1) ?r)"
          using "1.IH" \<open>n < length l\<close> r by (simp add: string_array_size_def)
        then show ?thesis using gone True step r d by simp
      next
        case False
        then have "filter_from words ?r (n + 1) = ?r"
          using \<open>n < length l\<close> by (subst filter_from.simps) (simp add: string_array_size_def)
        then show ?thesis using gone False step r d by simp
      qed
    qed
  qed
qed

text \<open>Inserting a string puts it at its position and moves the later ones up by one;
  removing that position again gives the old array.\<close>

theorem insert_then_remove:
  assumes "pos \<le> string_array_size l" and "string_array_insert fresh l entry pos = (rc, l')"
  shows "rc = 0 \<and> string_array_get l' pos = Some entry
    \<and> (\<forall>i. i < pos \<longrightarrow> string_array_get l' i = string_array_get l i)
    \<and> (\<forall>i. pos \<le> i \<longrightarrow> string_array_get l' (i + 1) = string_array_get l i)
    \<and> string_array_remove l' pos = (0, l)"
proof -
  have p: "pos \<le> length l" using assms(1) by (simp add: string_array_size_def)
  then have l': "l' = take pos l @ entry # drop pos l" and "rc = 0"
    using assms(2) by (simp_all add: insert_eq)
  moreover have "string_array_remove l' pos = (0, l)" using p by (simp add: l' remove_eq)
  ultimately show ?thesis
    using p by (auto simp: string_array_get_def string_array_size_def nth_append Suc_diff_le)
qed

lemma insert_then_remove_witness:
  "string_array_remove (snd (string_array_insert [] [''a'', ''b''] ''x'' 1)) 1 = (0, [''a'', ''b''])"
  using insert_then_remove [OF _ surjective_pairing, of 1 "[''a'', ''b'']" "[]" "''x''"]
  by (simp add: string_array_size_def)

text \<open>Tokenising a string adds each of its words that the array does not hold yet, once,
  behind the old entries.\<close>

theorem tok_adds_each_word_once:
  assumes "string_array_tok fresh l s white = (rc, l')"
  shows "rc = 0 \<and> prefix l l' \<and> set l' = set l \<union> set (strtok_words white s) \<and> (distinct l \<longrightarrow> distinct l')"
  using assms fold_add_word_set [of fresh "strtok_words white s" l] fold_add_word [of l fresh "strtok_words white s"]
  by (auto simp: string_array_tok_def)

lemma tok_adds_each_word_once_witness:
  "set (snd (string_array_tok [] [''a''] ''b a b'' '' '')) = {''a'', ''b''}"
proof -
  have "set (strtok_words '' '' ''b a b'') = {''a'', ''b''}" by (simp add: strtok_words.simps insert_commute)
  then show ?thesis
    using tok_adds_each_word_once [OF surjective_pairing, of "[]" "[''a'']" "''b a b''" "'' ''"] by auto
qed

text \<open>Loading a file whose lines fit the buffer appends, in their order, the texts of the
  lines before any \<open>#\<close>, without leading whitespace and leaving out the empty ones; the end of
  line stays in the text.\<close>

theorem load_appends_the_lines:
  assumes "\<forall>line\<in>set lines. length line < 1023 \<and> nl \<notin> set line"
  shows "string_array_load fresh l (Some (concat (map (\<lambda>line. line @ [nl]) lines)))
       = (0, l @ filter (\<lambda>t. t \<noteq> []) (map (\<lambda>line. load_text (line @ [nl])) lines))"
  using fgets_lines_concat [OF assms]
  by (simp add: string_array_load_def fold_load_line comp_def)

lemma load_appends_the_lines_witness:
  "string_array_load [] [] (Some (''# names'' @ [nl] @ ''  ab #c'' @ [nl] @ [nl])) = (0, [''ab ''])"
proof -
  have "string_array_load [] [] (Some (concat (map (\<lambda>line. line @ [nl]) [''# names'', ''  ab #c'', []])))
      = (0, [] @ filter (\<lambda>t. t \<noteq> []) (map (\<lambda>line. load_text (line @ [nl])) [''# names'', ''  ab #c'', []]))"
    by (rule load_appends_the_lines) (simp add: nl_def)
  also have "\<dots> = (0, [''ab ''])"
    by (simp add: load_text_def load_whitespace_def nl_def tab_def)
  finally show ?thesis by simp
qed

text \<open>The filter keeps every entry that occurs in the given words, but of the others it
  removes one and leaves the entry behind it as it is, whether it occurs or not.\<close>

theorem filter_skips_behind_a_removal:
  assumes "list_all (\<lambda>k. strstr words k \<noteq> None) keep" and "strstr words s = None"
  shows "string_array_filter (keep @ s # t # rest) words = (0, keep @ t # snd (string_array_filter rest words))
    \<and> filter (\<lambda>k. strstr words k \<noteq> None) (snd (string_array_filter l words))
      = filter (\<lambda>k. strstr words k \<noteq> None) l"
proof -
  have eq: "string_array_filter l words = (0, keep_words words l)" for l
    using filter_from_eq [of 0 l words] by (simp add: string_array_filter_def)
  have "keep_words words (keep @ s # t # rest) = keep @ t # keep_words words rest"
    using assms by (induction keep) auto
  moreover have "filter (\<lambda>k. strstr words k \<noteq> None) (keep_words words l) = filter (\<lambda>k. strstr words k \<noteq> None) l"
  proof (induction words l rule: keep_words.induct)
    case (2 words s l)
    then show ?case by (cases l) auto
  qed simp
  ultimately show ?thesis by (simp add: eq)
qed

lemma filter_skips_behind_a_removal_witness:
  "string_array_filter [''a'', ''x'', ''y'', ''b''] ''a b'' = (0, [''a'', ''y'', ''b''])"
  using filter_skips_behind_a_removal [of "''a b''" "[''a'']" "''x''" "''y''" "[''b'']" "[]"]
  by (simp add: string_array_filter_def filter_from.simps string_array_size_def)

end
