(* ===== verification/Pwc_Properties.thy ===== *)
theory Pwc_Properties
  imports Pwc
begin

text \<open>
  Properties of the control interface: commands are delivered once, in their order and
  only in the states that admit them; where in the data they take effect; and what the
  text lines do.
\<close>

section \<open>Runs of the interface\<close>

text \<open>
  The state of a run: the client, the commands accepted with the state in which they
  were, and the commands taken by the writing thread.
\<close>

record pwc_world =
  client :: dada_pwc_t
  accepted :: "(dada_pwc_command_t \<times> dada_pwc_state_t) list"
  taken :: "dada_pwc_command_t list"

definition queues :: "pwc_fn \<Rightarrow> bool" where
  "queues f \<longleftrightarrow> f \<notin> {Cmd_state, Cmd_duration}"

inductive pwc_step :: "'d machine \<Rightarrow> pwc_world \<Rightarrow> pwc_world \<Rightarrow> bool" for m where
  call: "pwc_call m f (client w) args = Some (rc, p) \<Longrightarrow>
     pwc_step m w
       (w\<lparr>client := p,
          accepted := accepted w @ (if queues f \<and> rc = 0 then [(queued p, pstate (client w))] else [])\<rparr>)"
| take: "dada_pwc_command_get (client w) = Some (c, p) \<Longrightarrow>
     pwc_step m w (w\<lparr>client := p, taken := taken w @ [c]\<rparr>)"
| state: "dada_pwc_set_state (client w) n t = (rc, p) \<Longrightarrow> pwc_step m w (w\<lparr>client := p\<rparr>)"
| resize: "dada_pwc_set_header_size (client w) n = (rc, p) \<Longrightarrow> pwc_step m w (w\<lparr>client := p\<rparr>)"

inductive_cases pwc_stepE: "pwc_step m w w'"

definition pending :: "dada_pwc_t \<Rightarrow> dada_pwc_command_t list" where
  "pending p = (if code (queued p) = dada_pwc_no_command then [] else [queued p])"

definition pwc_inv :: "pwc_world \<Rightarrow> bool" where
  "pwc_inv w \<longleftrightarrow>
     map fst (accepted w) = taken w @ pending (client w)
     \<and> (\<forall>(c, s) \<in> set (accepted w). accepted_in (code c) s \<and> code c \<noteq> dada_pwc_no_command)"

text \<open>What a call does to the queue.\<close>

lemma command_set_cases:
  assumes "dada_pwc_command_set p c = Some (rc, p')"
  shows "pending p = [] \<and> (rc = 0 \<and> p' = p\<lparr>queued := c\<rparr> \<and> accepted_in (code c) (pstate p) \<or> rc = - 1 \<and> p' = p)"
  using assms by (auto simp: dada_pwc_command_set_def pending_def split: if_splits)

lemma byte_count_code:
  "code (snd (dada_pwc_command_set_byte_count p c)) = code c"
  by (simp add: dada_pwc_command_set_byte_count_def Let_def)

definition queue_effect :: "dada_pwc_t \<Rightarrow> int \<Rightarrow> dada_pwc_t \<Rightarrow> bool" where
  "queue_effect p rc p' \<longleftrightarrow>
     pstate p' = pstate p
     \<and> (if rc = 0
        then pending p = [] \<and> pending p' = [queued p'] \<and> accepted_in (code (queued p')) (pstate p)
        else pending p' = pending p)"

lemma command_set_effect:
  assumes "dada_pwc_command_set p c = Some (rc, p')" and "code c \<noteq> dada_pwc_no_command"
    and "pstate p = pstate p0" and "queued p = queued p0"
  shows "queue_effect p0 rc p'"
  using command_set_cases [OF assms(1)] assms(2-4) by (auto simp: queue_effect_def pending_def)

lemma refused_effect:
  assumes "pstate p = pstate p0" and "queued p = queued p0"
  shows "queue_effect p0 (- 1) p"
  using assms by (simp add: queue_effect_def pending_def)

lemma at_byte_count_effect:
  assumes "set_at_byte_count p c = Some (rc, p')" and "code c \<noteq> dada_pwc_no_command"
    and "pstate p = pstate p0" and "queued p = queued p0"
  shows "queue_effect p0 rc p'"
proof -
  obtain r c' where rc: "dada_pwc_command_set_byte_count p c = (r, c')" by fastforce
  then have "code c' \<noteq> dada_pwc_no_command" using byte_count_code [of p c] assms(2) by simp
  then show ?thesis
    using assms rc refused_effect [of p p0] command_set_effect [of p c' rc p' p0]
    by (auto simp: set_at_byte_count_def split: if_splits)
qed

lemma parse_rate_frame:
  "pstate (snd (dada_pwc_parse_bytes_per_second m p h)) = pstate p
   \<and> queued (snd (dada_pwc_parse_bytes_per_second m p h)) = queued p"
  by (simp add: dada_pwc_parse_bytes_per_second_def Let_def split: prod.split)

lemma cmd_header_effect:
  assumes "dada_pwc_cmd_header m p args = Some (rc, p')"
  shows "queue_effect p rc p'"
proof (cases args)
  case None
  then show ?thesis using assms refused_effect [of p p] by (simp add: dada_pwc_cmd_header_def)
next
  case (Some s)
  let ?h = "map (\<lambda>c. if c = CHR 0x5C then nl else c) s"
  obtain r q where q: "dada_pwc_parse_bytes_per_second m p ?h = (r, q)" by fastforce
  then have f: "pstate q = pstate p" "queued q = queued p" using parse_rate_frame [of m p ?h] by simp_all
  have "code (DADA_PWC_COMMAND_INIT\<lparr>code := dada_pwc_header, with_header := True\<rparr>) \<noteq> dada_pwc_no_command"
    by simp
  note set_it = command_set_effect [OF _ this]
  show ?thesis
    using assms Some q f refused_effect [of p p] refused_effect [of q p] set_it [of "store_header q ?h" rc p' p]
    by (auto simp: dada_pwc_cmd_header_def store_header_def split: if_splits)
qed

lemma call_effect:
  assumes "pwc_call m f p args = Some (rc, p')" and "queues f"
  shows "queue_effect p rc p'"
proof (cases f)
  case Cmd_header
  then show ?thesis using assms cmd_header_effect by simp
qed (use assms in \<open>auto simp: queues_def Let_def dada_pwc_cmd_clock_def dada_pwc_cmd_reset_def dada_pwc_cmd_quit_def
        dada_pwc_cmd_start_def dada_pwc_cmd_stop_def dada_pwc_cmd_record_start_def dada_pwc_cmd_record_stop_def
        dada_pwc_cmd_set_utc_start_def split: if_splits
      intro!: refused_effect dest: command_set_effect [of _ _ _ _ p] at_byte_count_effect [of _ _ _ _ p]\<close>)

lemma call_no_effect:
  assumes "pwc_call m f p args = Some (rc, p')" and "\<not> queues f"
  shows "pstate p' = pstate p \<and> pending p' = pending p"
  using assms by (cases f) (auto simp: queues_def dada_pwc_cmd_duration_def pending_def Let_def split: option.splits if_splits)

lemma pwc_step_inv:
  assumes "pwc_step m w w'" and inv: "pwc_inv w"
  shows "pwc_inv w'"
  using assms(1)
proof cases
  case (call f args rc p)
  show ?thesis
  proof (cases "queues f")
    case True
    then have e: "queue_effect (client w) rc p" using call(2) call_effect by blast
    show ?thesis
    proof (cases "rc = 0")
      case True
      then have p: "pending (client w) = []" "pending p = [queued p]" "accepted_in (code (queued p)) (pstate (client w))"
        using e by (simp_all add: queue_effect_def)
      then have "code (queued p) \<noteq> dada_pwc_no_command" by (auto simp: pending_def split: if_splits)
      then show ?thesis using inv p True \<open>queues f\<close> by (simp add: pwc_inv_def call(1))
    next
      case False
      then have "pending p = pending (client w)" using e by (simp add: queue_effect_def)
      then show ?thesis using inv False by (simp add: pwc_inv_def call(1))
    qed
  next
    case False
    then have "pending p = pending (client w)" using call_no_effect [OF call(2)] by simp
    then show ?thesis using inv False by (simp add: pwc_inv_def call(1))
  qed
next
  case (take c p)
  have "pending (client w) = [c]" "pending p = []"
    using take(2) by (auto simp: dada_pwc_command_get_def pending_def split: if_splits)
  then show ?thesis using inv by (simp add: pwc_inv_def take(1))
next
  case (state n t rc p)
  have "pending p = pending (client w)"
    using state(2) by (auto simp: dada_pwc_set_state_def Let_def pending_def split: if_splits)
  then show ?thesis using inv by (simp add: pwc_inv_def state(1))
next
  case (resize n rc p)
  have "pending p = pending (client w)"
    using resize(2) by (auto simp: dada_pwc_set_header_size_def pending_def)
  then show ?thesis using inv by (simp add: pwc_inv_def resize(1))
qed

interpretation pwc: invariant_system "pwc_step m" pwc_inv
  by unfold_locales (rule pwc_step_inv)

definition pwc_start :: "u32 \<Rightarrow> dada_pwc_command_t \<Rightarrow> pwc_world" where
  "pwc_start page junk = \<lparr>client = dada_pwc_create page junk, accepted = [], taken = []\<rparr>"

lemma pwc_start_inv: "pwc_inv (pwc_start page junk)"
  by (simp add: pwc_inv_def pwc_start_def pending_def dada_pwc_create_def)

text \<open>C16. In every run of a new client, with any number of connections, the commands the
  writing thread takes are the commands accepted, once each and in the order of acceptance,
  with at most one not taken yet; and each was accepted in a state that admits it.\<close>

theorem commands_delivered_in_order:
  assumes "(pwc_step m)\<^sup>*\<^sup>* (pwc_start page junk) w"
  shows "map fst (accepted w) = taken w @ pending (client w) \<and> length (pending (client w)) \<le> 1
    \<and> (\<forall>(c, s) \<in> set (accepted w). accepted_in (code c) s)"
  using pwc.run_inv [OF assms pwc_start_inv] by (auto simp: pwc_inv_def pending_def)

text \<open>A machine and a client for the concrete runs below.\<close>

definition machine0 :: "unit machine" where
  "machine0 =
     \<lparr>unset = (\<lambda>_. 0),
      unset_tm = \<lparr>tm_year = 0, tm_mon = 0, tm_mday = 0, tm_hour = 0, tm_min = 0, tm_sec = 0\<rparr>,
      unset_double = (), scan_double = (\<lambda>s. (1, Some ())), over_interval = (\<lambda>n _. n)\<rparr>"

lemma commands_delivered_in_order_witness:
  "\<exists>w. (pwc_step machine0)\<^sup>*\<^sup>* (pwc_start 4096 DADA_PWC_COMMAND_INIT) w \<and> map (code \<circ> fst) (accepted w) = [dada_pwc_stop]
     \<and> map (code \<circ> fst) (accepted w) = map code (taken w @ pending (client w))"
proof -
  let ?c = "DADA_PWC_COMMAND_INIT\<lparr>code := dada_pwc_stop\<rparr>"
  let ?w = "pwc_start 4096 DADA_PWC_COMMAND_INIT"
  have c: "pwc_call machine0 Cmd_stop (client ?w) None = Some (0, (client ?w)\<lparr>queued := ?c\<rparr>)"
    by (simp add: dada_pwc_cmd_stop_def set_at_byte_count_def dada_pwc_command_set_byte_count_def
        dada_pwc_parse_time_def dada_pwc_command_set_def pwc_start_def dada_pwc_create_def DADA_PWC_COMMAND_INIT_def)
  let ?v = "?w\<lparr>client := (client ?w)\<lparr>queued := ?c\<rparr>, accepted := accepted ?w @ [(?c, pstate (client ?w))]\<rparr>"
  have "pwc_step machine0 ?w ?v" using pwc_step.call [OF c] by (simp add: queues_def)
  then have run: "(pwc_step machine0)\<^sup>*\<^sup>* ?w ?v" by (rule r_into_rtranclp)
  have "map fst (accepted ?v) = taken ?v @ pending (client ?v)"
    using commands_delivered_in_order [OF run] by blast
  then have "map code (map fst (accepted ?v)) = map code (taken ?v @ pending (client ?v))" by (rule arg_cong)
  moreover have "map (code \<circ> fst) (accepted ?v) = [dada_pwc_stop]" by (simp add: pwc_start_def)
  ultimately show ?thesis using run by (intro exI [of _ ?v]) simp
qed

section \<open>Where a command takes effect\<close>

text \<open>A client that knows its rate and start, and a time it can count to without overflow.\<close>

definition counts_bytes :: "dada_pwc_t \<Rightarrow> int \<Rightarrow> bool" where
  "counts_bytes p t \<longleftrightarrow>
     convert_to_bytes p \<and> utc_start p \<noteq> 0 \<and> bytes_per_second p \<noteq> 0 \<and> utc_start p \<le> t \<and> t \<noteq> 0
     \<and> nat (t - utc_start p) * unat (bytes_per_second p) + unat (byte_resolution p) < 2 ^ 64"

lemma byte_offset:
  assumes "counts_bytes p t"
  shows "unat (word_of_int (t - utc_start p) * bytes_per_second p) = nat (t - utc_start p) * unat (bytes_per_second p)"
proof -
  let ?k = "nat (t - utc_start p)" and ?b = "unat (bytes_per_second p)"
  have "?b \<noteq> 0" using assms by (simp add: counts_bytes_def unat_eq_zero)
  then have "?k \<le> ?k * ?b" by simp
  then have k: "?k < 2 ^ 64" and kb: "?k * ?b < 2 ^ 64" using assms unfolding counts_bytes_def by linarith+
  have "int ?k = t - utc_start p" using assms by (simp add: counts_bytes_def)
  then have "word_of_int (t - utc_start p) = (of_nat ?k :: u64)" by (metis of_int_of_nat_eq)
  moreover have "unat (of_nat ?k :: u64) = ?k" using k by (simp add: unsigned_of_nat take_bit_nat_eq_self)
  ultimately show ?thesis using kb by (simp add: unat_mult_lem [THEN iffD1])
qed

text \<open>C17. A command with a time takes effect at the byte of that time rounded to the resolution
  of the data: down for a start, and for a stop to the next boundary behind it.\<close>

theorem byte_count_at_boundary:
  assumes "counts_bytes p (utc c)" and "1 < byte_resolution p"
    and "dada_pwc_command_set_byte_count p c = (rc, c')"
    and "offset = nat (utc c - utc_start p) * unat (bytes_per_second p)"
  shows "rc = 0 \<and> unat (byte_resolution p) dvd unat (byte_count c')
    \<and> (if code c = dada_pwc_stop \<or> code c = dada_pwc_record_stop
       then offset < unat (byte_count c') \<and> unat (byte_count c') \<le> offset + unat (byte_resolution p)
       else unat (byte_count c') \<le> offset \<and> offset < unat (byte_count c') + unat (byte_resolution p))"
proof -
  obtain n :: u64 where n_def: "n = word_of_int (utc c - utc_start p) * bytes_per_second p" by blast
  let ?res = "ucast (byte_resolution p) :: u64" and ?r = "unat (byte_resolution p)"
  let ?m = "n div ?res * ?res"
  have "?r < 2 ^ 64" using unat_less_length [of "byte_resolution p"] by simp
  then have r: "unat ?res = ?r" by (simp add: unsigned_ucast_eq take_bit_nat_eq_self)
  have rpos: "0 < ?r" using assms(2) by (simp add: word_less_nat_alt)
  have n: "unat n = offset" using byte_offset [OF assms(1)] assms(4) by (simp only: n_def)
  have bound: "offset + ?r < 2 ^ 64" using assms(1,4) by (simp add: counts_bytes_def)
  have low: "offset div ?r * ?r \<le> offset" by (rule div_times_less_eq_dividend)
  then have "offset div ?r * ?r < 2 ^ 64" using bound by linarith
  then have "unat (n div ?res) * unat ?res < 2 ^ 64" by (simp only: unat_div n r)
  then have m: "unat ?m = offset div ?r * ?r"
    using unat_mult_lem [of "n div ?res" ?res] by (simp add: unat_div n r)
  have "offset div ?r * ?r + ?r < 2 ^ 64" using low bound by linarith
  then have "unat ?m + unat ?res < 2 ^ 64" by (simp only: m r)
  then have mr: "unat (?m + ?res) = offset div ?r * ?r + ?r"
    using unat_add_lem [of ?m ?res] by (simp add: m r)
  have up: "offset < offset div ?r * ?r + ?r" using rpos by (metis add.commute dividend_less_times_div mult.commute mult_Suc)
  let ?b = "if code c = dada_pwc_record_stop \<or> code c = dada_pwc_stop then ?m + ?res else ?m"
  have "dada_pwc_command_set_byte_count p c = (0, c\<lparr>byte_count := ?b\<rparr>)"
    using assms(1,2) unfolding n_def by (auto simp: dada_pwc_command_set_byte_count_def counts_bytes_def Let_def)
  then have "rc = 0" "byte_count c' = ?b" using assms(3) by auto
  then show ?thesis using low up by (auto simp: m mr)
qed

text \<open>A client that is recording: 1000 bytes a second from the second 100 on, in packets of 64.\<close>

definition client0 :: "dada_pwc_state_t \<Rightarrow> dada_pwc_t" where
  "client0 s = (dada_pwc_create 4096 DADA_PWC_COMMAND_INIT)
     \<lparr>pstate := s, bytes_per_second := 1000, bits_per_sample := 16, byte_resolution := 64, utc_start := 100\<rparr>"

lemma byte_count_at_boundary_witness:
  "unat (byte_count (snd (dada_pwc_command_set_byte_count (client0 dada_pwc_recording)
     (DADA_PWC_COMMAND_INIT\<lparr>code := dada_pwc_stop, utc := 110\<rparr>)))) \<in> {10001..10064}"
proof -
  let ?c = "DADA_PWC_COMMAND_INIT\<lparr>code := dada_pwc_stop, utc := 110\<rparr>" and ?p = "client0 dada_pwc_recording"
  have "counts_bytes ?p (utc ?c)" "1 < byte_resolution ?p"
    "nat (utc ?c - utc_start ?p) * unat (bytes_per_second ?p) = 10000" "unat (byte_resolution ?p) = 64"
    by (simp_all add: counts_bytes_def client0_def dada_pwc_create_def word_less_nat_alt)
  then show ?thesis
    using byte_count_at_boundary [of ?p ?c _ _ 10000] by (cases "dada_pwc_command_set_byte_count ?p ?c") auto
qed

text \<open>The duration that was set is what the next start is queued with.\<close>

theorem duration_reaches_start:
  assumes "dada_pwc_cmd_duration p (Some s) = Some (0, p')" and "pstate p = dada_pwc_prepared"
  shows "\<exists>q. dada_pwc_cmd_start m p' t = Some (0, q)
    \<and> queued q = \<lparr>code = dada_pwc_start, utc = dada_pwc_parse_time m t,
                  byte_count = dada_pwc_parse_duration p s, with_header = False\<rparr>"
  using assms
  by (auto simp: dada_pwc_cmd_duration_def dada_pwc_cmd_start_def dada_pwc_command_set_def Let_def
      DADA_PWC_COMMAND_INIT_def split: if_splits)

lemma duration_reaches_start_witness:
  "\<exists>p' q. dada_pwc_cmd_duration (client0 dada_pwc_prepared) (Some ''00:01:05'') = Some (0, p')
     \<and> dada_pwc_cmd_start machine0 p' None = Some (0, q) \<and> byte_count (queued q) = 65000"
proof -
  have d: "dada_pwc_parse_duration (client0 dada_pwc_prepared) ''00:01:05'' = 65000"
    by (simp add: dada_pwc_parse_duration_def scan_hms_def scan_unsigned_def scan_sign_def c_space_def
        is_digit_def digit_value_def expect_def client0_def dada_pwc_create_def)
  let ?p = "client0 dada_pwc_prepared"
  have "dada_pwc_cmd_duration ?p (Some ''00:01:05'') = Some (0, ?p\<lparr>queued := (queued ?p)\<lparr>byte_count := 65000\<rparr>\<rparr>)"
    unfolding dada_pwc_cmd_duration_def option.case d Let_def
    by (simp add: client0_def dada_pwc_create_def DADA_PWC_COMMAND_INIT_def)
  then obtain p' where p': "dada_pwc_cmd_duration ?p (Some ''00:01:05'') = Some (0, p')" by blast
  obtain q where "dada_pwc_cmd_start machine0 p' None = Some (0, q)" "byte_count (queued q) = 65000"
    using duration_reaches_start [OF p', of machine0 None] d by (auto simp: client0_def)
  then show ?thesis using p' by blast
qed

text \<open>A command that is taken between the duration and the start loses
  the duration: the start is queued with a byte count of zero.\<close>

theorem duration_lost_by_a_command:
  assumes "dada_pwc_command_get p1 = Some (c, p2)" and "pstate p3 = dada_pwc_prepared" and "queued p3 = queued p2"
  shows "\<exists>q. dada_pwc_cmd_start m p3 t = Some (0, q) \<and> byte_count (queued q) = 0"
  using assms
  by (auto simp: dada_pwc_command_get_def dada_pwc_cmd_start_def dada_pwc_command_set_def split: if_splits)

lemma duration_lost_by_a_command_witness:
  "\<exists>p0 p1 c p2 q. dada_pwc_cmd_duration (dada_pwc_create 4096 DADA_PWC_COMMAND_INIT\<lparr>bits_per_sample := 8\<rparr>) (Some ''100'') = Some (0, p0)
     \<and> byte_count (queued p0) = 100 \<and> dada_pwc_cmd_stop machine0 p0 None = Some (0, p1)
     \<and> dada_pwc_command_get p1 = Some (c, p2)
     \<and> dada_pwc_cmd_start machine0 (p2\<lparr>pstate := dada_pwc_prepared\<rparr>) None = Some (0, q) \<and> byte_count (queued q) = 0"
proof -
  let ?p = "dada_pwc_create 4096 DADA_PWC_COMMAND_INIT\<lparr>bits_per_sample := 8\<rparr>"
  let ?a = "?p\<lparr>queued := (queued ?p)\<lparr>byte_count := 100\<rparr>\<rparr>"
  let ?c = "DADA_PWC_COMMAND_INIT\<lparr>code := dada_pwc_stop\<rparr>"
  let ?b = "?a\<lparr>queued := ?c\<rparr>"
  let ?e = "?b\<lparr>queued := ?c\<lparr>code := dada_pwc_no_command, byte_count := 0\<rparr>\<rparr>"
  have d: "dada_pwc_parse_duration ?p ''100'' = 100"
    by (simp add: dada_pwc_parse_duration_def scan_hms_def scan_unsigned_def scan_sign_def c_space_def
        is_digit_def digit_value_def expect_def dada_pwc_create_def)
  have 0: "dada_pwc_cmd_duration ?p (Some ''100'') = Some (0, ?a)"
    unfolding dada_pwc_cmd_duration_def option.case d Let_def by (simp add: dada_pwc_create_def)
  have 6: "dada_pwc_cmd_stop machine0 ?a None = Some (0, ?b)"
    by (simp add: dada_pwc_cmd_stop_def set_at_byte_count_def dada_pwc_command_set_byte_count_def
        dada_pwc_parse_time_def dada_pwc_command_set_def dada_pwc_create_def DADA_PWC_COMMAND_INIT_def)
  have 2: "dada_pwc_command_get ?b = Some (?c, ?e)" by (simp add: dada_pwc_command_get_def)
  obtain q where 3: "dada_pwc_cmd_start machine0 (?e\<lparr>pstate := dada_pwc_prepared\<rparr>) None = Some (0, q)"
    and 4: "byte_count (queued q) = 0"
    using duration_lost_by_a_command [OF 2, of "?e\<lparr>pstate := dada_pwc_prepared\<rparr>" machine0 None]
    by auto
  have 5: "byte_count (queued ?a) = 100" by simp
  show ?thesis
    by (rule exI [of _ ?a], rule exI [of _ ?b], rule exI [of _ ?c], rule exI [of _ ?e], rule exI [of _ q])
      (intro conjI 0 2 3 4 5 6)
qed

section \<open>From the text line to the queue\<close>

lemma pwc_parser_lines:
  "pwc_parser =
     take 8 pwc_parser
     @ \<lparr>cmd = Client Cmd_record_start, context_of = Some (), name = ''rec_start'',
        short_help = Some ''enter the recording state'', long_help = None\<rparr> # drop 9 pwc_parser"
  "''rec_start'' \<notin> name ` set (take 8 pwc_parser)"
  by (simp_all add: pwc_parser_def pwc_commands_def command_parse_create_def command_parse_add_def)

lemma trimmed_utc_string: "trimmed (utc_string y mo d h mi s)"
proof -
  have "digit n \<notin> set parse_whitespace" for n
  proof -
    have "n mod 10 < 10" by simp
    then show ?thesis using digit_char(3) [of "n mod 10"]
      by (auto simp: digit_def parse_whitespace_def c_space_def tab_def nl_def)
  qed
  then show ?thesis by (simp add: trimmed_def utc_string_def four_digits_def two_digits_def)
qed

lemma rec_start_queued:
  assumes time: "dada_pwc_parse_time m (Some u) = t" and "trimmed u" and "white d"
    and "counts_bytes p t" and "byte_resolution p \<le> 1"
    and "pstate p = dada_pwc_clocking" and "pending p = []"
  shows "command_parse_output (pwc_run m) pwc_parser (''rec_start'' @ '' '' @ u @ d) (Some p, out)
       = Some (0, Some (p\<lparr>queued := DADA_PWC_COMMAND_INIT\<lparr>code := dada_pwc_record_start, utc := t,
                 byte_count := word_of_int (t - utc_start p) * bytes_per_second p\<rparr>\<rparr>), out)"
proof -
  let ?f = "\<lparr>cmd = Client Cmd_record_start, context_of = Some (), name = ''rec_start'',
        short_help = Some ''enter the recording state'', long_help = None\<rparr>"
  obtain n where n: "n = word_of_int (t - utc_start p) * bytes_per_second p" by blast
  let ?c = "DADA_PWC_COMMAND_INIT\<lparr>code := dada_pwc_record_start, utc := t, byte_count := n\<rparr>"
  have "t \<noteq> 0" and "code (queued p) = dada_pwc_no_command"
    using assms(4,7) by (auto simp: counts_bytes_def pending_def split: if_splits)
  then have call: "dada_pwc_cmd_record_start m p (Some u) = Some (0, p\<lparr>queued := ?c\<rparr>)"
    using assms(4-6) unfolding n
    by (simp add: dada_pwc_cmd_record_start_def time set_at_byte_count_def dada_pwc_command_set_byte_count_def
        counts_bytes_def Let_def dada_pwc_command_set_def)
  have "command_parse_output (pwc_run m) pwc_parser ([] @ name ?f @ [CHR '' ''] @ [] @ u @ d) (Some p, out)
      = Some (call_command (pwc_run m) pwc_parser ?f (if u = [] then None else Some u) (Some p, out))"
    by (rule parse_line [OF _ _ _ _ _ _ pwc_parser_lines(1)])
      (use assms(2,3) pwc_parser_lines(2) in
        \<open>simp_all add: white_def word_def parse_whitespace_def tab_def nl_def\<close>)
  moreover have "u \<noteq> []" using assms(2) by (simp add: trimmed_def)
  ultimately show ?thesis unfolding n [symmetric] by (simp add: call_command_def pwc_run_def call)
qed

text \<open>The line \<open>rec_start\<close> with a time of the data being clocked queues, for the writing
  thread, a start of recording at that time and the byte it has in the data.\<close>

theorem rec_start_line:
  assumes "y < 10000" and "1 \<le> mo \<and> mo \<le> 12" and "1 \<le> d \<and> d \<le> 31" and "h < 24" and "mi < 60" and "s \<le> 61"
    and "t = timegm \<lparr>tm_year = int y - 1900, tm_mon = int mo - 1, tm_mday = int d,
                    tm_hour = int h, tm_min = int mi, tm_sec = int s\<rparr>"
    and "counts_bytes p t" and "byte_resolution p \<le> 1"
    and "pstate p = dada_pwc_clocking" and "pending p = []"
  shows "\<exists>q. command_parse_output (pwc_run m) pwc_parser
             (''rec_start'' @ '' '' @ utc_string y mo d h mi s @ [CHR 0x0D, nl]) (Some p, out) = Some (0, Some q, out)
       \<and> code (queued q) = dada_pwc_record_start \<and> utc (queued q) = t
       \<and> unat (byte_count (queued q)) = nat (t - utc_start p) * unat (bytes_per_second p)"
proof -
  have time: "dada_pwc_parse_time m (Some (utc_string y mo d h mi s)) = t"
    using utc_read_back [OF assms(1-6), of "unset_tm m"] assms(7)
    by (simp add: dada_pwc_parse_time_def Let_def timegm_def)
  have "white [CHR 0x0D, nl]" by (simp add: white_def parse_whitespace_def)
  from rec_start_queued [OF time trimmed_utc_string this assms(8-11)] show ?thesis
    using byte_offset [OF assms(8)] by simp
qed

lemma rec_start_line_witness:
  "\<exists>q. command_parse_output (pwc_run machine0) pwc_parser
        (''rec_start'' @ '' '' @ utc_string 1970 1 1 0 3 20 @ [CHR 0x0D, nl])
        (Some ((client0 dada_pwc_clocking)\<lparr>byte_resolution := 1\<rparr>), []) = Some (0, Some q, [])
     \<and> code (queued q) = dada_pwc_record_start \<and> unat (byte_count (queued q)) = 100000"
proof -
  let ?p = "(client0 dada_pwc_clocking)\<lparr>byte_resolution := 1\<rparr>"
  have t: "200 = timegm \<lparr>tm_year = int 1970 - 1900, tm_mon = int 1 - 1, tm_mday = int 1,
                       tm_hour = int 0, tm_min = int 3, tm_sec = int 20\<rparr>"
    by (simp add: timegm_def days_from_civil_def)
  have p: "counts_bytes ?p 200" "byte_resolution ?p \<le> 1" "pstate ?p = dada_pwc_clocking" "pending ?p = []"
    "nat (200 - utc_start ?p) * unat (bytes_per_second ?p) = 100000"
    by (simp_all add: counts_bytes_def client0_def dada_pwc_create_def pending_def DADA_PWC_COMMAND_INIT_def)
  show ?thesis
    using rec_start_line [OF _ _ _ _ _ _ t p(1-4), of machine0 "[]"] unfolding p(5) by fastforce
qed

section \<open>Headers\<close>

lemma set_length_absent:
  assumes "ascii_header_find h w = None"
  shows "length h + length (header_line w (take 4095 v)) \<le> length (snd (ascii_header_set h w (Some v)))"
proof -
  have "k \<le> length h" if "strstr h x = Some k" for k x using that by (simp add: strstr_Some)
  then show ?thesis using assms by (auto simp: ascii_header_set_def split: option.splits)
qed

text \<open>The header is written before the state is looked at: refused in any state but idle,
  the new header and its data rate replace the old ones all the same.\<close>

theorem refused_header_is_kept:
  assumes "dada_pwc_parse_bytes_per_second m p (map (\<lambda>c. if c = CHR 0x5C then nl else c) s) = (0, q)"
    and "length s \<le> unat (header_size p)" and "pending p = []" and "pstate p \<noteq> dada_pwc_idle"
  shows "\<exists>p'. dada_pwc_cmd_header m p (Some s) = Some (- 1, p') \<and> pending p' = []
    \<and> bytes_per_second p' = bytes_per_second q
    \<and> header p' = header (store_header q (map (\<lambda>c. if c = CHR 0x5C then nl else c) s))"
proof -
  have "pstate q = pstate p" "queued q = queued p"
    using parse_rate_frame [of m p "map (\<lambda>c. if c = CHR 0x5C then nl else c) s"] assms(1) by simp_all
  then show ?thesis
    using assms
    by (auto simp: dada_pwc_cmd_header_def Let_def dada_pwc_command_set_def store_header_def pending_def
        split: if_splits)
qed

text \<open>A short header, which leaves everything but the sampling interval to the defaults.\<close>

lemma short_header:
  "map (\<lambda>c. if c = CHR 0x5C then nl else c) ''TSAMP 1'' = ''TSAMP 1''"
  "ascii_header_find ''TSAMP 1'' ''TSAMP'' = Some 0"
  "ascii_header_find ''TSAMP 1'' ''BYTES_PER_SECOND'' = None"
  "ascii_header_find ''TSAMP 1'' ''NPOL'' = None" "ascii_header_find ''TSAMP 1'' ''NBIT'' = None"
  "ascii_header_find ''TSAMP 1'' ''NDIM'' = None" "ascii_header_find ''TSAMP 1'' ''NCHAN'' = None"
  "ascii_header_find ''TSAMP 1'' ''NANT'' = None" "ascii_header_find ''TSAMP 1'' ''RESOLUTION'' = None"
  by (simp, code_simp+)

lemma short_header_rate:
  "dada_pwc_parse_bytes_per_second machine0 p ''TSAMP 1''
   = (0, p\<lparr>byte_resolution := 1, bits_per_sample := 16, bytes_per_second := 2000000\<rparr>)"
  by (simp add: dada_pwc_parse_bytes_per_second_def header_number_def ascii_header_get_def short_header machine0_def)

lemma refused_header_is_kept_witness:
  "\<exists>p'. dada_pwc_cmd_header machine0 ((client0 dada_pwc_recording)) (Some ''TSAMP 1'') = Some (- 1, p')
      \<and> bytes_per_second (client0 dada_pwc_recording) = 1000 \<and> bytes_per_second p' = 2000000"
proof -
  let ?p = "client0 dada_pwc_recording"
  let ?q = "?p\<lparr>byte_resolution := 1, bits_per_sample := 16, bytes_per_second := 2000000\<rparr>"
  have r: "dada_pwc_parse_bytes_per_second machine0 ?p (map (\<lambda>c. if c = CHR 0x5C then nl else c) ''TSAMP 1'') = (0, ?q)"
    unfolding short_header(1) by (rule short_header_rate)
  have "length ''TSAMP 1'' \<le> unat (header_size ?p)" "pending ?p = []" "pstate ?p \<noteq> dada_pwc_idle"
    by (simp_all add: client0_def dada_pwc_create_def pending_def)
  then show ?thesis using refused_header_is_kept [OF r] by (auto simp: client0_def)
qed

text \<open>A header as long as the buffer is accepted, and with the data rate added to it is
  longer than the buffer it was copied to.\<close>

theorem header_overruns_its_buffer:
  assumes "dada_pwc_cmd_header m p (Some s) = Some (0, p')" and "length s = unat (header_size p)"
    and "ascii_header_find (map (\<lambda>c. if c = CHR 0x5C then nl else c) s) ''BYTES_PER_SECOND'' = None"
  shows "\<exists>h. header p' = Some h \<and> unat (header_size p') + 40 \<le> length h"
proof -
  let ?h = "map (\<lambda>c. if c = CHR 0x5C then nl else c) s"
  obtain r q where q: "dada_pwc_parse_bytes_per_second m p ?h = (r, q)" by fastforce
  have sz: "header_size q = header_size p"
    using arg_cong [OF q, of "\<lambda>x. header_size (snd x)"]
    by (simp add: dada_pwc_parse_bytes_per_second_def Let_def split: prod.splits if_splits)
  let ?c = "DADA_PWC_COMMAND_INIT\<lparr>code := dada_pwc_header, with_header := True\<rparr>"
  have "dada_pwc_command_set (store_header q ?h) ?c = Some (0, p')"
    using assms(1,2) q by (auto simp: dada_pwc_cmd_header_def Let_def split: if_splits)
  then have "p' = (store_header q ?h)\<lparr>queued := ?c\<rparr>"
    using command_set_cases [of "store_header q ?h" ?c 0 p'] by auto
  moreover have "end_line (header_size q) ?h = ?h" using assms(2) sz by (simp add: end_line_def)
  moreover have "40 \<le> length (header_line ''BYTES_PER_SECOND'' (take 4095 v))" for v
    by (simp add: header_line_def ljust_def)
  ultimately show ?thesis
    using set_length_absent [OF assms(3), of "decimal (unat (bytes_per_second q))"] assms(2) sz
    by (auto simp: store_header_def intro: order_trans [rotated])
qed

lemma header_overruns_its_buffer_witness:
  "\<exists>p' h. dada_pwc_cmd_header machine0 ((client0 dada_pwc_idle)\<lparr>header_size := 7\<rparr>) (Some ''TSAMP 1'') = Some (0, p')
      \<and> header p' = Some h \<and> header_size p' = 7 \<and> 47 \<le> length h"
proof -
  let ?p = "(client0 dada_pwc_idle)\<lparr>header_size := 7\<rparr>"
  let ?q = "?p\<lparr>byte_resolution := 1, bits_per_sample := 16, bytes_per_second := 2000000\<rparr>"
  let ?r = "(store_header ?q ''TSAMP 1'')
    \<lparr>queued := DADA_PWC_COMMAND_INIT\<lparr>code := dada_pwc_header, with_header := True\<rparr>\<rparr>"
  have c: "dada_pwc_cmd_header machine0 ?p (Some ''TSAMP 1'') = Some (0, ?r)"
    unfolding dada_pwc_cmd_header_def option.case short_header(1) Let_def short_header_rate prod.case
    by (simp add: dada_pwc_command_set_def store_header_def client0_def dada_pwc_create_def)
  have s: "header_size ?r = 7" by (simp add: store_header_def)
  have "\<exists>h. header ?r = Some h \<and> unat (header_size ?r) + 40 \<le> length h"
    by (rule header_overruns_its_buffer [OF c]) (simp, unfold short_header(1), rule short_header(3))
  then show ?thesis using c s by auto
qed

text \<open>The name of every state is read back as that state, and the case of letters does not
  matter.\<close>

theorem state_names_are_read_back:
  "dada_pwc_string_to_state (dada_pwc_state_to_string s) = s
   \<and> dada_pwc_string_to_state (map lower_char t) = dada_pwc_string_to_state t"
proof
  have "dada_pwc_string_to_state (dada_pwc_state_to_string dada_pwc_undefined) = dada_pwc_undefined"
    "dada_pwc_string_to_state (dada_pwc_state_to_string dada_pwc_pending) = dada_pwc_pending"
    "dada_pwc_string_to_state (dada_pwc_state_to_string dada_pwc_idle) = dada_pwc_idle"
    "dada_pwc_string_to_state (dada_pwc_state_to_string dada_pwc_prepared) = dada_pwc_prepared"
    "dada_pwc_string_to_state (dada_pwc_state_to_string dada_pwc_clocking) = dada_pwc_clocking"
    "dada_pwc_string_to_state (dada_pwc_state_to_string dada_pwc_recording) = dada_pwc_recording"
    "dada_pwc_string_to_state (dada_pwc_state_to_string dada_pwc_soft_error) = dada_pwc_soft_error"
    "dada_pwc_string_to_state (dada_pwc_state_to_string dada_pwc_hard_error) = dada_pwc_hard_error"
    "dada_pwc_string_to_state (dada_pwc_state_to_string dada_pwc_fatal_error) = dada_pwc_fatal_error"
    by code_simp+
  then show "dada_pwc_string_to_state (dada_pwc_state_to_string s) = s" by (cases s) (simp_all only:)
  have "lower_char (lower_char c) = lower_char c" for c
    by (auto simp: lower_char_def of_char_of take_bit_nat_eq_self)
  then have "map lower_char (map lower_char t) = map lower_char t" by simp
  then show "dada_pwc_string_to_state (map lower_char t) = dada_pwc_string_to_state t"
    by (simp only: dada_pwc_string_to_state_def same_word_def)
qed

end
