(* ===== verification/Hdu_Properties.thy ===== *)
theory Hdu_Properties
  imports Dada_Hdu
begin

text \<open>
  Properties of the header and data unit: a client finds the two rings that were made
  for it, and copies the header that was written; and where opening a header fails.
\<close>

section \<open>Opening\<close>

lemma next_header_first:
  assumes "ipcbuf_get_next_read r p = Some (Some (b, n), r', p')" and "n \<noteq> 0"
  shows "next_header r p = Some (Some b, r', p')"
  using assms by (subst next_header.simps) simp

lemma advertised_size_set:
  assumes "block_string r b = s'" and "ascii_header_set s ''HDR_SIZE'' (Some (decimal k)) = (rc, s')"
    and "can_hold s ''HDR_SIZE''" and "k \<le> unat (bufsz (sync r))"
  shows "advertised_size b r = (Some (of_nat k), r)"
proof -
  have k: "k < 2 ^ 64" using assms(4) unat_less_length [of "bufsz (sync r)"] by simp
  have "length (decimal k) \<le> 20" by (rule decimal_length) (use k in auto)
  then have pv: "plain_value (decimal k)" using decimal_chars [of k] by (auto simp: plain_value_def)
  obtain j where j: "ascii_header_find s' ''HDR_SIZE'' = Some j" "holds_value (behind s' j) (decimal k)"
    using set_value [OF _ pv assms(2,3)] by (auto simp: plain_keyword_def tab_def nl_def)
  then have "ascii_header_get s' ''HDR_SIZE'' sscanf_lu = (1, Some (of_nat k))"
    using sscanf_lu_value [OF j(2) k] by (simp add: get_behind)
  moreover have "\<not> bufsz (sync r) < of_nat k"
    using assms(4) k by (simp add: word_less_nat_alt unsigned_of_nat take_bit_nat_eq_self)
  ultimately show ?thesis by (simp add: advertised_size_def assms(1) ipcbuf_get_bufsz_def)
qed

text \<open>C21. A client that opens the next header gets the bytes the writer put there: the header
  that says it is \<open>k\<close> bytes long is copied with its first \<open>k\<close> bytes, and the header ring is left
  as the read leaves it.\<close>

theorem hdu_open_copies_the_header:
  assumes "ascii_header_set s ''HDR_SIZE'' (Some (decimal k)) = (rc, s')" and "can_hold s ''HDR_SIZE''"
    and "CHR 0x00 \<notin> set s'"
    and "header_block h = Some p" and "hdu_header h = None" and "unat (hdu_header_size h) < k"
    and "ipcbuf_get_next_read hr p = Some (Some (b, n), hr', p')" and "n \<noteq> 0"
    and "drop (unat (snd b)) (mem hr' (fst b)) = map byte_of_char s' @ 0 # rest"
    and "k \<le> unat (bufsz (sync hr'))"
  shows "\<exists>h'. dada_hdu_open hr dr h = Some (0, hr', dr, h') \<and> header_block h' = Some p'
    \<and> data_block h' = data_block h \<and> hdu_header_size h' = of_nat k
    \<and> hdu_header h' = Some (take k (map byte_of_char s' @ 0 # rest))"
proof -
  have k: "k < 2 ^ 64" using assms(10) unat_less_length [of "bufsz (sync hr')"] by simp
  have size: "advertised_size b hr' = (Some (of_nat k), hr')"
    by (rule advertised_size_set [OF block_string_eq [OF assms(9,3)] assms(1,2,10)])
  have "unat (of_nat k :: u64) = k" using k by (simp add: unsigned_of_nat take_bit_nat_eq_self)
  then have copy: "copy_header (drop (unat (snd b)) (mem hr' (fst b))) (of_nat k) (h\<lparr>header_block := Some p'\<rparr>)
      = Some (h\<lparr>header_block := Some p', hdu_header := Some (take k (map byte_of_char s' @ 0 # rest)),
                hdu_header_size := of_nat k\<rparr>)"
    using assms(6) unfolding assms(9) by (simp add: copy_header_def word_less_nat_alt)
  have "on_header next_header hr dr h = Some (Some b, hr', dr, h\<lparr>header_block := Some p'\<rparr>)"
    using next_header_first [OF assms(7,8)] assms(4) by (simp add: on_header_def)
  then have "dada_hdu_open hr dr h = Some (0, hr', dr,
      h\<lparr>header_block := Some p', hdu_header := Some (take k (map byte_of_char s' @ 0 # rest)),
        hdu_header_size := of_nat k\<rparr>)"
    using assms(5) size copy by (simp add: dada_hdu_open_def)
  then show ?thesis by simp
qed

text \<open>A header ring with one header of 60 bytes, seen by a viewer.\<close>

definition text60 :: string where
  "text60 = snd (ascii_header_set [] ''HDR_SIZE'' (Some (decimal 60)))"

lemma text60_eq: "text60 = header_line ''HDR_SIZE'' ''60'' @ [nl]" "length text60 = 37"
  "CHR 0x00 \<notin> set text60"
proof -
  have "(char_of (54::nat) :: char) = CHR ''6''" "(char_of (48::nat) :: char) = CHR ''0''" by code_simp+
  then have "decimal 60 = ''60''" by (simp add: decimal.simps)
  then show e: "text60 = header_line ''HDR_SIZE'' ''60'' @ [nl]"
    by (simp add: text60_def ascii_header_set_def ascii_header_find_def find_from.simps)
  show "length text60 = 37" "CHR 0x00 \<notin> set text60" unfolding e by (simp_all add: header_line_def ljust_def nl_def)
qed

definition header_ring :: ring where
  "header_ring =
     \<lparr>sync = zero_sync\<lparr>nbufs := 8, bufsz := 64, w_buf_curr := 1\<rparr>, count = (\<lambda>_. 0), shmkey = (\<lambda>_. 0),
      sem_connect = (\<lambda>_. 0), sem_data = (\<lambda>_ _. 0),
      mem = (\<lambda>_. map byte_of_char text60 @ 0 # replicate 26 0)\<rparr>"

definition header_viewer :: ipcbuf where
  "header_viewer = IPCBUF_INIT\<lparr>state := VIEWING\<rparr>"

lemma header_view:
  "ipcbuf_get_next_read header_ring header_viewer
   = Some (Some ((0, 0), 64), header_ring, header_viewer\<lparr>viewbuf := 1\<rparr>)"
  by (simp add: ipcbuf_get_next_read_def ipcbuf_get_next_read_work_def next_read_viewer_def header_ring_def
      header_viewer_def IPCBUF_INIT_def ipcbuf_eod_def ipcbuf_is_reader_def read_bytes_def at_end_of_data_def zero_sync_def)

definition viewing_unit :: dada_hdu where
  "viewing_unit = dada_hdu_create\<lparr>header_block := Some header_viewer, data_block := Some IPCIO_INIT\<rparr>"

lemma text60_set: "ascii_header_set [] ''HDR_SIZE'' (Some (decimal 60)) = (0, text60)"
  by (simp add: text60_def ascii_header_set_def ascii_header_find_def find_from.simps)

lemma text60_hold: "can_hold [] ''HDR_SIZE''"
  by (simp add: can_hold_def insertion_point_def)

lemma hdu_open_copies_the_header_witness:
  "\<exists>h'. dada_hdu_open header_ring header_ring viewing_unit = Some (0, header_ring, header_ring, h')
     \<and> hdu_header h' = Some (take 60 (map byte_of_char text60 @ 0 # replicate 26 0)) \<and> hdu_header_size h' = 60"
proof -
  have "drop (unat (snd (0, 0 :: u64))) (mem header_ring (fst (0 :: nat, 0 :: u64))) = map byte_of_char text60 @ 0 # replicate 26 0"
    "60 \<le> unat (bufsz (sync header_ring))"
    by (simp_all add: header_ring_def)
  moreover have "header_block viewing_unit = Some header_viewer" "hdu_header viewing_unit = None"
    "unat (hdu_header_size viewing_unit) < 60"
    by (simp_all add: viewing_unit_def dada_hdu_create_def dada_hdu_set_key_def)
  ultimately show ?thesis
    using hdu_open_copies_the_header [OF text60_set text60_hold text60_eq(3) _ _ _ header_view, of viewing_unit
        "replicate 26 0" header_ring] by auto
qed

text \<open>A unit that was used once cannot open another header of the same size: unlocking frees
  the copy but keeps its size, so that the next copy goes through a null pointer.\<close>

theorem reopening_crashes:
  assumes "dada_hdu_open hr dr h = Some (0, hr1, dr1, h1)" and "hdu_header h1 \<noteq> None"
    and "forget_header hr2 dr2 (h1\<lparr>header_block := q, data_block := e\<rparr>) = Some ((), hr3, dr3, h3)"
    and "header_block h4 = Some p4" and "hdu_header h4 = hdu_header h3" and "hdu_header_size h4 = hdu_header_size h3"
    and "next_header hr4 p4 = Some (Some b, hr5, p5)" and "advertised_size b hr5 = (Some (hdu_header_size h1), hr6)"
    and "hdu_header_size h1 \<noteq> 0"
  shows "dada_hdu_open hr4 dr4 h4 = None"
proof -
  have "hdu_header h3 = None \<and> hdu_header_size h3 = hdu_header_size h1"
    using assms(2,3) by (auto simp: forget_header_def on_header_def Let_def split: option.splits if_splits prod.splits)
  then have "copy_header d (hdu_header_size h1) (h4\<lparr>header_block := Some p5\<rparr>) = None" for d
    using assms(5,6,9) by (simp add: copy_header_def)
  then show ?thesis
    using assms(4,7,8) by (simp add: dada_hdu_open_def on_header_def)
qed

lemma reopening_crashes_witness:
  "\<exists>h1 h3. dada_hdu_open header_ring header_ring viewing_unit = Some (0, header_ring, header_ring, h1)
     \<and> forget_header header_ring header_ring (h1\<lparr>header_block := Some header_viewer, data_block := None\<rparr>)
       = Some ((), header_ring, header_ring, h3)
     \<and> dada_hdu_open header_ring header_ring h3 = None"
proof -
  have size: "advertised_size (0, 0) header_ring = (Some 60, header_ring)"
    using advertised_size_set [OF block_string_eq text60_set text60_hold, of "(0, 0)" header_ring "replicate 26 0"] text60_eq(3)
    by (simp add: header_ring_def zero_sync_def)
  obtain h1 where h1: "dada_hdu_open header_ring header_ring viewing_unit = Some (0, header_ring, header_ring, h1)"
    "hdu_header h1 \<noteq> None" "hdu_header_size h1 = 60"
    by (simp add: dada_hdu_open_def on_header_def viewing_unit_def dada_hdu_create_def dada_hdu_set_key_def
        next_header_first [OF header_view] size copy_header_def)
  let ?h3 = "h1\<lparr>header_block := Some header_viewer, data_block := None, hdu_header := None\<rparr>"
  have f: "forget_header header_ring header_ring (h1\<lparr>header_block := Some header_viewer, data_block := None\<rparr>)
      = Some ((), header_ring, header_ring, ?h3)"
    using h1(2) by (simp add: forget_header_def header_viewer_def IPCBUF_INIT_def ipcbuf_is_reader_def)
  have n: "next_header header_ring header_viewer = Some (Some (0, 0), header_ring, header_viewer\<lparr>viewbuf := 1\<rparr>)"
    by (rule next_header_first [OF header_view]) simp
  have "dada_hdu_open header_ring header_ring ?h3 = None"
    by (rule reopening_crashes [OF h1(1,2) f _ refl refl n]) (simp_all add: h1(3) size)
  then show ?thesis using h1(1) f by blast
qed

section \<open>Connecting\<close>

text \<open>C22. What \<open>dada_db\<close> makes for a key, a client with that key connects to: the ring of data
  blocks and the ring of header blocks, both empty and of the requested shape.\<close>

theorem hdu_connects_to_what_dada_db_makes:
  assumes "can_create d w" and "os_ok w"
  shows "\<exists>a b w' dr hr. dada_db_create d w = Some (0, a, b, w')
     \<and> ring_of w' a = Some dr \<and> fresh_ring dr \<and> nbufs (sync dr) = opt_nbufs d \<and> bufsz (sync dr) = opt_bufsz d
     \<and> ring_of w' b = Some hr \<and> fresh_ring hr \<and> nbufs (sync hr) = 8 \<and> bufsz (sync hr) = opt_hdrsz d
     \<and> (\<forall>h. data_block h = None \<longrightarrow>
          (\<exists>h'. dada_hdu_connect (dada_hdu_set_key h (opt_key d)) w' = (0, h', w')
              \<and> att_data h' = a \<and> att_header h' = b \<and> data_block h' \<noteq> None \<and> header_block h' \<noteq> None))"
proof -
  let ?nr = "unat (opt_readers d)" and ?nb = "unat (opt_nbufs d)"
  have free: "keys_free (opt_key d) ?nb w" and nr: "?nr \<le> 8" using assms(1) by (auto simp: can_create_def)
  obtain w1 w2 where new: "dada_db_create d w = Some (0, new_attached (next_id w) ?nr ?nb, new_attached (next_id w1) ?nr 8, w2)"
    and r: "has_ring w w1 (opt_key d) (opt_nbufs d) (opt_bufsz d) (opt_readers d)"
           "has_ring w1 w2 (opt_key d + 1) 8 (opt_hdrsz d) (opt_readers d)" "keys_free (opt_key d + 1) 8 w1"
    using create_unit [OF assms(1)] by metis
  let ?a = "new_attached (next_id w) ?nr ?nb" and ?b = "new_attached (next_id w1) ?nr 8"
  have free': "keys_free (opt_key d + 1) (unat (8 :: u64)) w1" using r(3) by simp
  note pres = unit_present [OF assms r]
  obtain dr where dr: "ring_of w1 ?a = Some dr" "fresh_ring dr" "nbufs (sync dr) = opt_nbufs d" "bufsz (sync dr) = opt_bufsz d"
    using has_ring_fresh [OF r(1)] by blast
  obtain hr where hr: "ring_of w2 ?b = Some hr" "fresh_ring hr" "nbufs (sync hr) = 8" "bufsz (sync hr) = opt_hdrsz d"
    using has_ring_fresh [OF r(2)] by auto
  have ca: "ipcbuf_connect (opt_key d) ATTACHED_INIT p w2 = (0, ?a, p\<lparr>state := VIEWER, viewbuf := 0\<rparr>, w2)" for p
    by (rule connect_present [OF pres(1) keys_free_nonzero [OF free] nr])
  have cb: "ipcbuf_connect (opt_key d + 1) ATTACHED_INIT p w2 = (0, ?b, p\<lparr>state := VIEWER, viewbuf := 0\<rparr>, w2)" for p
    using connect_present [OF pres(2) keys_free_nonzero [OF free'] nr] by simp
  have "\<exists>h'. dada_hdu_connect (dada_hdu_set_key h (opt_key d)) w2 = (0, h', w2)
      \<and> att_data h' = ?a \<and> att_header h' = ?b \<and> data_block h' \<noteq> None \<and> header_block h' \<noteq> None"
    if "data_block h = None" for h
    using that by (simp add: dada_hdu_connect_def dada_hdu_set_key_def ipcio_connect_def ca cb)
  then show ?thesis using new dr hr pres(3) by auto
qed

lemma hdu_connects_to_what_dada_db_makes_witness:
  "\<exists>a b w' h'. dada_db_create default_options empty_os = Some (0, a, b, w')
     \<and> dada_hdu_connect dada_hdu_create w' = (0, h', w') \<and> att_data h' = a \<and> att_header h' = b"
proof -
  have "os_ok empty_os" by (simp add: os_ok_def empty_os_def)
  moreover have "dada_hdu_create = dada_hdu_set_key dada_hdu_create (opt_key default_options)"
    "data_block dada_hdu_create = None"
    by (simp_all add: dada_hdu_create_def dada_hdu_set_key_def default_options_def)
  ultimately show ?thesis
    using hdu_connects_to_what_dada_db_makes [OF default_can_create] by metis
qed

end
