(* ===== verification/Pwc_Main_Properties.thy ===== *)
theory Pwc_Main_Properties
  imports Pwc_Main Stream_Room
begin

text \<open>
  What the main loop of a primary write client does with the data and the commands: how
  many bytes a recording writes, what happens at a transition, and which errors it keeps.
\<close>

section \<open>The program and the other processes\<close>

text \<open>A program whose buffer function always has data; \<open>h\<close> is the sequence it takes them from.\<close>

definition supplies :: "'x pwc_main_functions \<Rightarrow> ('x \<Rightarrow> nat \<Rightarrow> byte) \<Rightarrow> bool" where
  "supplies F h \<longleftrightarrow> (\<forall>m. \<exists>a n x. buffer_function F m = ((Some a, int n), m\<lparr>pm_context := x\<rparr>) \<and> 0 < n \<and> n < 2 ^ 63
     \<and> (\<forall>i<n. a i = h (pm_context m) i) \<and> (\<forall>i. h x i = h (pm_context m) (n + i)))"

lemma suppliesD:
  assumes "supplies F h"
  obtains a n x where "buffer_function F m = ((Some a, int n), m\<lparr>pm_context := x\<rparr>)" and "0 < n" and "n < 2 ^ 63"
    and "\<forall>i<n. a i = h (pm_context m) i" and "\<forall>i. h x i = h (pm_context m) (n + i)"
  using assms unfolding supplies_def by meson

text \<open>Only readers of the data ring are at work: no command comes in, and room in the ring does not go away.\<close>

definition readers_at_work :: "(nat \<Rightarrow> 'x dada_pwc_main_t \<Rightarrow> 'x dada_pwc_main_t) \<Rightarrow> bool" where
  "readers_at_work env \<longleftrightarrow> (\<forall>k m s c. the_ring s = data_ring m \<longrightarrow> writing_at s c \<longrightarrow>
     (\<exists>s'. stream_step\<^sup>*\<^sup>* s s' \<and> env k m = m\<lparr>data_ring := the_ring s'\<rparr> \<and> writing_at s' c
       \<and> stream_bytes s' c = stream_bytes s c \<and> N_of (the_ring s') = N_of (the_ring s)
       \<and> nb_of (the_ring s') = nb_of (the_ring s) \<and> (may_write s \<longrightarrow> may_write s') \<and> (\<forall>n. fits s c n \<longrightarrow> fits s' c n)))"

lemma nobody_at_work: "readers_at_work (\<lambda>_ m. m)"
  unfolding readers_at_work_def
proof (intro allI impI)
  fix m :: "'x dada_pwc_main_t" and s c
  assume r: "the_ring s = data_ring m" and at: "writing_at s c"
  have "m = m\<lparr>data_ring := the_ring s\<rparr>" using r by simp
  with at show "\<exists>s'. stream_step\<^sup>*\<^sup>* s s' \<and> m = m\<lparr>data_ring := the_ring s'\<rparr> \<and> writing_at s' c
       \<and> stream_bytes s' c = stream_bytes s c \<and> N_of (the_ring s') = N_of (the_ring s)
       \<and> nb_of (the_ring s') = nb_of (the_ring s) \<and> (may_write s \<longrightarrow> may_write s') \<and> (\<forall>n. fits s c n \<longrightarrow> fits s' c n)"
    by (intro exI [of _ s]) auto
qed

section \<open>Rounds of a recording\<close>

text \<open>The variables of the loop after \<open>j\<close> of \<open>n\<close> bytes.\<close>

definition recorded :: "nat \<Rightarrow> nat \<Rightarrow> progress \<Rightarrow> bool" where
  "recorded n j p \<longleftrightarrow> total_bytes_written p = of_nat j \<and> transit_byte p = of_nat n \<and> bytes_to_write p = of_nat (n - j)
     \<and> j < n \<and> n < 2 ^ 64 \<and> data_transfer_error_state p = 0 \<and> utc_start_set p"

text \<open>The client between two rounds: no command is waiting, and the header was handed over.\<close>

definition undisturbed :: "'x dada_pwc_main_t \<Rightarrow> bool" where
  "undisturbed m \<longleftrightarrow> \<not> quit (pwc m) \<and> code (queued (pwc m)) = dada_pwc_no_command \<and> header_valid m"

lemma word_of_nat_cmp:
  assumes "a < 2 ^ 64" and "b < 2 ^ 64"
  shows "(of_nat a :: u64) < of_nat b \<longleftrightarrow> a < b" and "(of_nat a :: u64) = of_nat b \<longleftrightarrow> a = b"
    and "(of_nat a :: u64) \<le> of_nat b \<longleftrightarrow> a \<le> b"
proof -
  have u: "unat (of_nat a :: u64) = a" "unat (of_nat b :: u64) = b" using assms by (simp_all add: unat_of_nat)
  show "(of_nat a :: u64) < of_nat b \<longleftrightarrow> a < b" unfolding word_less_nat_alt u ..
  show "(of_nat a :: u64) = of_nat b \<longleftrightarrow> a = b" unfolding word_unat_eq_iff u ..
  show "(of_nat a :: u64) \<le> of_nat b \<longleftrightarrow> a \<le> b" unfolding word_le_nat_alt u ..
qed

lemma write_buffer_round:
  assumes p: "recorded N j p" and b: "buffer p = Some a" "buffer_size p = int n" and n: "0 < n" "n < 2 ^ 63"
    and c: "pm_data m = Some c" and w: "ipcio_write (data_ring m) c (map a [0..<min n (N - j)]) = Some (int (min n (N - j)), r', c')"
  shows "\<exists>p'. write_buffer p m = Some (Inr p', m\<lparr>data_ring := r', pm_data := Some c'\<rparr>)
     \<and> total_bytes_written p' = of_nat (j + min n (N - j)) \<and> transit_byte p' = of_nat N
     \<and> bytes_to_write p' = of_nat (N - (j + min n (N - j))) \<and> data_transfer_error_state p' = 0 \<and> utc_start_set p'"
proof -
  let ?k = "min n (N - j)"
  have N: "j < N" "N < 2 ^ 64" and tot: "total_bytes_written p = of_nat j" "transit_byte p = of_nat N"
      "bytes_to_write p = of_nat (N - j)" and u: "utc_start_set p" "data_transfer_error_state p = 0"
    using p by (auto simp: recorded_def)
  have "transit_byte p \<noteq> 0" using N tot word_of_nat_cmp(2) [of N 0] by simp
  moreover have "bytes_to_write p \<noteq> 0" using N tot word_of_nat_cmp(2) [of "N - j" 0] by simp
  moreover have "(if bytes_to_write p < of_nat n then bytes_to_write p else of_nat n) = (of_nat ?k :: u64)"
    using N n tot word_of_nat_cmp(1) [of "N - j" n] by (auto simp: min_def)
  moreover have k: "unat (of_nat ?k :: u64) = ?k" using N by (simp add: unat_of_nat)
  moreover have "(of_nat (N - j) - of_nat ?k :: u64) = of_nat (N - (j + ?k))"
    using of_nat_diff [of ?k "N - j", where ?'a = u64] by (simp only: diff_diff_left min.cobounded2)
  ultimately show ?thesis
    using b c w u tot by (simp add: write_buffer_def Let_def bytes_at_def on_stream_def del: of_nat_min)
qed

lemma recording_round:
  assumes F: "supplies F h" "xfer_pending_function F = None" and m: "undisturbed m" "code (pm_command m) = dada_pwc_start"
    and p: "recorded N j p" and r: "the_ring s = data_ring m" and c: "pm_data m = Some c"
    and at: "writing_at s c" "may_write s" "nb_of (the_ring s) \<le> SEMVMX" "fits s c (N - j)"
    and bound: "N_of (the_ring s) + (N - j) < 2 ^ 64"
  shows "\<exists>res m' s' c' k. transfer_round F p m = Some (res, m') \<and> 0 < k \<and> j + k \<le> N
     \<and> stream_step\<^sup>*\<^sup>* s s' \<and> the_ring s' = data_ring m' \<and> pm_data m' = Some c' \<and> writing_at s' c' \<and> may_write s'
     \<and> nb_of (the_ring s') \<le> SEMVMX \<and> fits s' c' (N - (j + k)) \<and> N_of (the_ring s') + (N - (j + k)) < 2 ^ 64
     \<and> stream_bytes s' c' = stream_bytes s c @ map (h (pm_context m)) [0..<k]
     \<and> (\<forall>i. h (pm_context m') i = h (pm_context m) (k + i) \<or> j + k = N) \<and> undisturbed m' \<and> code (pm_command m') = dada_pwc_start
     \<and> (if j + k = N then res = Inl DADA_ERROR_HARD else \<exists>p'. res = Inr p' \<and> recorded N (j + k) p')"
proof -
  have N: "j < N" "N < 2 ^ 64" using p by (auto simp: recorded_def)
  obtain a n x where b: "buffer_function F m = ((Some a, int n), m\<lparr>pm_context := x\<rparr>)" and n: "0 < n" "n < 2 ^ 63"
    and a: "\<forall>i<n. a i = h (pm_context m) i" and x: "\<forall>i. h x i = h (pm_context m) (n + i)"
    using suppliesD [OF F(1)] .
  define k where "k = min n (N - j)"
  have k: "0 < k" "j + k \<le> N" "k \<le> n" using n N by (auto simp: k_def)
  have d: "map a [0..<k] = map (h (pm_context m)) [0..<k]" using a k by simp
  obtain s' c' where w: "ipcio_write (the_ring s) c (map a [0..<k]) = Some (int k, the_ring s', c')"
      "stream_step\<^sup>*\<^sup>* s s'" "writing_at s' c'" "may_write s'" "nb_of (the_ring s') \<le> SEMVMX" "fits s' c' (N - j - k)"
      "stream_bytes s' c' = stream_bytes s c @ map a [0..<k]" "N_of (the_ring s') \<le> N_of (the_ring s) + k"
    by (rule ipcio_write_goes_on [OF at, of "map a [0..<k]"]) (use bound k in auto)
  let ?p = "p\<lparr>buffer := Some a, buffer_size := int n, data_transfer_error_state := 0\<rparr>"
  let ?m = "m\<lparr>pm_context := x\<rparr>"
  have p': "recorded N j ?p" using p by (simp add: recorded_def)
  have cmd: "next_command F p m = Some (Inr p, m)" using m by (simp add: next_command_def dada_pwc_command_check_def undisturbed_def)
  have "N - j < 2 ^ 64" "N - j \<noteq> 0" using N by linarith+
  then have "(of_nat (N - j) :: u64) \<noteq> 0" using word_of_nat_cmp(2) [of "N - j" 0] by simp
  then have "bytes_to_write p \<noteq> 0" using p by (simp only: recorded_def not_False_eq_True simp_thms)
  then have nb: "next_buffer F p m = write_buffer ?p ?m"
    using b n m by (simp add: next_buffer_def recheck_header_def undisturbed_def)
  let ?m' = "?m\<lparr>data_ring := the_ring s', pm_data := Some c'\<rparr>"
  obtain p2 where wb: "write_buffer ?p ?m = Some (Inr p2, ?m')"
    and p2: "total_bytes_written p2 = of_nat (j + k)" "transit_byte p2 = of_nat N" "bytes_to_write p2 = of_nat (N - (j + k))"
      "data_transfer_error_state p2 = 0" "utc_start_set p2"
    using write_buffer_round [OF p' _ _ n, of a ?m c "the_ring s'" c', folded k_def] c w(1) r by auto
  have "j + k < 2 ^ 64" "j + k \<noteq> 0" using k N by linarith+
  then have "(of_nat (j + k) :: u64) \<noteq> 0" using word_of_nat_cmp(2) [of "j + k" 0] by simp
  then have "total_bytes_written p2 \<noteq> 0" using p2(1) by simp
  have "reached p2 \<longleftrightarrow> j + k = N"
    using p2 k N word_of_nat_cmp(2) [of N 0] word_of_nat_cmp(3) [of N "j + k"] by (auto simp: reached_def)
  then have tr: "transition F p2 ?m' = Some (if j + k = N then Inl DADA_ERROR_HARD else Inr p2, ?m')"
    using m \<open>total_bytes_written p2 \<noteq> 0\<close> by (simp add: transition_def change_state_def)
  have run: "transfer_round F p m = Some (if j + k = N then Inl DADA_ERROR_HARD else Inr p2, ?m')"
    by (simp add: transfer_round_def and_then_def cmd nb wb tr)
  have rest: "\<forall>i. h x i = h (pm_context m) (k + i) \<or> j + k = N" 
  proof (cases "j + k = N")
    case False
    then have "k = n" using N by (simp add: k_def min_def split: if_splits)
    with x show ?thesis by simp
  qed simp
  have rec: "j + k \<noteq> N \<Longrightarrow> recorded N (j + k) p2" using p2 k N by (simp add: recorded_def del: of_nat_min of_nat_add)
  have bound': "N_of (the_ring s') + (N - (j + k)) < 2 ^ 64" using w(8) bound k by linarith
  show ?thesis
    by (intro exI [of _ "if j + k = N then Inl DADA_ERROR_HARD else Inr p2"] exI [of _ ?m'] exI [of _ s'] exI [of _ c'] exI [of _ k])
      (use run k w d rest rec m bound' in \<open>simp add: undisturbed_def\<close>)
qed

lemma recording_loop:
  assumes F: "supplies F h" "xfer_pending_function F = None" and env: "readers_at_work env"
    and m: "undisturbed m" "code (pm_command m) = dada_pwc_start"
    and p: "recorded N j p" and r: "the_ring s = data_ring m" and c: "pm_data m = Some c"
    and at: "writing_at s c" "may_write s" "nb_of (the_ring s) \<le> SEMVMX" "fits s c (N - j)"
    and bound: "N_of (the_ring s) + (N - j) < 2 ^ 64"
  shows "\<exists>m' s' c'. transfer_loop (transfer_round F) env p m = Some (DADA_ERROR_HARD, m') \<and> stream_step\<^sup>*\<^sup>* s s'
     \<and> the_ring s' = data_ring m' \<and> pm_data m' = Some c' \<and> writing_at s' c'
     \<and> stream_bytes s' c' = stream_bytes s c @ map (h (pm_context m)) [0..<N - j]"
  using m p r c at bound
proof (induction "N - j" arbitrary: j p m s c rule: less_induct)
  case less
  obtain s1 where e: "stream_step\<^sup>*\<^sup>* s s1" "env (turn m) m = m\<lparr>data_ring := the_ring s1\<rparr>" "writing_at s1 c"
      "stream_bytes s1 c = stream_bytes s c" "N_of (the_ring s1) = N_of (the_ring s)" "nb_of (the_ring s1) = nb_of (the_ring s)"
      "may_write s1" "fits s1 c (N - j)"
    using env less.prems(4,6,7,9) unfolding readers_at_work_def by blast
  let ?m = "next_turn env m"
  have m1: "undisturbed ?m" "code (pm_command ?m) = dada_pwc_start" "the_ring s1 = data_ring ?m" "pm_data ?m = Some c"
      "pm_context ?m = pm_context m"
    using less.prems(1,2,5) by (simp_all add: next_turn_def e(2) undisturbed_def)
  have "nb_of (the_ring s1) \<le> SEMVMX" "N_of (the_ring s1) + (N - j) < 2 ^ 64" using less.prems(8,10) e(5,6) by simp_all
  from recording_round [OF F m1(1,2) less.prems(3) m1(3,4) e(3,7) this(1) e(8) this(2)]
  obtain res m' s' c' k where R: "transfer_round F p ?m = Some (res, m')" "0 < k" "j + k \<le> N"
      "stream_step\<^sup>*\<^sup>* s1 s'" "the_ring s' = data_ring m'" "pm_data m' = Some c'" "writing_at s' c'" "may_write s'"
      "nb_of (the_ring s') \<le> SEMVMX" "fits s' c' (N - (j + k))" "N_of (the_ring s') + (N - (j + k)) < 2 ^ 64"
      "stream_bytes s' c' = stream_bytes s1 c @ map (h (pm_context ?m)) [0..<k]"
      "\<forall>i. h (pm_context m') i = h (pm_context ?m) (k + i) \<or> j + k = N" "undisturbed m'" "code (pm_command m') = dada_pwc_start"
      "if j + k = N then res = Inl DADA_ERROR_HARD else \<exists>p'. res = Inr p' \<and> recorded N (j + k) p'"
    by blast
  have steps: "stream_step\<^sup>*\<^sup>* s s'" using e(1) R(4) by (rule rtranclp_trans)
  have step: "transfer_loop (transfer_round F) env p m =
      (case res of Inl rc \<Rightarrow> Some (rc, m') | Inr p \<Rightarrow> transfer_loop (transfer_round F) env p m')"
    using R(1) m1(1) less.prems(3) by (subst transfer_loop.simps) (simp add: Let_def undisturbed_def dada_pwc_quit_def recorded_def)
  show ?case
  proof (cases "j + k = N")
    case True
    then have "N - j = k" by simp
    with True R(16) step steps R(5-7,12) e(4) m1(5) show ?thesis by auto
  next
    case False
    then obtain p' where p': "res = Inr p'" "recorded N (j + k) p'" using R(16) by auto
    have "N - (j + k) < N - j" using R(2,3) by simp
    from less.hyps [OF this R(14,15) p'(2) R(5-11)] obtain m2 s2 c2 where
      L: "transfer_loop (transfer_round F) env p' m' = Some (DADA_ERROR_HARD, m2)" "stream_step\<^sup>*\<^sup>* s' s2"
        "the_ring s2 = data_ring m2" "pm_data m2 = Some c2" "writing_at s2 c2"
        "stream_bytes s2 c2 = stream_bytes s' c' @ map (h (pm_context m')) [0..<N - (j + k)]" by blast
    have "h (pm_context m') = (\<lambda>i. h (pm_context m) (k + i))" using R(13) False m1(5) by auto
    then have "map (h (pm_context m')) [0..<N - (j + k)] = map (h (pm_context m)) [k..<N - j]"
      by (intro nth_equalityI) simp_all
    moreover have "[0..<N - j] = [0..<k] @ [k..<N - j]" using R(3) upt_add_eq_append [of 0 k "N - j - k"] by simp
    ultimately have "stream_bytes s2 c2 = stream_bytes s c @ map (h (pm_context m)) [0..<N - j]"
      using L(6) R(12) e(4) m1(5) by simp
    then show ?thesis using step p'(1) L(1,3-5) rtranclp_trans [OF steps L(2)] by auto
  qed
qed

text \<open>A start with a duration: when the program always has data and the readers keep enough room in
  the ring, the recording writes exactly the bytes of the duration, the first ones the program gives,
  and then ends with a hard error instead of stopping, whatever sizes the buffers have.\<close>

theorem duration_ends_in_a_hard_error:
  assumes "supplies F h" and "xfer_pending_function F = None" and "new_xfer_function F = None"
    and "readers_at_work env" and "undisturbed m" and "code (pm_command m) = dada_pwc_start"
    and "byte_count (pm_command m) = n" and "n \<noteq> 0"
    and "header_string m = Some text" and "ascii_header_get text ''UTC_START'' sscanf_s = (1, Some w)" and "w \<noteq> ''UNKNOWN''"
    and "the_ring s = data_ring m" and "pm_data m = Some c" and "writing_at s c" and "may_write s"
    and "nb_of (the_ring s) \<le> SEMVMX" and "fits s c (unat n)" and "N_of (the_ring s) + unat n < 2 ^ 64"
  shows "\<exists>m' s' c'. dada_pwc_main_transfer_data F env m = Some (DADA_ERROR_HARD, m') \<and> stream_step\<^sup>*\<^sup>* s s'
     \<and> the_ring s' = data_ring m' \<and> pm_data m' = Some c' \<and> writing_at s' c'
     \<and> stream_bytes s' c' = stream_bytes s c @ map (h (pm_context m)) [0..<unat n]"
proof -
  have "0 < unat n" using assms(8) by (simp add: unat_gt_0)
  then have "recorded (unat n) 0 (start_progress 0 n True)"
    by (simp add: recorded_def start_progress_def unat_less_length [of n, simplified])
  from recording_loop [OF assms(1,2,4-6) this assms(12-16)] assms(17,18)
  show ?thesis
    using assms(3,7,9-11) by (simp add: dada_pwc_main_transfer_data_def enter_transfer_def)
qed

text \<open>A client in the middle of starting, with a header whose text is short.\<close>

definition giver :: "unit pwc_main_functions" where
  "giver = \<lparr>start_function = (\<lambda>m t. (t, m)), buffer_function = (\<lambda>m. ((Some (\<lambda>_. 5), 2), m)), block_function = None,
     stop_function = (\<lambda>m. (0, m)), error_function = None, header_valid_function = None,
     xfer_pending_function = None, new_xfer_function = None\<rparr>"

definition station :: "dada_pwc_command_t \<Rightarrow> unit dada_pwc_main_t" where
  "station q =
     (dada_pwc_main_create (dada_pwc_create 4096 DADA_PWC_COMMAND_INIT) (Some small_writer) (Some (locked_handle WRITING (- 1)))
       small_ring (small_ring\<lparr>mem := (\<lambda>_. map byte_of_char (''UTC_START now'' @ [nl]) @ [0])\<rparr>) ())
     \<lparr>pm_command := q, pm_header := Some (0, 0), header_valid := True\<rparr>"

lemma giver_supplies: "supplies giver (\<lambda>_ _. 5)"
  unfolding supplies_def
proof
  fix m :: "unit dada_pwc_main_t"
  show "\<exists>a n x. buffer_function giver m = ((Some a, int n), m\<lparr>pm_context := x\<rparr>) \<and> 0 < n \<and> n < 2 ^ 63
     \<and> (\<forall>i<n. a i = 5) \<and> (\<forall>i. 5 = (5 :: byte))"
    by (intro exI [of _ "\<lambda>_. 5"] exI [of _ 2] exI [of _ "()"]) (simp add: giver_def)
qed

lemma station_header: "header_string (station q) = Some (''UTC_START now'' @ [nl])"
proof -
  have "block_string (header_ring (station q)) (0, 0) = ''UTC_START now'' @ [nl]"
    by (rule block_string_eq [where rest = "[]"]) (simp_all add: station_def dada_pwc_main_create_def nl_def)
  then show ?thesis by (simp add: header_string_def station_def)
qed

lemma station_utc: "ascii_header_get (''UTC_START now'' @ [nl]) ''UTC_START'' sscanf_s = (1, Some ''now'')"
  by code_simp

lemma station_room:
  "writing_at (stream_start small_ring) small_writer" "may_write (stream_start small_ring)"
  "nb_of (the_ring (stream_start small_ring)) \<le> SEMVMX" "n \<le> 6 \<Longrightarrow> fits (stream_start small_ring) small_writer n"
  "N_of (the_ring (stream_start small_ring)) = 0" "stream_bytes (stream_start small_ring) small_writer = []"
  "the_ring (stream_start small_ring) = small_ring"
proof -
  have start: "the_ring (stream_start small_ring) = small_ring" by (simp add: stream_start_def)
  show "the_ring (stream_start small_ring) = small_ring" by (rule start)
  show "writing_at (stream_start small_ring) small_writer" by (rule small_writing)
  show "may_write (stream_start small_ring)" by (simp add: may_write_def stream_start_def locked_handle_def IPCBUF_INIT_def)
  show "nb_of (the_ring (stream_start small_ring)) \<le> SEMVMX" by (simp add: start SEMVMX_def)
  have "given_back (stream_start small_ring) i = 0" for i by (simp add: given_back_def stream_start_def)
  then show "fits (stream_start small_ring) small_writer n" if "n \<le> 6"
    using that by (simp add: fits_def start write_pos_def small_writer_def IPCIO_INIT_def)
  show "N_of (the_ring (stream_start small_ring)) = 0" by (simp add: start)
  show "stream_bytes (stream_start small_ring) small_writer = []"
    by (simp add: stream_bytes_def small_writer_def IPCIO_INIT_def stream_start_def)
qed

lemma duration_ends_in_a_hard_error_witness:
  "\<exists>m' s' c'. dada_pwc_main_transfer_data giver (\<lambda>_ m. m)
       (station (DADA_PWC_COMMAND_INIT\<lparr>code := dada_pwc_start, byte_count := 5\<rparr>)) = Some (DADA_ERROR_HARD, m')
     \<and> the_ring s' = data_ring m' \<and> stream_bytes s' c' = [5, 5, 5, 5, 5]"
proof -
  let ?m = "station (DADA_PWC_COMMAND_INIT\<lparr>code := dada_pwc_start, byte_count := 5\<rparr>)"
  have m: "undisturbed ?m" "code (pm_command ?m) = dada_pwc_start" "byte_count (pm_command ?m) = 5"
      "small_ring = data_ring ?m" "pm_data ?m = Some small_writer"
    by (simp_all add: undisturbed_def station_def dada_pwc_main_create_def dada_pwc_create_def)
  have F: "xfer_pending_function giver = None" "new_xfer_function giver = None" by (simp_all add: giver_def)
  have five: "fits (stream_start small_ring) small_writer (unat (5 :: u64))"
      "N_of (the_ring (stream_start small_ring)) + unat (5 :: u64) < 2 ^ 64"
    using station_room(4) [of 5] station_room(5) by simp_all
  from duration_ends_in_a_hard_error [OF giver_supplies F nobody_at_work m(1-3) _ station_header station_utc _
      trans [OF station_room(7) m(4)] m(5) station_room(1-3) five]
  obtain m' s' c' where "dada_pwc_main_transfer_data giver (\<lambda>_ m. m) ?m = Some (DADA_ERROR_HARD, m')"
      "the_ring s' = data_ring m'" "stream_bytes s' c' = [] @ map (\<lambda>_. 5) [0..<unat (5 :: u64)]"
    unfolding station_room(6) by auto
  then show ?thesis by (intro exI [of _ m'] exI [of _ s'] exI [of _ c']) (simp add: upt_rec)
qed

section \<open>Transitions\<close>

text \<open>
  The variables agree: what is left to write leads to the byte of the transition, and without a
  transition nothing is left to write.
\<close>

definition aligned :: "progress \<Rightarrow> bool" where
  "aligned p \<longleftrightarrow> (if transit_byte p = 0 then bytes_to_write p = 0
     else unat (total_bytes_written p) + unat (bytes_to_write p) = unat (transit_byte p))"

lemma aligned_start: "aligned (start_progress 0 n known)"
  by (simp add: aligned_def start_progress_def)

lemma aligned_reached: "aligned p \<Longrightarrow> reached p \<Longrightarrow> total_bytes_written p = transit_byte p \<and> bytes_to_write p = 0"
proof -
  assume al: "aligned p" and r: "reached p"
  then have t: "transit_byte p \<noteq> 0" "unat (transit_byte p) \<le> unat (total_bytes_written p)"
    by (simp_all add: reached_def word_le_nat_alt)
  then have "unat (total_bytes_written p) + unat (bytes_to_write p) = unat (transit_byte p)"
    using al by (simp add: aligned_def)
  then have "unat (total_bytes_written p) = unat (transit_byte p)" "unat (bytes_to_write p) = 0" using t(2) by linarith+
  then show ?thesis by (simp add: word_unat_eq_iff)
qed

lemma aligned_transit: "aligned (set_transit n p)"
  by (auto simp: aligned_def set_transit_def Let_def unat_diff word_le_nat_alt word_less_nat_alt unat_eq_0)

lemma late_utc_start_progress:
  "late_utc_start F p m = Some (Inr p', m') \<Longrightarrow> p' = p \<or> p' = p\<lparr>utc_start_set := True\<rparr>"
  by (auto simp: late_utc_start_def split: if_splits bind_splits)

lemma next_command_progress:
  assumes "next_command F p m = Some (Inr p', m')"
  shows "p' = p \<or> p' = p\<lparr>utc_start_set := True\<rparr> \<or> (\<exists>n. p' = set_transit n p)"
  using assms unfolding next_command_def
  by (auto split: if_splits bind_splits dest: late_utc_start_progress)

lemma aligned_command:
  assumes al: "aligned p" and run: "next_command F p m = Some (Inr p', m')"
  shows "aligned p'"
  using next_command_progress [OF run] al aligned_transit by (auto simp: aligned_def)

lemma no_data_progress:
  assumes "xfer_pending_function F = None" and "no_data F p m = Some (Inr p', m')"
  shows "\<exists>e. p' = p\<lparr>data_transfer_error_state := e\<rparr>"
  using assms by (auto simp: no_data_def Let_def split: prod.splits if_splits bind_splits)

lemma aligned_write:
  assumes al: "aligned p" and run: "write_buffer p m = Some (Inr p', m')"
  shows "aligned p'"
proof -
  define w where "w = (word_of_int (buffer_size p) :: u64)"
  define n where "n = (if transit_byte p \<noteq> 0 \<and> bytes_to_write p < w then bytes_to_write p else w)"
  have p': "p' = p\<lparr>buf_bytes := n, total_bytes_written := total_bytes_written p + n,
      bytes_to_write := (if bytes_to_write p = 0 then 0 else bytes_to_write p - n)\<rparr>"
    using run by (auto simp: write_buffer_def Let_def n_def w_def split: option.splits if_splits bind_splits)
  show ?thesis
  proof (cases "transit_byte p = 0")
    case True
    then show ?thesis using al by (simp add: aligned_def p')
  next
    case False
    then have n: "n \<le> bytes_to_write p" by (auto simp: n_def not_less)
    have sum: "unat (total_bytes_written p) + unat (bytes_to_write p) = unat (transit_byte p)"
      using al False by (simp add: aligned_def)
    have "unat (total_bytes_written p) + unat n < 2 ^ 64"
      using sum n unat_less_length [of "transit_byte p"] by (simp add: word_le_nat_alt)
    then have "unat (total_bytes_written p + n) = unat (total_bytes_written p) + unat n"
      by (simp add: unat_word_ariths)
    then show ?thesis using False sum n
      by (auto simp: aligned_def p' unat_diff word_le_nat_alt unat_eq_0)
  qed
qed

lemma aligned_buffer:
  assumes F: "xfer_pending_function F = None" and al: "aligned p" and run: "next_buffer F p m = Some (Inr p', m')"
  shows "aligned p'"
proof (cases "transit_byte p \<noteq> 0 \<and> bytes_to_write p = 0")
  case True
  with run al show ?thesis by (simp add: next_buffer_def)
next
  case False
  obtain a n m1 where b: "buffer_function F m = ((a, n), m1)" by (metis prod.exhaust)
  define q where "q = p\<lparr>buffer := a, buffer_size := n\<rparr>"
  define q1 where "q1 = (if n \<noteq> 0 then q\<lparr>data_transfer_error_state := 0\<rparr> else q)"
  have "\<not> n < 0" using run False b by (auto simp: next_buffer_def Let_def split: if_splits)
  then have "\<exists>p2 m2 m3. (if n = 0 then no_data F q1 m1 else Some (Inr q1, m1)) = Some (Inr p2, m2)
      \<and> write_buffer p2 m3 = Some (Inr p', m')"
    using run False b unfolding next_buffer_def Let_def q1_def q_def
    by (auto split: if_splits bind_splits sum.splits) blast+
  then obtain p2 m2 m3 where nd: "(if n = 0 then no_data F q1 m1 else Some (Inr q1, m1)) = Some (Inr p2, m2)"
    and wr: "write_buffer p2 m3 = Some (Inr p', m')" by blast
  have "aligned q1" using al by (simp add: aligned_def q1_def q_def)
  then have "aligned p2" using nd no_data_progress [OF F, of q1 m1 p2 m2] by (auto simp: aligned_def split: if_splits)
  then show ?thesis using wr by (rule aligned_write)
qed

lemma change_state_progress: "change_state F k p m = Some (Inr p', m') \<Longrightarrow> p' = p"
  by (auto simp: change_state_def split: dada_pwc_code.splits if_splits bind_splits prod.splits)

lemma write_rest_progress:
  assumes "write_rest p m = Some (Inr p', m')"
  shows "transit_byte p' = transit_byte p \<and> bytes_to_write p' = bytes_to_write p"
  using assms by (auto simp: write_rest_def Let_def split: option.splits if_splits bind_splits)

lemma aligned_transition:
  assumes al: "aligned p" and run: "transition F p m = Some (Inr p', m')"
  shows "aligned p'"
proof (cases "reached p")
  case False
  with run al show ?thesis by (simp add: transition_def)
next
  case True
  then obtain m1 where "write_rest (p\<lparr>transit_byte := 0\<rparr>) m1 = Some (Inr p', m')"
    using run by (auto simp: transition_def split: bind_splits sum.splits dest!: change_state_progress)
  from write_rest_progress [OF this] show ?thesis using aligned_reached [OF al True] by (simp add: aligned_def)
qed

text \<open>
  The rounds of the loop; between them the other threads and processes do what they like
  to the client and the rings.
\<close>

inductive pwc_step :: "'x pwc_main_functions \<Rightarrow> progress \<times> 'x dada_pwc_main_t \<Rightarrow> progress \<times> 'x dada_pwc_main_t \<Rightarrow> bool"
  for F where
  round: "xfer_pending_function F = None \<Longrightarrow> transfer_round F p m = Some (Inr p', m') \<Longrightarrow> pwc_step F (p, m) (p', m')"
| others: "pwc_step F (p, m) (p, m')"

lemma pwc_step_aligned: "pwc_step F s t \<Longrightarrow> aligned (fst s) \<Longrightarrow> aligned (fst t)"
proof (induction rule: pwc_step.induct)
  case (round p m p' m')
  obtain p1 m1 p2 m2 where "next_command F p m = Some (Inr p1, m1)" "next_buffer F p1 m1 = Some (Inr p2, m2)"
    "transition F p2 m2 = Some (Inr p', m')"
    using round(2) by (auto simp: transfer_round_def and_then_def split: bind_splits sum.splits)
  moreover have "aligned p" using round by simp
  ultimately show ?case using aligned_command aligned_buffer [OF round(1)] aligned_transition by (metis fst_conv)
qed simp

interpretation rounds: invariant_system "pwc_step F" "\<lambda>s. aligned (fst s)" for F
  by unfold_locales (rule pwc_step_aligned)


lemma station_write:
  assumes "length d \<le> 6"
  obtains r' c' where "ipcio_write (data_ring (station q)) small_writer d = Some (int (length d), r', c')"
proof -
  have "N_of (the_ring (stream_start small_ring)) + length d < 2 ^ 64" using station_room(5) assms by simp
  obtain s' :: stream and c' where "ipcio_write (the_ring (stream_start small_ring)) small_writer d = Some (int (length d), the_ring s', c')"
    by (rule ipcio_write_goes_on [OF station_room(1-3) station_room(4) [OF assms] order_refl \<open>_ < 2 ^ 64\<close>]) blast
  then show thesis unfolding station_room(7) by (intro that [of "the_ring s'" c']) (simp add: station_def dada_pwc_main_create_def)
qed


section \<open>Where the loop goes wrong\<close>

text \<open>C23. A command that is overdue when it is taken right after a transition in the middle of a buffer: the
  loop goes through the rest of the buffer a second time, and writes as many bytes as the buffer had in
  front of the first transition, taken from behind the end of the buffer.\<close>

theorem overdue_command_writes_stale_bytes:
  assumes "write_rest p m = Some (Inr p1, m1)" and "pm_data m = Some c" and "transit_byte p = 0"
    and "buffer p = Some a" and "buffer_size p = int n" and "n < 2 ^ 63" and "buf_bytes p = of_nat j" and "0 < j" and "j < n"
    and "code (queued (pwc m1)) = dada_pwc_record_start \<or> code (queued (pwc m1)) = dada_pwc_record_stop"
    and "byte_count (queued (pwc m1)) \<le> total_bytes_written p1" and "total_bytes_written p1 \<noteq> 0"
  shows "\<exists>p2 m2. transfer_round F p1 m1 = and_then (change_state F 2 p2 m2) write_rest
     \<and> rest_of_buffer p2 = Some (map a [n..<n + j])"
proof -
  have n64: "(of_nat n - of_nat j :: u64) = of_nat (n - j)" "(of_nat n - of_nat (n - j) :: u64) = of_nat j"
    using assms(9) of_nat_diff [of j n, where ?'a = u64] of_nat_diff [of "n - j" n, where ?'a = u64] by simp_all
  have lt: "n < 2 ^ 64" using assms(6) by simp
  then have "n - j < 2 ^ 64" "j < 2 ^ 64" using assms(9) by linarith+
  then have u: "unat (of_nat (n - j) :: u64) = n - j" "unat (of_nat j :: u64) = j"
    by (simp_all add: unsigned_of_nat take_bit_nat_eq_self del: of_nat_diff)
  have nz: "(of_nat n - of_nat j :: u64) \<noteq> 0"
  proof
    assume "(of_nat n - of_nat j :: u64) = 0"
    then have "unat (of_nat (n - j) :: u64) = 0" using n64(1) by simp
    then show False using u(1) assms(9) by simp
  qed
  then have p1: "buffer p1 = Some (\<lambda>i. a (j + i))" "buf_bytes p1 = of_nat (n - j)" "buffer_size p1 = int n" "transit_byte p1 = 0"
    using assms(1-5,7) u n64 by (auto simp: write_rest_def Let_def advance_def split: if_splits bind_splits)
  define q where "q = queued (pwc m1)"
  define m2 where "m2 = m1\<lparr>pwc := (pwc m1)\<lparr>queued := q\<lparr>code := dada_pwc_no_command, byte_count := 0\<rparr>\<rparr>, pm_command := q\<rparr>"
  have q: "code q = dada_pwc_record_start \<or> code q = dada_pwc_record_stop" using assms(10) by (simp add: q_def)
  let ?p = "p1\<lparr>transit_byte := total_bytes_written p1, bytes_to_write := 0\<rparr>"
  have take: "take_command m1 = Some m2"
    using q by (auto simp: take_command_def dada_pwc_command_get_def m2_def q_def)
  have "dada_pwc_command_check (pwc m1) \<noteq> 0" using q by (auto simp: dada_pwc_command_check_def q_def)
  moreover have "pm_command m2 = q" by (simp add: m2_def)
  moreover have "set_transit (byte_count q) p1 = ?p"
    using assms(11,12) by (simp add: set_transit_def Let_def q_def not_less)
  ultimately have cmd: "next_command F p1 m1 = Some (Inr ?p, m2)"
    using q take by (auto simp: next_command_def is_transition_def)
  have "next_buffer F ?p m2 = Some (Inr ?p, m2)" using assms(12) by (simp add: next_buffer_def)
  moreover have "transition F ?p m2 = and_then (change_state F 2 (?p\<lparr>transit_byte := 0\<rparr>) m2) write_rest"
    using assms(12) by (simp add: transition_def reached_def and_then_def)
  ultimately have "transfer_round F p1 m1 = and_then (change_state F 2 (?p\<lparr>transit_byte := 0\<rparr>) m2) write_rest"
    using cmd by (simp add: transfer_round_def and_then_def [of "Some _"])
  moreover have "rest_of_buffer (?p\<lparr>transit_byte := 0\<rparr>) = Some (map a [n..<n + j])"
  proof -
    have "rest_of_buffer (?p\<lparr>transit_byte := 0\<rparr>) = Some (map (\<lambda>i. a (j + (n - j + i))) [0..<j])"
      by (simp add: rest_of_buffer_def p1 advance_def bytes_at_def n64 u)
    also have "map (\<lambda>i. a (j + (n - j + i))) [0..<j] = map a [n..<n + j]"
      by (intro nth_equalityI) (use assms(9) in simp_all)
    finally show ?thesis .
  qed
  ultimately show ?thesis by blast
qed

lemma overdue_command_writes_stale_bytes_witness:
  "\<exists>p1 m1 p2 m2. write_rest ((start_progress 1 0 True)\<lparr>buffer := Some of_nat, buffer_size := 3, buf_bytes := 1\<rparr>)
       ((station DADA_PWC_COMMAND_INIT)\<lparr>pwc := (pwc (station DADA_PWC_COMMAND_INIT))
          \<lparr>queued := DADA_PWC_COMMAND_INIT\<lparr>code := dada_pwc_record_stop\<rparr>\<rparr>\<rparr>) = Some (Inr p1, m1)
     \<and> transfer_round giver p1 m1 = and_then (change_state giver 2 p2 m2) write_rest \<and> rest_of_buffer p2 = Some [3]"
proof -
  let ?p = "(start_progress 1 0 True)\<lparr>buffer := Some of_nat, buffer_size := 3, buf_bytes := 1\<rparr>"
  let ?m = "(station DADA_PWC_COMMAND_INIT)\<lparr>pwc := (pwc (station DADA_PWC_COMMAND_INIT))
      \<lparr>queued := DADA_PWC_COMMAND_INIT\<lparr>code := dada_pwc_record_stop\<rparr>\<rparr>\<rparr>"
  have c: "pm_data ?m = Some small_writer" by (simp add: station_def dada_pwc_main_create_def)
  have "rest_of_buffer ?p = Some [1, 2]"
    by (simp add: rest_of_buffer_def bytes_at_def advance_def upt_rec)
  moreover obtain r' c' where "ipcio_write (data_ring ?m) small_writer [1, 2] = Some (2, r', c')"
    using station_write [of "[1, 2]" DADA_PWC_COMMAND_INIT] by auto
  ultimately obtain p1 m1 where run: "write_rest ?p ?m = Some (Inr p1, m1)" and
      t: "total_bytes_written p1 = 3" "queued (pwc m1) = DADA_PWC_COMMAND_INIT\<lparr>code := dada_pwc_record_stop\<rparr>"
    using c by (auto simp: write_rest_def Let_def on_stream_def start_progress_def)
  obtain p2 m2 where "transfer_round giver p1 m1 = and_then (change_state giver 2 p2 m2) write_rest"
      "rest_of_buffer p2 = Some (map of_nat [3..<3 + 1])"
    using overdue_command_writes_stale_bytes [OF run c, of of_nat 3 1 giver] t by (auto simp: start_progress_def DADA_PWC_COMMAND_INIT_def)
  then have "transfer_round giver p1 m1 = and_then (change_state giver 2 p2 m2) write_rest" "rest_of_buffer p2 = Some [3]"
    by (simp_all add: upt_rec)
  with run show ?thesis by blast
qed

text \<open>Errors do not get worse: in an error state the main loop can only note the error it is in, so
  that a fatal error behind a soft or hard one is forgotten, and the client goes on instead of quitting.\<close>

theorem an_error_hides_a_worse_one:
  assumes "is_error_state (pstate (pwc m))"
  shows "dada_pwc_main_process_error rval m = m"
proof -
  have "\<not> may_become (pstate (pwc m)) (error_state rval (pstate (pwc m)))"
    using assms by (auto simp: is_error_state_def error_state_def)
  then show ?thesis
    by (simp add: dada_pwc_main_process_error_def to_state_def on_pwc_def dada_pwc_set_state_def)
qed

lemma an_error_hides_a_worse_one_witness:
  "pstate (pwc (dada_pwc_main_process_error DADA_ERROR_FATAL
     (dada_pwc_main_process_error DADA_ERROR_SOFT (station DADA_PWC_COMMAND_INIT)))) = dada_pwc_soft_error"
proof -
  let ?m = "dada_pwc_main_process_error DADA_ERROR_SOFT (station DADA_PWC_COMMAND_INIT)"
  have "pstate (pwc ?m) = dada_pwc_soft_error"
    by (simp add: dada_pwc_main_process_error_def to_state_def on_pwc_def dada_pwc_set_state_def error_state_def
        station_def dada_pwc_main_create_def dada_pwc_create_def)
  with an_error_hides_a_worse_one [of ?m DADA_ERROR_FATAL] show ?thesis by (simp add: is_error_state_def)
qed

end
