(* ===== verification/Dada_Num.thy ===== *)
theory Dada_Num
  imports Dada_Client
begin

text \<open>
  The pair of programs that test a chain of rings: \<^verbatim>\<open>src/dada_numdb.c\<close> writes a sequence of
  64-bit numbers to a unit, \<^verbatim>\<open>src/dada_dbnum.c\<close> reads it and stops at the first number that is
  not the next one. The sequence leaves out every other run of numbers, those a second
  writer would put between them. \<open>None\<close> is the end of the process: the exit at a wrong number, or
  the remainder of a division by zero.
\<close>

unbundle bit_operations_syntax

section \<open>The bytes of a number\<close>

text \<open>The most significant byte first.\<close>

definition number_bytes :: "u64 \<Rightarrow> byte list" where
  "number_bytes n = rev (map (\<lambda>j. ucast (drop_bit (8 * j) n AND 0xFF)) [0..<8])"

definition bytes_number :: "byte list \<Rightarrow> u64" where
  "bytes_number d = fold (\<lambda>j seq. seq OR push_bit (8 * j) (ucast (d ! (7 - j)))) [0..<8] 0"

lemma length_number_bytes [simp]: "length (number_bytes n) = 8"
  by (simp add: number_bytes_def)

lemma bit_low_byte: "bit (ucast (w AND 0xFF :: u64) :: byte) k \<longleftrightarrow> bit w k" if "k < 8"
proof -
  have "w AND 0xFF = take_bit 8 w" by (simp add: take_bit_eq_mask mask_eq_exp_minus_1)
  then show ?thesis using that by (simp only:) (simp add: bit_unsigned_iff bit_take_bit_iff)
qed

lemma bit_fold_or:
  "bit (fold (\<lambda>j seq. seq OR push_bit (8 * j) (f j)) js (a :: u64)) k
     \<longleftrightarrow> bit a k \<or> (\<exists>j\<in>set js. bit (push_bit (8 * j) (f j)) k)"
  by (induction js arbitrary: a) (auto simp: bit_or_iff)

lemma number_bytes_number [simp]: "bytes_number (number_bytes n) = n"
proof (rule bit_word_eqI)
  fix k assume "k < LENGTH(64)"
  then have k: "k < 64" by simp
  have nth: "number_bytes n ! (7 - j) = ucast (drop_bit (8 * j) n AND 0xFF)" if "j < 8" for j
    using that by (simp add: number_bytes_def rev_nth)
  have "bit (bytes_number (number_bytes n)) k \<longleftrightarrow> (\<exists>j\<in>{0..<8}. 8 * j \<le> k \<and> bit (number_bytes n ! (7 - j)) (k - 8 * j))"
    unfolding bytes_number_def bit_fold_or using k by (auto simp: bit_push_bit_iff bit_unsigned_iff)
  also have "\<dots> \<longleftrightarrow> (\<exists>j\<in>{0..<8}. 8 * j \<le> k \<and> k - 8 * j < 8 \<and> bit n k)"
  proof (intro bex_cong refl)
    fix j :: nat assume "j \<in> {0..<8}"
    then have "number_bytes n ! (7 - j) = ucast (drop_bit (8 * j) n AND 0xFF)" using nth by simp
    moreover have "k - 8 * j < 8" if "bit (number_bytes n ! (7 - j)) (k - 8 * j)" using bit_imp_le_length [OF that] by simp
    ultimately show "(8 * j \<le> k \<and> bit (number_bytes n ! (7 - j)) (k - 8 * j)) = (8 * j \<le> k \<and> k - 8 * j < 8 \<and> bit n k)"
      by (cases "k - 8 * j < 8") (auto simp: bit_low_byte bit_drop_bit_eq)
  qed
  also have "\<dots> \<longleftrightarrow> bit n k"
  proof
    assume "bit n k"
    moreover have "8 * (k div 8) \<le> k" "k - 8 * (k div 8) < 8" "k div 8 \<in> {0..<8}" using k by auto
    ultimately show "\<exists>j\<in>{0..<8}. 8 * j \<le> k \<and> k - 8 * j < 8 \<and> bit n k" by blast
  qed auto
  finally show "bit (bytes_number (number_bytes n)) k = bit n k" .
qed

section \<open>The writing program\<close>

record dada_numdb =
  nd_start_num :: u64
  nd_interleave_num :: u64
  nd_index :: u64
  nd_write_bytes :: u64
  nd_header_read :: bool

text \<open>The number behind \<open>i\<close>: behind a run of \<open>il\<close> numbers as many are left out.\<close>

definition next_written :: "u64 \<Rightarrow> u64 \<Rightarrow> u64 option" where
  "next_written il i =
     (if il = 0 then None else let i = i + 1 in Some (if i mod il = 0 then i + il else i))"

fun write_numbers :: "nat \<Rightarrow> u64 \<Rightarrow> u64 \<Rightarrow> (byte list \<times> u64) option" where
  "write_numbers 0 il i = Some ([], i)"
| "write_numbers (Suc n) il i =
     do { j \<leftarrow> next_written il i; (d, l) \<leftarrow> write_numbers n il j; Some (number_bytes i @ d, l) }"

text \<open>
  The function that fills the buffer \<open>d\<close>. The first call is for the header, which stays as
  it is; later the bytes behind the last whole number are left as the buffer holds them.
\<close>

definition dada_numdb_io :: "dada_numdb \<Rightarrow> byte list \<Rightarrow> (int \<times> byte list \<times> dada_numdb) option" where
  "dada_numdb_io p d =
     (if \<not> nd_header_read p then Some (int (length d), d, p\<lparr>nd_header_read := True\<rparr>)
      else do {
        (new, l) \<leftarrow> write_numbers (length d div 8) (nd_interleave_num p) (nd_index p);
        Some (int (length d), new @ drop (length new) d, p\<lparr>nd_index := l\<rparr>)
      })"

definition dada_numdb_open :: "dada_numdb dada_client \<Rightarrow> int \<times> dada_numdb dada_client" where
  "dada_numdb_open cl =
     (let p = cl_context cl
      in (0, cl\<lparr>cl_context := p\<lparr>nd_index := nd_start_num p\<rparr>,
                optimal_bytes := nd_interleave_num p * 8 * 8, transfer_bytes := nd_write_bytes p\<rparr>))"

section \<open>The reading program\<close>

record dada_dbnum =
  dn_start_num :: u64
  dn_interleave_skip_num :: u64
  dn_index :: u64
  dn_xfer_skip_num :: u64
  dn_header_read :: bool

definition next_expected :: "u64 \<Rightarrow> u64 \<Rightarrow> u64" where
  "next_expected il i = (let i = i + 1 in if il \<noteq> 0 \<and> i mod il = 0 then i + il else i)"

fun check_numbers :: "nat \<Rightarrow> u64 \<Rightarrow> byte list \<Rightarrow> u64 \<Rightarrow> u64 option" where
  "check_numbers 0 il d i = Some i"
| "check_numbers (Suc n) il d i =
     (if bytes_number (take 8 d) \<noteq> i then None else check_numbers n il (drop 8 d) (next_expected il i))"

definition dada_dbnum_io :: "dada_dbnum \<Rightarrow> byte list \<Rightarrow> (int \<times> dada_dbnum) option" where
  "dada_dbnum_io p d =
     (if \<not> dn_header_read p then Some (int (length d), p\<lparr>dn_header_read := True\<rparr>)
      else do {
        l \<leftarrow> check_numbers (length d div 8) (dn_interleave_skip_num p) d (dn_index p);
        Some (int (length d), p\<lparr>dn_index := l\<rparr>)
      })"

text \<open>An index of 0 at the start of a transfer is taken for the first transfer.\<close>

definition dada_dbnum_open :: "dada_dbnum dada_client \<Rightarrow> int \<times> dada_dbnum dada_client" where
  "dada_dbnum_open cl =
     (let p = cl_context cl;
          p = (if dn_index p = 0 \<or> dn_xfer_skip_num p = 0 then p\<lparr>dn_index := dn_start_num p\<rparr> else p);
          cl = cl\<lparr>cl_context := p\<rparr>
      in (0, if dn_interleave_skip_num p \<noteq> 0 then cl\<lparr>optimal_bytes := dn_interleave_skip_num p * 8 * 8\<rparr> else cl))"

definition dada_dbnum_close :: "dada_dbnum \<Rightarrow> int \<times> dada_dbnum" where
  "dada_dbnum_close p =
     (let p = (if dn_xfer_skip_num p \<noteq> 0 then p\<lparr>dn_index := dn_index p + dn_xfer_skip_num p\<rparr> else p)
      in (0, p\<lparr>dn_header_read := False\<rparr>))"

section \<open>What one writes and the other accepts\<close>

lemma bit_bytes_number:
  "bit (bytes_number d) k \<longleftrightarrow> k < 64 \<and> (\<exists>j\<in>{0..<8}. 8 * j \<le> k \<and> bit (d ! (7 - j)) (k - 8 * j))"
  unfolding bytes_number_def bit_fold_or by (auto simp: bit_push_bit_iff bit_unsigned_iff dest: bit_imp_le_length)

lemma bytes_number_bytes:
  assumes "length d = 8"
  shows "number_bytes (bytes_number d) = d"
proof (rule nth_equalityI)
  fix m assume "m < length (number_bytes (bytes_number d))"
  then have m: "m < 8" by simp
  define j where "j = 7 - m"
  have j: "j < 8" "m = 7 - j" using m by (simp_all add: j_def)
  have "bit (number_bytes (bytes_number d) ! m) k = bit (d ! m) k" if k: "k < 8" for k
  proof -
    have same: "j' = j" if "8 * j' \<le> 8 * j + k" "bit (d ! (7 - j')) (8 * j + k - 8 * j')" for j'
      using bit_imp_le_length [OF that(2)] that(1) k by simp
    have "bit (number_bytes (bytes_number d) ! m) k = bit (bytes_number d) (8 * j + k)"
      using j k by (simp add: number_bytes_def rev_nth bit_low_byte bit_drop_bit_eq)
    also have "\<dots> = bit (d ! (7 - j)) k"
    proof
      assume "bit (bytes_number d) (8 * j + k)"
      then obtain j' where j': "8 * j' \<le> 8 * j + k" "bit (d ! (7 - j')) (8 * j + k - 8 * j')"
        unfolding bit_bytes_number by blast
      then show "bit (d ! (7 - j)) k" using same [OF j'] by simp
    qed (use j k in \<open>auto simp: bit_bytes_number intro!: bexI [of _ j]\<close>)
    finally show ?thesis using j by simp
  qed
  then show "number_bytes (bytes_number d) ! m = d ! m" by (intro bit_word_eqI) simp
qed (use assms in simp)

lemma bytes_number_eq: "length d = 8 \<Longrightarrow> bytes_number d = n \<longleftrightarrow> d = number_bytes n"
  using bytes_number_bytes [of d] by auto

lemma length_write_numbers: "write_numbers n il i = Some (d, l) \<Longrightarrow> length d = 8 * n"
  by (induction n arbitrary: i d l) (auto split: bind_splits)

lemma next_written_expected: "next_written il i = Some j \<Longrightarrow> next_expected il i = j"
  by (auto simp: next_written_def next_expected_def Let_def split: if_splits)

lemma write_numbers_append:
  "write_numbers (m + n) il i =
     do { (d, j) \<leftarrow> write_numbers m il i; (e, l) \<leftarrow> write_numbers n il j; Some (d @ e, l) }"
  by (induction m arbitrary: i) (simp_all add: Option.bind_assoc case_prod_unfold split: bind_splits)

lemma check_numbers_append:
  "length d = 8 * m \<Longrightarrow>
     check_numbers (m + n) il (d @ e) i = Option.bind (check_numbers m il d i) (check_numbers n il e)"
  by (induction m arbitrary: i d) simp_all

text \<open>The check passes on the bytes that were written, and on no others.\<close>

lemma check_written:
  assumes "write_numbers n il i = Some (d, l)" and "length e = 8 * n"
  shows "check_numbers n il e i = (if e = d then Some l else None)"
  using assms
proof (induction n arbitrary: i d e)
  case (Suc n)
  then obtain j d' where j: "next_written il i = Some j" and d': "write_numbers n il j = Some (d', l)"
      and d: "d = number_bytes i @ d'" by (auto split: bind_splits)
  let ?h = "take 8 e" and ?t = "drop 8 e"
  have len: "length ?h = 8" "length ?t = 8 * n" using Suc.prems(2) by simp_all
  have "e = d \<longleftrightarrow> ?h = number_bytes i \<and> ?t = d'"
    by (metis d append_eq_conv_conj append_take_drop_id length_number_bytes)
  with Suc.IH [OF d' len(2)] bytes_number_eq [OF len(1), of i] next_written_expected [OF j]
  show ?case by auto
qed auto

section \<open>A transfer in buffers of any size\<close>

fun write_buffers :: "dada_numdb \<Rightarrow> byte list list \<Rightarrow> (byte list \<times> dada_numdb) option" where
  "write_buffers p [] = Some ([], p)"
| "write_buffers p (b # bs) =
     do { (_, d, p) \<leftarrow> dada_numdb_io p b; (e, p) \<leftarrow> write_buffers p bs; Some (d @ e, p) }"

fun read_buffers :: "dada_dbnum \<Rightarrow> byte list list \<Rightarrow> dada_dbnum option" where
  "read_buffers q [] = Some q"
| "read_buffers q (b # bs) = do { (_, q) \<leftarrow> dada_dbnum_io q b; read_buffers q bs }"

definition whole_numbers :: "byte list list \<Rightarrow> bool" where
  "whole_numbers bs \<longleftrightarrow> (\<forall>b\<in>set bs. 8 dvd length b)"

lemma whole_numbers_Cons [simp]: "whole_numbers (b # bs) \<longleftrightarrow> 8 dvd length b \<and> whole_numbers bs"
  by (simp add: whole_numbers_def)

lemma whole_numbers_length: "whole_numbers bs \<Longrightarrow> 8 dvd length (concat bs)"
  by (induction bs) auto

lemma div_add_8: "8 dvd (m :: nat) \<Longrightarrow> (m + n) div 8 = m div 8 + n div 8"
  by (rule div_plus_div_distrib_dvd_left)

lemma write_buffers_numbers:
  assumes "write_buffers p bs = Some (d, p')" and "nd_header_read p" and "whole_numbers bs"
  shows "write_numbers (length (concat bs) div 8) (nd_interleave_num p) (nd_index p) = Some (d, nd_index p')"
  using assms
proof (induction bs arbitrary: p d)
  case (Cons b bs)
  then obtain new l e where w: "write_numbers (length b div 8) (nd_interleave_num p) (nd_index p) = Some (new, l)"
      and rest: "write_buffers (p\<lparr>nd_index := l\<rparr>) bs = Some (e, p')" and d: "d = (new @ drop (length new) b) @ e"
    by (auto simp: dada_numdb_io_def split: bind_splits)
  have "drop (length new) b = []" using length_write_numbers [OF w] Cons.prems(3) by auto
  with Cons.IH [OF rest] w d Cons.prems show ?case by (simp add: div_add_8 write_numbers_append)
qed simp

lemma read_buffers_numbers:
  assumes "dn_header_read q" and "whole_numbers bs"
  shows "read_buffers q bs = map_option (\<lambda>l. q\<lparr>dn_index := l\<rparr>)
    (check_numbers (length (concat bs) div 8) (dn_interleave_skip_num q) (concat bs) (dn_index q))"
  using assms
proof (induction bs arbitrary: q)
  case (Cons b bs)
  then have "8 dvd length b" by simp
  then have "length b = 8 * (length b div 8)" by simp
  from check_numbers_append [OF this] Cons show ?case
    by (simp add: dada_dbnum_io_def div_add_8 check_numbers_append
        split: bind_splits)
qed simp



end
