(* ===== verification/Dada_Dbevent.thy ===== *)
theory Dada_Dbevent
  imports Dada_Hdu Tmutil String_Array
begin

text \<open>
  The program that keeps the last minutes of a stream in a ring and copies the stretches of it that
  are asked for to a second unit (\<^verbatim>\<open>src/dada_dbevent.c\<close>). A request is a list of events,
  each a line with two times; their bytes are worked out, sorted, joined where they
  overlap, and written one transfer each.

  Floating point numbers are a type \<open>'f\<close>, and their text is a parameter. So is the memory the program
  does not initialise. \<open>None\<close> is a call that does not return: it sleeps, divides by zero,
  goes through a null pointer or writes outside an array. Memory is taken to be available, and what comes
  from a connection to have no NUL.
\<close>

section \<open>The state\<close>

record dbevent =
  ev_in :: ipcio
  ev_out :: dada_hdu
  ev_utc_start :: int
  ev_bytes_per_second :: u64
  ev_maximum_delay :: int
  ev_header :: "byte list"
  ev_work_buffer :: "byte list"
  ev_in_bufsz :: u64
  ev_resolution :: u64

record 'f event =
  start_byte :: u64
  end_byte :: u64
  snr :: 'f
  dm :: 'f
  width :: 'f
  beam :: u32
  event_arrival :: u64
  arrival_numer :: u64
  arrival_denom :: u64

record 'f event_machine =
  power_of_ten :: "nat \<Rightarrow> u64"
  scan_float :: "string \<Rightarrow> 'f option"
  show_float :: "'f \<Rightarrow> string"
  junk_tm :: tm
  junk_u64 :: u64
  junk_line :: string
  junk_events :: "nat \<Rightarrow> 'f event"
  junk_memory :: "nat \<Rightarrow> byte"

section \<open>From times to bytes\<close>

text \<open>
  The offset of a time, given in whole seconds and the digits behind the point; negative before the
  start of the observation.
\<close>

definition calculate_byte_offset :: "'f event_machine \<Rightarrow> dbevent \<Rightarrow> string \<Rightarrow> string option \<Rightarrow> int option" where
  "calculate_byte_offset M d secs frac =
     (case frac of
        None \<Rightarrow> None
      | Some f \<Rightarrow>
          let time_secs = str2utctime (junk_tm M) secs;
              numer = (case snd (sscanf_lu f) of None \<Rightarrow> junk_u64 M | Some n \<Rightarrow> n);
              denom = power_of_ten M (length f)
          in if ev_utc_start d \<noteq> 0 \<and> ev_utc_start d \<le> time_secs
             then if denom = 0 then None
                  else Some (c_int64 (word_of_int (time_secs - ev_utc_start d) * ev_bytes_per_second d
                               + numer * ev_bytes_per_second d div denom))
             else Some (- 1))"

text \<open>The start of an event is rounded down to the resolution and its end up.\<close>

definition round_start :: "dbevent \<Rightarrow> int \<Rightarrow> u64 option" where
  "round_start d offset =
     (if offset < 0 then Some 0
      else if ev_resolution d = 0 then None
      else
        let off = word_of_int offset; remainder = off mod ev_resolution d
        in Some (if remainder = 0 then off
                 else if ev_resolution d < off then off - remainder else ev_resolution d))"

definition round_end :: "dbevent \<Rightarrow> int \<Rightarrow> u64 option" where
  "round_end d offset =
     (if offset < 0 then Some 0
      else if ev_resolution d = 0 then None
      else
        let off = word_of_int offset; remainder = off mod ev_resolution d
        in Some (if remainder = 0 then off else off + (ev_resolution d - remainder)))"

section \<open>The line of an event\<close>

text \<open>\<open>strtok_r\<close>: the next token and what is behind it.\<close>

definition next_token :: "string \<Rightarrow> string \<Rightarrow> string option \<times> string" where
  "next_token seps s =
     (let t = dropWhile (\<lambda>c. c \<in> set seps) s
      in if t = [] then (None, [])
         else (Some (takeWhile (\<lambda>c. c \<notin> set seps) t), drop 1 (dropWhile (\<lambda>c. c \<notin> set seps) t)))"

definition sep_time :: string where "sep_time = ''. '' @ [tab]"

definition sep_float :: string where "sep_float = '' '' @ [tab]"

text \<open>A number that cannot be parsed leaves the field as it was.\<close>

definition float_field :: "'f event_machine \<Rightarrow> string option \<Rightarrow> 'f \<Rightarrow> 'f option" where
  "float_field M w old =
     (case w of None \<Rightarrow> None | Some w \<Rightarrow> Some (case scan_float M w of None \<Rightarrow> old | Some x \<Rightarrow> x))"

definition parse_numbers :: "'f event_machine \<Rightarrow> string \<Rightarrow> 'f event \<Rightarrow> 'f event option" where
  "parse_numbers M rest e =
     (let (w1, rest) = next_token sep_float rest; (w2, rest) = next_token sep_float rest;
          (w3, rest) = next_token sep_float rest; (w4, rest) = next_token sep_float rest
      in do {
           x \<leftarrow> float_field M w1 (dm e);
           y \<leftarrow> float_field M w2 (snr e);
           z \<leftarrow> float_field M w3 (width e);
           w4 \<leftarrow> w4;
           Some (e\<lparr>dm := x, snr := y, width := z,
                    beam := (case snd (sscanf_lu w4) of None \<Rightarrow> beam e | Some n \<Rightarrow> ucast n)\<rparr>)
         })"

definition parse_arrival :: "'f event_machine \<Rightarrow> string \<Rightarrow> string option \<Rightarrow> 'f event \<Rightarrow> 'f event option" where
  "parse_arrival M secs frac e =
     (case frac of
        None \<Rightarrow> None
      | Some f \<Rightarrow>
          Some (e\<lparr>event_arrival := word_of_int (str2utctime (junk_tm M) secs),
                   arrival_numer := (case snd (sscanf_lu f) of None \<Rightarrow> arrival_numer e | Some n \<Rightarrow> n),
                   arrival_denom := power_of_ten M (length f)\<rparr>))"

text \<open>
  A line fills the event \<open>e\<close>. The flag says whether it was complete; a line that ends between the times
  leaves the event half filled.
\<close>

definition parse_event :: "'f event_machine \<Rightarrow> dbevent \<Rightarrow> string \<Rightarrow> 'f event \<Rightarrow> (bool \<times> 'f event) option" where
  "parse_event M d line e =
     (let (t1, rest) = next_token sep_time line; (f1, rest) = next_token sep_time rest
      in case t1 of
           None \<Rightarrow> Some (False, e)
         | Some t1 \<Rightarrow> do {
             offset \<leftarrow> calculate_byte_offset M d t1 f1;
             b \<leftarrow> round_start d offset;
             let e = e\<lparr>start_byte := b\<rparr>;
                 (t2, rest) = next_token sep_time rest; (f2, rest) = next_token sep_time rest
             in case t2 of
                  None \<Rightarrow> Some (False, e)
                | Some t2 \<Rightarrow> do {
                    offset \<leftarrow> calculate_byte_offset M d t2 f2;
                    b \<leftarrow> round_end d offset;
                    let e = e\<lparr>end_byte := b\<rparr>;
                        (t3, rest) = next_token sep_time rest; (f3, rest) = next_token sep_time rest
                    in case t3 of
                         None \<Rightarrow> Some (False, e)
                       | Some t3 \<Rightarrow> do {
                           e \<leftarrow> parse_arrival M t3 f3 e;
                           e \<leftarrow> parse_numbers M rest e;
                           Some (True, e)
                         }
                  }
           })"

section \<open>The events of a connection\<close>

text \<open>
  \<open>fgets\<close> into the buffer: the buffer, what is left of the connection, and whether its end was reached. At
  the end the buffer stays as it is.
\<close>

definition get_line :: "string \<Rightarrow> string \<Rightarrow> string \<times> string \<times> bool" where
  "get_line buffer s =
     (let line = fgets_line s
      in if s = [] then (buffer, [], True)
         else (line, drop (length line) s, last line \<noteq> nl \<and> length line < 1023))"

text \<open>\<open>sscanf (\"N_EVENTS %lu\")\<close>: the blank of the format stands for any whitespace.\<close>

definition scan_n_events :: "string \<Rightarrow> u64 option" where
  "scan_n_events s =
     (if prefix ''N_EVENTS'' s then map_option fst (scan_unsigned (dropWhile c_space (drop 8 s))) else None)"

definition cut_at :: "char \<Rightarrow> string \<Rightarrow> string" where
  "cut_at c s = takeWhile (\<lambda>x. x \<noteq> c) s"

text \<open>What \<open>strtok_r\<close> leaves of a line: its first token.\<close>

definition line_behind :: "string \<Rightarrow> string" where
  "line_behind line =
     takeWhile (\<lambda>c. c \<in> set sep_time) line
     @ takeWhile (\<lambda>c. c \<notin> set sep_time) (dropWhile (\<lambda>c. c \<in> set sep_time) line)"

text \<open>
  The lines, from the \<open>i\<close>-th event on. The word \<open>QUIT\<close> is too short to be looked at, and the
  loop would go on behind it: the flag that ends it is unsigned and set to \<open>-1\<close>.
\<close>

partial_function (option) receive_lines ::
    "'f event_machine \<Rightarrow> dbevent \<Rightarrow> string \<Rightarrow> string \<Rightarrow> bool \<Rightarrow> nat \<Rightarrow> 'f event list \<Rightarrow> 'f event list option" where
  "receive_lines M d buffer s eof i es =
     (if eof then Some es
      else case get_line buffer s of
             (buffer, s, eof) \<Rightarrow>
               let line = cut_at CHR 0x0D (cut_at CHR ''#'' buffer)
               in if length line < 10 \<or> line = ''QUIT'' then receive_lines M d line s eof i es
                  else if fst (next_token sep_time line) = None then Some es
                  else if length es \<le> i then None
                  else do {
                    (complete, e) \<leftarrow> parse_event M d line (es ! i);
                    if complete \<and> i + 1 < length es
                    then receive_lines M d (line_behind line) s eof (i + 1) (es[i := e])
                    else Some (es[i := e])
                  })"

declare receive_lines.simps [simp del]

text \<open>
  The first line is the number of events, the second the start of the observation, with which nothing
  is done but a warning.
\<close>

definition receive_list :: "'f event_machine \<Rightarrow> dbevent \<Rightarrow> string \<Rightarrow> 'f event list option" where
  "receive_list M d s =
     (case get_line (junk_line M) s of
        (buffer, s, eof) \<Rightarrow>
          let n = scan_n_events buffer;
              es = map (junk_events M) [0..<(case n of None \<Rightarrow> 0 | Some n \<Rightarrow> unat n)]
          in case get_line buffer s of
               (buffer, s, eof2) \<Rightarrow>
                 if n = None then Some es else receive_lines M d buffer s (eof \<or> eof2) 0 es)"

text \<open>\<open>qsort\<close> by the first byte; events with the same one stay in their order, as in the library's merge sort.\<close>

definition sort_events :: "'f event list \<Rightarrow> 'f event list" where
  "sort_events es = sort_key start_byte es"

text \<open>An event that overlaps the one before it takes that one's bytes over.\<close>

fun amalgamate :: "'f event list \<Rightarrow> 'f event list" where
  "amalgamate (a # b # es) =
     (if start_byte b < end_byte a
      then a\<lparr>start_byte := 0, end_byte := 0\<rparr>
           # amalgamate (b\<lparr>start_byte := start_byte a, end_byte := max (end_byte a) (end_byte b)\<rparr> # es)
      else a # amalgamate (b # es))"
| "amalgamate es = es"

section \<open>Writing an event\<close>

text \<open>A line of the header in a sub-block.\<close>

definition set_line :: "ptr \<Rightarrow> string \<Rightarrow> string \<Rightarrow> ring \<Rightarrow> ring" where
  "set_line b w v r = put_string b (snd (ascii_header_set (block_string r b) w (Some v))) r"

definition signed_decimal :: "int \<Rightarrow> string" where
  "signed_decimal n = (if n < 0 then CHR ''-'' # decimal (nat (- n)) else decimal (nat n))"

definition four_decimals :: "nat \<Rightarrow> string" where
  "four_decimals n = replicate (4 - length (decimal n)) CHR ''0'' @ decimal n"

definition event_lines :: "'f event_machine \<Rightarrow> 'f event \<Rightarrow> nat \<Rightarrow> (string \<times> string) list" where
  "event_lines M e ih =
     (let key = ''EVENT'' @ four_decimals ih
      in [(key @ ''_SNR'', show_float M (snr e)), (key @ ''_DM'', show_float M (dm e)),
          (key @ ''_WIDTH'', show_float M (width e)), (key @ ''_BEAM'', decimal (unat (beam e))),
          (key @ ''_ARRIVAL'', decimal (unat (event_arrival e))),
          (key @ ''_ARRIVAL_NUMER'', decimal (unat (arrival_numer e))),
          (key @ ''_ARRIVAL_DENOM'', decimal (unat (arrival_denom e)))])"

text \<open>One group of lines for every event that was joined into this one, all with its own values.\<close>

definition header_lines :: "'f event_machine \<Rightarrow> nat \<Rightarrow> nat \<Rightarrow> 'f event \<Rightarrow> (string \<times> string) list" where
  "header_lines M i skipped e =
     (''OBS_OFFSET'', decimal (unat (start_byte e)))
     # (''FILE_SIZE'', signed_decimal (c_int64 (end_byte e - start_byte e)))
     # (''N_EVENTS'', decimal (skipped + 1))
     # concat (map (event_lines M e) [i - skipped..<i + 1])"

type_synonym 'a event_op = "('a \<times> ring \<times> ring \<times> ring \<times> dbevent) option"

definition on_in :: "(ring \<Rightarrow> ipcio \<Rightarrow> 'a io) \<Rightarrow> ring \<Rightarrow> ring \<Rightarrow> ring \<Rightarrow> dbevent \<Rightarrow> 'a event_op" where
  "on_in f ir hr dr d =
     (case f ir (ev_in d) of None \<Rightarrow> None | Some (x, ir, c) \<Rightarrow> Some (x, ir, hr, dr, d\<lparr>ev_in := c\<rparr>))"

definition on_out :: "(ring \<Rightarrow> ring \<Rightarrow> dada_hdu \<Rightarrow> 'a hdu_op) \<Rightarrow> ring \<Rightarrow> ring \<Rightarrow> ring \<Rightarrow> dbevent \<Rightarrow> 'a event_op" where
  "on_out f ir hr dr d =
     (case f hr dr (ev_out d) of None \<Rightarrow> None | Some (x, hr, dr, h) \<Rightarrow> Some (x, ir, hr, dr, d\<lparr>ev_out := h\<rparr>))"

text \<open>The buffer grows to the size of the event; what was read lies at its start.\<close>

definition into_work_buffer :: "'f event_machine \<Rightarrow> nat \<Rightarrow> byte list \<Rightarrow> dbevent \<Rightarrow> dbevent" where
  "into_work_buffer M n x d =
     (let w = ev_work_buffer d @ map (junk_memory M) [length (ev_work_buffer d)..<n]
      in d\<lparr>ev_work_buffer := x @ drop (length x) w\<rparr>)"

text \<open>The bytes of event \<open>i\<close> go to a transfer of their own. False is an error that ends the connection.\<close>

definition write_event ::
    "'f event_machine \<Rightarrow> nat \<Rightarrow> nat \<Rightarrow> 'f event \<Rightarrow> ring \<Rightarrow> ring \<Rightarrow> ring \<Rightarrow> dbevent \<Rightarrow> bool event_op" where
  "write_event M i skipped e ir hr dr d =
     do {
       (b, ir, hr, dr, d) \<leftarrow> on_out (on_header ipcbuf_get_next_write) ir hr dr d;
       let header_size = ipcbuf_get_bufsz hr
       in if header_size < of_nat (length (ev_header d)) then Some (False, ir, hr, dr, d)
          else do {
            b \<leftarrow> b;
            let hr = put_bytes (b, 0) 0 (ev_header d) hr;
                hr = fold (\<lambda>(w, v). set_line (b, 0) w v) (header_lines M i skipped e) hr
            in do {
                 (_, ir, hr, dr, d) \<leftarrow> on_out (on_header (\<lambda>r p. ipcbuf_mark_filled r p header_size)) ir hr dr d;
                 (_, ir, hr, dr, d) \<leftarrow>
                   on_out (on_data (\<lambda>r c. ipcio_write r c (take (unat (end_byte e - start_byte e)) (ev_work_buffer d)))) ir hr dr d;
                 (rc, ir, hr, dr, d) \<leftarrow> on_out dada_hdu_unlock_write ir hr dr d;
                 if rc < 0 then Some (False, ir, hr, dr, d)
                 else do {
                   (rc, ir, hr, dr, d) \<leftarrow> on_out dada_hdu_lock_write ir hr dr d;
                   Some (rc \<ge> 0, ir, hr, dr, d)
                 }
               }
          }
     }"

text \<open>
  The bytes of an event are read into the buffer: 1, or 0 for an event that is missed, as its place cannot be
  reached, and -1 for a read that fails.
\<close>

definition fetch_event ::
    "'f event_machine \<Rightarrow> 'f event \<Rightarrow> ring \<Rightarrow> ring \<Rightarrow> ring \<Rightarrow> dbevent \<Rightarrow> int event_op" where
  "fetch_event M e ir hr dr d =
     do {
       (seeked, ir, hr, dr, d) \<leftarrow> on_in (\<lambda>r c. ipcio_seek r c (start_byte e) False) ir hr dr d;
       if seeked < 0 then Some (0, ir, hr, dr, d)
       else
         let to_read = end_byte e - start_byte e
         in do {
              ((rc, x), ir, hr, dr, d) \<leftarrow> on_in (\<lambda>r c. ipcio_read r c to_read) ir hr dr d;
              Some (if rc < 0 then - 1 else 1, ir, hr, dr, into_work_buffer M (unat to_read) x d)
            }
     }"

text \<open>
  The events one after the other: \<open>skipped\<close> counts those that were joined into a later one. An event whose
  start has gone by is missed. The writer goes on between the events, \<open>env i\<close> before event \<open>i\<close>.
\<close>

fun record_events ::
    "'f event_machine \<Rightarrow> (nat \<Rightarrow> ring \<Rightarrow> ring) \<Rightarrow> nat \<Rightarrow> nat \<Rightarrow> int \<Rightarrow> 'f event list \<Rightarrow> ring \<Rightarrow> ring \<Rightarrow> ring \<Rightarrow> dbevent
     \<Rightarrow> int event_op" where
  "record_events M env i skipped recorded [] ir hr dr d = Some (recorded, ir, hr, dr, d)"
| "record_events M env i skipped recorded (e # es) ir hr dr d =
     (let ir = env i ir
      in if start_byte e = 0 \<and> end_byte e = 0 then record_events M env (i + 1) (skipped + 1) recorded es ir hr dr d
         else if start_byte e < ipcio_tell ir (ev_in d)
         then record_events M env (i + 1) skipped recorded es ir hr dr d
         else do {
           (found, ir, hr, dr, d) \<leftarrow> fetch_event M e ir hr dr d;
           if found = 0 then record_events M env (i + 1) skipped recorded es ir hr dr d
           else if found < 0 then Some (- 1, ir, hr, dr, d)
           else do {
             (ok, ir, hr, dr, d) \<leftarrow> write_event M i skipped e ir hr dr d;
             if ok then record_events M env (i + 1) 0 (recorded + 1) es ir hr dr d
             else Some (- 1, ir, hr, dr, d)
           }
         })"

text \<open>A connection that cannot be accepted is \<open>None\<close>.\<close>

definition receive_events ::
    "'f event_machine \<Rightarrow> (nat \<Rightarrow> ring \<Rightarrow> ring) \<Rightarrow> string option \<Rightarrow> ring \<Rightarrow> ring \<Rightarrow> ring \<Rightarrow> dbevent \<Rightarrow> int event_op" where
  "receive_events M env conn ir hr dr d =
     (case conn of
        None \<Rightarrow> Some (- 1, ir, hr, dr, d)
      | Some s \<Rightarrow> do {
          es \<leftarrow> receive_list M d s;
          record_events M env 0 0 0 (amalgamate (sort_events es)) ir hr dr d
        })"

section \<open>Letting go of old data\<close>

text \<open>To the next boundary of a sub-block.\<close>

definition to_next_block :: "dbevent \<Rightarrow> ring \<Rightarrow> u64 option" where
  "to_next_block d r =
     (if ev_in_bufsz d = 0 then None
      else
        let remainder = ipcio_tell r (ev_in d) mod ev_in_bufsz d
        in Some (if remainder \<noteq> 0 then ev_in_bufsz d - remainder else ev_in_bufsz d))"

text \<open>
  Blocks that are older than the longest delay, at \<open>now\<close>, are read and dropped. The writer goes on between the
  rounds: \<open>env k\<close> before round \<open>k\<close>.
\<close>

partial_function (option) skip_old_blocks ::
    "(nat \<Rightarrow> ring \<Rightarrow> ring) \<Rightarrow> u64 \<Rightarrow> u64 \<Rightarrow> nat \<Rightarrow> ring \<Rightarrow> ring \<Rightarrow> ring \<Rightarrow> dbevent \<Rightarrow> int event_op" where
  "skip_old_blocks env max_delay_bytes now_byte_offset k ir hr dr d =
     (if ipcbuf_eod (buf (ev_in d)) then Some (int k, ir, hr, dr, d)
      else
        let ir = env k ir
        in if ipcio_tell ir (ev_in d) + max_delay_bytes < now_byte_offset
           then do {
             n \<leftarrow> to_next_block d ir;
             (seeked, ir, hr, dr, d) \<leftarrow> on_in (\<lambda>r c. ipcio_seek r c n True) ir hr dr d;
             if seeked < 0 then Some (- 1, ir, hr, dr, d)
             else skip_old_blocks env max_delay_bytes now_byte_offset (k + 1) ir hr dr d
           }
           else Some (int k, ir, hr, dr, d))"

declare skip_old_blocks.simps [simp del]

definition check_read_offset :: "(nat \<Rightarrow> ring \<Rightarrow> ring) \<Rightarrow> int \<Rightarrow> ring \<Rightarrow> ring \<Rightarrow> ring \<Rightarrow> dbevent \<Rightarrow> int event_op" where
  "check_read_offset env now ir hr dr d =
     (let max_delay_bytes = word_of_int (ev_maximum_delay d) * ev_bytes_per_second d;
          obs_offset = now - ev_utc_start d
      in if obs_offset \<le> 0 then Some (0, ir, hr, dr, d)
         else skip_old_blocks env max_delay_bytes (word_of_int obs_offset * ev_bytes_per_second d) 0 ir hr dr d)"

text \<open>
  While the ring is too full, which \<open>full\<close> says, its blocks are dropped as well. False is a seek that failed.
\<close>

partial_function (option) drop_while_full ::
    "(ring \<Rightarrow> ipcio \<Rightarrow> bool) \<Rightarrow> (nat \<Rightarrow> ring \<Rightarrow> ring) \<Rightarrow> nat \<Rightarrow> ring \<Rightarrow> ring \<Rightarrow> ring \<Rightarrow> dbevent \<Rightarrow> bool event_op" where
  "drop_while_full full env k ir hr dr d =
     (let ir = env k ir
      in if \<not> full ir (ev_in d) then Some (True, ir, hr, dr, d)
         else do {
           n \<leftarrow> to_next_block d ir;
           (seeked, ir, hr, dr, d) \<leftarrow> on_in (\<lambda>r c. ipcio_seek r c n True) ir hr dr d;
           if seeked < 0 then Some (False, ir, hr, dr, d) else drop_while_full full env (k + 1) ir hr dr d
         })"

declare drop_while_full.simps [simp del]

section \<open>The main loop\<close>

text \<open>
  The header of the observation: the numbers the program needs. False ends the program. A resolution
  that is missing is one byte.
\<close>

definition read_observation :: "'f event_machine \<Rightarrow> string \<Rightarrow> dbevent \<Rightarrow> bool \<times> dbevent" where
  "read_observation M h d =
     (let (rc, t) = ascii_header_get h ''UTC_START'' sscanf_s;
          t = (if rc < 0 then None else Some (str2utctime (junk_tm M) (case t of None \<Rightarrow> junk_line M | Some w \<Rightarrow> w)));
          (rb, b) = ascii_header_get h ''BYTES_PER_SECOND'' sscanf_lu;
          (rr, res) = ascii_header_get h ''RESOLUTION'' sscanf_lu
      in (t \<noteq> None \<and> t \<noteq> Some (- 1) \<and> 0 \<le> rb,
          d\<lparr>ev_utc_start := (case t of None \<Rightarrow> ev_utc_start d | Some t \<Rightarrow> t),
            ev_bytes_per_second := (case b of None \<Rightarrow> ev_bytes_per_second d | Some b \<Rightarrow> b),
            ev_resolution := (if rr < 0 then 1 else case res of None \<Rightarrow> ev_resolution d | Some n \<Rightarrow> n)\<rparr>))"

text \<open>
  What wakes the loop: a failure, a second without a connection, with the time then, or a connection with the
  text that comes over it. A request that fails ends the program.
\<close>

datatype wakeup = Select_failed | Timed_out int | Connected "string option"

definition dbevent_wakes ::
    "'f event_machine \<Rightarrow> (nat \<Rightarrow> ring \<Rightarrow> ring) \<Rightarrow> wakeup \<Rightarrow> ring \<Rightarrow> ring \<Rightarrow> ring \<Rightarrow> dbevent \<Rightarrow> bool event_op" where
  "dbevent_wakes M env what ir hr dr d =
     (case what of
        Select_failed \<Rightarrow> Some (False, ir, hr, dr, d)
      | Timed_out now \<Rightarrow> do {
          (_, ir, hr, dr, d) \<leftarrow> check_read_offset env now ir hr dr d;
          Some (True, ir, hr, dr, d)
        }
      | Connected conn \<Rightarrow> do {
          (n, ir, hr, dr, d) \<leftarrow> receive_events M env conn ir hr dr d;
          Some (n \<ge> 0, ir, hr, dr, d)
        })"

text \<open>\<open>select\<close> that fails leaves the loop at once; otherwise the ring is looked at before the loop ends.\<close>

partial_function (option) dbevent_loop ::
    "'f event_machine \<Rightarrow> (ring \<Rightarrow> ipcio \<Rightarrow> bool) \<Rightarrow> (nat \<Rightarrow> nat \<Rightarrow> ring \<Rightarrow> ring) \<Rightarrow> (nat \<Rightarrow> wakeup) \<Rightarrow> nat
     \<Rightarrow> ring \<Rightarrow> ring \<Rightarrow> ring \<Rightarrow> dbevent \<Rightarrow> unit event_op" where
  "dbevent_loop M full env what k ir hr dr d =
     do {
       (ok, ir, hr, dr, d) \<leftarrow> dbevent_wakes M (env (2 * k)) (what k) ir hr dr d;
       if what k = Select_failed then Some ((), ir, hr, dr, d)
       else do {
         (ok, ir, hr, dr, d) \<leftarrow> (if ok then drop_while_full full (env (2 * k + 1)) 0 ir hr dr d
                                else Some (False, ir, hr, dr, d));
         if \<not> ok \<or> ipcbuf_eod (buf (ev_in d)) then Some ((), ir, hr, dr, d)
         else dbevent_loop M full env what (k + 1) ir hr dr d
       }
     }"

declare dbevent_loop.simps [simp del]

text \<open>At the end everything that was written is read, so that the writer is not held up.\<close>

definition clear_the_rest :: "ring \<Rightarrow> ring \<Rightarrow> ring \<Rightarrow> dbevent \<Rightarrow> int event_op" where
  "clear_the_rest ir hr dr d =
     (if ipcbuf_eod (buf (ev_in d)) then Some (0, ir, hr, dr, d)
      else on_in (\<lambda>r c. ipcio_seek r c (ipcbuf_get_write_byte_xfer r (buf c)) False) ir hr dr d)"

end
