(* ===== verification/Stream_Position.thy ===== *)
theory Stream_Position
  imports Ipcio_Stream
begin

text \<open>
  The position of a reader in the stream: what \<open>ipcio_tell\<close> says, and where
  \<open>ipcio_seek\<close> leads.
\<close>

section \<open>The bytes of a transfer\<close>

text \<open>The bytes of the transfers before the one the reader is in, or before the next one.\<close>

definition bytes_before :: "stream \<Rightarrow> nat \<Rightarrow> byte list" where
  "bytes_before s i = concat (take (start_of (ends s) (k_of (the_ring s) i)) (sent s))"

text \<open>The entry of the table the reader is in is not taken for a later transfer yet.\<close>

definition start_is_known :: "stream \<Rightarrow> nat \<Rightarrow> bool" where
  "start_is_known s i \<longleftrightarrow> begun (the_ring s) (ends s) \<le> k_of (the_ring s) i + 8"

text \<open>Sub-blocks inside a transfer are full.\<close>

lemma full_blocks:
  assumes "\<forall>j. a \<le> j \<and> j < b \<longrightarrow> length (ss ! j) = n" and "a \<le> b" and "b \<le> length ss"
  shows "length (concat (take b ss)) = length (concat (take a ss)) + (b - a) * n"
  using assms(2,1,3)
proof (induction rule: dec_induct)
  case (step b)
  have "take (Suc b) ss = take b ss @ [ss ! b]" using step.prems(2) by (simp add: take_Suc_conv_app_nth)
  moreover have "length (ss ! b) = n" using step.hyps step.prems(1) by simp
  ultimately show ?case using step by (simp add: Suc_diff_le)
qed simp

lemma inside_transfer_full:
  assumes blocks: "blocks_inv r ss es c" and inv: "xfers_inv r es" and rd: "reader_inv r ss es c i p h g" and go: "going p"
    and j: "start_of es (k_of r i) \<le> j" "j < P_of r i"
  shows "length (ss ! j) = bz_of r"
proof -
  have k: "k_of r i \<le> length es" and P: "P_of r i \<le> length ss"
      and e: "k_of r i < length es \<longrightarrow> P_of r i \<le> es ! k_of r i"
    using rd go by (auto simp: reader_inv_def acks_ok_def data_ok_def)
  have ends: "ends_ok es (W_of r)" using inv by (simp add: xfers_inv_def)
  have "j \<notin> set es"
  proof (cases "k_of r i < length es")
    case True
    then show ?thesis using not_end_inside [OF ends True j(1)] e j(2) by simp
  next
    case False
    then have "k_of r i = length es" using k by simp
    then show ?thesis using not_end_running [OF ends] j(1) by simp
  qed
  moreover have "j < W_of r" using j(2) P blocks by (simp add: blocks_inv_def)
  ultimately show ?thesis using blocks by (simp add: blocks_inv_def)
qed

section \<open>Telling\<close>

lemma c_int64_small:
  assumes "unat w < 2 ^ 63"
  shows "c_int64 w = int (unat w)"
proof -
  have "int (unat w) < int (2 ^ 63)" using assms by (simp only: of_nat_less_iff)
  then have "uint w < 2 ^ 63" by simp
  moreover have "- (2 ^ 63) \<le> uint w" by (rule order_trans [of _ 0]) simp_all
  ultimately have "signed_take_bit 63 (uint w) = uint w" by (intro signed_take_bit_int_eq_self)
  then show ?thesis by (simp add: c_int64_def sint_uint)
qed

text \<open>What a reader in the middle of a transfer has taken.\<close>

lemma taken_in_transfer:
  assumes at: "reading_at s i c" and go: "going (reader s i)"
  shows "length (taken_bytes s i c) = length (bytes_before s i)
     + (P_of (the_ring s) i - start_of (ends s) (k_of (the_ring s) i)) * bz_of (the_ring s) + unat (bytes c)"
proof -
  have inv: "stream_inv s" and i: "i \<in> set (readers (the_ring s))"
    and st: "reader_idle s i c \<or> reader_busy s i c" using at by (auto simp: reading_at_def)
  note I = stream_invD [OF inv]
  note rd = I(5) [OF i]
  let ?P = "P_of (the_ring s) i" and ?S = "start_of (ends s) (k_of (the_ring s) i)"
  have g: "?P + of_bool (held s i) = length (got s i)" "got s i = take (length (got s i)) (sent s)" "?S \<le> ?P"
    using rd go by (auto simp: reader_inv_def data_ok_def)
  have len: "length (got s i) \<le> length (sent s)" using rd by (auto simp: reader_inv_def data_ok_def)
  have pre: "length (concat (take ?P (sent s))) = length (bytes_before s i) + (?P - ?S) * bz_of (the_ring s)"
    unfolding bytes_before_def
    by (rule full_blocks) (use inside_transfer_full [OF I(1,2) rd go] g len in auto)
  from st show ?thesis
  proof
    assume idle: "reader_idle s i c"
    then have "taken_bytes s i c = concat (take ?P (sent s))" using g by (simp add: taken_bytes_def reader_idle_def)
    with pre idle show ?thesis by (simp add: reader_idle_def)
  next
    assume busy: "reader_busy s i c"
    have n: "length (got s i) = Suc ?P" using g(1) busy by (simp add: reader_busy_def)
    then have "butlast (got s i) = take ?P (got s i)" by (simp add: butlast_conv_take)
    also have "\<dots> = take ?P (take (Suc ?P) (sent s))" using g(2) n by simp
    also have "\<dots> = take ?P (sent s)" by simp
    finally have "butlast (got s i) = take ?P (sent s)" .
    moreover have "unat (bytes c) \<le> length (last (got s i))"
      using busy by (simp add: reader_busy_def word_le_nat_alt)
    ultimately have "length (taken_bytes s i c) = length (concat (take ?P (sent s))) + unat (bytes c)"
      using busy by (simp add: taken_bytes_def reader_busy_def)
    with pre show ?thesis by simp
  qed
qed

text \<open>Between transfers it has taken all of those before.\<close>

lemma taken_between_transfers:
  assumes at: "reading_at s i c" and go: "\<not> going (reader s i)"
  shows "taken_bytes s i c = bytes_before s i \<and> bytes c = 0"
proof -
  have rd: "reader_inv (the_ring s) (sent s) (ends s) (recl s) i (reader s i) (held s i) (got s i)"
    using at stream_invD(5) by (auto simp: reading_at_def)
  then have "\<not> held s i" "length (got s i) = start_of (ends s) (k_of (the_ring s) i)"
      "got s i = take (length (got s i)) (sent s)"
    using go by (auto simp: reader_inv_def data_ok_def)
  then show ?thesis
    using at by (auto simp: reading_at_def reader_idle_def reader_busy_def taken_bytes_def bytes_before_def)
qed

lemma tell_of_reader:
  assumes "reading_at s i c" and "start_is_known s i"
    and "length (taken_bytes s i c) < length (bytes_before s i) + 2 ^ 63"
  shows "length (taken_bytes s i c) = length (bytes_before s i) + unat (ipcio_tell (the_ring s) c)"
proof -
  note at = assms(1)
  let ?r = "the_ring s"
  have inv: "stream_inv s" and i: "i \<in> set (readers ?r)" and buf: "buf c = reader s i" and md: "rdwrt c = CHR ''R''"
    using at by (auto simp: reading_at_def)
  note rd = stream_invD(5) [OF inv i]
  have id: "iread (buf c) = int i" "ipcbuf_is_reader (buf c)" using rd buf by (auto simp: reader_inv_def acks_ok_def)
  show ?thesis
  proof (cases "going (buf c)")
    case False
    then have "state (buf c) = RSTOP \<or> state (buf c) = READER" using id(2) by (auto simp: ipcbuf_is_reader_def)
    then have "ipcio_tell ?r c = bytes c \<or> ipcio_tell ?r c = 0"
      using md by (auto simp: ipcio_tell_def ipcbuf_tell_read_def ipcbuf_eod_def)
    with taken_between_transfers [OF at] False buf show ?thesis by auto
  next
    case True
    let ?P = "P_of ?r i" and ?S = "start_of (ends s) (k_of ?r i)" and ?B = "bz_of ?r"
    have go: "going (reader s i)" using True buf by simp
    note len = taken_in_transfer [OF at go]
    have small: "(?P - ?S) * ?B + unat (bytes c) < 2 ^ 63" using len assms(3) by simp
    have sp: "?S \<le> ?P" and x: "xfer (reader s i) = r_xfers (sync ?r) i mod 8"
        and k: "k_of ?r i + 1 \<le> begun ?r (ends s)"
      using rd go by (auto simp: reader_inv_def data_ok_def acks_ok_def)
    have slot: "cur_xfer (buf c) = k_of ?r i mod 8" using x buf by (simp add: unat_mod8)
    have s: "unat (s_buf (sync ?r) (cur_xfer (buf c))) = ?S" "s_byte (sync ?r) (cur_xfer (buf c)) = 0"
      using rd k assms(2) unfolding slot by (auto simp: reader_inv_def table_ok_def start_is_known_def)
    have "unat (ipcbuf_tell ?r (buf c) (r_bufs (sync ?r) i)) = (?P - ?S) * ?B"
    proof (cases "?P = ?S")
      case True
      then have "r_bufs (sync ?r) i \<le> s_buf (sync ?r) (cur_xfer (buf c))" using s by (simp add: word_le_nat_alt)
      then show ?thesis using True by (simp add: ipcbuf_tell_def Let_def)
    next
      case False
      then have lt: "s_buf (sync ?r) (cur_xfer (buf c)) < r_bufs (sync ?r) i" using s sp by (simp add: word_less_nat_alt)
      then have d: "unat (r_bufs (sync ?r) i - s_buf (sync ?r) (cur_xfer (buf c))) = ?P - ?S"
        using s(1) by (simp add: unat_diff word_less_nat_alt word_le_nat_alt)
      have "unat ((r_bufs (sync ?r) i - s_buf (sync ?r) (cur_xfer (buf c))) * bufsz (sync ?r)) = (?P - ?S) * ?B"
        using small d by (simp add: unat_word_ariths)
      then show ?thesis using lt s(2) by (simp add: ipcbuf_tell_def Let_def leD)
    qed
    moreover define w where "w = ipcbuf_tell ?r (buf c) (r_bufs (sync ?r) i)"
    ultimately have w: "unat w = (?P - ?S) * ?B" by simp
    have "ipcbuf_tell_read ?r (buf c) = c_int64 w"
      using True id(1) by (simp add: ipcbuf_tell_read_def ipcbuf_eod_def w_def)
    moreover have "c_int64 w = int (unat w)" by (rule c_int64_small) (use small w in simp)
    ultimately have "ipcio_tell ?r c = w + bytes c" using md by (simp add: ipcio_tell_def)
    then have "unat (ipcio_tell ?r c) = unat w + unat (bytes c)"
      using small w by (simp add: unat_word_ariths)
    with len w show ?thesis by simp
  qed
qed

text \<open>A reader that asks for its position is told the number of bytes it has taken out of the current
  transfer, in whatever sub-block it is, as long as the writer is not so many transfers ahead that
  the entry for this one is used again.\<close>

theorem tell_counts_bytes_taken:
  assumes "reading_at s i c" and "start_is_known s i"
    and "length (taken_bytes s i c) < length (bytes_before s i) + 2 ^ 63"
  shows "length (taken_bytes s i c) = length (bytes_before s i) + unat (ipcio_tell (the_ring s) c)"
  using tell_of_reader [OF assms] .

lemma small_known: "start_is_known small_waiting 0" "taken_bytes small_waiting 0 small_reading = []"
    "ipcio_tell small_filled small_reading = 0"
  by (simp add: start_is_known_def begun_def small_waiting_def stream_start_def)
    (simp_all add: taken_bytes_def small_reading_def IPCIO_INIT_def small_waiting_def stream_start_def ipcio_tell_def
      ipcbuf_tell_read_def locked_handle_def ipcbuf_eod_def)

lemma tell_counts_bytes_taken_witness:
  "length (taken_bytes small_waiting 0 small_reading)
     = length (bytes_before small_waiting 0) + unat (ipcio_tell (the_ring small_waiting) small_reading)"
  using tell_counts_bytes_taken [OF small_reading_at small_known(1)] by (simp add: small_known(2))

section \<open>Seeking\<close>

text \<open>Back inside the sub-block the reader holds.\<close>

lemma seek_back:
  assumes at: "reading_at s i c" and n: "n \<le> bytes c" "n \<noteq> 0" and c': "c' = c\<lparr>bytes := bytes c - n\<rparr>"
  shows "reading_at s i c' \<and> length (taken_bytes s i c') + unat n = length (taken_bytes s i c)
     \<and> prefix (taken_bytes s i c') (taken_bytes s i c)"
proof -
  have "bytes c \<noteq> 0" using n by auto
  then have busy: "reader_busy s i c" using at by (auto simp: reading_at_def reader_idle_def)
  have le: "unat (bytes c - n) = unat (bytes c) - unat n" "unat n \<le> unat (bytes c)" "bytes c - n \<le> bytes c"
    using n(1) by (simp_all add: unat_diff word_le_nat_alt)
  have size: "unat (bytes c) \<le> length (last (got s i))" and cb: "curbuf c \<noteq> None"
    using busy by (auto simp: reader_busy_def word_le_nat_alt)
  have "bytes c - n \<le> curbufsz c" using le(3) busy by (auto simp: reader_busy_def)
  then have "reader_busy s i c'" using busy by (simp add: reader_busy_def c')
  then have "reading_at s i c'" using at by (simp add: reading_at_def c')
  moreover obtain b where "curbuf c = Some b" using cb by auto
  then have "taken_bytes s i c' = concat (butlast (got s i)) @ take (unat (bytes c) - unat n) (last (got s i))"
      "taken_bytes s i c = concat (butlast (got s i)) @ take (unat (bytes c)) (last (got s i))"
    by (simp_all add: taken_bytes_def c' le(1))
  moreover have "prefix (take (unat (bytes c) - unat n) (last (got s i))) (take (unat (bytes c)) (last (got s i)))"
    by (metis take_is_prefix take_take min.absorb1 diff_le_self)
  ultimately show ?thesis using size le(2) by simp
qed

lemma seek_refines:
  assumes "ipcio_seek (the_ring s) c offset False = Some (rc, r', c')" and "0 \<le> rc"
    and "reading_at s i c" and "start_is_known s i"
    and "length (taken_bytes s i c) < length (bytes_before s i) + 2 ^ 63"
  shows "\<exists>s'. stream_step\<^sup>*\<^sup>* s s' \<and> the_ring s' = r' \<and> reading_at s' i c'
     \<and> (prefix (taken_bytes s i c) (taken_bytes s' i c') \<or> prefix (taken_bytes s' i c') (taken_bytes s i c))
     \<and> (length (taken_bytes s' i c') = length (bytes_before s i) + unat offset
        \<or> length (taken_bytes s' i c') < length (bytes_before s i) + unat offset \<and> ipcbuf_eod (buf c'))"
proof -
  note at = assms(3)
  define cur where "cur = ipcio_tell (the_ring s) c"
  have tell: "length (taken_bytes s i c) = length (bytes_before s i) + unat cur"
    unfolding cur_def by (rule tell_of_reader [OF assms(3-5)])
  consider "cur < offset" | "offset < cur" | "cur = offset" by (rule linorder_cases)
  then show ?thesis
  proof cases
    case 1
    then obtain rc' d where rd: "ipcio_read (the_ring s) c (offset - cur) = Some ((rc', d), r', c')" and "0 \<le> rc'"
      using assms(1,2) by (auto simp: ipcio_seek_def Let_def cur_def split: bind_splits if_splits)
    from ipcio_read_refines [OF at this] obtain s' where
      s': "stream_step\<^sup>*\<^sup>* s s'" "the_ring s' = r'" "reading_at s' i c'" "taken_bytes s' i c' = taken_bytes s i c @ d"
      "length d = unat (offset - cur) \<or> length d < unat (offset - cur) \<and> ipcbuf_eod (buf c')" by blast
    have "unat (offset - cur) = unat offset - unat cur" "unat cur < unat offset"
      using 1 by (simp_all add: unat_diff word_less_nat_alt word_le_nat_alt)
    then have "length (taken_bytes s' i c') = length (bytes_before s i) + unat offset
        \<or> length (taken_bytes s' i c') < length (bytes_before s i) + unat offset \<and> ipcbuf_eod (buf c')"
      using s'(4,5) tell by auto
    moreover have "prefix (taken_bytes s i c) (taken_bytes s' i c')" using s'(4) by simp
    ultimately show ?thesis using s'(1-3) by blast
  next
    case 2
    have "\<not> bytes c < cur - offset" and r': "r' = the_ring s" and c': "c' = c\<lparr>bytes := bytes c - (cur - offset)\<rparr>"
      using assms(1,2) 2 by (auto simp: ipcio_seek_def Let_def cur_def split: if_splits)
    then have n: "cur - offset \<le> bytes c" "cur - offset \<noteq> 0" using 2 by (auto simp: linorder_not_less)
    have "unat (cur - offset) = unat cur - unat offset" "unat offset < unat cur"
      using 2 by (simp_all add: unat_diff word_less_nat_alt word_le_nat_alt)
    with seek_back [OF at n c'] tell r' show ?thesis by (intro exI [of _ s]) auto
  next
    case 3
    then have "r' = the_ring s" "c' = c" using assms(1) by (auto simp: ipcio_seek_def Let_def cur_def)
    with at tell 3 show ?thesis by (intro exI [of _ s]) simp
  qed
qed

text \<open>C6. A seek that reports no error leads to the byte that was asked for, counted from the start
  of the transfer: forward over sub-blocks that are read and dropped, at most to the end of
  data, and back inside the sub-block the reader holds. It is a run of ring operations
  of this reader, so that the next read goes on from there.\<close>

theorem seek_leads_to_the_byte:
  assumes "ipcio_seek (the_ring s) c offset False = Some (rc, r', c')" and "0 \<le> rc"
    and "reading_at s i c" and "start_is_known s i"
    and "length (taken_bytes s i c) < length (bytes_before s i) + 2 ^ 63"
  shows "\<exists>s'. stream_step\<^sup>*\<^sup>* s s' \<and> the_ring s' = r' \<and> reading_at s' i c'
     \<and> (prefix (taken_bytes s i c) (taken_bytes s' i c') \<or> prefix (taken_bytes s' i c') (taken_bytes s i c))
     \<and> (length (taken_bytes s' i c') = length (bytes_before s i) + unat offset
        \<or> length (taken_bytes s' i c') < length (bytes_before s i) + unat offset \<and> ipcbuf_eod (buf c'))"
  using seek_refines [OF assms] .

lemma seek_leads_to_the_byte_witness:
  "\<exists>s' r' c'. ipcio_seek small_filled small_reading 5 False = Some (0, r', c') \<and> stream_step\<^sup>*\<^sup>* small_waiting s'
     \<and> the_ring s' = r' \<and> reading_at s' 0 c' \<and> ipcbuf_eod (buf c')"
proof -
  obtain r' c' where rd: "ipcio_read small_filled small_reading 5 = Some ((2, [7, 8]), r', c')" using small_read by blast
  have ring: "the_ring small_waiting = small_filled" by (simp add: small_waiting_def)
  have eod: "ipcbuf_eod (buf c')" and md: "rdwrt c' = CHR ''R''"
    using ipcio_read_refines [OF small_reading_at, of 5] rd ring by (auto simp: reading_at_def)
  then have "ipcio_tell r' c' = 0" by (simp add: ipcio_tell_def ipcbuf_tell_read_def)
  then have "ipcio_seek small_filled small_reading 5 False = Some (0, r', c')"
    using rd by (simp add: ipcio_seek_def small_known(3) c_int64_def)
  with seek_leads_to_the_byte [OF _ _ small_reading_at small_known(1), of 5 0 r' c'] eod ring show ?thesis
    by (auto simp: small_known(2))
qed

end
