(* ===== verification/Dbevent_Properties.thy ===== *)
theory Dbevent_Properties
  imports Dada_Dbevent Stream_Position
begin

text \<open>
  What the program that copies events makes of a request: which bytes the times stand for, what becomes
  of overlapping events, what a connection that closes early does, and which bytes are
  written to the second unit.
\<close>

section \<open>Joining events\<close>

definition bytes_of :: "'f event \<Rightarrow> nat set" where
  "bytes_of e = {unat (start_byte e)..<unat (end_byte e)}"

definition joined_away :: "'f event \<Rightarrow> bool" where
  "joined_away e \<longleftrightarrow> start_byte e = 0 \<and> end_byte e = 0"

lemma bytes_of_joined: "joined_away e \<Longrightarrow> bytes_of e = {}"
  by (simp add: joined_away_def bytes_of_def)

text \<open>One round of the loop, on two events that start one after the other.\<close>

lemma bytes_of_join:
  assumes "start_byte a \<le> start_byte b" and "start_byte b < end_byte a"
  shows "bytes_of (b\<lparr>start_byte := start_byte a, end_byte := max (end_byte a) (end_byte b)\<rparr>) = bytes_of a \<union> bytes_of b"
  using assms by (auto simp: bytes_of_def max_def word_le_nat_alt word_less_nat_alt)

text \<open>The joined event keeps what is asked of the events.\<close>

lemma join_keeps:
  assumes "sorted (map start_byte (a # b # es))" and "\<forall>e\<in>set (a # b # es). start_byte e \<le> end_byte e"
    and "c = b\<lparr>start_byte := start_byte a, end_byte := max (end_byte a) (end_byte b)\<rparr>"
  shows "sorted (map start_byte (c # es))" and "\<forall>e\<in>set (c # es). start_byte e \<le> end_byte e"
  using assms by (auto simp: le_max_iff_disj)

lemma amalgamate_starts:
  assumes "sorted (map start_byte es)" and "\<forall>e\<in>set es. start_byte e \<le> end_byte e"
    and "e \<in> set (amalgamate es)" and "\<not> joined_away e"
  shows "start_byte (hd es) \<le> start_byte e"
  using assms
proof (induction es arbitrary: e rule: amalgamate.induct)
  case (1 a b es)
  show ?case
  proof (cases "start_byte b < end_byte a")
    case True
    define c where "c = b\<lparr>start_byte := start_byte a, end_byte := max (end_byte a) (end_byte b)\<rparr>"
    have "e \<noteq> a\<lparr>start_byte := 0, end_byte := 0\<rparr>" using "1.prems"(4) by (auto simp: joined_away_def)
    then have "e \<in> set (amalgamate (c # es))" using "1.prems"(3) True by (simp add: c_def)
    with "1.IH"(1) [OF True, folded c_def] join_keeps [OF "1.prems"(1,2) c_def] "1.prems"(4)
    have "start_byte (hd (c # es)) \<le> start_byte e" by blast
    then show ?thesis by (simp add: c_def)
  next
    case False
    then show ?thesis using "1.IH"(2) [OF False] "1.prems" by (auto intro: order_trans)
  qed
qed auto

lemma amalgamate_joins:
  assumes "sorted (map start_byte es)" and "\<forall>e\<in>set es. start_byte e \<le> end_byte e"
  shows "(\<Union>e\<in>set (amalgamate es). bytes_of e) = (\<Union>e\<in>set es. bytes_of e)
     \<and> sorted_wrt (\<lambda>a b. end_byte a \<le> start_byte b) (filter (\<lambda>e. \<not> joined_away e) (amalgamate es))"
  using assms
proof (induction es rule: amalgamate.induct)
  case (1 a b es)
  have ab: "start_byte a \<le> start_byte b" using "1.prems"(1) by simp
  show ?case
  proof (cases "start_byte b < end_byte a")
    case True
    define c where "c = b\<lparr>start_byte := start_byte a, end_byte := max (end_byte a) (end_byte b)\<rparr>"
    have away: "joined_away (a\<lparr>start_byte := 0, end_byte := 0\<rparr>)" by (simp add: joined_away_def)
    have am: "amalgamate (a # b # es) = a\<lparr>start_byte := 0, end_byte := 0\<rparr> # amalgamate (c # es)"
      using True by (simp add: c_def)
    have c: "bytes_of c = bytes_of a \<union> bytes_of b" unfolding c_def by (rule bytes_of_join [OF ab True])
    from "1.IH"(1) [OF True, folded c_def, OF join_keeps [OF "1.prems" c_def]] show ?thesis
      unfolding am using away c by (auto simp: bytes_of_joined)
  next
    case False
    have prem: "sorted (map start_byte (b # es))" "\<forall>e\<in>set (b # es). start_byte e \<le> end_byte e" using "1.prems" by auto
    have "end_byte a \<le> start_byte e" if "e \<in> set (amalgamate (b # es))" "\<not> joined_away e" for e
      using amalgamate_starts [OF prem that] False by simp
    then show ?thesis using "1.IH"(2) [OF False prem] False by auto
  qed
qed auto

text \<open>C26. Whatever the order in which the events of a request come in, as long as none ends before it
  starts: the events left over after sorting and joining cover exactly the bytes of those that
  were asked for, and no two of them overlap, so that every byte is written once.\<close>

theorem joined_events_cover_the_same_bytes:
  assumes "\<forall>e\<in>set es. start_byte e \<le> end_byte e"
  shows "(\<Union>e\<in>set (amalgamate (sort_events es)). bytes_of e) = (\<Union>e\<in>set es. bytes_of e)
     \<and> sorted_wrt (\<lambda>a b. end_byte a \<le> start_byte b) (filter (\<lambda>e. \<not> joined_away e) (amalgamate (sort_events es)))"
  using amalgamate_joins [of "sort_events es"] assms by (simp add: sort_events_def)

definition an_event :: "u64 \<Rightarrow> u64 \<Rightarrow> unit event" where
  "an_event a b = \<lparr>start_byte = a, end_byte = b, snr = (), dm = (), width = (), beam = 1, event_arrival = 0,
     arrival_numer = 0, arrival_denom = 1\<rparr>"

lemma joined_events_cover_the_same_bytes_witness:
  "(\<Union>e\<in>set (amalgamate (sort_events [an_event 10 20, an_event 4 12])). bytes_of e) = bytes_of (an_event 10 20) \<union> bytes_of (an_event 4 12)"
  using joined_events_cover_the_same_bytes [of "[an_event 10 20, an_event 4 12]"] by (simp add: an_event_def)

section \<open>Rounding\<close>

lemma unat_round_down:
  "unat (if w mod (r :: u64) = 0 then w else if r < w then w - w mod r else r)
     = (if unat w mod unat r = 0 then unat w else if unat r < unat w then unat w - unat w mod unat r else unat r)"
proof -
  have "w mod r \<le> w" by (simp add: word_le_nat_alt unat_mod)
  then have "unat (w - w mod r) = unat w - unat w mod unat r" by (simp add: unat_diff word_le_nat_alt unat_mod)
  moreover have "w mod r = 0 \<longleftrightarrow> unat w mod unat r = 0" by (metis unat_0 unat_mod unsigned_eq_0_iff)
  ultimately show ?thesis by (simp add: word_less_nat_alt)
qed

lemma unat_round_up:
  assumes "unat w < 2 ^ 63" and "unat r < 2 ^ 62" and "0 < unat r"
  shows "unat (if w mod (r :: u64) = 0 then w else w + (r - w mod r))
     = (if unat w mod unat r = 0 then unat w else unat w + (unat r - unat w mod unat r))"
proof -
  have lt: "unat w mod unat r < unat r" using assms(3) by simp
  then have "unat (r - w mod r) = unat r - unat w mod unat r"
    by (simp add: unat_diff word_le_nat_alt unat_mod)
  then have "unat (w + (r - w mod r)) = unat w + (unat r - unat w mod unat r)"
    using assms by (simp add: unat_word_ariths)
  moreover have "w mod r = 0 \<longleftrightarrow> unat w mod unat r = 0" by (metis unat_0 unat_mod unsigned_eq_0_iff)
  ultimately show ?thesis by simp
qed

text \<open>The bytes written for an event lie between multiples of the resolution and cover the
  event, with one exception: an event that starts inside the first unit of the
  resolution is written from its end on, so that its first bytes are lost.\<close>

theorem rounding_covers_the_event:
  assumes "0 \<le> a" and "a < 2 ^ 63" and "0 \<le> b" and "b < 2 ^ 63" and "0 < ev_resolution d" and "unat (ev_resolution d) < 2 ^ 62"
    and "round_start d a = Some i" and "round_end d b = Some j"
  shows "unat (ev_resolution d) dvd unat i \<and> unat (ev_resolution d) dvd unat j \<and> b \<le> int (unat j)
     \<and> (if 0 < a \<and> a < int (unat (ev_resolution d)) then a < int (unat i) else int (unat i) \<le> a)"
proof -
  define R where "R = unat (ev_resolution d)"
  have R: "0 < R" "R < 2 ^ 62" using assms(5,6) by (simp_all add: R_def word_less_nat_alt)
  define m n where "m = nat a" and "n = nat b"
  have mn: "a = int m" "b = int n" "m < 2 ^ 63" "n < 2 ^ 63" using assms(1-4) by (simp_all add: m_def n_def)
  have u: "unat (word_of_int (int k) :: u64) = k" if "k < 2 ^ 63" for k
    using that by (simp add: unat_of_nat)
  have r0: "ev_resolution d \<noteq> 0" using assms(5) by auto
  have i: "unat i = (if m mod R = 0 then m else if R < m then m - m mod R else R)"
    using assms(7) r0 unat_round_down [of "word_of_int (int m)" "ev_resolution d"]
    unfolding round_start_def mn Let_def u [OF mn(3)] R_def [symmetric] by auto
  have j: "unat j = (if n mod R = 0 then n else n + (R - n mod R))"
    using assms(8) r0 unat_round_up [of "word_of_int (int n)" "ev_resolution d"] mn(4) R
    unfolding round_end_def mn Let_def u [OF mn(4)] R_def [symmetric] by auto
  have "R dvd unat i" unfolding i by (auto simp: dvd_minus_mod)
  moreover have "R dvd unat j"
  proof -
    have "n + (R - n mod R) = n div R * R + R" if "n mod R \<noteq> 0"
      using div_mult_mod_eq [of n R] mod_less_divisor [OF R(1), of n] by linarith
    then show ?thesis unfolding j by auto
  qed
  moreover have "n \<le> unat j" unfolding j by simp
  moreover have "if 0 < m \<and> m < R then m < unat i else unat i \<le> m"
    unfolding i by (auto simp: not_less le_less)
  ultimately show ?thesis unfolding mn R_def [symmetric] by (auto simp del: of_nat_unat)
qed

lemma rounding_covers_the_event_witness:
  "\<forall>ic oh. let d = \<lparr>ev_in = ic, ev_out = oh, ev_utc_start = 1, ev_bytes_per_second = 100, ev_maximum_delay = 60,
     ev_header = [], ev_work_buffer = [], ev_in_bufsz = 8, ev_resolution = 16\<rparr>
   in round_start d 40 = Some 32 \<and> round_end d 50 = Some 64 \<and> (32 :: int) \<le> 40"
proof (intro allI)
  fix ic oh
  let ?d = "\<lparr>ev_in = ic, ev_out = oh, ev_utc_start = 1, ev_bytes_per_second = 100, ev_maximum_delay = 60,
     ev_header = [], ev_work_buffer = [], ev_in_bufsz = 8, ev_resolution = 16\<rparr>"
  have "round_start ?d 40 = Some 32" "round_end ?d 50 = Some 64"
    by (simp_all add: round_start_def round_end_def Let_def)
  with rounding_covers_the_event [of 40 50 ?d 32 64] show "let d = ?d in round_start d 40 = Some 32
      \<and> round_end d 50 = Some 64 \<and> (32 :: int) \<le> 40"
    by (simp add: Let_def)
qed

section \<open>Times\<close>

lemma digits_value_less: "\<forall>c\<in>set f. is_digit c \<Longrightarrow> digits_value m f < (m + 1) * 10 ^ length f"
proof (induction f arbitrary: m)
  case (Cons c f)
  then have "digit_value c < 10" by (auto simp: is_digit_def digit_value_def)
  then have "10 * m + digit_value c + 1 \<le> 10 * (m + 1)" by simp
  then have "(10 * m + digit_value c + 1) * 10 ^ length f \<le> 10 * (m + 1) * 10 ^ length f" by (rule mult_le_mono1)
  also have "\<dots> = (m + 1) * 10 ^ length (c # f)" by (simp only: length_Cons power_Suc ac_simps)
  finally show ?case using Cons.IH [of "10 * m + digit_value c"] Cons.prems by simp
qed simp

lemma digit_not_special: "is_digit c \<Longrightarrow> \<not> c_space c \<and> c \<noteq> CHR ''-'' \<and> c \<noteq> CHR ''+''"
  by (auto simp: is_digit_def c_space_def)

lemma sscanf_lu_digits:
  assumes "f \<noteq> []" and "\<forall>c\<in>set f. is_digit c" and "digits_value 0 f < 2 ^ 64"
  shows "sscanf_lu f = (1, Some (of_nat (digits_value 0 f)))"
proof -
  obtain c r where f: "f = c # r" using assms(1) by (cases f) auto
  have "dropWhile c_space f = f" "scan_sign f = (1, f)" and tw: "takeWhile is_digit f = f"
    using assms(2) digit_not_special [of c] by (auto simp: f scan_sign_def takeWhile_eq_all_conv)
  then show ?thesis using assms(1,3)
    by (simp add: sscanf_lu_def scan_unsigned_def Let_def tw del: takeWhile_eq_all_conv)
qed

lemma unat_of_small: "n < 2 ^ 64 \<Longrightarrow> unat (of_nat n :: u64) = n"
  by (simp add: unat_of_nat)

lemma unat_add_small: "unat (a :: u64) = x \<Longrightarrow> unat b = y \<Longrightarrow> x + y < 2 ^ 63 \<Longrightarrow> unat (a + b) = x + y"
  by (simp add: unat_word_ariths)

text \<open>The offset of a time is exact to the byte: whole seconds and the digits behind the point together,
  times the rate, rounded down once; for times behind the start of the observation, up to ten digits
  (as many as \<open>powf\<close> is exact for) and offsets that fit.\<close>

theorem offset_is_exact:
  assumes "ev_utc_start d \<noteq> 0" and "ev_utc_start d \<le> t" and "0 \<le> t" and "t < 253402300800"
    and "f \<noteq> []" and "\<forall>c\<in>set f. is_digit c" and "length f \<le> 10" and "power_of_ten M (length f) = 10 ^ length f"
    and "n = nat (t - ev_utc_start d)" and "B = unat (ev_bytes_per_second d)"
    and "(n + 1) * B < 2 ^ 63" and "digits_value 0 f * B < 2 ^ 64"
  shows "calculate_byte_offset M d (utc_of t) (Some f)
     = Some (int ((n * 10 ^ length f + digits_value 0 f) * B div 10 ^ length f))"
proof -
  define v p where "v = digits_value 0 f" and "p = (10 :: nat) ^ length f"
  have vp: "v < p" using digits_value_less [OF assms(6), of 0] by (simp add: v_def p_def)
  have p: "0 < p" "p \<le> 10 ^ 10" using power_increasing [OF assms(7), of "10 :: nat"] by (simp_all add: p_def)
  have scan: "snd (sscanf_lu f) = Some (of_nat v)"
    using sscanf_lu_digits [OF assms(5,6)] vp p by (simp add: v_def)
  have den: "unat (power_of_ten M (length f)) = p"
  proof -
    have "power_of_ten M (length f) = of_nat p" using assms(8) by (simp add: p_def)
    then show ?thesis using p by (simp add: unat_of_nat)
  qed
  have num: "unat (of_nat v * ev_bytes_per_second d :: u64) = v * B"
  proof -
    have "ev_bytes_per_second d = of_nat B" by (simp add: assms(10))
    then have "of_nat v * ev_bytes_per_second d = of_nat (v * B)" by simp
    then show ?thesis using unat_of_small assms(12) by (simp only: v_def)
  qed
  have secs: "unat (word_of_int (t - ev_utc_start d) * ev_bytes_per_second d :: u64) = n * B"
  proof -
    have "t - ev_utc_start d = int n" "ev_bytes_per_second d = of_nat B" using assms(2,9,10) by simp_all
    then have "word_of_int (t - ev_utc_start d) * ev_bytes_per_second d = (of_nat (n * B) :: u64)" by simp
    moreover have "n * B < 2 ^ 64" using assms(11) by simp
    ultimately show ?thesis using unat_of_small by (simp only:)
  qed
  define w where "w = word_of_int (t - ev_utc_start d) * ev_bytes_per_second d
      + of_nat v * ev_bytes_per_second d div power_of_ten M (length f)"
  have le: "v * B div p \<le> B"
  proof -
    have "v * B div p \<le> p * B div p" using vp by (intro div_le_mono mult_le_mono1) simp
    then show ?thesis using p by simp
  qed
  then have sum: "n * B + v * B div p < 2 ^ 63" using assms(11) by simp
  have "unat (of_nat v * ev_bytes_per_second d div power_of_ten M (length f)) = v * B div p"
    by (simp only: unat_div num den)
  from unat_add_small [OF secs this] sum have "unat w = n * B + v * B div p" unfolding w_def by simp
  moreover from this sum have "c_int64 w = int (unat w)" by (intro c_int64_small) simp
  moreover have "n * B + v * B div p = (n * p + v) * B div p"
  proof -
    have "(n * p + v) * B = v * B + p * (n * B)" by (simp add: algebra_simps)
    then show ?thesis using p by simp
  qed
  ultimately have w: "c_int64 w = int ((n * p + v) * B div p)" by simp
  have "power_of_ten M (length f) \<noteq> 0" using den p by auto
  then have "calculate_byte_offset M d (utc_of t) (Some f) = Some (c_int64 w)"
    using assms(1,2) str2utctime_utc_of [OF assms(3,4)] scan by (simp add: calculate_byte_offset_def w_def Let_def)
  with w show ?thesis by (simp add: p_def v_def)
qed

definition exact_machine :: "unit event_machine" where
  "exact_machine = \<lparr>power_of_ten = (\<lambda>k. 10 ^ k), scan_float = (\<lambda>_. Some ()), show_float = (\<lambda>_. ''1.000000''),
     junk_tm = \<lparr>tm_year = 0, tm_mon = 0, tm_mday = 0, tm_hour = 0, tm_min = 0, tm_sec = 0\<rparr>,
     junk_u64 = 0, junk_line = [], junk_events = (\<lambda>_. an_event 0 0), junk_memory = (\<lambda>_. 0)\<rparr>"

definition a_dbevent :: dbevent where
  "a_dbevent = \<lparr>ev_in = small_reading, ev_out = dada_hdu_create, ev_utc_start = 1223296200,
     ev_bytes_per_second = 64000000, ev_maximum_delay = 60, ev_header = [], ev_work_buffer = [],
     ev_in_bufsz = 3, ev_resolution = 1\<rparr>"

lemma offset_is_exact_witness:
  "calculate_byte_offset exact_machine a_dbevent (utc_of 1223296202) (Some ''25'') = Some 144000000"
proof -
  have v: "digits_value 0 ''25'' = 25" by (simp add: digit_value_def)
  have d: "ev_utc_start a_dbevent = 1223296200" "unat (ev_bytes_per_second a_dbevent) = 64000000"
    by (simp_all add: a_dbevent_def)
  have ds: "\<forall>c\<in>set ''25''. is_digit c" by (simp add: is_digit_def)
  have m: "power_of_ten exact_machine (length ''25'') = 10 ^ length ''25''" by (simp add: exact_machine_def)
  have "calculate_byte_offset exact_machine a_dbevent (utc_of 1223296202) (Some ''25'')
      = Some (int ((2 * 10 ^ length ''25'' + digits_value 0 ''25'') * 64000000 div 10 ^ length ''25''))"
    by (rule offset_is_exact [OF _ _ _ _ _ ds _ m]; (simp only: d v)?; simp)
  then show ?thesis by (simp only: v) simp
qed

section \<open>Lines\<close>

text \<open>A line that is read whole and gives an event.\<close>

definition good_line :: "'f event_machine \<Rightarrow> dbevent \<Rightarrow> string \<Rightarrow> bool" where
  "good_line M d l \<longleftrightarrow> (\<exists>w. l = w @ [nl] \<and> nl \<notin> set w \<and> length w < 1023) \<and> CHR ''#'' \<notin> set l \<and> CHR 0x0D \<notin> set l
     \<and> 10 \<le> length (line_behind l) \<and> (\<forall>e. \<exists>e'. parse_event M d l e = Some (True, e'))"

definition parsed :: "'f event_machine \<Rightarrow> dbevent \<Rightarrow> string \<Rightarrow> 'f event \<Rightarrow> 'f event" where
  "parsed M d l e = snd (the (parse_event M d l e))"

text \<open>A buffer with a time and nothing behind it.\<close>

definition lone_time :: "string \<Rightarrow> bool" where
  "lone_time b \<longleftrightarrow> 10 \<le> length b \<and> CHR ''#'' \<notin> set b \<and> CHR 0x0D \<notin> set b
     \<and> (\<exists>w rest. next_token sep_time b = (Some w, rest) \<and> fst (next_token sep_time rest) = None)"

lemma cut_at_id: "c \<notin> set s \<Longrightarrow> cut_at c s = s"
  by (simp add: cut_at_def takeWhile_eq_all_conv) blast

lemma next_line: "nl \<notin> set w \<Longrightarrow> length w < 1023 \<Longrightarrow> get_line b ((w @ [nl]) @ s) = (w @ [nl], s, False)"
proof -
  assume w: "nl \<notin> set w" "length w < 1023"
  then have "takeWhile (\<lambda>c. c \<noteq> nl) ((w @ [nl]) @ s) = w" by (simp add: takeWhile_append)
  then show ?thesis using w(2) by (simp add: get_line_def fgets_line_def Let_def)
qed

lemma no_line: "get_line b [] = (b, [], True)"
  by (simp add: get_line_def)

lemma lone_time_crashes: "lone_time b \<Longrightarrow> parse_event M d b e = None"
  by (auto simp: lone_time_def parse_event_def calculate_byte_offset_def Let_def split: prod.splits)

lemma line_behind_lone:
  assumes "good_line M d l"
  shows "lone_time (line_behind l)"
proof -
  let ?P = "\<lambda>c. c \<in> set sep_time"
  let ?t = "dropWhile ?P l"
  have sub: "set (line_behind l) \<subseteq> set l"
    unfolding line_behind_def using set_takeWhileD set_dropWhileD by fastforce
  have ne: "?t \<noteq> []"
  proof
    assume "?t = []"
    then have "next_token sep_time l = (None, [])" by (simp add: next_token_def Let_def)
    then have "parse_event M d l e = Some (False, e)" for e by (simp add: parse_event_def)
    then show False using assms by (simp add: good_line_def)
  qed
  have hd: "\<not> ?P (hd ?t)" using ne hd_dropWhile [of ?P l] by simp
  have tok: "takeWhile (\<lambda>c. \<not> ?P c) ?t \<noteq> []" using ne hd by (cases ?t) auto
  have dr: "dropWhile ?P (line_behind l) = takeWhile (\<lambda>c. \<not> ?P c) ?t"
  proof -
    have "dropWhile ?P (line_behind l) = dropWhile ?P (takeWhile (\<lambda>c. \<not> ?P c) ?t)"
      unfolding line_behind_def by (rule dropWhile_append2) (rule set_takeWhileD [THEN conjunct2])
    then show ?thesis using tok hd by (cases ?t) auto
  qed
  define w where "w = takeWhile (\<lambda>c. \<not> ?P c) ?t"
  have "\<forall>c\<in>set w. \<not> ?P c" unfolding w_def by (auto dest: set_takeWhileD)
  then have nil: "dropWhile (\<lambda>c. \<not> ?P c) w = []" by (simp add: dropWhile_eq_Nil_conv)
  have w: "dropWhile ?P (line_behind l) = w" "w \<noteq> []" unfolding w_def by (rule dr, rule tok)
  have "next_token sep_time (line_behind l) = (Some (takeWhile (\<lambda>c. \<not> ?P c) w), [])"
    unfolding next_token_def w(1) Let_def nil using w(2) by simp
  moreover have "next_token sep_time [] = (None, [])" by (simp add: next_token_def)
  ultimately show ?thesis using assms sub by (auto simp: lone_time_def good_line_def)
qed

lemma receive_good_lines:
  assumes "\<forall>l\<in>set ls. good_line M d l" and "lone_time b" and "i < length es" and "i + length ls \<le> length es"
  shows "receive_lines M d b (concat ls) False i es
     = (if i + length ls < length es then None else Some (take i es @ map2 (parsed M d) ls (drop i es)))"
  using assms
proof (induction ls arbitrary: b i es)
  case Nil
  then have "cut_at CHR 0x0D (cut_at CHR ''#'' b) = b" "b \<noteq> ''QUIT''" "\<not> length b < 10" "fst (next_token sep_time b) \<noteq> None"
    by (auto simp: lone_time_def cut_at_id)
  then show ?case using Nil
    by (subst receive_lines.simps) (simp add: no_line lone_time_crashes [OF Nil(2)])
next
  case (Cons l ls)
  have good: "good_line M d l" using Cons.prems(1) by simp
  then obtain w where w: "l = w @ [nl]" "nl \<notin> set w" "length w < 1023" by (auto simp: good_line_def)
  have cut: "cut_at CHR 0x0D (cut_at CHR ''#'' l) = l" using good by (simp add: good_line_def cut_at_id)
  obtain e where e: "parse_event M d l (es ! i) = Some (True, e)" using good by (auto simp: good_line_def)
  have "length (line_behind l) \<le> length l"
    unfolding line_behind_def by (metis length_append takeWhile_dropWhile_id add_left_mono length_takeWhile_le)
  then have len: "10 \<le> length l" "l \<noteq> ''QUIT''" using good by (auto simp: good_line_def)
  obtain t where tok: "fst (next_token sep_time l) = Some t"
    using e by (auto simp: parse_event_def Let_def split: prod.splits option.splits)
  have step: "receive_lines M d b (concat (l # ls)) False i es =
      (if i + 1 < length es then receive_lines M d (line_behind l) (concat ls) False (i + 1) (es[i := e])
       else Some (es[i := e]))"
    using cut len tok Cons.prems(3) e
    by (subst receive_lines.simps) (simp add: next_line [OF w(2,3), folded w(1)] Let_def)
  show ?case
  proof (cases "i + 1 < length es")
    case True
    have "take (i + 1) (es[i := e]) = take i es @ [e]"
      using Cons.prems(3) by (simp add: take_Suc_conv_app_nth)
    moreover have "drop i es = es ! i # drop (Suc i) es" using Cons.prems(3) by (simp add: Cons_nth_drop_Suc)
    ultimately show ?thesis
      using Cons.IH [of "line_behind l" "i + 1" "es[i := e]"] line_behind_lone [OF good] Cons.prems True e step
      by (simp add: parsed_def)
  next
    case False
    then have es: "length es = Suc i" using Cons.prems(3) by linarith
    then have ls: "ls = []" using Cons.prems(4) by simp
    from es have "es[i := e] = take i es @ [e]" "drop i es = [es ! i]"
      by (simp_all add: list_eq_iff_nth_eq nth_append nth_list_update less_Suc_eq)
    with ls es step False e show ?thesis by (simp add: parsed_def)
  qed
qed

text \<open>A request is read line by line: with as many good lines as it announces, every event is what its
  line says, in the order of the lines. A connection that closes after fewer lines
  crashes the program: the last line is still in the buffer, cut off behind its first time, and is
  parsed once more.\<close>

theorem requests_are_read_line_by_line:
  assumes "\<forall>l\<in>set ls. good_line M d l" and "length ls \<le> n" and "0 < n" and "n < 2 ^ 64"
    and "lone_time (u @ [nl])" and "nl \<notin> set u" and "length u < 1023"
  shows "receive_list M d (''N_EVENTS '' @ decimal n @ [nl] @ u @ [nl] @ concat ls)
     = (if length ls < n then None else Some (map2 (parsed M d) ls (map (junk_events M) [0..<n])))"
proof -
  let ?first = "''N_EVENTS '' @ decimal n"
  have "\<not> is_digit nl" by (simp add: nl_def is_digit_def)
  then have "nl \<notin> set (decimal n)" using decimal_chars [of n] by blast
  moreover have "nl \<notin> set ''N_EVENTS ''" by (simp add: nl_def)
  ultimately have nonl: "nl \<notin> set ?first" by (simp only: set_append Un_iff) simp
  have "length (decimal n) \<le> 20" using assms(4) by (intro decimal_length) simp_all
  then have len: "length ?first < 1023" by simp
  have "scan_n_events (?first @ [nl]) = Some (of_nat n)"
  proof -
    have d: "dropWhile c_space (''  '' @ decimal n @ [nl]) = decimal n @ [nl]"
      "scan_sign (decimal n @ [nl]) = (1, decimal n @ [nl])" "takeWhile is_digit (decimal n @ [nl]) = decimal n"
      "decimal n \<noteq> []"
      using scan_decimal [of "''  ''" "[nl]" n] by (simp_all add: c_space_def nl_def)
    have sp: "dropWhile c_space ('' '' @ s) = dropWhile c_space s" for s by (simp add: c_space_def)
    have "drop 8 (?first @ [nl]) = '' '' @ decimal n @ [nl]" "prefix ''N_EVENTS'' (?first @ [nl])" by simp_all
    moreover have "dropWhile c_space (decimal n @ [nl]) = decimal n @ [nl]" using d(1) sp by simp
    ultimately show ?thesis using assms(4)
      unfolding scan_n_events_def scan_unsigned_def Let_def
      by (simp only: sp d prod.case decimal_value if_True if_False) simp
  qed
  moreover have "get_line (junk_line M) ((?first @ [nl]) @ (u @ [nl]) @ concat ls) = (?first @ [nl], (u @ [nl]) @ concat ls, False)"
    by (rule next_line [OF nonl len])
  moreover note next_line [OF assms(6,7), of "?first @ [nl]" "concat ls"]
  ultimately have "receive_list M d ((?first @ [nl]) @ (u @ [nl]) @ concat ls)
      = receive_lines M d (u @ [nl]) (concat ls) False 0 (map (junk_events M) [0..<n])"
    using assms(4) unat_of_small [of n] by (simp add: receive_list_def Let_def)
  with receive_good_lines [OF assms(1,5), of 0 "map (junk_events M) [0..<n]"] assms(2,3) show ?thesis by simp
qed

definition a_line :: string where
  "a_line = ''2008-10-06-12:30:02.25 2008-10-06-12:30:03.50 2008-10-06-12:30:02.5 1 2 3 4'' @ [nl]"

lemma a_line_good: "good_line exact_machine a_dbevent a_line"
proof -
  define r0 where "r0 = ''25 2008-10-06-12:30:03.50 2008-10-06-12:30:02.5 1 2 3 4'' @ [nl]"
  define r1 where "r1 = ''2008-10-06-12:30:03.50 2008-10-06-12:30:02.5 1 2 3 4'' @ [nl]"
  define r2 where "r2 = ''50 2008-10-06-12:30:02.5 1 2 3 4'' @ [nl]"
  define r3 where "r3 = ''2008-10-06-12:30:02.5 1 2 3 4'' @ [nl]"
  define r4 where "r4 = ''5 1 2 3 4'' @ [nl]"
  define r5 where "r5 = ''1 2 3 4'' @ [nl]"
  define r6 where "r6 = ''2 3 4'' @ [nl]"
  define r7 where "r7 = ''3 4'' @ [nl]"
  define r8 where "r8 = ''4'' @ [nl]"
  note rs = r0_def r1_def r2_def r3_def r4_def r5_def r6_def r7_def r8_def
  have toks: "next_token sep_time a_line = (Some ''2008-10-06-12:30:02'', r0)"
    "next_token sep_time r0 = (Some ''25'', r1)"
    "next_token sep_time r1 = (Some ''2008-10-06-12:30:03'', r2)"
    "next_token sep_time r2 = (Some ''50'', r3)"
    "next_token sep_time r3 = (Some ''2008-10-06-12:30:02'', r4)"
    "next_token sep_time r4 = (Some ''5'', r5)"
    "next_token sep_float r5 = (Some ''1'', r6)"
    "next_token sep_float r6 = (Some ''2'', r7)"
    "next_token sep_float r7 = (Some ''3'', r8)"
    "next_token sep_float r8 = (Some (''4'' @ [nl]), [])"
    by (simp_all add: rs a_line_def next_token_def sep_time_def sep_float_def tab_def nl_def Let_def)
  have off: "\<exists>x. calculate_byte_offset exact_machine a_dbevent s (Some f) = Some x" if "length f \<le> 2" for s f
  proof -
    have "length f = 0 \<or> length f = 1 \<or> length f = 2" using that by linarith
    then have "(10 :: u64) ^ length f \<noteq> 0" by auto
    then show ?thesis by (simp add: calculate_byte_offset_def exact_machine_def Let_def)
  qed
  have rnd: "\<exists>b. round_start a_dbevent x = Some b" "\<exists>b. round_end a_dbevent x = Some b" for x
    by (simp_all add: round_start_def round_end_def a_dbevent_def Let_def)
  have nums: "\<exists>e'. parse_numbers exact_machine r5 e = Some e'" for e
    unfolding parse_numbers_def Let_def toks prod.case by (simp add: float_field_def exact_machine_def)
  have "\<exists>e'. parse_event exact_machine a_dbevent a_line e = Some (True, e')" for e
  proof -
    obtain x where x: "calculate_byte_offset exact_machine a_dbevent ''2008-10-06-12:30:02'' (Some ''25'') = Some x" using off by fastforce
    obtain y where y: "calculate_byte_offset exact_machine a_dbevent ''2008-10-06-12:30:03'' (Some ''50'') = Some y" using off by fastforce
    obtain b where b: "round_start a_dbevent x = Some b" using rnd by blast
    obtain c where c: "round_end a_dbevent y = Some c" using rnd by blast
    show ?thesis
      using nums by (simp add: parse_event_def toks x y b c parse_arrival_def Let_def split: bind_splits) 
  qed
  moreover have "a_line = butlast a_line @ [nl]" "nl \<notin> set (butlast a_line)" "length (butlast a_line) < 1023"
    "CHR ''#'' \<notin> set a_line" "CHR 0x0D \<notin> set a_line" "10 \<le> length (line_behind a_line)"
    by (simp_all add: a_line_def nl_def line_behind_def sep_time_def tab_def)
  ultimately show ?thesis unfolding good_line_def by blast
qed

lemma requests_are_read_line_by_line_witness:
  "receive_list exact_machine a_dbevent (''N_EVENTS '' @ decimal 2 @ [nl] @ ''2008-10-06-12:30:00'' @ [nl] @ concat [a_line]) = None"
proof -
  have "lone_time (''2008-10-06-12:30:00'' @ [nl])"
    by (simp add: lone_time_def next_token_def sep_time_def tab_def nl_def Let_def)
  moreover have "nl \<notin> set ''2008-10-06-12:30:00''" by (simp add: nl_def)
  ultimately show ?thesis
    using requests_are_read_line_by_line [of "[a_line]" exact_machine a_dbevent 2 "''2008-10-06-12:30:00''"] a_line_good
    by simp
qed

section \<open>The bytes of an event\<close>

lemma take_work_buffer:
  assumes "length x = n"
  shows "take n (ev_work_buffer (into_work_buffer M n x d)) = x"
  using assms by (simp add: into_work_buffer_def Let_def)

lemma into_work_buffer_in [simp]: "ev_in (into_work_buffer M n x d) = ev_in d"
  by (simp add: into_work_buffer_def Let_def)

text \<open>C25. What lies in the buffer when an event was fetched are the bytes of the stream between its start
  and its end, counted from the start of the transfer, and the program has gone on in the stream up to the
  end of the event; or the stream ended before the event did.\<close>

theorem event_is_fetched_from_the_stream:
  assumes "fetch_event M e (the_ring s) hr dr d = Some (1, ir', hr', dr', d')"
    and "reading_at s i (ev_in d)" and "start_is_known s i"
    and "length (taken_bytes s i (ev_in d)) < length (bytes_before s i) + 2 ^ 63"
    and "start_byte e \<le> end_byte e"
  shows "\<exists>s'. stream_step\<^sup>*\<^sup>* s s' \<and> the_ring s' = ir' \<and> reading_at s' i (ev_in d') \<and> hr' = hr \<and> dr' = dr
     \<and> (length (taken_bytes s' i (ev_in d')) = length (bytes_before s i) + unat (end_byte e)
          \<and> take (unat (end_byte e - start_byte e)) (ev_work_buffer d')
            = drop (length (bytes_before s i) + unat (start_byte e)) (taken_bytes s' i (ev_in d'))
        \<or> length (taken_bytes s' i (ev_in d')) < length (bytes_before s i) + unat (end_byte e) \<and> ipcbuf_eod (buf (ev_in d')))"
proof -
  let ?B = "length (bytes_before s i)"
  define n where "n = end_byte e - start_byte e"
  have n: "unat (start_byte e) + unat n = unat (end_byte e)"
    using assms(5) by (simp add: n_def unat_diff word_le_nat_alt)
  from assms(1) obtain seeked r1 c1 rc x c2 where
    sk: "ipcio_seek (the_ring s) (ev_in d) (start_byte e) False = Some (seeked, r1, c1)" "0 \<le> seeked" and
    rd: "ipcio_read r1 c1 n = Some ((rc, x), ir', c2)" "0 \<le> rc" and same: "hr' = hr" "dr' = dr" and
    d': "d' = into_work_buffer M (unat n) x (d\<lparr>ev_in := c2\<rparr>)"
    by (auto simp: fetch_event_def on_in_def Let_def n_def split: bind_splits option.splits prod.splits if_splits)
  from seek_refines [OF sk assms(2-4)] obtain s1 where
    s1: "stream_step\<^sup>*\<^sup>* s s1" "the_ring s1 = r1" "reading_at s1 i c1"
      "length (taken_bytes s1 i c1) = ?B + unat (start_byte e)
        \<or> length (taken_bytes s1 i c1) < ?B + unat (start_byte e) \<and> ipcbuf_eod (buf c1)" by blast
  from ipcio_read_refines [OF s1(3) rd(1) [folded s1(2)] rd(2)] obtain s2 where
    s2: "stream_step\<^sup>*\<^sup>* s1 s2" "the_ring s2 = ir'" "reading_at s2 i c2" "taken_bytes s2 i c2 = taken_bytes s1 i c1 @ x"
      "length x = unat n \<or> length x < unat n \<and> ipcbuf_eod (buf c2)" by blast
  have "length (taken_bytes s2 i c2) = ?B + unat (end_byte e)
          \<and> take (unat n) (ev_work_buffer d') = drop (?B + unat (start_byte e)) (taken_bytes s2 i c2)
        \<or> length (taken_bytes s2 i c2) < ?B + unat (end_byte e) \<and> ipcbuf_eod (buf c2)"
  proof (cases "length (taken_bytes s1 i c1) = ?B + unat (start_byte e) \<and> length x = unat n")
    case True
    then have "take (unat n) (ev_work_buffer d') = x" unfolding d' by (intro take_work_buffer) simp
    with True s2(4) n show ?thesis by simp
  next
    case False
    show ?thesis
    proof (cases "ipcbuf_eod (buf c1)")
      case eod: True
      then have "rdwrt c1 = CHR ''R''" using s1(3) by (simp add: reading_at_def)
      then have "x = [] \<and> c2 = c1"
        using rd(1) eod by (simp add: ipcio_read_def read_loop.simps [of n])
      then show ?thesis using s1(4) s2(4,5) n eod False by auto
    qed (use False s1(4) s2(4,5) n in auto)
  qed
  moreover have "stream_step\<^sup>*\<^sup>* s s2" using s1(1) s2(1) by simp
  ultimately show ?thesis using s2(2,3) same unfolding n_def by (auto simp: d')
qed

lemma event_is_fetched_from_the_stream_witness:
  "\<exists>s' r' d'. fetch_event exact_machine (an_event 0 5) small_filled small_ring small_ring a_dbevent = Some (1, r', small_ring, small_ring, d')
     \<and> stream_step\<^sup>*\<^sup>* small_waiting s' \<and> the_ring s' = r' \<and> reading_at s' 0 (ev_in d')
     \<and> length (taken_bytes s' 0 (ev_in d')) \<le> length (bytes_before small_waiting 0) + 5"
proof -
  obtain r' c' where rd: "ipcio_read small_filled small_reading 5 = Some ((2, [7, 8]), r', c')" using small_read by blast
  have ring: "the_ring small_waiting = small_filled" by (simp add: small_waiting_def)
  have "in": "ev_in a_dbevent = small_reading" by (simp add: a_dbevent_def)
  let ?d = "into_work_buffer exact_machine 5 [7, 8] (a_dbevent\<lparr>ev_in := c'\<rparr>)"
  have sk: "ipcio_seek small_filled small_reading 0 False = Some (0, small_filled, small_reading)"
    by (simp add: ipcio_seek_def small_known(3) c_int64_def)
  have run: "fetch_event exact_machine (an_event 0 5) small_filled small_ring small_ring a_dbevent
      = Some (1, r', small_ring, small_ring, ?d)"
    using rd sk "in" by (simp add: fetch_event_def on_in_def an_event_def)
  from event_is_fetched_from_the_stream [OF run [folded ring], of 0] small_reading_at small_known "in"
  obtain s' where "stream_step\<^sup>*\<^sup>* small_waiting s'" "the_ring s' = r'" "reading_at s' 0 (ev_in ?d)"
      "length (taken_bytes s' 0 (ev_in ?d)) \<le> length (bytes_before small_waiting 0) + 5"
    by (auto simp: an_event_def)
  with run show ?thesis by blast
qed

end
