(* ===== verification/Command_Server.thy ===== *)
theory Command_Server
  imports Command_Parse
begin

text \<open>
  The server that puts a command parser behind a port (\<^verbatim>\<open>src/command_parse_server.c\<close>): every
  connection is greeted, prompted, and served line by line. A connection is the text that comes in until the
  other side closes it; what goes out is text. Opening the port and starting a thread for each connection are
  left to the system.
\<close>

record command_parse_server =
  sv_welcome :: "string option"
  sv_prompt :: "string option"
  sv_ok :: "string option"
  sv_fail :: "string option"
  sv_port :: int

definition command_parse_server_create :: command_parse_server where
  "command_parse_server_create =
     \<lparr>sv_welcome = None, sv_prompt = Some ''> '', sv_ok = Some (''ok'' @ [nl]), sv_fail = Some (''fail'' @ [nl]), sv_port = 0\<rparr>"

definition command_parse_server_set_welcome :: "string option \<Rightarrow> command_parse_server \<Rightarrow> command_parse_server" where
  "command_parse_server_set_welcome w s = s\<lparr>sv_welcome := w\<rparr>"

definition command_parse_server_set_prompt :: "string option \<Rightarrow> command_parse_server \<Rightarrow> command_parse_server" where
  "command_parse_server_set_prompt p s = s\<lparr>sv_prompt := p\<rparr>"

section \<open>One line\<close>

definition printed :: "string option \<Rightarrow> string" where
  "printed m = (case m of None \<Rightarrow> [] | Some t \<Rightarrow> t)"

text \<open>
  The parser prints its answer, the server whether it went well. False ends the connection, \<open>None\<close> the process
  (a command that the parser crashes on).
\<close>

definition serve_line ::
    "command_parse_server \<Rightarrow> ('f, 'x, 's) client \<Rightarrow> ('f, 'x) parser \<Rightarrow> string \<Rightarrow> 's \<Rightarrow> (bool \<times> 's \<times> string) option" where
  "serve_line s run p line st =
     (case command_parse_output run p line (st, []) of
        None \<Rightarrow> None
      | Some (ret, st, txt) \<Rightarrow>
          Some (if ret = COMMAND_PARSE_EXIT then (False, st, txt)
                else (True, st, txt @ (if ret < 0 then printed (sv_fail s) else printed (sv_ok s)))))"

section \<open>A connection\<close>

text \<open>\<open>fgets\<close> into a buffer of \<open>n\<close> bytes.\<close>

definition fgets_upto :: "nat \<Rightarrow> string \<Rightarrow> string" where
  "fgets_upto n s =
     (let line = takeWhile (\<lambda>c. c \<noteq> nl) s
      in if length line < n - 1 \<and> length line < length s then line @ [nl] else take (n - 1) line)"

lemma fgets_upto_pos: "s \<noteq> [] \<Longrightarrow> 1 < n \<Longrightarrow> fgets_upto n s \<noteq> []"
  by (cases s) (auto simp: fgets_upto_def Let_def)

lemma fgets_upto_line: "nl \<notin> set w \<Longrightarrow> length w < n - 1 \<Longrightarrow> fgets_upto n (w @ nl # s) = w @ [nl]"
  by (simp add: fgets_upto_def Let_def takeWhile_append)

text \<open>A last line without its end is not served. \<open>quits\<close> says when the server has been asked to quit.\<close>

function serve_lines ::
    "command_parse_server \<Rightarrow> ('s \<Rightarrow> bool) \<Rightarrow> ('f, 'x, 's) client \<Rightarrow> ('f, 'x) parser \<Rightarrow> string \<Rightarrow> 's \<Rightarrow> ('s \<times> string) option" where
  "serve_lines s quits run p input st =
     (if quits st then Some (st, [])
      else
        let line = fgets_upto 4096 input; rest = drop (length line) input
        in if input = [] \<or> (rest = [] \<and> last line \<noteq> nl \<and> length line < 4095) then Some (st, printed (sv_prompt s))
           else case serve_line s run p line st of
                  None \<Rightarrow> None
                | Some (go_on, st, txt) \<Rightarrow>
                    if go_on
                    then map_option (\<lambda>(st, out). (st, printed (sv_prompt s) @ txt @ out)) (serve_lines s quits run p rest st)
                    else Some (st, printed (sv_prompt s) @ txt))"
  by pat_completeness auto
termination
proof (relation "measure (\<lambda>(s, quits, run, p, input, st). length input)", goal_cases)
  case (2 s quits run p input st line rest)
  then have "fgets_upto 4096 input \<noteq> []" by (intro fgets_upto_pos) simp_all
  with 2 show ?case by (cases input) (simp_all add: in_measure)
qed simp

declare serve_lines.simps [simp del]

definition command_parser ::
    "command_parse_server \<Rightarrow> ('s \<Rightarrow> bool) \<Rightarrow> ('f, 'x, 's) client \<Rightarrow> ('f, 'x) parser \<Rightarrow> string \<Rightarrow> 's \<Rightarrow> ('s \<times> string) option" where
  "command_parser s quits run p input st =
     map_option (\<lambda>(st, out). (st, (case sv_welcome s of None \<Rightarrow> [] | Some w \<Rightarrow> w @ [nl]) @ out))
       (serve_lines s quits run p input st)"

end
