(* ===== verification/Nexus.thy ===== *)
theory Nexus
  imports Ascii_Header Command_Server
begin

text \<open>
  The network of nodes that a controller talks to (\<^verbatim>\<open>src/nexus.c\<close>, \<^verbatim>\<open>src/nexus.h\<close>). A node is a host
  with a command server; its streams are the text that has been written to it and the text that comes from it
  until it closes the connection. A command goes out to every node before the first reply is read. A record
  that extends \<open>node\<close> is what the source calls a derived class. Memory and threads are taken to be available,
  and text holds no NUL.
\<close>

section \<open>A node\<close>

text \<open>\<open>o_error\<close>, \<open>i_error\<close>: \<open>ferror\<close> holds; \<open>o_broken\<close>: what is written next fails.\<close>

record out_stream =
  o_error :: bool
  o_broken :: bool
  o_text :: string

record in_stream =
  i_error :: bool
  i_text :: string

record node =
  host :: "string option"
  node_id :: int
  to_node :: "out_stream option"
  from_node :: "in_stream option"
  node_log :: "string option"

definition node_init :: node where
  "node_init = \<lparr>host = None, node_id = - 1, to_node = None, from_node = None, node_log = None\<rparr>"

definition node_create :: node where "node_create = node_init"

definition NEXUS_NODE_IO_ERROR :: int where "NEXUS_NODE_IO_ERROR = - 2"

definition NEXUS_DEFAULT_RECV_BUFSZ :: nat where "NEXUS_DEFAULT_RECV_BUFSZ = 1024"

text \<open>A write that fails leaves the error on the stream.\<close>

definition node_send :: "'a node_scheme \<Rightarrow> string \<Rightarrow> int \<times> 'a node_scheme" where
  "node_send n command =
     (case to_node n of
        None \<Rightarrow> (- 1, n)
      | Some out \<Rightarrow>
          if o_error out then (NEXUS_NODE_IO_ERROR, n)
          else if o_broken out then (- 1, n\<lparr>to_node := Some (out\<lparr>o_error := True\<rparr>)\<rparr>)
          else (0, n\<lparr>to_node := Some (out\<lparr>o_text := o_text out @ command @ [nl]\<rparr>)\<rparr>))"

text \<open>
  The lines of a reply, up to the prompt that starts the line after one: the lines before the last one, the
  last one, and what follows the prompt. The buffer has \<open>NEXUS_DEFAULT_RECV_BUFSZ\<close> bytes, at most \<open>room\<close> of
  them left, but every \<open>fgets\<close> is told of all of them. \<open>None\<close>: a line is written past the end of the buffer, or
  the connection is closed and the null pointer of \<open>fgets\<close> is searched for a carriage return.
\<close>

function recv_lines :: "nat \<Rightarrow> string \<Rightarrow> string \<Rightarrow> (string \<times> string \<times> string) option" where
  "recv_lines room earlier input =
     (if input = [] then None
      else
        let line = fgets_upto NEXUS_DEFAULT_RECV_BUFSZ input; rest = drop (length line) input
        in if room < length line + 1 then None
           else if rest \<noteq> [] \<and> hd rest = CHR ''>'' then Some (earlier, line, tl rest)
           else recv_lines (room - length line) (earlier @ line) rest)"
  by pat_completeness auto
termination
proof (relation "measure (\<lambda>(room, earlier, input). length input)", goal_cases)
  case (2 room earlier input line rest)
  then have "line \<noteq> []" unfolding 2(2) by (intro fgets_upto_pos) (simp_all add: NEXUS_DEFAULT_RECV_BUFSZ_def)
  with 2 show ?case by (cases input) (simp_all add: in_measure)
qed simp

declare recv_lines.simps [simp del]

text \<open>\<open>first_return\<close> puts a line end for the first carriage return; \<open>cut_at\<close> ends the text where \<open>w\<close> starts.\<close>

fun first_return :: "string \<Rightarrow> string" where
  "first_return [] = []"
| "first_return (c # s) = (if c = CHR 0x0D then nl # s else c # first_return s)"

definition cut_at :: "string \<Rightarrow> string \<Rightarrow> string" where
  "cut_at w s = (case strstr s w of None \<Rightarrow> s | Some k \<Rightarrow> take k s)"

definition cut_last_line_end :: "string \<Rightarrow> string" where
  "cut_last_line_end s = (if nl \<in> set s then rev (tl (dropWhile (\<lambda>c. c \<noteq> nl) (rev s))) else s)"

text \<open>The result, what is left in the buffer, and the node.\<close>

definition node_recv :: "'a node_scheme \<Rightarrow> string \<Rightarrow> (int \<times> string \<times> 'a node_scheme) option" where
  "node_recv n buffer =
     (case from_node n of
        None \<Rightarrow> Some (- 1, buffer, n)
      | Some inp \<Rightarrow>
          if i_error inp then Some (NEXUS_NODE_IO_ERROR, buffer, n)
          else
            map_option
              (\<lambda>(earlier, line, rest).
                 let line = first_return line; n = n\<lparr>from_node := Some (inp\<lparr>i_text := drop 1 rest\<rparr>)\<rparr>
                 in if strstr line (''fail'' @ [nl]) \<noteq> None then (- 1, earlier @ line, n)
                    else (0, cut_last_line_end (earlier @ cut_at (''ok'' @ [nl]) line), n))
              (recv_lines NEXUS_DEFAULT_RECV_BUFSZ [] (i_text inp)))"

section \<open>The network\<close>

text \<open>
  \<open>node_type\<close> is the node that \<open>node_create\<close> of the network makes, \<open>connecting\<close> the nodes that a thread has been
  started for. The mirror of a network is a network without a mirror, of plain nodes.
\<close>

record 'n network =
  nodes :: "'n list"
  node_prefix :: string
  use_baseport :: u32
  node_port :: int
  polling_interval :: u32
  recv_buffer :: string
  node_type :: 'n
  logfile_dir :: "string option"
  multilog_port :: int
  connecting :: "int list"

record 'n nexus = "'n network" +
  mirror :: "node network option"

definition nexus_create :: "node network" where
  "nexus_create =
     \<lparr>nodes = [], node_prefix = ''NODE'', use_baseport = 0, node_port = 0, polling_interval = 10,
      recv_buffer = [], node_type = node_create, logfile_dir = None, multilog_port = 0, connecting = []\<rparr>"

definition nexus_get_nnode :: "('n, 'b) network_scheme \<Rightarrow> nat" where
  "nexus_get_nnode n = length (nodes n)"

definition nexus_connect :: "('a node_scheme, 'b) network_scheme \<Rightarrow> nat \<Rightarrow> int \<times> ('a node_scheme, 'b) network_scheme" where
  "nexus_connect n inode =
     (if nexus_get_nnode n \<le> inode then (- 1, n)
      else (0, n\<lparr>connecting := connecting n @ [node_id (nodes n ! inode)]\<rparr>))"

text \<open>A network by itself, and then with its mirror.\<close>

definition add_node :: "('a node_scheme, 'b) network_scheme \<Rightarrow> int \<Rightarrow> string \<Rightarrow> int \<times> ('a node_scheme, 'b) network_scheme" where
  "add_node n i host_name =
     (if i \<in> node_id ` set (nodes n) then (- 1, n)
      else
        let nd = (node_type n)\<lparr>host := Some host_name, node_id := i, to_node := None, from_node := None, node_log := None\<rparr>
        in nexus_connect (n\<lparr>nodes := nodes n @ [nd]\<rparr>) (length (nodes n)))"

definition nexus_add :: "('a node_scheme, 'b) nexus_scheme \<Rightarrow> int \<Rightarrow> string \<Rightarrow> int \<times> ('a node_scheme, 'b) nexus_scheme" where
  "nexus_add n i host_name =
     (case add_node n i host_name of
        (rc, n) \<Rightarrow>
          if rc < 0 then (- 1, n)
          else case mirror n of
                 None \<Rightarrow> (0, n)
               | Some m \<Rightarrow> (case add_node m i host_name of (rc, m) \<Rightarrow> (rc, n\<lparr>mirror := Some m\<rparr>)))"

section \<open>Configuration\<close>

text \<open>An \<open>int\<close> scanned with \<open>%d\<close>, kept where there is none to scan.\<close>

definition header_int :: "string \<Rightarrow> string \<Rightarrow> int \<Rightarrow> int \<times> int" where
  "header_int h w old =
     (case ascii_header_get h w sscanf_ld of
        (rc, v) \<Rightarrow> (rc, case v of Some k \<Rightarrow> sint (word_of_int k :: u32) | None \<Rightarrow> old))"

text \<open>The names of the nodes: \<open>None\<close> is a host name that does not fit into its 64 bytes.\<close>

fun parse_nodes ::
    "string \<Rightarrow> nat list \<Rightarrow> ('a node_scheme, 'b) nexus_scheme \<Rightarrow> ('a node_scheme, 'b) nexus_scheme option" where
  "parse_nodes buffer [] n = Some n"
| "parse_nodes buffer (inode # rest) n =
     (case ascii_header_get buffer (node_prefix n @ ''_'' @ decimal inode) sscanf_s of
        (rc, v) \<Rightarrow>
          (case v of
             None \<Rightarrow> parse_nodes buffer rest n
           | Some host_name \<Rightarrow>
               if 64 \<le> length host_name then None
               else parse_nodes buffer rest (snd (nexus_add n (sint (word_of_nat inode :: u32)) host_name))))"

definition nexus_parse :: "('a node_scheme, 'b) nexus_scheme \<Rightarrow> string \<Rightarrow> (int \<times> ('a node_scheme, 'b) nexus_scheme) option" where
  "nexus_parse n buffer =
     (let base = header_int buffer ''USE_BASEPORT'' (sint (use_baseport n));
          n = n\<lparr>use_baseport := if fst base < 0 then 0 else word_of_int (snd base)\<rparr>;
          port = header_int buffer (node_prefix n @ ''_PORT'') (node_port n)
      in if fst port < 0 \<and> node_port n = 0 then Some (- 1, n)
         else
           let n = n\<lparr>node_port := snd port\<rparr>;
               poll = header_int buffer ''COM_POLL'' (sint (polling_interval n));
               n = n\<lparr>polling_interval := if fst poll < 0 then 10 else word_of_int (snd poll)\<rparr>;
               num = header_int buffer (''NUM_'' @ node_prefix n) 0
           in map_option (\<lambda>n. (0, n)) (parse_nodes buffer [0..<unat (word_of_int (snd num) :: u32)] n))"

text \<open>\<open>files\<close>: the files that can be read; \<open>parse\<close> is the parser of the network, or of the class derived from it.\<close>

definition nexus_configure ::
    "('n \<Rightarrow> string \<Rightarrow> (int \<times> 'n) option) \<Rightarrow> (string \<Rightarrow> string option) \<Rightarrow> 'n \<Rightarrow> string \<Rightarrow> (int \<times> 'n) option" where
  "nexus_configure parse files n filename =
     (case files filename of None \<Rightarrow> Some (- 1, n) | Some buffer \<Rightarrow> parse n buffer)"

section \<open>Connections\<close>

definition nexus_restart :: "('a node_scheme, 'b) network_scheme \<Rightarrow> nat \<Rightarrow> int \<times> ('a node_scheme, 'b) network_scheme" where
  "nexus_restart n inode =
     nexus_connect
       (n\<lparr>nodes := (nodes n)[inode := (nodes n ! inode)\<lparr>to_node := None, from_node := None, node_log := None\<rparr>]\<rparr>) inode"

text \<open>
  The thread that opens the connection of a node. Where to: the host of the last node of the number, and the port.
\<close>

definition node_address :: "('a node_scheme, 'b) network_scheme \<Rightarrow> int \<Rightarrow> (string \<times> int) option" where
  "node_address n i =
     (case filter (\<lambda>nd. node_id nd = i) (nodes n) of
        [] \<Rightarrow> None
      | nds \<Rightarrow> map_option (\<lambda>h. (h, if use_baseport n = 0 then node_port n else node_port n + i)) (host (last nds)))"

text \<open>
  How a thread goes on. The log of a node of a network that writes logs: its name is built in memory for a number of
  two digits.
\<close>

datatype 'a thread = Thread_done 'a | Thread_waits | Thread_crashed

definition log_name :: "('a node_scheme, 'b) network_scheme \<Rightarrow> string \<Rightarrow> int \<Rightarrow> string option thread" where
  "log_name n host_name i =
     (case logfile_dir n of
        None \<Rightarrow> Thread_done None
      | Some dir \<Rightarrow>
          if node_port n = 0 then Thread_done None
          else if use_baseport n = 0 then Thread_done (Some (dir @ ''/'' @ host_name @ ''.pwc.log''))
          else if 100 \<le> i then Thread_crashed
          else Thread_done (Some (dir @ ''/'' @ (if i < 10 then ''0'' else []) @ decimal (nat i) @ ''.pwc.log'')))"

text \<open>The first node of the number gets the streams, and \<open>init\<close> is called for it.\<close>

fun position_of :: "int \<Rightarrow> 'a node_scheme list \<Rightarrow> nat option" where
  "position_of i [] = None"
| "position_of i (nd # nds) = (if i = node_id nd then Some 0 else map_option Suc (position_of i nds))"

definition connected ::
    "(nat \<Rightarrow> ('a node_scheme, 'b) network_scheme \<Rightarrow> ('a node_scheme, 'b) network_scheme option) \<Rightarrow> int \<Rightarrow> out_stream \<Rightarrow> in_stream
     \<Rightarrow> string option \<Rightarrow> ('a node_scheme, 'b) network_scheme \<Rightarrow> ('a node_scheme, 'b) network_scheme option" where
  "connected init i out inp log n =
     (case position_of i (nodes n) of
        None \<Rightarrow> Some n
      | Some k \<Rightarrow>
          init k (n\<lparr>nodes := (nodes n)[k := (nodes n ! k)\<lparr>to_node := Some out, from_node := Some inp, node_log := log\<rparr>]\<rparr>))"

text \<open>
  A network with a mirror that writes logs has none of its own, and waits for the log of the mirror's node, which
  it looks up by position.
\<close>

definition mirror_log :: "('a node_scheme, 'b) nexus_scheme \<Rightarrow> string \<Rightarrow> int \<Rightarrow> string option thread" where
  "mirror_log n host_name i =
     (case mirror n of
        None \<Rightarrow> log_name n host_name i
      | Some m \<Rightarrow>
          if logfile_dir m = None then log_name n host_name i
          else if log_name n host_name i \<noteq> Thread_done None then Thread_crashed
          else if i < 0 \<or> length (nodes m) \<le> nat i then Thread_crashed
          else case node_log (nodes m ! nat i) of None \<Rightarrow> Thread_waits | log \<Rightarrow> Thread_done log)"

definition open_with_log ::
    "(('a node_scheme, 'b) network_scheme \<Rightarrow> string \<Rightarrow> int \<Rightarrow> string option thread)
     \<Rightarrow> (nat \<Rightarrow> ('a node_scheme, 'b) network_scheme \<Rightarrow> ('a node_scheme, 'b) network_scheme option) \<Rightarrow> int
     \<Rightarrow> out_stream \<Rightarrow> in_stream \<Rightarrow> ('a node_scheme, 'b) network_scheme \<Rightarrow> ('a node_scheme, 'b) network_scheme thread" where
  "open_with_log log_of init i out inp n =
     (case node_address n i of
        None \<Rightarrow> Thread_done n
      | Some (host_name, _) \<Rightarrow>
          (case log_of n host_name i of
             Thread_done log \<Rightarrow> (case connected init i out inp log n of None \<Rightarrow> Thread_crashed | Some n \<Rightarrow> Thread_done n)
           | Thread_waits \<Rightarrow> Thread_waits
           | Thread_crashed \<Rightarrow> Thread_crashed))"

text \<open>The thread for a network, and for a mirror.\<close>

definition node_open_thread ::
    "(nat \<Rightarrow> ('a node_scheme, 'b) nexus_scheme \<Rightarrow> ('a node_scheme, 'b) nexus_scheme option) \<Rightarrow> int \<Rightarrow> out_stream \<Rightarrow> in_stream
     \<Rightarrow> ('a node_scheme, 'b) nexus_scheme \<Rightarrow> ('a node_scheme, 'b) nexus_scheme thread" where
  "node_open_thread = open_with_log mirror_log"

definition mirror_open_thread :: "int \<Rightarrow> out_stream \<Rightarrow> in_stream \<Rightarrow> node network \<Rightarrow> node network thread" where
  "mirror_open_thread = open_with_log log_name (\<lambda>_. Some)"

section \<open>Commands\<close>

definition nexus_send_node ::
    "('a node_scheme, 'b) network_scheme \<Rightarrow> nat \<Rightarrow> string \<Rightarrow> int \<times> ('a node_scheme, 'b) network_scheme" where
  "nexus_send_node n inode command =
     (if length (nodes n) \<le> inode then (- 1, n)
      else
        case node_send (nodes n ! inode) command of
          (status, nd) \<Rightarrow>
            let n = n\<lparr>nodes := (nodes n)[inode := nd]\<rparr>
            in if status = NEXUS_NODE_IO_ERROR then (- 1, snd (nexus_restart n inode)) else (status, n))"

definition nexus_recv_node ::
    "('a node_scheme, 'b) network_scheme \<Rightarrow> nat \<Rightarrow> (int \<times> ('a node_scheme, 'b) network_scheme) option" where
  "nexus_recv_node n inode =
     (if length (nodes n) \<le> inode then Some (- 1, n)
      else
        map_option
          (\<lambda>(status, buffer, nd).
             let n = n\<lparr>nodes := (nodes n)[inode := nd], recv_buffer := buffer\<rparr>
             in if status = NEXUS_NODE_IO_ERROR then (- 1, snd (nexus_restart n inode)) else (status, n))
          (node_recv (nodes n ! inode) (recv_buffer n)))"

text \<open>All commands, then all replies.\<close>

fun send_each :: "string \<Rightarrow> nat list \<Rightarrow> ('a node_scheme, 'b) network_scheme \<Rightarrow> ('a node_scheme, 'b) network_scheme" where
  "send_each command [] n = n"
| "send_each command (inode # rest) n = send_each command rest (snd (nexus_send_node n inode command))"

fun recv_each :: "int \<Rightarrow> nat list \<Rightarrow> ('a node_scheme, 'b) network_scheme \<Rightarrow> (int \<times> ('a node_scheme, 'b) network_scheme) option" where
  "recv_each status [] n = Some (status, n)"
| "recv_each status (inode # rest) n =
     (case nexus_recv_node n inode of
        None \<Rightarrow> None
      | Some (rc, n) \<Rightarrow> recv_each (if rc < 0 then - 1 else status) rest n)"

definition nexus_send :: "('a node_scheme, 'b) network_scheme \<Rightarrow> string \<Rightarrow> (int \<times> ('a node_scheme, 'b) network_scheme) option" where
  "nexus_send n command =
     (let n = send_each command [0..<nexus_get_nnode n] n in recv_each 0 [0..<nexus_get_nnode n] n)"

end
