(* ===== verification/Pwc_Nexus.thy ===== *)
theory Pwc_Nexus
  imports Nexus Pwc
begin

text \<open>
  The controller of primary write clients (\<^verbatim>\<open>src/dada_pwc_nexus.c\<close>, \<^verbatim>\<open>src/dada_pwc_nexus_config.c\<close>,
  \<^verbatim>\<open>src/dada_pwc_nexus_header_parse.c\<close>): a network whose nodes are primary write clients, that is itself commanded
  like one. It keeps the state of every node, and its own from theirs; it makes a header for every node out of
  one file; and it passes the commands on. \<open>None\<close> is a crash or a write past the end of a buffer. The template of
  headers is left out: it is null in every program of the repository.
\<close>

section \<open>Nodes and the controller\<close>

record dada_pwc_node = node +
  node_header :: "string option"
  node_header_size :: u32
  node_state :: dada_pwc_state_t

definition dada_pwc_node_init :: dada_pwc_node where
  "dada_pwc_node_init =
     node.extend node_init \<lparr>node_header = None, node_header_size = 0, node_state = dada_pwc_pending\<rparr>"

definition dada_pwc_node_create :: dada_pwc_node where "dada_pwc_node_create = dada_pwc_node_init"

record dada_pwc_nexus_t = "dada_pwc_node nexus" +
  pwc :: dada_pwc_t
  pwcc_port :: int

definition DADA_DEFAULT_PWC_PORT :: int where "DADA_DEFAULT_PWC_PORT = 56026"
definition DADA_DEFAULT_PWC_LOG :: int where "DADA_DEFAULT_PWC_LOG = 56027"
definition DADA_DEFAULT_PWCC_LOGPORT :: int where "DADA_DEFAULT_PWCC_LOGPORT = 56028"
definition DADA_DEFAULT_PWCC_PORT :: int where "DADA_DEFAULT_PWCC_PORT = 56030"

section \<open>The state of the whole\<close>

text \<open>The loop over the nodes: how many have had each error, and the state found.\<close>

fun update_loop ::
    "nat \<Rightarrow> nat \<Rightarrow> nat \<Rightarrow> nat \<Rightarrow> dada_pwc_state_t \<Rightarrow> dada_pwc_state_t list \<Rightarrow> nat \<times> nat \<times> nat \<times> dada_pwc_state_t" where
  "update_loop inode nsoft nhard nfatal state [] = (nsoft, nhard, nfatal, state)"
| "update_loop inode nsoft nhard nfatal state (s # ss) =
     (if s = dada_pwc_soft_error then update_loop (inode + 1) (nsoft + 1) nhard nfatal state ss
      else if s = dada_pwc_hard_error then update_loop (inode + 1) nsoft (nhard + 1) nfatal state ss
      else if s = dada_pwc_fatal_error then update_loop (inode + 1) nsoft nhard (nfatal + 1) state ss
      else if inode = nsoft + nhard + nfatal then update_loop (inode + 1) nsoft nhard nfatal s ss
      else if state \<noteq> s then (nsoft, nhard, nfatal, dada_pwc_undefined)
      else update_loop (inode + 1) nsoft nhard nfatal state ss)"

definition state_of_nodes :: "dada_pwc_state_t list \<Rightarrow> dada_pwc_state_t" where
  "state_of_nodes ss =
     (case update_loop 0 0 0 0 dada_pwc_undefined ss of
        (nsoft, nhard, nfatal, state) \<Rightarrow>
          if nsoft + nhard + nfatal = length ss
          then (if 0 < nfatal then dada_pwc_fatal_error
                else if 0 < nhard then dada_pwc_hard_error
                else if 0 < nsoft then dada_pwc_soft_error else state)
          else state)"

definition dada_pwc_nexus_update_state :: "dada_pwc_nexus_t \<Rightarrow> dada_pwc_nexus_t" where
  "dada_pwc_nexus_update_state n = n\<lparr>pwc := (pwc n)\<lparr>pstate := state_of_nodes (map node_state (nodes n))\<rparr>\<rparr>"

section \<open>A new connection, and news from a node\<close>

text \<open>\<open>strtok\<close> with the characters of \<open>parse_whitespace\<close>.\<close>

definition first_token :: "string \<Rightarrow> string option" where
  "first_token s =
     (let t = takeWhile (\<lambda>c. c \<notin> set parse_whitespace) (dropWhile (\<lambda>c. c \<in> set parse_whitespace) s)
      in if t = [] then None else Some t)"

definition set_node :: "nat \<Rightarrow> dada_pwc_node \<Rightarrow> dada_pwc_nexus_t \<Rightarrow> dada_pwc_nexus_t" where
  "set_node k nd n = n\<lparr>nodes := (nodes n)[k := nd]\<rparr>"

text \<open>The welcome, then the state.\<close>

definition dada_pwc_nexus_node_init :: "nat \<Rightarrow> dada_pwc_nexus_t \<Rightarrow> dada_pwc_nexus_t option" where
  "dada_pwc_nexus_node_init k n =
     (let lost = (\<lambda>nd. set_node k (nd\<lparr>node_state := dada_pwc_undefined\<rparr>) n)
      in case node_recv (nodes n ! k) [] of
           None \<Rightarrow> None
         | Some (rc, buffer, nd) \<Rightarrow>
             if rc < 0 then Some (lost nd)
             else
               case node_send nd ''state'' of
                 (rc, nd) \<Rightarrow>
                   if rc < 0 then Some (lost nd)
                   else
                     (case node_recv nd buffer of
                        None \<Rightarrow> None
                      | Some (rc, buffer, nd) \<Rightarrow>
                          if rc < 0 then Some (lost nd)
                          else
                            map_option
                              (\<lambda>key. dada_pwc_nexus_update_state
                                 (set_node k (nd\<lparr>node_state := dada_pwc_string_to_state key\<rparr>) n))
                              (first_token buffer)))"

text \<open>
  A line of the log of a node. The state is scanned into 16 bytes; \<open>junk\<close> is what they hold when the line ends
  before a state.
\<close>

definition dada_pwc_nexus_handle_message :: "string \<Rightarrow> dada_pwc_nexus_t \<Rightarrow> nat \<Rightarrow> string \<Rightarrow> dada_pwc_nexus_t option" where
  "dada_pwc_nexus_handle_message junk n inode msg =
     (if length (nodes n) \<le> inode then None
      else
        case strstr msg ''STATE = '' of
          None \<Rightarrow> Some n
        | Some k \<Rightarrow>
            let key = (case scan_word (drop (k + 8) msg) of None \<Rightarrow> junk | Some w \<Rightarrow> w)
            in if 16 \<le> length key then None
               else Some (dada_pwc_nexus_update_state
                      (set_node inode ((nodes n ! inode)\<lparr>node_state := dada_pwc_string_to_state key\<rparr>) n)))"

section \<open>Configuration of the network\<close>

text \<open>\<open>dir_of\<close>: whether a path is a directory, and whether its owner may read, write and enter it.\<close>

definition parse_logging ::
    "(string \<Rightarrow> bool \<times> bool) \<Rightarrow> dada_pwc_nexus_t \<Rightarrow> node network \<Rightarrow> string \<Rightarrow> (int \<times> dada_pwc_nexus_t \<times> node network) option" where
  "parse_logging dir_of n m config =
     (case ascii_header_get config ''LOGFILE_DIR'' sscanf_s of
        (_, None) \<Rightarrow> Some (0, n, m\<lparr>logfile_dir := None\<rparr>)
      | (_, Some dir) \<Rightarrow>
          if 256 \<le> length dir then None
          else
            let (rc, port) = header_int config (node_prefix n @ ''_LOGPORT'') (node_port m);
                (rc', logport) = header_int config (node_prefix n @ ''C_LOGPORT'') (multilog_port m);
                m = m\<lparr>node_port := if rc < 0 then DADA_DEFAULT_PWC_LOG else port,
                      multilog_port := if rc' < 0 then DADA_DEFAULT_PWCC_LOGPORT else logport, logfile_dir := Some dir\<rparr>
            in if \<not> fst (dir_of dir) then Some (- 1, n, m\<lparr>logfile_dir := None\<rparr>)
               else if \<not> snd (dir_of dir) then Some (- 1, n\<lparr>logfile_dir := None\<rparr>, m)
               else Some (0, n, m))"

definition dada_pwc_nexus_parse ::
    "(string \<Rightarrow> bool \<times> bool) \<Rightarrow> dada_pwc_nexus_t \<Rightarrow> string \<Rightarrow> (int \<times> dada_pwc_nexus_t) option" where
  "dada_pwc_nexus_parse dir_of n config =
     (case mirror n of
        None \<Rightarrow> None
      | Some m \<Rightarrow>
          let size = header_number config ''HDR_SIZE'' 0 0;
              n = (if fst (ascii_header_get config ''HDR_SIZE'' sscanf_ld) < 0 then n
                   else n\<lparr>pwc := snd (dada_pwc_set_header_size (pwc n) size)\<rparr>);
              (rc, base) = header_int config ''USE_BASEPORT'' (sint (use_baseport m));
              m = m\<lparr>use_baseport := if rc < 0 then 0 else word_of_int base\<rparr>;
              (rc, port) = header_int config (node_prefix n @ ''C_PORT'') (pwcc_port n);
              n = n\<lparr>pwcc_port := if rc < 0 then DADA_DEFAULT_PWCC_PORT else port\<rparr>
          in case parse_logging dir_of n m config of
               None \<Rightarrow> None
             | Some (rc, n, m) \<Rightarrow>
                 let n = n\<lparr>mirror := Some m\<rparr> in if rc < 0 then Some (- 1, n) else nexus_parse n config)"

section \<open>Headers\<close>

text \<open>The file as \<open>fgets\<close> gives it to a buffer of \<open>n\<close> bytes.\<close>

function file_lines :: "nat \<Rightarrow> string \<Rightarrow> string list" where
  "file_lines n s =
     (if s = [] \<or> n \<le> 1 then []
      else let line = fgets_upto n s in line # file_lines n (drop (length line) s))"
  by pat_completeness auto
termination
proof (relation "measure (\<lambda>(n, s). length s)", goal_cases)
  case (2 n s line)
  then have "line \<noteq> []" unfolding 2(2) by (intro fgets_upto_pos) simp_all
  with 2 show ?case by (cases s) (simp_all add: in_measure)
qed simp

declare file_lines.simps [simp del]

text \<open>
  The name and the value on a line, up to a comment: both have 128 bytes, but the scan stores up to 128
  characters of a value and any number of a name.
\<close>

definition scan_parameter :: "string \<Rightarrow> (string \<times> string) option option" where
  "scan_parameter line =
     (let s = dropWhile c_space (takeWhile (\<lambda>c. c \<noteq> CHR ''#'') line);
          param_name = takeWhile (\<lambda>c. \<not> c_space c) s;
          param_value = take 128 (takeWhile (\<lambda>c. c \<noteq> nl) (dropWhile c_space (drop (length param_name) s)))
      in if param_name = [] then Some None
         else if 128 \<le> length param_name \<or> 128 \<le> length param_value then None
         else if param_value = [] then Some None
         else Some (Some (param_name, rev (dropWhile (\<lambda>c. c = CHR '' '') (rev param_value)))))"

text \<open>\<open>room\<close>: the bytes of the header.\<close>

fun specify_lines :: "bool \<Rightarrow> string \<Rightarrow> nat \<Rightarrow> string list \<Rightarrow> string \<Rightarrow> (int \<times> string) option" where
  "specify_lines keep flt room [] h = Some (0, h)"
| "specify_lines keep flt room (line # lines) h =
     (case scan_parameter line of
        None \<Rightarrow> None
      | Some None \<Rightarrow> specify_lines keep flt room lines h
      | Some (Some (param_name, param_value)) \<Rightarrow>
          let match = prefix flt param_name
          in if keep \<noteq> match then specify_lines keep flt room lines h
             else
               case ascii_header_set h (if match then drop (length flt) param_name else param_name) (Some param_value) of
                 (rc, h') \<Rightarrow>
                   if rc < 0 then Some (- 1, h') else if room \<le> length h' then None else specify_lines keep flt room lines h')"

definition dada_pwc_specify_header :: "bool \<Rightarrow> string \<Rightarrow> nat \<Rightarrow> string \<Rightarrow> string \<Rightarrow> (int \<times> string) option" where
  "dada_pwc_specify_header keep flt room h file = specify_lines keep flt room (file_lines 256 file) h"

fun parse_node_headers :: "string \<Rightarrow> nat list \<Rightarrow> dada_pwc_nexus_t \<Rightarrow> (int \<times> dada_pwc_nexus_t) option" where
  "parse_node_headers file [] n = Some (0, n)"
| "parse_node_headers file (inode # rest) n =
     (let nd = nodes n ! inode;
          nd = (if node_header_size nd < header_size (pwc n) then nd\<lparr>node_header_size := header_size (pwc n)\<rparr> else nd)
      in case header (pwc n) of
           None \<Rightarrow> None
         | Some h \<Rightarrow>
             (case dada_pwc_specify_header True (''Band'' @ decimal inode @ ''_'') (unat (node_header_size nd)) h file of
                None \<Rightarrow> None
              | Some (rc, h) \<Rightarrow>
                  let n = set_node inode (nd\<lparr>node_header := Some h\<rparr>) n
                  in if rc < 0 then Some (- 1, n) else parse_node_headers file rest n))"

definition dada_pwc_nexus_header_parse :: "dada_pwc_nexus_t \<Rightarrow> string \<Rightarrow> (int \<times> dada_pwc_nexus_t) option" where
  "dada_pwc_nexus_header_parse n file =
     (if header_size (pwc n) = 0 then None
      else
        case dada_pwc_specify_header False ''Band'' (unat (header_size (pwc n))) [] file of
          None \<Rightarrow> None
        | Some (rc, h) \<Rightarrow>
            let n = n\<lparr>pwc := (pwc n)\<lparr>header := Some h\<rparr>\<rparr>
            in if rc < 0 then Some (- 1, n) else parse_node_headers file [0..<nexus_get_nnode n] n)"

section \<open>Commands\<close>

definition dada_pwc_nexus_cmd_state :: "dada_pwc_nexus_t \<Rightarrow> string" where
  "dada_pwc_nexus_cmd_state n =
     ''overall: '' @ dada_pwc_state_to_string (pstate (pwc n)) @ [nl]
     @ concat (map (\<lambda>(i, nd). ''PWC_'' @ decimal i @ '': '' @ dada_pwc_state_to_string (node_state nd) @ [nl])
                 (zip [0..<nexus_get_nnode n] (nodes n)))"

text \<open>The line is built in 128 bytes.\<close>

definition dada_pwc_nexus_cmd_duration :: "dada_pwc_nexus_t \<Rightarrow> string option \<Rightarrow> (int \<times> dada_pwc_nexus_t) option" where
  "dada_pwc_nexus_cmd_duration n args =
     (case dada_pwc_cmd_duration (pwc n) args of
        None \<Rightarrow> None
      | Some (rc, p) \<Rightarrow>
          let n = n\<lparr>pwc := p\<rparr>
          in if rc < 0 then Some (- 1, n)
             else nexus_send n (take 127 (''duration '' @ (case args of None \<Rightarrow> [] | Some a \<Rightarrow> a))))"

text \<open>The header goes out as one line, its line ends replaced.\<close>

definition header_command :: "string \<Rightarrow> string" where
  "header_command h = map (\<lambda>c. if c = nl then CHR 0x5C else c) (''header '' @ h)"

fun send_headers :: "'d machine \<Rightarrow> nat list \<Rightarrow> dada_pwc_nexus_t \<Rightarrow> (int \<times> dada_pwc_nexus_t) option" where
  "send_headers m [] n = Some (0, n)"
| "send_headers m (inode # rest) n =
     (case node_header (nodes n ! inode) of
        None \<Rightarrow> None
      | Some h \<Rightarrow>
          if unat (header_size (pwc n)) \<le> length (header_command h) then None
          else
            let n = n\<lparr>pwc := (pwc n)\<lparr>header := Some (header_command h)\<rparr>\<rparr>
            in case nexus_send_node n inode (header_command h) of
                 (rc, n) \<Rightarrow>
                   if rc < 0 then Some (- 1, n)
                   else
                     send_headers m rest
                       (if inode = 0
                        then n\<lparr>pwc := snd (dada_pwc_parse_bytes_per_second m (pwc n) (header_command h))\<rparr> else n))"

text \<open>\<open>files\<close>: what can be opened for reading. The messages of a refusal are printed.\<close>

definition dada_pwc_nexus_cmd_config ::
    "'d machine \<Rightarrow> (string \<Rightarrow> string option) \<Rightarrow> dada_pwc_nexus_t \<Rightarrow> string option \<Rightarrow> (int \<times> dada_pwc_nexus_t \<times> string) option" where
  "dada_pwc_nexus_cmd_config m files n args =
     (if pstate (pwc n) \<noteq> dada_pwc_idle \<and> pstate (pwc n) \<noteq> dada_pwc_pending
      then Some (- 1, n, ''Cannot config when not IDLE or PENDING; state='' @ dada_pwc_state_to_string (pstate (pwc n)) @ [nl])
      else
        case args of
          None \<Rightarrow> Some (- 1, n, ''Please provide specification filename'' @ [nl])
        | Some a \<Rightarrow>
            let filename = fst (strsep a parse_whitespace)
            in if filename = [] then Some (- 1, n, ''Please specify config filename'' @ [nl])
               else
                 case files filename of
                   None \<Rightarrow> Some (- 1, n, ''Cannot open '' @ [CHR 0x27] @ filename @ [CHR 0x27, nl])
                 | Some file \<Rightarrow>
                     (case dada_pwc_nexus_header_parse n file of
                        None \<Rightarrow> None
                      | Some (rc, n) \<Rightarrow>
                          if rc \<noteq> 0 then Some (rc, n, [])
                          else
                            (case send_headers m [0..<nexus_get_nnode n] n of
                               None \<Rightarrow> None
                             | Some (rc, n) \<Rightarrow>
                                 if rc < 0 then Some (- 1, n, [])
                                 else
                                   map_option
                                     (\<lambda>(rc, n). (rc, if rc = 0 then n\<lparr>pwc := (pwc n)\<lparr>pstate := dada_pwc_prepared\<rparr>\<rparr> else n, []))
                                     (recv_each 0 [0..<nexus_get_nnode n] n))))"

text \<open>
  The commands of the controller: those of a primary write client, with three of them replaced. \<open>None\<close> as for a
  client, when the command waits for the queue.
\<close>

datatype nexus_fn = Pwc_fn pwc_fn | Nexus_config | Nexus_state | Nexus_duration

definition replace_command ::
    "string \<Rightarrow> nexus_fn \<Rightarrow> string \<Rightarrow> string \<Rightarrow> (nexus_fn, unit) parser \<Rightarrow> (nexus_fn, unit) parser" where
  "replace_command old f new h p =
     snd (command_parse_add (snd (command_parse_remove p old)) (Client f) (Some ()) (Some new) (Some h) None)"

definition nexus_parser :: "(nexus_fn, unit) parser" where
  "nexus_parser =
     replace_command ''duration'' Nexus_duration ''duration'' ''set the duration of next recording''
       (replace_command ''state'' Nexus_state ''state'' ''get the current state of all nodes''
          (replace_command ''header'' Nexus_config ''config'' ''configure all nodes''
             (fold (\<lambda>(f, n, h) p. snd (command_parse_add p (Client (Pwc_fn f)) (Some ()) (Some n) (Some h) None))
                pwc_commands command_parse_create)))"

fun nexus_call ::
    "'d machine \<Rightarrow> (string \<Rightarrow> string option) \<Rightarrow> nexus_fn \<Rightarrow> dada_pwc_nexus_t \<Rightarrow> string option
     \<Rightarrow> (int \<times> dada_pwc_nexus_t \<times> string) option" where
  "nexus_call m files Nexus_config n args = dada_pwc_nexus_cmd_config m files n args"
| "nexus_call m files Nexus_state n args = Some (0, n, dada_pwc_nexus_cmd_state n)"
| "nexus_call m files Nexus_duration n args = map_option (\<lambda>(rc, n). (rc, n, [])) (dada_pwc_nexus_cmd_duration n args)"
| "nexus_call m files (Pwc_fn f) n args =
     map_option (\<lambda>(rc, p). (rc, n\<lparr>pwc := p\<rparr>, if f = Cmd_state then dada_pwc_cmd_state (pwc n) else []))
       (pwc_call m f (pwc n) args)"

definition dada_pwc_nexus_create :: "u32 \<Rightarrow> dada_pwc_command_t \<Rightarrow> int \<Rightarrow> dada_pwc_nexus_t" where
  "dada_pwc_nexus_create page junk port =
     \<lparr>nodes = [], node_prefix = ''PWC'', use_baseport = 0, node_port = DADA_DEFAULT_PWC_PORT, polling_interval = 10,
      recv_buffer = [], node_type = dada_pwc_node_create, logfile_dir = None, multilog_port = 0, connecting = [],
      mirror = Some (nexus_create\<lparr>node_port := DADA_DEFAULT_PWC_LOG\<rparr>),
      pwc = dada_pwc_create page junk, pwcc_port = port\<rparr>"

section \<open>The commands that are passed on\<close>

definition command_line :: "string \<Rightarrow> int \<Rightarrow> string" where
  "command_line w t = w @ '' '' @ utc_of t"

definition pass_on :: "dada_pwc_nexus_t \<Rightarrow> dada_pwc_state_t \<Rightarrow> int \<Rightarrow> string \<Rightarrow> (int \<times> dada_pwc_nexus_t) option" where
  "pass_on n new_state now line =
     (case dada_pwc_set_state (pwc n) new_state now of
        (rc, p) \<Rightarrow> let n = n\<lparr>pwc := p\<rparr> in if rc < 0 then Some (- 1, n) else nexus_send n line)"

definition dada_pwc_nexus_send :: "dada_pwc_nexus_t \<Rightarrow> dada_pwc_command_t \<Rightarrow> int \<Rightarrow> (int \<times> dada_pwc_nexus_t) option" where
  "dada_pwc_nexus_send n c now =
     (case code c of
        dada_pwc_clock \<Rightarrow> pass_on n dada_pwc_clocking now ''clock''
      | dada_pwc_record_start \<Rightarrow> pass_on n dada_pwc_recording now (command_line ''rec_start'' (utc c))
      | dada_pwc_record_stop \<Rightarrow> pass_on n dada_pwc_clocking now (command_line ''rec_stop'' (utc c))
      | dada_pwc_start \<Rightarrow>
          pass_on n dada_pwc_recording now (if utc c = 0 then ''start'' else command_line ''start'' (utc c))
      | dada_pwc_stop \<Rightarrow>
          pass_on n dada_pwc_idle now (if utc c = 0 then ''stop'' else command_line ''stop'' (utc c))
      | dada_pwc_set_utc_start \<Rightarrow>
          if utc c = 0 then Some (- 1, n) else nexus_send n (command_line ''set_utc_start'' (utc c))
      | dada_pwc_reset \<Rightarrow> nexus_send n ''reset''
      | _ \<Rightarrow> Some (- 1, n))"

text \<open>One round of the loop of \<open>dada_pwc_nexus_serve\<close>; \<open>None\<close> also when there is no command yet.\<close>

definition dada_pwc_nexus_serve :: "dada_pwc_nexus_t \<Rightarrow> int \<Rightarrow> dada_pwc_nexus_t option" where
  "dada_pwc_nexus_serve n now =
     (case dada_pwc_command_get (pwc n) of
        None \<Rightarrow> None
      | Some (c, p) \<Rightarrow>
          let n = n\<lparr>pwc := p\<rparr>
          in if code c = dada_pwc_exit then Some (n\<lparr>pwc := (pwc n)\<lparr>quit := True\<rparr>\<rparr>)
             else map_option snd (dada_pwc_nexus_send n c now))"

end
