(* ===== verification/Nexus_Properties.thy ===== *)
theory Nexus_Properties
  imports Nexus
begin

text \<open>
  What is said over a connection between a network and its nodes: a reply of a command server is read as one
  reply, and a command given to the network reaches every node and succeeds when it does so on every one.
\<close>

section \<open>Replies\<close>

definition lines_text :: "string list \<Rightarrow> string" where
  "lines_text ws = concat (map (\<lambda>w. w @ [nl]) ws)"

lemma lines_text_simps [simp]:
  "lines_text [] = []" "lines_text (w # ws) = w @ nl # lines_text ws"
  "lines_text (vs @ ws) = lines_text vs @ lines_text ws"
  by (simp_all add: lines_text_def)

lemma lines_text_last: "ws \<noteq> [] \<Longrightarrow> lines_text ws = butlast (lines_text ws) @ [nl]"
  by (cases ws rule: rev_cases) (simp_all add: butlast_append)

text \<open>Lines that a reply can have: what is printed for them fits the buffer, and none but the first starts with
  the sign of the prompt.\<close>

definition reply_lines :: "string list \<Rightarrow> bool" where
  "reply_lines ws \<longleftrightarrow>
     (\<forall>w\<in>set ws. nl \<notin> set w \<and> CHR 0x0D \<notin> set w) \<and> (\<forall>w\<in>set (tl ws). take 1 w \<noteq> ''>'')
     \<and> length (lines_text ws) + 6 < NEXUS_DEFAULT_RECV_BUFSZ"

lemma recv_lines_block:
  assumes "ws \<noteq> []" and "\<forall>w\<in>set ws. nl \<notin> set w" and "\<forall>w\<in>set (tl ws). take 1 w \<noteq> ''>''"
    and "length (lines_text ws) < room" and "room \<le> NEXUS_DEFAULT_RECV_BUFSZ"
  shows "recv_lines room earlier (lines_text ws @ CHR ''>'' # rest)
       = Some (earlier @ lines_text (butlast ws), last ws @ [nl], rest)"
  using assms
proof (induction ws arbitrary: room earlier)
  case (Cons w ws)
  let ?in = "lines_text (w # ws) @ CHR ''>'' # rest"
  have "fgets_upto NEXUS_DEFAULT_RECV_BUFSZ (w @ nl # (lines_text ws @ CHR ''>'' # rest)) = w @ [nl]"
    using Cons.prems by (intro fgets_upto_line) simp_all
  then have line: "fgets_upto NEXUS_DEFAULT_RECV_BUFSZ ?in = w @ [nl]" by simp
  have step: "recv_lines room earlier ?in
      = (if ws = [] then Some (earlier, w @ [nl], rest)
         else recv_lines (room - length (w @ [nl])) (earlier @ w @ [nl]) (lines_text ws @ CHR ''>'' # rest))"
  proof (cases ws)
    case Nil
    then show ?thesis using Cons.prems(4) line by (subst recv_lines.simps) simp
  next
    case (Cons v vs)
    then have "hd (lines_text ws @ CHR ''>'' # rest) \<noteq> CHR ''>''"
      using Cons.prems(3) by (cases v) (simp_all add: nl_def)
    then show ?thesis using Cons Cons.prems(4) line by (subst recv_lines.simps) (simp del: append_assoc)
  qed
  show ?case
  proof (cases "ws = []")
    case False
    have "\<forall>v\<in>set (tl ws). take 1 v \<noteq> ''>''" using Cons.prems(3) False by (cases ws) simp_all
    then have "recv_lines (room - length (w @ [nl])) (earlier @ w @ [nl]) (lines_text ws @ CHR ''>'' # rest)
        = Some ((earlier @ w @ [nl]) @ lines_text (butlast ws), last ws @ [nl], rest)"
      using Cons.prems False by (intro Cons.IH) simp_all
    then show ?thesis using step False by simp
  qed (use step in simp)
qed simp

lemma first_return_id: "CHR 0x0D \<notin> set s \<Longrightarrow> first_return s = s"
  by (induction s) auto

lemma cut_last_line_end_lines: "cut_last_line_end (lines_text ws) = butlast (lines_text ws)"
proof (cases ws rule: rev_cases)
  case (snoc vs w)
  then show ?thesis by (simp add: cut_last_line_end_def butlast_append)
qed (simp add: cut_last_line_end_def)

text \<open>The reply of a command server: what the command printed, how it went, the prompt.\<close>

definition reply_of :: "int \<Rightarrow> string list \<Rightarrow> string" where
  "reply_of ret ws = lines_text (ws @ [if ret < 0 then ''fail'' else ''ok'']) @ ''> ''"

definition online :: "'a node_scheme \<Rightarrow> bool" where
  "online n \<longleftrightarrow>
     (case to_node n of None \<Rightarrow> False | Some out \<Rightarrow> \<not> o_error out \<and> \<not> o_broken out)
     \<and> (case from_node n of None \<Rightarrow> False | Some inp \<Rightarrow> \<not> i_error inp)"

definition incoming :: "'a node_scheme \<Rightarrow> string" where
  "incoming n = (case from_node n of None \<Rightarrow> [] | Some inp \<Rightarrow> i_text inp)"

definition said :: "'a node_scheme \<Rightarrow> string" where
  "said n = (case to_node n of None \<Rightarrow> [] | Some out \<Rightarrow> o_text out)"

definition with_incoming :: "string \<Rightarrow> 'a node_scheme \<Rightarrow> 'a node_scheme" where
  "with_incoming t n = n\<lparr>from_node := map_option (\<lambda>inp. inp\<lparr>i_text := t\<rparr>) (from_node n)\<rparr>"

definition told :: "string \<Rightarrow> 'a node_scheme \<Rightarrow> 'a node_scheme" where
  "told c n = n\<lparr>to_node := map_option (\<lambda>out. out\<lparr>o_text := o_text out @ c @ [nl]\<rparr>) (to_node n)\<rparr>"

lemma node_send_online: "online n \<Longrightarrow> node_send n c = (0, told c n)"
  by (auto simp: node_send_def online_def told_def split: option.splits)

lemma told_simps [simp]:
  "online (told c n) = online n" "incoming (told c n) = incoming n"
  "online (with_incoming t n) = online n" "said (with_incoming t n) = said n"
  "online n \<Longrightarrow> incoming (with_incoming t n) = t" "online n \<Longrightarrow> said (told c n) = said n @ c @ [nl]"
  by (auto simp: told_def with_incoming_def online_def incoming_def said_def split: option.splits)

lemma ok_and_fail:
  "strstr (''fail'' @ [nl]) (''fail'' @ [nl]) \<noteq> None" "strstr (''ok'' @ [nl]) (''fail'' @ [nl]) = None"
  "cut_at (''ok'' @ [nl]) (''ok'' @ [nl]) = []" "first_return (''ok'' @ [nl]) = ''ok'' @ [nl]"
  "first_return (''fail'' @ [nl]) = ''fail'' @ [nl]"
  by (simp_all add: cut_at_def nl_def)

text \<open>The status is that of the command, and the buffer gets what it printed, without the last line end.\<close>

lemma recv_reply:
  assumes on: "online n" and reply: "reply_lines ws" and arrives: "incoming n = reply_of ret ws @ rest"
  shows "node_recv n b =
     Some (if ret < 0 then (- 1, lines_text (ws @ [''fail'']), with_incoming rest n)
           else (0, butlast (lines_text ws), with_incoming rest n))"
proof -
  obtain inp where inp: "from_node n = Some inp" "\<not> i_error inp"
    using on by (auto simp: online_def split: option.splits)
  define status :: string where "status = (if ret < 0 then ''fail'' else ''ok'')"
  have i_text: "i_text inp = lines_text (ws @ [status]) @ CHR ''>'' # CHR '' '' # rest"
    using arrives inp by (simp add: incoming_def reply_of_def status_def)
  have "recv_lines NEXUS_DEFAULT_RECV_BUFSZ [] (lines_text (ws @ [status]) @ CHR ''>'' # CHR '' '' # rest)
      = Some ([] @ lines_text (butlast (ws @ [status])), last (ws @ [status]) @ [nl], CHR '' '' # rest)"
  proof (rule recv_lines_block)
    show "\<forall>w\<in>set (ws @ [status]). nl \<notin> set w" using reply by (auto simp: reply_lines_def status_def nl_def)
    show "\<forall>w\<in>set (tl (ws @ [status])). take 1 w \<noteq> ''>''"
      using reply by (cases ws) (auto simp: reply_lines_def status_def)
    show "length (lines_text (ws @ [status])) < NEXUS_DEFAULT_RECV_BUFSZ"
      using reply by (simp add: reply_lines_def status_def)
  qed simp_all
  then have "recv_lines NEXUS_DEFAULT_RECV_BUFSZ [] (i_text inp) = Some (lines_text ws, status @ [nl], CHR '' '' # rest)"
    by (simp add: i_text)
  then show ?thesis using inp ok_and_fail
    by (simp add: node_recv_def with_incoming_def status_def cut_last_line_end_lines Let_def del: append.simps)
qed

section \<open>All nodes\<close>

lemma send_each_online:
  assumes "\<forall>nd\<in>set (nodes n). online nd"
  shows "send_each c [k..<length (nodes n)] n = n\<lparr>nodes := take k (nodes n) @ map (told c) (drop k (nodes n))\<rparr>"
  using assms
proof (induction "length (nodes n) - k" arbitrary: k n)
  case (Suc d)
  then have k: "k < length (nodes n)" by simp
  let ?n = "n\<lparr>nodes := (nodes n)[k := told c (nodes n ! k)]\<rparr>"
  have one: "snd (nexus_send_node n k c) = ?n"
    using k Suc.prems by (simp add: nexus_send_node_def node_send_online NEXUS_NODE_IO_ERROR_def)
  have "\<forall>nd\<in>set (nodes ?n). online nd"
    using Suc.prems k by (auto dest!: set_update_subset_insert [THEN subsetD])
  then have "send_each c [Suc k..<length (nodes ?n)] ?n
      = ?n\<lparr>nodes := take (Suc k) (nodes ?n) @ map (told c) (drop (Suc k) (nodes ?n))\<rparr>"
    using Suc(2) k by (intro Suc(1)) simp_all
  moreover have "take (Suc k) (nodes ?n) = take k (nodes n) @ [told c (nodes n ! k)]"
    using k by (simp add: take_Suc_conv_app_nth take_update_cancel)
  ultimately show ?case using k one by (simp add: upt_conv_Cons Cons_nth_drop_Suc [symmetric])
qed simp

lemma atLeastLessThan_insert: "(k::nat) < n \<Longrightarrow> {k..<n} = insert k {Suc k..<n}"
  by auto

lemma recv_each_replies:
  assumes "\<forall>i\<in>{k..<length (nodes n)}. \<forall>b. node_recv (nodes n ! i) b = Some (rc i, bf i, nd i)"
    and "\<forall>i. rc i \<noteq> NEXUS_NODE_IO_ERROR"
  shows "\<exists>b. recv_each s [k..<length (nodes n)] n
       = Some (if \<exists>i\<in>{k..<length (nodes n)}. rc i < 0 then - 1 else s,
               n\<lparr>nodes := take k (nodes n) @ map nd [k..<length (nodes n)], recv_buffer := b\<rparr>)"
  using assms(1)
proof (induction "length (nodes n) - k" arbitrary: k n s)
  case 0
  then show ?case by (intro exI [of _ "recv_buffer n"]) simp
next
  case (Suc d)
  then have k: "k < length (nodes n)" by simp
  let ?s = "if rc k < 0 then - 1 else s"
  define m where "m = n\<lparr>nodes := (nodes n)[k := nd k], recv_buffer := bf k\<rparr>"
  have one: "nexus_recv_node n k = Some (rc k, m)"
    using k Suc.prems assms(2) by (simp add: nexus_recv_node_def m_def)
  have ln: "length (nodes m) = length (nodes n)" by (simp add: m_def)
  have "\<exists>b. recv_each ?s [Suc k..<length (nodes m)] m
      = Some (if \<exists>i\<in>{Suc k..<length (nodes m)}. rc i < 0 then - 1 else ?s,
              m\<lparr>nodes := take (Suc k) (nodes m) @ map nd [Suc k..<length (nodes m)], recv_buffer := b\<rparr>)"
  proof (rule Suc(1))
    show "\<forall>i\<in>{Suc k..<length (nodes m)}. \<forall>b. node_recv (nodes m ! i) b = Some (rc i, bf i, nd i)"
      using Suc.prems ln by (simp add: m_def)
  qed (use Suc(2) ln in simp)
  then obtain b where b: "recv_each ?s [Suc k..<length (nodes n)] m
      = Some (if \<exists>i\<in>{Suc k..<length (nodes n)}. rc i < 0 then - 1 else ?s,
              m\<lparr>nodes := take (Suc k) (nodes m) @ map nd [Suc k..<length (nodes n)], recv_buffer := b\<rparr>)"
    unfolding ln by blast
  have upt: "[k..<length (nodes n)] = k # [Suc k..<length (nodes n)]" using k by (simp add: upt_conv_Cons)
  have k': "k < length ((nodes n)[k := nd k])" using k by simp
  have "take (Suc k) ((nodes n)[k := nd k]) = take k (nodes n) @ [nd k]"
    unfolding take_Suc_conv_app_nth [OF k'] using k by simp
  then have "take (Suc k) (nodes m) = take k (nodes n) @ [nd k]" unfolding m_def by simp
  then have "m\<lparr>nodes := take (Suc k) (nodes m) @ map nd [Suc k..<length (nodes n)], recv_buffer := b\<rparr>
      = n\<lparr>nodes := take k (nodes n) @ map nd [k..<length (nodes n)], recv_buffer := b\<rparr>"
    unfolding upt m_def by simp
  moreover have "(\<exists>i\<in>{k..<length (nodes n)}. rc i < 0) \<longleftrightarrow> rc k < 0 \<or> (\<exists>i\<in>{Suc k..<length (nodes n)}. rc i < 0)"
    using atLeastLessThan_insert [OF k] by simp
  ultimately have "recv_each s [k..<length (nodes n)] n
     = Some (if \<exists>i\<in>{k..<length (nodes n)}. rc i < 0 then - 1 else s,
             n\<lparr>nodes := take k (nodes n) @ map nd [k..<length (nodes n)], recv_buffer := b\<rparr>)"
    unfolding upt using one b by auto
  then show ?case ..
qed


lemma nexus_send_replies:
  assumes "\<forall>i<length (nodes n). online (nodes n ! i) \<and> reply_lines (ws i)
      \<and> incoming (nodes n ! i) = reply_of (ret i) (ws i) @ rest i"
  shows "\<exists>b. nexus_send n c = Some (if \<exists>i<length (nodes n). ret i < 0 then - 1 else 0,
       n\<lparr>nodes := map (\<lambda>i. with_incoming (rest i) (told c (nodes n ! i))) [0..<length (nodes n)], recv_buffer := b\<rparr>)"
proof -
  define m where "m = n\<lparr>nodes := map (told c) (nodes n)\<rparr>"
  have ln: "length (nodes m) = length (nodes n)" by (simp add: m_def)
  have "\<forall>nd\<in>set (nodes n). online nd" using assms by (auto simp: in_set_conv_nth)
  from send_each_online [OF this, of c 0]
  have sent: "send_each c [0..<length (nodes n)] n = m" by (simp add: m_def)
  define rc :: "nat \<Rightarrow> int" where "rc i = (if ret i < 0 then - 1 else 0)" for i
  define bf where "bf i = (if ret i < 0 then lines_text (ws i @ [''fail'']) else butlast (lines_text (ws i)))" for i
  have replies: "\<forall>i\<in>{0..<length (nodes m)}. \<forall>b. node_recv (nodes m ! i) b
      = Some (rc i, bf i, with_incoming (rest i) (told c (nodes n ! i)))"
  proof (intro ballI allI)
    fix i b assume i: "i \<in> {0..<length (nodes m)}"
    have "online (nodes m ! i)" "reply_lines (ws i)" "incoming (nodes m ! i) = reply_of (ret i) (ws i) @ rest i"
      using assms i by (simp_all add: m_def)
    note recv_reply [OF this]
    then show "node_recv (nodes m ! i) b = Some (rc i, bf i, with_incoming (rest i) (told c (nodes n ! i)))"
      using i by (simp add: rc_def bf_def m_def)
  qed
  have "\<forall>i. rc i \<noteq> NEXUS_NODE_IO_ERROR" by (simp add: rc_def NEXUS_NODE_IO_ERROR_def)
  from recv_each_replies [OF replies this, of 0] obtain b where
    b: "recv_each 0 [0..<length (nodes n)] m
      = Some (if \<exists>i\<in>{0..<length (nodes n)}. rc i < 0 then - 1 else 0,
              m\<lparr>nodes := map (\<lambda>i. with_incoming (rest i) (told c (nodes n ! i))) [0..<length (nodes n)], recv_buffer := b\<rparr>)"
    unfolding ln by auto
  have "(\<exists>i\<in>{0..<length (nodes n)}. rc i < 0) \<longleftrightarrow> (\<exists>i<length (nodes n). ret i < 0)" by (auto simp: rc_def)
  with b have "nexus_send n c = Some (if \<exists>i<length (nodes n). ret i < 0 then - 1 else 0,
       n\<lparr>nodes := map (\<lambda>i. with_incoming (rest i) (told c (nodes n ! i))) [0..<length (nodes n)], recv_buffer := b\<rparr>)"
    by (simp add: nexus_send_def nexus_get_nnode_def sent ln Let_def m_def)
  then show ?thesis ..
qed

text \<open>C27. A command given to a network reaches every node, and comes back as a success exactly when no node failed:
  every node has been sent the command as one line, the reply of every node has been read to its end and no
  further, and nothing else of the network has changed but the buffer that replies are read into.\<close>

theorem command_asks_every_node:
  assumes "\<forall>i<length (nodes n). online (nodes n ! i) \<and> reply_lines (ws i)
      \<and> incoming (nodes n ! i) = reply_of (ret i) (ws i) @ rest i"
  shows "\<exists>b. nexus_send n c = Some (if \<exists>i<length (nodes n). ret i < 0 then - 1 else 0,
       n\<lparr>nodes := map (\<lambda>i. with_incoming (rest i) (told c (nodes n ! i))) [0..<length (nodes n)], recv_buffer := b\<rparr>)"
  using nexus_send_replies [OF assms] .

definition example_node :: "int \<Rightarrow> string \<Rightarrow> node" where
  "example_node i t =
     \<lparr>host = Some ''h'', node_id = i, to_node = Some \<lparr>o_error = False, o_broken = False, o_text = []\<rparr>,
      from_node = Some \<lparr>i_error = False, i_text = t\<rparr>, node_log = None\<rparr>"

definition example_network :: "node network" where
  "example_network =
     nexus_create\<lparr>nodes := [example_node 0 (reply_of 0 [''idle'']), example_node 1 (reply_of (- 1) [''no''])]\<rparr>"

lemma command_asks_every_node_witness:
  "\<exists>b. nexus_send example_network ''state'' = Some (- 1,
     example_network\<lparr>nodes := [told ''state'' (example_node 0 []), told ''state'' (example_node 1 [])], recv_buffer := b\<rparr>)"
proof -
  have "\<forall>i<length (nodes example_network). online (nodes example_network ! i)
      \<and> reply_lines (if i = 0 then [''idle''] else [''no''])
      \<and> incoming (nodes example_network ! i) = reply_of (if i = 0 then 0 else - 1) (if i = 0 then [''idle''] else [''no'']) @ []"
    by (auto simp: example_network_def example_node_def online_def incoming_def reply_lines_def less_Suc_eq
        NEXUS_DEFAULT_RECV_BUFSZ_def nl_def)
  from command_asks_every_node [OF this, of "''state''"] show ?thesis
    by (auto simp: example_network_def example_node_def with_incoming_def told_def upt_conv_Cons less_Suc_eq)
qed

section \<open>The server behind the node\<close>

lemma serve_line_replies:
  assumes "command_parse_output run p line (st, []) = Some (ret, st', lines_text ws)" and "ret \<noteq> COMMAND_PARSE_EXIT"
  obtains out where "serve_line command_parse_server_create run p line st = Some (True, st', out)"
    and "out @ printed (sv_prompt command_parse_server_create) = reply_of ret ws"
  using that [of "lines_text ws @ (if ret < 0 then ''fail'' @ [nl] else ''ok'' @ [nl])"] assms
  by (simp add: serve_line_def command_parse_server_create_def printed_def reply_of_def)

text \<open>C28. What a command server answers to a line, a node reads as one reply: the status it finds is that of
  the command, the buffer holds what the command printed, and the next reply is what it reads next.\<close>

theorem reply_read_back:
  assumes "command_parse_output run p line (st, []) = Some (ret, st', lines_text ws)"
    and "ret \<noteq> COMMAND_PARSE_EXIT" and "reply_lines ws"
  shows "\<exists>out. serve_line command_parse_server_create run p line st = Some (True, st', out)
     \<and> (\<forall>(nd :: 'a node_scheme) b rest.
          online nd \<longrightarrow> incoming nd = out @ printed (sv_prompt command_parse_server_create) @ rest \<longrightarrow>
          node_recv nd b =
            Some (if ret < 0 then (- 1, lines_text (ws @ [''fail'']), with_incoming rest nd)
                  else (0, butlast (lines_text ws), with_incoming rest nd)))"
proof -
  obtain out where out: "serve_line command_parse_server_create run p line st = Some (True, st', out)"
      "out @ printed (sv_prompt command_parse_server_create) = reply_of ret ws"
    using serve_line_replies [OF assms(1,2)] .
  from out(2) have "out @ printed (sv_prompt command_parse_server_create) @ rest = reply_of ret ws @ rest" for rest
    by (metis append_assoc)
  then have "\<forall>(nd :: 'a node_scheme) b rest.
      online nd \<longrightarrow> incoming nd = out @ printed (sv_prompt command_parse_server_create) @ rest \<longrightarrow>
      node_recv nd b = Some (if ret < 0 then (- 1, lines_text (ws @ [''fail'']), with_incoming rest nd)
                             else (0, butlast (lines_text ws), with_incoming rest nd))"
    by (intro allI impI recv_reply [OF _ assms(3)]) (simp_all only:)
  with out(1) show ?thesis by blast
qed

lemma strstr_suffix: "strstr (a @ b) w = None \<Longrightarrow> strstr b w = None"
  by (induction a) (auto split: if_splits)

lemma recv_lines_without_prompt:
  "strstr input [nl, CHR ''>''] = None \<Longrightarrow> length input < NEXUS_DEFAULT_RECV_BUFSZ - 1 \<Longrightarrow> recv_lines room earlier input = None"
proof (induction room earlier input rule: recv_lines.induct)
  case (1 room earlier input)
  define w where "w = takeWhile (\<lambda>c. c \<noteq> nl) input"
  have short: "length w < NEXUS_DEFAULT_RECV_BUFSZ - 1"
    using 1(3) length_takeWhile_le [of "\<lambda>c. c \<noteq> nl" input] by (simp add: w_def)
  show ?case
  proof (cases "length w < length input")
    case False
    then have "w = input" unfolding w_def by (metis length_takeWhile_le le_neq_implies_less takeWhile_eq_take take_all order_refl)
    then have "fgets_upto NEXUS_DEFAULT_RECV_BUFSZ input = input"
      using short unfolding fgets_upto_def Let_def w_def [symmetric] by simp
    moreover have "recv_lines r e [] = None" for r e by (subst recv_lines.simps) simp
    ultimately show ?thesis by (subst recv_lines.simps) simp
  next
    case True
    have split: "input = w @ dropWhile (\<lambda>c. c \<noteq> nl) input" by (simp add: w_def)
    then have "dropWhile (\<lambda>c. c \<noteq> nl) input \<noteq> []" using True by (metis append_Nil2 less_irrefl)
    then obtain rest where "dropWhile (\<lambda>c. c \<noteq> nl) input = nl # rest"
      using hd_dropWhile [of "\<lambda>c. c \<noteq> nl" input] by (cases "dropWhile (\<lambda>c. c \<noteq> nl) input") simp_all
    with split have input: "input = w @ nl # rest" by simp
    have line: "fgets_upto NEXUS_DEFAULT_RECV_BUFSZ input = w @ [nl]"
      using short True unfolding fgets_upto_def Let_def w_def [symmetric] by simp
    have "strstr (nl # rest) [nl, CHR ''>''] = None" using 1(2) strstr_suffix unfolding input by blast
    then have no: "take 1 rest \<noteq> ''>''" and rest: "strstr rest [nl, CHR ''>''] = None"
      by (cases rest; auto split: if_splits)+
    have ne: "input \<noteq> []" and dr: "drop (length (w @ [nl])) input = rest" and short': "length rest < NEXUS_DEFAULT_RECV_BUFSZ - 1"
      using 1(3) by (simp_all add: input)
    have no': "\<not> (rest \<noteq> [] \<and> hd rest = CHR ''>'')" using no by (cases rest) simp_all
    note IH = 1(1) [OF ne line [symmetric] dr [symmetric] _ no' rest short']
    show ?thesis using ne no' IH by (subst recv_lines.simps) (simp only: line dr Let_def if_False if_True refl split: if_split, simp)
  qed
qed

text \<open>A node whose program ends in the middle of a reply, or that never sends its prompt, takes the controller
  down with it: reading its reply searches the null pointer of \<open>fgets\<close>.\<close>

theorem closed_connection_crashes:
  assumes "online nd" and "strstr (incoming nd) [nl, CHR ''>''] = None"
    and "length (incoming nd) < NEXUS_DEFAULT_RECV_BUFSZ - 1"
  shows "node_recv nd b = None"
  using assms recv_lines_without_prompt [of "incoming nd"]
  by (auto simp: node_recv_def online_def incoming_def split: option.splits)


definition cut_off :: node where "cut_off = example_node 0 (''DADA'' @ [nl])"

lemma closed_connection_crashes_witness: "node_recv cut_off [] = None"
  by (rule closed_connection_crashes)
    (simp_all add: cut_off_def example_node_def online_def incoming_def NEXUS_DEFAULT_RECV_BUFSZ_def nl_def)

definition echo :: "(unit, unit, nat) client" where
  "echo f x arg st = (0, Suc (fst st), snd st @ ''hello'' @ [nl])"

definition echo_parser :: "(unit, unit) parser" where
  "echo_parser = snd (command_parse_add command_parse_create (Client ()) (Some ()) (Some ''say'') None None)"

lemma reply_read_back_witness:
  "\<exists>out. serve_line command_parse_server_create echo echo_parser (''say'' @ [nl]) 0 = Some (True, 1, out)
     \<and> node_recv (example_node 0 (out @ ''> '')) [] = Some (0, ''hello'', example_node 0 [])"
proof -
  have c: "command_parse_output echo echo_parser (''say'' @ [nl]) (0, []) = Some (0, 1, lines_text [''hello''])"
    by (simp add: command_parse_output_def echo_parser_def command_parse_create_def command_parse_add_def
        skip_white_def strsep_def parse_whitespace_def nl_def tab_def call_command_def echo_def Let_def)
  have "reply_lines [''hello'']" by (simp add: reply_lines_def NEXUS_DEFAULT_RECV_BUFSZ_def nl_def)
  from reply_read_back [OF c _ this, where 'a = unit] obtain out where
    out: "serve_line command_parse_server_create echo echo_parser (''say'' @ [nl]) 0 = Some (True, 1, out)"
      "\<forall>nd. online nd \<longrightarrow> (\<forall>b rest. incoming nd = out @ printed (sv_prompt command_parse_server_create) @ rest \<longrightarrow>
         node_recv (nd :: node) b = Some (0, ''hello'', with_incoming rest nd))"
    by (auto simp: COMMAND_PARSE_EXIT_def)
  let ?nd = "example_node 0 (out @ ''> '')"
  have "online ?nd" "incoming ?nd = out @ printed (sv_prompt command_parse_server_create) @ []"
    by (simp_all add: example_node_def online_def incoming_def printed_def command_parse_server_create_def)
  with out(2) have "node_recv ?nd [] = Some (0, ''hello'', with_incoming [] ?nd)" by blast
  then show ?thesis using out(1) by (simp add: with_incoming_def example_node_def)
qed

section \<open>Configuration\<close>

lemma add_node_new:
  assumes "i \<notin> node_id ` set (nodes n)"
  shows "add_node n i h = (0, n\<lparr>nodes := nodes n @
      [(node_type n)\<lparr>host := Some h, node_id := i, to_node := None, from_node := None, node_log := None\<rparr>],
      connecting := connecting n @ [i]\<rparr>)"
  using assms by (simp add: add_node_def nexus_connect_def nexus_get_nnode_def nth_append Let_def)

text \<open>What the names of a configuration make of a network: node \<open>i\<close> at position \<open>i\<close>, in the mirror too.\<close>

definition named_network :: "string list \<Rightarrow> ('a node_scheme, 'b) network_scheme \<Rightarrow> bool" where
  "named_network hs n \<longleftrightarrow>
     map (\<lambda>nd. (node_id nd, host nd)) (nodes n) = zip (map int [0..<length hs]) (map Some hs)
     \<and> connecting n = map int [0..<length hs]"

lemma named_network_ids: "named_network hs n \<Longrightarrow> node_id ` set (nodes n) = int ` {0..<length hs}"
proof -
  assume "named_network hs n"
  then have "map fst (map (\<lambda>nd. (node_id nd, host nd)) (nodes n)) = map int [0..<length hs]"
    unfolding named_network_def by (simp only:) simp
  then have "map node_id (nodes n) = map int [0..<length hs]" by (simp add: comp_def)
  from arg_cong [OF this, of set] show ?thesis by simp
qed

lemma add_node_named:
  assumes "named_network hs n"
  obtains n' where "add_node n (int (length hs)) h = (0, n')" and "named_network (hs @ [h]) n'"
    and "\<exists>ns cs. n' = n\<lparr>nodes := ns, connecting := cs\<rparr>"
proof -
  have "int (length hs) \<notin> node_id ` set (nodes n)" by (auto simp: named_network_ids [OF assms])
  from add_node_new [OF this, of h] show ?thesis
    using assms by (intro that) (auto simp: named_network_def)
qed

lemma nexus_add_named:
  assumes "named_network hs n" and "mirror n = Some m" and "named_network hs m"
  obtains n' m' where "nexus_add n (int (length hs)) h = (0, n')" and "named_network (hs @ [h]) n'"
    and "mirror n' = Some m'" and "named_network (hs @ [h]) m'" and "node_prefix n' = node_prefix n"
proof -
  obtain n1 where n1: "add_node n (int (length hs)) h = (0, n1)" "named_network (hs @ [h]) n1"
      "\<exists>ns cs. n1 = n\<lparr>nodes := ns, connecting := cs\<rparr>" using add_node_named [OF assms(1)] .
  obtain m1 where m1: "add_node m (int (length hs)) h = (0, m1)" "named_network (hs @ [h]) m1"
    using add_node_named [OF assms(3)] .
  have keep: "mirror n1 = Some m" "node_prefix n1 = node_prefix n" using n1(3) assms(2) by auto
  show ?thesis
    by (rule that [of "n1\<lparr>mirror := Some m1\<rparr>" m1])
      (use n1(1,2) m1 keep in \<open>simp_all add: nexus_add_def named_network_def\<close>)
qed

lemma parse_nodes_named:
  assumes "named_network (take k hs) n" and "mirror n = Some m" and "named_network (take k hs) m" and "k \<le> length hs"
    and "\<forall>i<length hs. ascii_header_get buffer (node_prefix n @ ''_'' @ decimal i) sscanf_s = (1, Some (hs ! i)) \<and> length (hs ! i) < 64"
    and "length hs < 2 ^ 31"
  shows "\<exists>n' m'. parse_nodes buffer [k..<length hs] n = Some n' \<and> named_network hs n' \<and> mirror n' = Some m' \<and> named_network hs m'"
  using assms
proof (induction "length hs - k" arbitrary: k n m)
  case (Suc d)
  then have k: "k < length hs" by simp
  have id: "sint (word_of_nat k :: u32) = int (length (take k hs))"
    using k Suc.prems(6) by (simp add: signed_of_nat signed_take_bit_int_eq_self)
  obtain n1 m1 where n1: "nexus_add n (int (length (take k hs))) (hs ! k) = (0, n1)" "named_network (take k hs @ [hs ! k]) n1"
      "mirror n1 = Some m1" "named_network (take k hs @ [hs ! k]) m1" "node_prefix n1 = node_prefix n"
    using nexus_add_named [OF Suc.prems(1-3)] .
  have name_k: "ascii_header_get buffer (node_prefix n @ ''_'' @ decimal k) sscanf_s = (1, Some (hs ! k))" "length (hs ! k) < 64"
    using Suc.prems(5) k by auto
  have "\<exists>n' m'. parse_nodes buffer [Suc k..<length hs] n1 = Some n' \<and> named_network hs n' \<and> mirror n' = Some m' \<and> named_network hs m'"
    by (rule Suc(1)) (use Suc(2) Suc.prems k n1 in \<open>simp_all add: take_Suc_conv_app_nth\<close>)
  moreover have "parse_nodes buffer [k..<length hs] n = parse_nodes buffer [Suc k..<length hs] n1"
    using k name_k n1(1) by (simp add: upt_conv_Cons id)
  ultimately show ?case by simp
qed simp

text \<open>A configuration that names a host for every node makes a network, and a mirror of it, whose node \<open>i\<close>
  stands at position \<open>i\<close> with the host of that number, and a thread is started for each of them to connect.\<close>

theorem nodes_stand_at_their_number:
  assumes "nodes n = []" and "connecting n = []" and "mirror n = Some m" and "nodes m = []" and "connecting m = []"
    and "node_port n \<noteq> 0"
    and "header_int buffer (''NUM_'' @ node_prefix n) 0 = (rc, int (length hs))" and "length hs < 2 ^ 31"
    and "\<forall>i<length hs. ascii_header_get buffer (node_prefix n @ ''_'' @ decimal i) sscanf_s = (1, Some (hs ! i)) \<and> length (hs ! i) < 64"
  shows "\<exists>n' m'. nexus_parse n buffer = Some (0, n') \<and> named_network hs n' \<and> mirror n' = Some m' \<and> named_network hs m'"
proof -
  have num: "unat (word_of_nat (length hs) :: u32) = length hs"
    using assms(8) by (simp add: unat_of_nat take_bit_nat_eq_self)
  define n1 where "n1 = n\<lparr>use_baseport := if fst (header_int buffer ''USE_BASEPORT'' (sint (use_baseport n))) < 0 then 0
      else word_of_int (snd (header_int buffer ''USE_BASEPORT'' (sint (use_baseport n)))),
    node_port := snd (header_int buffer (node_prefix n @ ''_PORT'') (node_port n)),
    polling_interval := if fst (header_int buffer ''COM_POLL'' (sint (polling_interval n))) < 0 then 10
      else word_of_int (snd (header_int buffer ''COM_POLL'' (sint (polling_interval n))))\<rparr>"
  have "\<exists>n' m'. parse_nodes buffer [0..<length hs] n1 = Some n' \<and> named_network hs n' \<and> mirror n' = Some m' \<and> named_network hs m'"
    by (rule parse_nodes_named [of 0 hs n1 m]) (use assms in \<open>simp_all add: n1_def named_network_def\<close>)
  moreover have "nexus_parse n buffer = map_option (\<lambda>n. (0, n)) (parse_nodes buffer [0..<length hs] n1)"
    using assms(6,7) by (simp add: nexus_parse_def Let_def n1_def num)
  ultimately show ?thesis by auto
qed


definition example_config :: string where
  "example_config = ''NUM_NODE 2'' @ [nl] @ ''NODE_0 a'' @ [nl] @ ''NODE_1 b'' @ [nl]"

definition example_nexus :: "node nexus" where
  "example_nexus =
     \<lparr>nodes = [], node_prefix = ''NODE'', use_baseport = 0, node_port = 5, polling_interval = 10,
      recv_buffer = [], node_type = node_create, logfile_dir = None, multilog_port = 0, connecting = [],
      mirror = Some nexus_create\<rparr>"

lemma nodes_stand_at_their_number_witness:
  "\<exists>n' m'. nexus_parse example_nexus example_config = Some (0, n') \<and> named_network [''a'', ''b''] n'
     \<and> mirror n' = Some m' \<and> named_network [''a'', ''b''] m'"
proof (rule nodes_stand_at_their_number [where m = nexus_create])
  show "header_int example_config (''NUM_'' @ node_prefix example_nexus) 0 = (1, int (length [''a'', ''b'']))" by code_simp
  have "ascii_header_get example_config ''NODE_0'' sscanf_s = (1, Some ''a'')" by code_simp
  moreover have "ascii_header_get example_config ''NODE_1'' sscanf_s = (1, Some ''b'')" by code_simp
  moreover have "decimal 0 = ''0''" "decimal 1 = ''1''" by code_simp+
  ultimately show "\<forall>i<length [''a'', ''b'']. ascii_header_get example_config (node_prefix example_nexus @ ''_'' @ decimal i) sscanf_s
      = (1, Some ([''a'', ''b''] ! i)) \<and> length ([''a'', ''b''] ! i) < 64"
    by (auto simp: less_Suc_eq example_nexus_def)
qed (simp_all add: example_nexus_def nexus_create_def)

end
