(* ===== verification/Pwc_Nexus_Properties.thy ===== *)
theory Pwc_Nexus_Properties
  imports Pwc_Nexus Nexus_Properties Pwc_Properties
begin

text \<open>
  What the controller of primary write clients makes of their states, and what reaches the clients of the commands
  and headers that it passes on: the clients are the ones of \<^verbatim>\<open>Pwc\<close>, behind the server of \<^verbatim>\<open>Command_Server\<close>.
\<close>

section \<open>The state of the whole\<close>

definition in_error :: "dada_pwc_state_t \<Rightarrow> bool" where
  "in_error s \<longleftrightarrow> s \<in> {dada_pwc_soft_error, dada_pwc_hard_error, dada_pwc_fatal_error}"

definition worst_error :: "dada_pwc_state_t list \<Rightarrow> dada_pwc_state_t" where
  "worst_error ss =
     (if dada_pwc_fatal_error \<in> set ss then dada_pwc_fatal_error
      else if dada_pwc_hard_error \<in> set ss then dada_pwc_hard_error
      else if dada_pwc_soft_error \<in> set ss then dada_pwc_soft_error else dada_pwc_undefined)"

text \<open>The state that all nodes without an error are in, if they agree; with errors alone, the worst.\<close>

definition overall :: "dada_pwc_state_t list \<Rightarrow> dada_pwc_state_t" where
  "overall ss =
     (case filter (\<lambda>s. \<not> in_error s) ss of
        [] \<Rightarrow> worst_error ss
      | s # rest \<Rightarrow> if \<forall>r\<in>set rest. r = s then s else dada_pwc_undefined)"

lemma update_loop_after:
  "update_loop inode ns nh nf state ss = (a, b, c, r) \<Longrightarrow> ns + nh + nf < inode \<Longrightarrow>
   a + b + c < inode + length ss
   \<and> r = (if \<forall>s\<in>set (filter (\<lambda>s. \<not> in_error s) ss). s = state then state else dada_pwc_undefined)"
proof (induction inode ns nh nf state ss rule: update_loop.induct)
  case (2 inode ns nh nf state s ss)
  show ?case
  proof (cases "in_error s")
    case True
    then consider "s = dada_pwc_soft_error" | "s = dada_pwc_hard_error" | "s = dada_pwc_fatal_error"
      by (auto simp: in_error_def)
    then show ?thesis using 2 True by cases simp_all
  next
    case False
    then have n: "s \<noteq> dada_pwc_soft_error" "s \<noteq> dada_pwc_hard_error" "s \<noteq> dada_pwc_fatal_error"
      by (auto simp: in_error_def)
    show ?thesis
    proof (cases "state = s")
      case True
      then show ?thesis using 2(5) [OF n] 2(6,7) n False by simp
    qed (use 2(6,7) n False in auto)
  qed
qed simp

lemma update_loop_before:
  "update_loop inode ns nh nf state ss = (a, b, c, r) \<Longrightarrow> ns + nh + nf = inode \<Longrightarrow>
   (case filter (\<lambda>s. \<not> in_error s) ss of
      [] \<Rightarrow> a = ns + count_list ss dada_pwc_soft_error \<and> b = nh + count_list ss dada_pwc_hard_error
            \<and> c = nf + count_list ss dada_pwc_fatal_error \<and> a + b + c = inode + length ss \<and> r = state
    | s # rest \<Rightarrow> a + b + c < inode + length ss \<and> r = (if \<forall>q\<in>set rest. q = s then s else dada_pwc_undefined))"
proof (induction inode ns nh nf state ss rule: update_loop.induct)
  case (2 inode ns nh nf state s ss)
  show ?case
  proof (cases "in_error s")
    case True
    then consider "s = dada_pwc_soft_error" | "s = dada_pwc_hard_error" | "s = dada_pwc_fatal_error"
      by (auto simp: in_error_def)
    then show ?thesis using 2 True by cases (simp_all split: list.splits)
  next
    case False
    then have "update_loop (inode + 1) ns nh nf s ss = (a, b, c, r)"
      using 2(6,7) by (auto simp: in_error_def)
    from update_loop_after [OF this] show ?thesis using 2(7) False by simp
  qed
qed simp

lemma state_of_nodes_overall: "state_of_nodes ss = overall ss"
proof -
  obtain a b c r where u: "update_loop 0 0 0 0 dada_pwc_undefined ss = (a, b, c, r)" by (metis prod_cases4)
  note b = update_loop_before [OF u]
  have pos: "0 < count_list ss x \<longleftrightarrow> x \<in> set ss" for x by (metis count_list_0_iff gr0I less_irrefl)
  show ?thesis
  proof (cases "filter (\<lambda>s. \<not> in_error s) ss")
    case Nil
    then show ?thesis using b u by (simp add: state_of_nodes_def overall_def worst_error_def pos)
  next
    case (Cons s rest)
    then have "a + b + c \<noteq> length ss" "r = overall ss" using b by (simp_all add: overall_def)
    then show ?thesis using u by (simp add: state_of_nodes_def)
  qed
qed

text \<open>C29. The state of the controller is the state that all its clients without an error are in, undefined when they
  differ, and the worst of the errors when no client is without one.\<close>

theorem controller_state_is_that_of_the_clients:
  "pstate (pwc (dada_pwc_nexus_update_state n)) = overall (map node_state (nodes n))"
  by (simp add: dada_pwc_nexus_update_state_def state_of_nodes_overall)

section \<open>A new connection\<close>

definition pwc_server :: command_parse_server where
  "pwc_server = command_parse_server_set_welcome (Some ''DADA primary write client command'') command_parse_server_create"

lemma state_names: "dada_pwc_string_to_state (dada_pwc_state_to_string s) = s"
  by (induction s; code_simp)

lemma state_line: "nl \<notin> set (dada_pwc_state_to_string s)" "CHR 0x0D \<notin> set (dada_pwc_state_to_string s)"
  "length (dada_pwc_state_to_string s) < 20" "first_token (dada_pwc_state_to_string s) = Some (dada_pwc_state_to_string s)"
  by (induction s; code_simp)+

lemma state_command:
  "command_parse_output (pwc_run m) pwc_parser (''state'' @ [nl]) (Some p, []) = Some (0, Some p, lines_text [dada_pwc_state_to_string (pstate p)])"
  by (simp add: command_parse_output_def pwc_parser_def pwc_commands_def command_parse_create_def command_parse_add_def
      skip_white_def strsep_def parse_whitespace_def nl_def tab_def call_command_def pwc_run_def dada_pwc_cmd_state_def Let_def)

definition welcome_text :: string where "welcome_text = ''DADA primary write client command''"

lemma welcome_line: "nl \<notin> set welcome_text" "CHR 0x0D \<notin> set welcome_text"
  "strstr (welcome_text @ [nl]) (''fail'' @ [nl]) = None" "strstr (welcome_text @ [nl]) (''ok'' @ [nl]) = None"
  "length welcome_text = 33"
  by code_simp+

lemma recv_welcome:
  assumes "online nd" and "incoming nd = welcome_text @ [nl] @ ''> '' @ rest"
  shows "node_recv nd b = Some (0, welcome_text, with_incoming rest nd)"
proof -
  obtain inp where inp: "from_node nd = Some inp" "\<not> i_error inp"
    using assms(1) by (auto simp: online_def split: option.splits)
  have i_text: "i_text inp = lines_text [welcome_text] @ CHR ''>'' # CHR '' '' # rest"
    using assms(2) inp by (simp add: incoming_def)
  have "recv_lines NEXUS_DEFAULT_RECV_BUFSZ [] (lines_text [welcome_text] @ CHR ''>'' # CHR '' '' # rest)
      = Some ([] @ lines_text (butlast [welcome_text]), last [welcome_text] @ [nl], CHR '' '' # rest)"
    by (rule recv_lines_block) (simp_all add: welcome_line NEXUS_DEFAULT_RECV_BUFSZ_def)
  then have r: "recv_lines NEXUS_DEFAULT_RECV_BUFSZ [] (i_text inp) = Some ([], welcome_text @ [nl], CHR '' '' # rest)"
    by (simp add: i_text)
  have "first_return (welcome_text @ [nl]) = welcome_text @ [nl]"
    by (rule first_return_id) (simp add: welcome_line nl_def)
  moreover have "cut_last_line_end (welcome_text @ [nl]) = welcome_text"
    using cut_last_line_end_lines [of "[welcome_text]"] by (simp add: butlast_append)
  ultimately show ?thesis using inp r welcome_line(3,4) by (simp add: node_recv_def with_incoming_def cut_at_def Let_def)
qed

lemma served_state:
  "command_parser pwc_server (\<lambda>_. False) (pwc_run m) pwc_parser (''state'' @ [nl]) (Some p)
     = Some (Some p, welcome_text @ [nl] @ ''> '' @ reply_of 0 [dada_pwc_state_to_string (pstate p)])"
proof -
  have serve: "serve_line pwc_server (pwc_run m) pwc_parser (''state'' @ [nl]) (Some p)
      = Some (True, Some p, lines_text [dada_pwc_state_to_string (pstate p)] @ ''ok'' @ [nl])"
    unfolding serve_line_def state_command
    by (simp add: pwc_server_def command_parse_server_set_welcome_def command_parse_server_create_def
        COMMAND_PARSE_EXIT_def printed_def)
  have at_end: "serve_lines pwc_server (\<lambda>_. False) (pwc_run m) pwc_parser [] (Some p) = Some (Some p, ''> '')"
    by (subst serve_lines.simps)
      (simp add: pwc_server_def command_parse_server_set_welcome_def command_parse_server_create_def printed_def)
  have line: "fgets_upto 4096 (''state'' @ [nl]) = ''state'' @ [nl]" by code_simp
  have "serve_lines pwc_server (\<lambda>_. False) (pwc_run m) pwc_parser (''state'' @ [nl]) (Some p)
      = Some (Some p, ''> '' @ lines_text [dada_pwc_state_to_string (pstate p)] @ ''ok'' @ [nl] @ ''> '')"
    by (subst serve_lines.simps) (simp only: line Let_def,
      simp add: serve [simplified] at_end, simp add: pwc_server_def command_parse_server_set_welcome_def command_parse_server_create_def printed_def)
  then show ?thesis
    by (simp add: command_parser_def, simp add: pwc_server_def command_parse_server_set_welcome_def
        command_parse_server_create_def welcome_text_def reply_of_def)
qed

text \<open>When the controller has connected to a client, it knows the state of the client, and has read everything the
  client has said so far; its own state is again that of its clients.\<close>

theorem new_connection_learns_the_state:
  assumes "command_parser pwc_server (\<lambda>_. False) (pwc_run m) pwc_parser (''state'' @ [nl]) (Some p) = Some (st, out)"
    and "k < length (nodes n)" and "online (nodes n ! k)" and "incoming (nodes n ! k) = out @ rest"
  shows "st = Some p \<and> (\<exists>n'. dada_pwc_nexus_node_init k n = Some n'
     \<and> nodes n' = (nodes n)[k := (with_incoming rest (told ''state'' (nodes n ! k)))\<lparr>node_state := pstate p\<rparr>]
     \<and> pstate (pwc n') = overall (map node_state (nodes n')))"
proof -
  let ?w = "dada_pwc_state_to_string (pstate p)" and ?nd = "nodes n ! k"
  have out: "st = Some p" "incoming ?nd = welcome_text @ [nl] @ ''> '' @ reply_of 0 [?w] @ rest"
    using assms(1,4) unfolding served_state by auto
  define nd1 where "nd1 = with_incoming (reply_of 0 [?w] @ rest) ?nd"
  have nd1: "online nd1" "incoming nd1 = reply_of 0 [?w] @ rest" using assms(3) by (simp_all add: nd1_def)
  have recv1: "node_recv ?nd [] = Some (0, welcome_text, nd1)" unfolding nd1_def by (rule recv_welcome [OF assms(3) out(2)])
  have send: "node_send nd1 ''state'' = (0, told ''state'' nd1)" by (rule node_send_online [OF nd1(1)])
  have fits: "reply_lines [?w]"
    using state_line(1-3) [of "pstate p"] by (simp add: reply_lines_def NEXUS_DEFAULT_RECV_BUFSZ_def)
  have "node_recv (told ''state'' nd1) welcome_text
      = Some (if (0::int) < 0 then (- 1, lines_text ([?w] @ [''fail'']), with_incoming rest (told ''state'' nd1))
              else (0, butlast (lines_text [?w]), with_incoming rest (told ''state'' nd1)))"
    by (rule recv_reply [OF _ fits]) (use nd1 in simp_all)
  then have recv2: "node_recv (told ''state'' nd1) welcome_text = Some (0, ?w, with_incoming rest (told ''state'' nd1))"
    by (simp add: butlast_append)
  have "with_incoming rest (told ''state'' nd1) = with_incoming rest (told ''state'' ?nd)"
    by (simp add: nd1_def with_incoming_def told_def option.map_comp comp_def)
  then show ?thesis
    using out(1) recv1 send recv2 state_line(4) [of "pstate p"]
    by (simp add: dada_pwc_nexus_node_init_def state_names set_node_def dada_pwc_nexus_update_state_def state_of_nodes_overall)
qed


section \<open>A recording\<close>

lemma pwc_server_prompt: "printed (sv_prompt pwc_server) = ''> ''"
  by (simp add: pwc_server_def command_parse_server_set_welcome_def command_parse_server_create_def printed_def)

lemma serve_line_reply:
  assumes "command_parse_output run p line (st, []) = Some (ret, st', lines_text ws)" and "ret \<noteq> COMMAND_PARSE_EXIT"
    and "serve_line pwc_server run p line st = Some (True, q, out)"
  shows "q = st' \<and> out @ ''> '' = reply_of ret ws"
  using assms
  by (auto simp: serve_line_def reply_of_def pwc_server_def command_parse_server_set_welcome_def command_parse_server_create_def
      printed_def split: if_splits)

lemma rec_start_served:
  assumes "0 < t" and "t < 253402300800" and "counts_bytes p t" and "byte_resolution p \<le> 1"
    and "pstate p = dada_pwc_clocking" and "pending p = []"
  shows "command_parse_output (pwc_run m) pwc_parser (command_line ''rec_start'' t @ [nl]) (Some p, [])
       = Some (0, Some (p\<lparr>queued := DADA_PWC_COMMAND_INIT\<lparr>code := dada_pwc_record_start, utc := t,
                 byte_count := word_of_int (t - utc_start p) * bytes_per_second p\<rparr>\<rparr>), lines_text [])"
proof -
  have time: "dada_pwc_parse_time m (Some (utc_of t)) = t"
    using assms(1,2) by (simp add: dada_pwc_parse_time_def str2utctime_utc_of)
  have tr: "trimmed (utc_of t)" by (simp add: utc_of_def Let_def trimmed_utc_string)
  have "white [nl]" by (simp add: white_def parse_whitespace_def)
  from rec_start_queued [OF time tr this assms(3-6)] show ?thesis by (simp add: command_line_def)
qed

text \<open>C30. A recording that the controller starts, starts at every client: told to start at a time while all of them
  are clocking, it reports success and is recording, and every client has queued a start of recording at that very time,
  with the byte that the time has in its own data; nothing of what the clients say is left unread.\<close>

theorem recording_starts_at_every_client:
  assumes "code c = dada_pwc_record_start" and "pstate (pwc n) = dada_pwc_clocking"
    and "0 < utc c" and "utc c < 253402300800"
    and "\<forall>i<length (nodes n). online (nodes n ! i) \<and> pstate (p i) = dada_pwc_clocking \<and> pending (p i) = []
      \<and> counts_bytes (p i) (utc c) \<and> byte_resolution (p i) \<le> 1"
    and "\<forall>i<length (nodes n).
      serve_line pwc_server (pwc_run m) pwc_parser (command_line ''rec_start'' (utc c) @ [nl]) (Some (p i)) = Some (True, st i, out i)
      \<and> incoming (nodes n ! i) = out i @ ''> '' @ rest i"
  shows "\<exists>n'. dada_pwc_nexus_send n c now = Some (0, n') \<and> pstate (pwc n') = dada_pwc_recording
     \<and> length (nodes n') = length (nodes n)
     \<and> (\<forall>i<length (nodes n).
          said (nodes n' ! i) = said (nodes n ! i) @ command_line ''rec_start'' (utc c) @ [nl]
        \<and> incoming (nodes n' ! i) = rest i
        \<and> (\<exists>q. st i = Some q \<and> code (queued q) = dada_pwc_record_start \<and> utc (queued q) = utc c
             \<and> unat (byte_count (queued q)) = nat (utc c - utc_start (p i)) * unat (bytes_per_second (p i))))"
proof -
  let ?l = "command_line ''rec_start'' (utc c)"
  define n1 where "n1 = n\<lparr>pwc := (pwc n)\<lparr>pstate := dada_pwc_recording\<rparr>\<rparr>"
  have send: "dada_pwc_nexus_send n c now = nexus_send n1 ?l"
    using assms(1,2) by (simp add: dada_pwc_nexus_send_def pass_on_def dada_pwc_set_state_def n1_def)
  have each: "st i = Some ((p i)\<lparr>queued := DADA_PWC_COMMAND_INIT\<lparr>code := dada_pwc_record_start, utc := utc c,
                 byte_count := word_of_int (utc c - utc_start (p i)) * bytes_per_second (p i)\<rparr>\<rparr>)
      \<and> out i @ ''> '' = reply_of 0 []" if "i < length (nodes n)" for i
  proof -
    note r = rec_start_served [OF assms(3,4), of "p i" m]
    show ?thesis by (rule serve_line_reply [OF r]) (use assms(5,6) that in \<open>auto simp: COMMAND_PARSE_EXIT_def\<close>)
  qed
  have arrives: "incoming (nodes n ! i) = reply_of 0 [] @ rest i" if "i < length (nodes n)" for i
  proof -
    have "incoming (nodes n ! i) = (out i @ ''> '') @ rest i" using assms(6) that by simp
    then show ?thesis using each [OF that] by (simp only:)
  qed
  have "reply_lines []" by (simp add: reply_lines_def NEXUS_DEFAULT_RECV_BUFSZ_def)
  then have "\<forall>i<length (nodes n1). online (nodes n1 ! i) \<and> reply_lines []
      \<and> incoming (nodes n1 ! i) = reply_of 0 [] @ rest i"
    using assms(5) arrives by (simp add: n1_def)
  from nexus_send_replies [OF this, of ?l] obtain b where
    b: "nexus_send n1 ?l = Some (0, n1\<lparr>nodes := map (\<lambda>i. with_incoming (rest i) (told ?l (nodes n1 ! i))) [0..<length (nodes n1)], recv_buffer := b\<rparr>)"
    by auto
  let ?n' = "n1\<lparr>nodes := map (\<lambda>i. with_incoming (rest i) (told ?l (nodes n1 ! i))) [0..<length (nodes n1)], recv_buffer := b\<rparr>"
  have "dada_pwc_nexus_send n c now = Some (0, ?n')" using send b by simp
  then show ?thesis
    by (intro exI [of _ ?n'] conjI) (use each assms(5) in \<open>simp_all add: n1_def byte_offset del: of_int_diff\<close>)
qed

section \<open>Headers\<close>

text \<open>The parameters of a file, the ones a header is given, and the header with a parameter.\<close>

fun scan_all :: "string list \<Rightarrow> (string \<times> string) list option" where
  "scan_all [] = Some []"
| "scan_all (line # lines) =
     (case scan_parameter line of
        None \<Rightarrow> None
      | Some None \<Rightarrow> scan_all lines
      | Some (Some x) \<Rightarrow> map_option ((#) x) (scan_all lines))"

definition selected :: "bool \<Rightarrow> string \<Rightarrow> (string \<times> string) list \<Rightarrow> (string \<times> string) list" where
  "selected keep flt ps =
     map (\<lambda>(w, v). (if keep then drop (length flt) w else w, v)) (filter (\<lambda>(w, v). prefix flt w = keep) ps)"

definition with_parameters :: "(string \<times> string) list \<Rightarrow> string \<Rightarrow> string" where
  "with_parameters ps h = fold (\<lambda>(w, v) h. snd (ascii_header_set h w (Some v))) ps h"

lemma specify_lines_parameters:
  "specify_lines keep flt room lines h = Some (0, h') \<Longrightarrow>
   \<exists>ps. scan_all lines = Some ps \<and> h' = with_parameters (selected keep flt ps) h"
proof (induction lines arbitrary: h)
  case Nil
  then show ?case by (simp add: with_parameters_def selected_def)
next
  case (Cons line lines)
  show ?case
  proof (cases "scan_parameter line")
    case (Some x)
    show ?thesis
    proof (cases x)
      case None
      then show ?thesis using Cons Some by simp
    next
      case (Some y)
      obtain w v where y: "y = (w, v)" by fastforce
      show ?thesis
      proof (cases "prefix flt w = keep")
        case True
        then obtain rc h1 where set: "ascii_header_set h (if keep then drop (length flt) w else w) (Some v) = (rc, h1)"
          by fastforce
        then have "specify_lines keep flt room lines h1 = Some (0, h')"
          using Cons.prems True Some \<open>scan_parameter line = Some x\<close> y by (auto split: if_splits)
        from Cons.IH [OF this] obtain ps where "scan_all lines = Some ps" "h' = with_parameters (selected keep flt ps) h1" by blast
        then show ?thesis using set True Some \<open>scan_parameter line = Some x\<close> y
          by (simp add: with_parameters_def selected_def)
      next
        case False
        then have "specify_lines keep flt room lines h = Some (0, h')"
          using Cons.prems Some \<open>scan_parameter line = Some x\<close> y by (auto split: if_splits)
        from Cons.IH [OF this] obtain ps where "scan_all lines = Some ps" "h' = with_parameters (selected keep flt ps) h" by blast
        then show ?thesis using False Some \<open>scan_parameter line = Some x\<close> y
          by (simp add: with_parameters_def selected_def)
      qed
    qed
  qed (use Cons.prems in simp)
qed

lemma specify_rc: "dada_pwc_specify_header keep flt room h file = Some (rc, h') \<Longrightarrow> \<not> rc < 0 \<Longrightarrow> rc = 0"
proof -
  have "specify_lines keep flt room lines h = Some (rc, h') \<Longrightarrow> rc = 0 \<or> rc = - 1" for lines
    by (induction lines arbitrary: h) (auto simp: Let_def split: option.splits if_splits prod.splits)
  then show "dada_pwc_specify_header keep flt room h file = Some (rc, h') \<Longrightarrow> \<not> rc < 0 \<Longrightarrow> rc = 0"
    unfolding dada_pwc_specify_header_def by fastforce
qed

lemma parse_node_headers_parameters:
  assumes "parse_node_headers file is n = Some (0, n')" and "scan_all (file_lines 256 file) = Some ps"
    and "header (pwc n) = Some h" and "distinct is" and "set is \<subseteq> {0..<length (nodes n)}"
  shows "pwc n' = pwc n \<and> length (nodes n') = length (nodes n)
    \<and> (\<forall>i<length (nodes n). if i \<in> set is
         then node_header (nodes n' ! i) = Some (with_parameters (selected True (''Band'' @ decimal i @ ''_'') ps) h)
         else nodes n' ! i = nodes n ! i)"
  using assms
proof (induction "is" arbitrary: n)
  case (Cons k "is")
  define nd where "nd = (if node_header_size (nodes n ! k) < header_size (pwc n)
      then (nodes n ! k)\<lparr>node_header_size := header_size (pwc n)\<rparr> else nodes n ! k)"
  obtain h1 where h1: "dada_pwc_specify_header True (''Band'' @ decimal k @ ''_'') (unat (node_header_size nd)) h file = Some (0, h1)"
      and rest: "parse_node_headers file is (set_node k (nd\<lparr>node_header := Some h1\<rparr>) n) = Some (0, n')"
    using Cons.prems(1,3)
    by (auto simp: nd_def [symmetric] Let_def split: option.splits if_splits dest: specify_rc)
  have "h1 = with_parameters (selected True (''Band'' @ decimal k @ ''_'') ps) h"
    using specify_lines_parameters [OF h1 [unfolded dada_pwc_specify_header_def]] Cons.prems(2) by auto
  moreover have "pwc n' = pwc (set_node k (nd\<lparr>node_header := Some h1\<rparr>) n)
    \<and> length (nodes n') = length (nodes (set_node k (nd\<lparr>node_header := Some h1\<rparr>) n))
    \<and> (\<forall>i<length (nodes (set_node k (nd\<lparr>node_header := Some h1\<rparr>) n)). if i \<in> set is
         then node_header (nodes n' ! i) = Some (with_parameters (selected True (''Band'' @ decimal i @ ''_'') ps) h)
         else nodes n' ! i = nodes (set_node k (nd\<lparr>node_header := Some h1\<rparr>) n) ! i)"
    by (rule Cons.IH [OF rest Cons.prems(2)]) (use Cons.prems in \<open>simp_all add: set_node_def\<close>)
  ultimately show ?case using Cons.prems(4,5) by (auto simp: set_node_def nth_list_update)
qed simp

text \<open>Of one file every client gets a header of its own: the parameters whose names do not start with \<open>Band\<close>, in
  the order of the file, and after them those that start with \<open>Band\<close>, its number and an underscore, under the rest
  of their names. A parameter of another number is in no header but that of its client.\<close>

theorem headers_out_of_one_file:
  assumes "dada_pwc_nexus_header_parse n file = Some (0, n')"
  shows "\<exists>ps. scan_all (file_lines 256 file) = Some ps
     \<and> header (pwc n') = Some (with_parameters (selected False ''Band'' ps) [])
     \<and> length (nodes n') = length (nodes n)
     \<and> (\<forall>i<length (nodes n). node_header (nodes n' ! i) =
          Some (with_parameters (selected False ''Band'' ps @ selected True (''Band'' @ decimal i @ ''_'') ps) []))"
proof -
  obtain h where h: "dada_pwc_specify_header False ''Band'' (unat (header_size (pwc n))) [] file = Some (0, h)"
      and rest: "parse_node_headers file [0..<nexus_get_nnode n] (n\<lparr>pwc := (pwc n)\<lparr>header := Some h\<rparr>\<rparr>) = Some (0, n')"
    using assms
    by (auto simp: dada_pwc_nexus_header_parse_def nexus_get_nnode_def Let_def split: option.splits if_splits dest: specify_rc)
  obtain ps where ps: "scan_all (file_lines 256 file) = Some ps" "h = with_parameters (selected False ''Band'' ps) []"
    using specify_lines_parameters [OF h [unfolded dada_pwc_specify_header_def]] by auto
  have "header (pwc (n\<lparr>pwc := (pwc n)\<lparr>header := Some h\<rparr>\<rparr>)) = Some h" by simp
  from parse_node_headers_parameters [OF rest ps(1) this] ps show ?thesis
    by (auto simp: nexus_get_nnode_def with_parameters_def)
qed


definition joined :: "string \<Rightarrow> string" where
  "joined h = map (\<lambda>c. if c = nl then CHR 0x5C else c) h"

lemma joined_back: "CHR 0x5C \<notin> set h \<Longrightarrow> map (\<lambda>c. if c = CHR 0x5C then nl else c) (joined h) = h"
  by (induction h) (auto simp: joined_def)

lemma header_command_joined: "header_command h = ''header'' @ '' '' @ joined h"
  by (simp add: header_command_def joined_def nl_def)

lemma pwc_parser_header:
  "pwc_parser = take 3 pwc_parser @ \<lparr>cmd = Client Cmd_header, context_of = Some (), name = ''header'',
        short_help = Some ''set the primary header'', long_help = None\<rparr> # drop 4 pwc_parser"
  "''header'' \<notin> name ` set (take 3 pwc_parser)"
  by (simp_all add: pwc_parser_def pwc_commands_def command_parse_create_def command_parse_add_def)


section \<open>A configuration that fails\<close>

lemma told_header: "node_header (told c nd) = node_header nd"
  by (simp add: told_def)

lemma send_headers_stop:
  assumes "j \<le> k" and "k < length (nodes n)" and "to_node (nodes n ! k) = None"
    and "\<forall>i<length (nodes n). node_header (nodes n ! i) = Some (h i) \<and> length (header_command (h i)) < unat (header_size (pwc n))"
    and "\<forall>i<k. online (nodes n ! i)"
  shows "\<exists>n'. send_headers m [j..<length (nodes n)] n = Some (- 1, n') \<and> length (nodes n') = length (nodes n)
    \<and> (\<forall>i<length (nodes n). nodes n' ! i = (if j \<le> i \<and> i < k then told (header_command (h i)) (nodes n ! i) else nodes n ! i))"
  using assms
proof (induction "k - j" arbitrary: j n)
  case 0
  then have j: "j = k" by simp
  have "send_headers m [k..<length (nodes n)] n = Some (- 1, n\<lparr>pwc := (pwc n)\<lparr>header := Some (header_command (h k))\<rparr>\<rparr>)"
    using 0(3-5) by (simp add: upt_conv_Cons nexus_send_node_def node_send_def NEXUS_NODE_IO_ERROR_def not_le)
  then show ?case unfolding j
    by (intro exI [of _ "n\<lparr>pwc := (pwc n)\<lparr>header := Some (header_command (h k))\<rparr>\<rparr>"] conjI) auto
next
  case (Suc d)
  then have j: "j < k" "j < length (nodes n)" by simp_all
  let ?c = "header_command (h j)"
  define n1 where "n1 = n\<lparr>pwc := (pwc n)\<lparr>header := Some ?c\<rparr>, nodes := (nodes n)[j := told ?c (nodes n ! j)]\<rparr>"
  define n2 where "n2 = (if j = 0 then n1\<lparr>pwc := snd (dada_pwc_parse_bytes_per_second m (pwc n1) ?c)\<rparr> else n1)"
  have n2: "nodes n2 = (nodes n)[j := told ?c (nodes n ! j)]" "header_size (pwc n2) = header_size (pwc n)"
    by (simp_all add: n2_def n1_def dada_pwc_parse_bytes_per_second_def Let_def split: prod.split)
  have hj: "node_header (nodes n ! j) = Some (h j)" "length (header_command (h j)) < unat (header_size (pwc n))"
      "online (nodes n ! j)" using Suc.prems(4,5) j by auto
  have "send_headers m [j..<length (nodes n)] n = send_headers m [Suc j..<length (nodes n2)] n2"
    using j hj n2(1)
    by (simp add: upt_conv_Cons nexus_send_node_def node_send_online NEXUS_NODE_IO_ERROR_def not_le n2_def n1_def)
  moreover have "\<exists>n'. send_headers m [Suc j..<length (nodes n2)] n2 = Some (- 1, n') \<and> length (nodes n') = length (nodes n2)
    \<and> (\<forall>i<length (nodes n2). nodes n' ! i = (if Suc j \<le> i \<and> i < k then told (header_command (h i)) (nodes n2 ! i) else nodes n2 ! i))"
    by (rule Suc(1)) (use Suc(2) Suc.prems j n2 in \<open>auto simp: nth_list_update told_header\<close>)
  ultimately show ?case using j n2(1) by (auto simp: nth_list_update)
qed

text \<open>A configuration that finds a client cut off leaves the controller out of step with the clients before it:
  they have been sent their headers, but their replies are not read, so that the next command given to them is taken
  to have gone the way the header did.\<close>

theorem failed_configuration_leaves_replies:
  assumes "k < length (nodes n)" and "to_node (nodes n ! k) = None" and "\<forall>i<k. online (nodes n ! i)"
    and "\<forall>i<length (nodes n). node_header (nodes n ! i) = Some (h i) \<and> length (header_command (h i)) < unat (header_size (pwc n))"
    and "i < k" and "incoming (nodes n ! i) = reply_of ret [] @ reply_of ret' [] @ rest"
  shows "\<exists>n'. send_headers m [0..<nexus_get_nnode n] n = Some (- 1, n')
     \<and> said (nodes n' ! i) = said (nodes n ! i) @ header_command (h i) @ [nl]
     \<and> (\<exists>buffer nd. node_recv (snd (node_send (nodes n' ! i) c)) b = Some (if ret < 0 then - 1 else 0, buffer, nd)
          \<and> incoming nd = reply_of ret' [] @ rest)"
proof -
  obtain n' where n': "send_headers m [0..<length (nodes n)] n = Some (- 1, n')"
      "\<forall>i<length (nodes n). nodes n' ! i = (if 0 \<le> i \<and> i < k then told (header_command (h i)) (nodes n ! i) else nodes n ! i)"
    using send_headers_stop [OF _ assms(1,2,4,3), of 0 m] by blast
  have i: "online (nodes n ! i)" "nodes n' ! i = told (header_command (h i)) (nodes n ! i)" using assms n'(2) by simp_all
  have fits: "reply_lines []" by (simp add: reply_lines_def NEXUS_DEFAULT_RECV_BUFSZ_def)
  let ?nd = "told c (nodes n' ! i)"
  have on: "online ?nd" using i by simp
  have "node_recv ?nd b = Some (if ret < 0 then (- 1, lines_text ([] @ [''fail'']), with_incoming (reply_of ret' [] @ rest) ?nd)
           else (0, butlast (lines_text []), with_incoming (reply_of ret' [] @ rest) ?nd))"
    by (rule recv_reply [OF on fits]) (use i assms(6) in simp)
  moreover have "incoming (with_incoming (reply_of ret' [] @ rest) ?nd) = reply_of ret' [] @ rest" using on by simp
  ultimately have "\<exists>buffer nd. node_recv (snd (node_send (nodes n' ! i) c)) b = Some (if ret < 0 then - 1 else 0, buffer, nd)
          \<and> incoming nd = reply_of ret' [] @ rest"
    using i by (simp add: node_send_online)
  then show ?thesis using n'(1) i by (simp add: nexus_get_nnode_def)
qed


section \<open>Concrete runs\<close>

definition client_node :: "int \<Rightarrow> string \<Rightarrow> dada_pwc_node" where
  "client_node i t =
     node.extend (example_node i t) \<lparr>node_header = Some (''NCHAN 1'' @ [nl]), node_header_size = 4096, node_state = dada_pwc_pending\<rparr>"

definition controller0 :: "dada_pwc_state_t \<Rightarrow> dada_pwc_node list \<Rightarrow> dada_pwc_nexus_t" where
  "controller0 s nds = (dada_pwc_nexus_create 4096 DADA_PWC_COMMAND_INIT 0)\<lparr>nodes := nds, pwc := client0 s\<rparr>"

lemma client_node_simps [simp]:
  "online (client_node i t)" "incoming (client_node i t) = t" "said (client_node i t) = []"
  "node_header (client_node i t) = Some (''NCHAN 1'' @ [nl])"
  by (simp_all add: client_node_def example_node_def online_def incoming_def said_def node.defs)

lemma controller0_simps [simp]:
  "nodes (controller0 s nds) = nds" "pwc (controller0 s nds) = client0 s"
  by (simp_all add: controller0_def)

lemma new_connection_learns_the_state_witness:
  "\<exists>n'. dada_pwc_nexus_node_init 0
       (controller0 dada_pwc_idle [client_node 0 (welcome_text @ [nl] @ ''> '' @ reply_of 0 [''clocking''] @ [])]) = Some n'
     \<and> map node_state (nodes n') = [dada_pwc_clocking] \<and> pstate (pwc n') = dada_pwc_clocking"
proof -
  have st: "dada_pwc_state_to_string (pstate (client0 dada_pwc_clocking)) = ''clocking''" by (simp add: client0_def)
  have o: "overall [dada_pwc_clocking] = dada_pwc_clocking" by (simp add: overall_def in_error_def)
  let ?n = "controller0 dada_pwc_idle [client_node 0 (welcome_text @ [nl] @ ''> '' @ reply_of 0 [''clocking''] @ [])]"
  show ?thesis
    using new_connection_learns_the_state [OF served_state [of machine0 "client0 dada_pwc_clocking", unfolded st], of 0 ?n "[]"] o
    by (auto simp: client0_def)
qed

lemma recording_starts_at_every_client_witness:
  "\<exists>n'. dada_pwc_nexus_send
      (controller0 dada_pwc_clocking [client_node 0 (reply_of 0 []), client_node 1 (reply_of 0 [])])
      (DADA_PWC_COMMAND_INIT\<lparr>code := dada_pwc_record_start, utc := 200\<rparr>) 0 = Some (0, n')
     \<and> map said (nodes n') = replicate 2 (command_line ''rec_start'' 200 @ [nl])"
proof -
  let ?c = "DADA_PWC_COMMAND_INIT\<lparr>code := dada_pwc_record_start, utc := 200\<rparr>"
  let ?p = "(client0 dada_pwc_clocking)\<lparr>byte_resolution := 1\<rparr>"
  let ?n = "controller0 dada_pwc_clocking [client_node 0 (reply_of 0 []), client_node 1 (reply_of 0 [])]"
  have p: "counts_bytes ?p 200" "byte_resolution ?p \<le> 1" "pstate ?p = dada_pwc_clocking" "pending ?p = []"
    by (simp_all add: counts_bytes_def client0_def dada_pwc_create_def pending_def DADA_PWC_COMMAND_INIT_def)
  from rec_start_served [OF _ _ p, of machine0]
  have r: "command_parse_output (pwc_run machine0) pwc_parser (command_line ''rec_start'' 200 @ [nl]) (Some ?p, []) =
      Some (0, Some (?p\<lparr>queued := DADA_PWC_COMMAND_INIT\<lparr>code := dada_pwc_record_start, utc := 200,
         byte_count := word_of_int (200 - utc_start ?p) * bytes_per_second ?p\<rparr>\<rparr>), lines_text [])" by simp
  obtain q where q: "serve_line pwc_server (pwc_run machine0) pwc_parser (command_line ''rec_start'' 200 @ [nl]) (Some ?p)
      = Some (True, q, ''ok'' @ [nl])"
    unfolding serve_line_def r
    by (simp add: pwc_server_def command_parse_server_set_welcome_def command_parse_server_create_def
        printed_def COMMAND_PARSE_EXIT_def)
  have clocking: "pstate (client0 dada_pwc_clocking) = dada_pwc_clocking" by (simp add: client0_def)
  have "\<exists>n'. dada_pwc_nexus_send ?n ?c 0 = Some (0, n') \<and> pstate (pwc n') = dada_pwc_recording
     \<and> length (nodes n') = length (nodes ?n)
     \<and> (\<forall>i<length (nodes ?n). said (nodes n' ! i) = said (nodes ?n ! i) @ command_line ''rec_start'' (utc ?c) @ [nl]
        \<and> incoming (nodes n' ! i) = []
        \<and> (\<exists>q'. q = Some q' \<and> code (queued q') = dada_pwc_record_start \<and> utc (queued q') = utc ?c
             \<and> unat (byte_count (queued q')) = nat (utc ?c - utc_start ?p) * unat (bytes_per_second ?p)))"
    by (rule recording_starts_at_every_client [where m = machine0 and p = "\<lambda>i. ?p" and st = "\<lambda>i. q" and out = "\<lambda>i. ''ok'' @ [nl]" and rest = "\<lambda>i. []"])
      (use p q clocking in \<open>simp_all add: less_Suc_eq reply_of_def\<close>)
  then obtain n' where "dada_pwc_nexus_send ?n ?c 0 = Some (0, n')" "length (nodes n') = 2"
      "said (nodes n' ! 0) = command_line ''rec_start'' 200 @ [nl]" "said (nodes n' ! 1) = command_line ''rec_start'' 200 @ [nl]"
    by (auto simp: less_Suc_eq)
  then show ?thesis by (intro exI [of _ n'] conjI nth_equalityI) (auto simp: less_Suc_eq numeral_2_eq_2)
qed

definition example_file :: string where
  "example_file = ''NCHAN 4'' @ [nl] @ ''Band1_FREQ 1400'' @ [nl] @ ''Band0_FREQ 1300 # low'' @ [nl]"

lemma headers_out_of_one_file_witness:
  "\<exists>n'. dada_pwc_nexus_header_parse (controller0 dada_pwc_idle [client_node 0 [], client_node 1 []]) example_file = Some (0, n')
     \<and> map node_header (nodes n') =
         map Some [with_parameters [(''NCHAN'', ''4''), (''FREQ'', ''1300'')] [], with_parameters [(''NCHAN'', ''4''), (''FREQ'', ''1400'')] []]"
proof -
  let ?n = "controller0 dada_pwc_idle [client_node 0 [], client_node 1 []]"
  have "map_option fst (dada_pwc_nexus_header_parse ?n example_file) = Some 0" by code_simp
  then obtain n' where n': "dada_pwc_nexus_header_parse ?n example_file = Some (0, n')" by auto
  have ps: "scan_all (file_lines 256 example_file) = Some [(''NCHAN'', ''4''), (''Band1_FREQ'', ''1400''), (''Band0_FREQ'', ''1300'')]"
    by code_simp
  have d: "''Band'' @ decimal 0 @ ''_'' = ''Band0_''" "''Band'' @ decimal 1 @ ''_'' = ''Band1_''" by code_simp+
  have len: "length (nodes n') = 2"
    and hdr: "node_header (nodes n' ! 0) = Some (with_parameters [(''NCHAN'', ''4''), (''FREQ'', ''1300'')] [])"
      "node_header (nodes n' ! 1) = Some (with_parameters [(''NCHAN'', ''4''), (''FREQ'', ''1400'')] [])"
    using headers_out_of_one_file [OF n'] ps d by (auto simp: less_Suc_eq selected_def)
  show ?thesis
    using n' len hdr by (intro exI [of _ n'] conjI nth_equalityI) (auto simp: less_Suc_eq numeral_2_eq_2)
qed


lemma failed_configuration_leaves_replies_witness:
  "\<exists>n' buffer nd. send_headers machine0 [0..<2]
       (controller0 dada_pwc_idle [client_node 0 (reply_of 0 [] @ reply_of (- 1) [] @ []), (client_node 1 [])\<lparr>to_node := None\<rparr>]) = Some (- 1, n')
     \<and> node_recv (snd (node_send (nodes n' ! 0) ''clock'')) [] = Some (0, buffer, nd) \<and> incoming nd = reply_of (- 1) [] @ []"
proof -
  let ?n = "controller0 dada_pwc_idle [client_node 0 (reply_of 0 [] @ reply_of (- 1) [] @ []), (client_node 1 [])\<lparr>to_node := None\<rparr>]"
  have size: "header_size (client0 dada_pwc_idle) = 4096" by (simp add: client0_def dada_pwc_create_def)
  have "length (header_command (''NCHAN 1'' @ [nl])) < 4096" by code_simp
  then have h: "\<forall>i<length (nodes ?n). node_header (nodes ?n ! i) = Some (''NCHAN 1'' @ [nl])
      \<and> length (header_command (''NCHAN 1'' @ [nl])) < unat (header_size (pwc ?n))"
    by (simp add: less_Suc_eq size)
  have "\<exists>n'. send_headers machine0 [0..<nexus_get_nnode ?n] ?n = Some (- 1, n')
     \<and> said (nodes n' ! 0) = said (nodes ?n ! 0) @ header_command (''NCHAN 1'' @ [nl]) @ [nl]
     \<and> (\<exists>buffer nd. node_recv (snd (node_send (nodes n' ! 0) ''clock'')) [] = Some (if (0::int) < 0 then - 1 else 0, buffer, nd)
          \<and> incoming nd = reply_of (- 1) [] @ [])"
    by (rule failed_configuration_leaves_replies [where k = 1]) (use h in simp_all)
  then show ?thesis by (auto simp: nexus_get_nnode_def numeral_2_eq_2)
qed

end
