(* ===== verification/Monitor.thy ===== *)
theory Monitor
  imports Pwc_Nexus_Properties
begin

text \<open>
  The thread that reads the logs of the nodes (\<^verbatim>\<open>src/monitor.c\<close>) through the mirror of their network, writes
  them to files and passes every line on to its owner, together with the position of the node it came from.
\<close>

section \<open>One round of the thread\<close>

text \<open>What is written: a line to the log of its node, to the log of all nodes, to the clients of the log server.\<close>

datatype log_line = Node_log string string | Collated string | Served string

text \<open>The buffer first holds the name of the log of all nodes, where there is one; \<open>None\<close> is memory without a string.\<close>

definition monitor_start :: "('n, 'b) network_scheme \<Rightarrow> string option" where
  "monitor_start net = map_option (\<lambda>dir. dir @ ''/nexus.pwc.log'') (logfile_dir net)"

text \<open>\<open>ready\<close> is what \<open>select\<close> reports; the first such node is read.\<close>

definition monitor_choose :: "(nat \<Rightarrow> bool) \<Rightarrow> ('a node_scheme, 'b) network_scheme \<Rightarrow> nat option" where
  "monitor_choose ready net =
     (case filter (\<lambda>k. from_node (nodes net ! k) \<noteq> None \<and> ready k) [0..<length (nodes net)] of
        [] \<Rightarrow> None
      | k # _ \<Rightarrow> Some k)"

definition numbered :: "int \<Rightarrow> string \<Rightarrow> string" where
  "numbered i b = (if i < 10 then ''0'' else []) @ decimal (nat i) @ '' '' @ b"

text \<open>
  A line of 1024 bytes at most is read. The end of the stream takes the connection from the node, but what is in
  the buffer is handled all the same. \<open>collate\<close>: the log of all nodes could be opened. \<open>None\<close>: the buffer holds no
  string, or the owner crashes on the line.
\<close>

definition monitor_message ::
    "(nat \<Rightarrow> string \<Rightarrow> 'c \<Rightarrow> 'c option) \<Rightarrow> bool \<Rightarrow> nat \<Rightarrow> ('a node_scheme, 'b) network_scheme \<Rightarrow> string option \<Rightarrow> 'c
     \<Rightarrow> (('a node_scheme, 'b) network_scheme \<times> string option \<times> 'c \<times> log_line list) option" where
  "monitor_message handle_message collate k net buffer ctx =
     (case from_node (nodes net ! k) of
        None \<Rightarrow> None
      | Some inp \<Rightarrow>
          let got = (\<not> i_error inp \<and> i_text inp \<noteq> []);
              line = fgets_upto 1024 (i_text inp); rest = drop (length line) (i_text inp);
              eof = (\<not> i_error inp \<and> (i_text inp = [] \<or> rest = [] \<and> last line \<noteq> nl \<and> length line < 1023));
              nd = (nodes net ! k)\<lparr>from_node := Some (if got then inp\<lparr>i_text := rest\<rparr> else inp)\<rparr>;
              nd = (if eof then nd\<lparr>to_node := None, from_node := None, node_log := None\<rparr> else nd);
              buffer = (if got then Some line else buffer)
          in case buffer of
               None \<Rightarrow> None
             | Some b \<Rightarrow>
                 map_option
                   (\<lambda>ctx.
                      (net\<lparr>nodes := (nodes net)[k := nd]\<rparr>, buffer, ctx,
                       (case node_log nd of None \<Rightarrow> [] | Some f \<Rightarrow> [Node_log f b])
                       @ (if collate then [Collated (numbered (node_id nd) b)] else []) @ [Served (numbered (node_id nd) b)]))
                   (handle_message k b ctx))"

definition monitor_round ::
    "(nat \<Rightarrow> string \<Rightarrow> 'c \<Rightarrow> 'c option) \<Rightarrow> bool \<Rightarrow> (nat \<Rightarrow> bool) \<Rightarrow> ('a node_scheme, 'b) network_scheme \<Rightarrow> string option \<Rightarrow> 'c
     \<Rightarrow> (('a node_scheme, 'b) network_scheme \<times> string option \<times> 'c \<times> log_line list) option" where
  "monitor_round handle_message collate ready net buffer ctx =
     (case monitor_choose ready net of
        None \<Rightarrow> Some (net, buffer, ctx, [])
      | Some k \<Rightarrow> monitor_message handle_message collate k net buffer ctx)"

section \<open>The monitor of a controller\<close>

definition pwc_handle :: "string \<Rightarrow> nat \<Rightarrow> string \<Rightarrow> dada_pwc_nexus_t \<Rightarrow> dada_pwc_nexus_t option" where
  "pwc_handle junk k msg n = dada_pwc_nexus_handle_message junk n k msg"

text \<open>A line that announces a state.\<close>

definition announces :: "string \<Rightarrow> dada_pwc_state_t \<Rightarrow> bool" where
  "announces msg s \<longleftrightarrow>
     (case strstr msg ''STATE = '' of
        None \<Rightarrow> False
      | Some k \<Rightarrow> (case scan_word (drop (k + 8) msg) of
                     None \<Rightarrow> False | Some w \<Rightarrow> length w < 16 \<and> dada_pwc_string_to_state w = s))"

lemma handle_announcement:
  assumes "announces msg s" and "k < length (nodes n)"
  obtains n' where "pwc_handle junk k msg n = Some n'"
    and "nodes n' = (nodes n)[k := (nodes n ! k)\<lparr>node_state := s\<rparr>]" and "pstate (pwc n') = overall (map node_state (nodes n'))"
proof -
  let ?n = "dada_pwc_nexus_update_state (set_node k ((nodes n ! k)\<lparr>node_state := s\<rparr>) n)"
  have "pwc_handle junk k msg n = Some ?n"
    using assms by (auto simp: announces_def pwc_handle_def dada_pwc_nexus_handle_message_def Let_def split: option.splits)
  then show ?thesis
    by (rule that) (simp_all add: dada_pwc_nexus_update_state_def set_node_def state_of_nodes_overall)
qed

lemma message_of_line:
  assumes "from_node (nodes net ! k) = Some inp" and "\<not> i_error inp" and "i_text inp = msg @ nl # rest"
    and "nl \<notin> set msg" and "length msg < 1023" and "handle_message k (msg @ [nl]) ctx = Some ctx'"
  shows "\<exists>out. monitor_message handle_message collate k net buffer ctx
     = Some (net\<lparr>nodes := (nodes net)[k := (nodes net ! k)\<lparr>from_node := Some (inp\<lparr>i_text := rest\<rparr>)\<rparr>]\<rparr>, Some (msg @ [nl]), ctx', out)"
proof -
  have "fgets_upto 1024 (msg @ nl # rest) = msg @ [nl]" using assms(4,5) by (intro fgets_upto_line) simp_all
  then show ?thesis using assms by (simp add: monitor_message_def Let_def)
qed

lemma message_of_end:
  assumes "from_node (nodes net ! k) = Some inp" and "\<not> i_error inp" and "i_text inp = []"
    and "handle_message k b ctx = Some ctx'"
  shows "\<exists>net' out. monitor_message handle_message collate k net (Some b) ctx = Some (net', Some b, ctx', out)"
  using assms by (simp add: monitor_message_def Let_def)

text \<open>When a client announces its state, the controller has it for that client, and its own state is that of its
  clients. But when after that the log of another client is closed, the line that is still in the buffer is handled
  once more, for the client that has gone: it is given the state that the first one announced.\<close>

theorem closed_log_repeats_an_announcement:
  assumes "from_node (nodes net ! j) = Some inp" and "\<not> i_error inp" and "i_text inp = msg @ nl # rest"
    and "nl \<notin> set msg" and "length msg < 1023" and "announces (msg @ [nl]) s"
    and "from_node (nodes net ! k) = Some inp'" and "\<not> i_error inp'" and "i_text inp' = []"
    and "j \<noteq> k" and "j < length (nodes n)" and "k < length (nodes n)"
  shows "\<exists>net1 b n1 out net2 n2 out'.
      monitor_message (pwc_handle junk) collate j net buffer n = Some (net1, b, n1, out)
    \<and> nodes n1 = (nodes n)[j := (nodes n ! j)\<lparr>node_state := s\<rparr>] \<and> pstate (pwc n1) = overall (map node_state (nodes n1))
    \<and> monitor_message (pwc_handle junk) collate k net1 b n1 = Some (net2, b, n2, out')
    \<and> node_state (nodes n2 ! k) = s"
proof -
  obtain n1 where n1: "pwc_handle junk j (msg @ [nl]) n = Some n1" "nodes n1 = (nodes n)[j := (nodes n ! j)\<lparr>node_state := s\<rparr>]"
      "pstate (pwc n1) = overall (map node_state (nodes n1))"
    using handle_announcement [OF assms(6,11)] .
  let ?net1 = "net\<lparr>nodes := (nodes net)[j := (nodes net ! j)\<lparr>from_node := Some (inp\<lparr>i_text := rest\<rparr>)\<rparr>]\<rparr>"
  obtain out where one: "monitor_message (pwc_handle junk) collate j net buffer n = Some (?net1, Some (msg @ [nl]), n1, out)"
    using message_of_line [where handle_message = "pwc_handle junk" and ctx = n and ctx' = n1, OF assms(1-5) n1(1)] by blast
  have k: "k < length (nodes n1)" using assms(12) n1(2) by simp
  obtain n2 where n2: "pwc_handle junk k (msg @ [nl]) n1 = Some n2" "nodes n2 = (nodes n1)[k := (nodes n1 ! k)\<lparr>node_state := s\<rparr>]"
    using handle_announcement [OF assms(6) k] by metis
  have "from_node (nodes ?net1 ! k) = Some inp'" using assms(7,10) by simp
  then obtain net2 out' where two: "monitor_message (pwc_handle junk) collate k ?net1 (Some (msg @ [nl])) n1 = Some (net2, Some (msg @ [nl]), n2, out')"
    using message_of_end [where handle_message = "pwc_handle junk" and ctx = n1 and ctx' = n2, OF _ assms(8,9) n2(1)] by blast
  have "node_state (nodes n2 ! k) = s" using n2(2) k by simp
  with one n1(2,3) two show ?thesis by blast
qed

lemma closed_log_repeats_an_announcement_witness:
  "\<exists>net1 b n1 out net2 n2 out'.
      monitor_message (pwc_handle []) False 0
        (nexus_create\<lparr>nodes := [example_node 0 (''STATE = recording'' @ nl # []), example_node 1 []]\<rparr>) None
        (controller0 dada_pwc_clocking [client_node 0 [], client_node 1 []]) = Some (net1, b, n1, out)
    \<and> monitor_message (pwc_handle []) False 1 net1 b n1 = Some (net2, b, n2, out')
    \<and> node_state (nodes n2 ! 1) = dada_pwc_recording"
proof -
  let ?net = "nexus_create\<lparr>nodes := [example_node 0 (''STATE = recording'' @ nl # []), example_node 1 []]\<rparr>"
  let ?n = "controller0 dada_pwc_clocking [client_node 0 [], client_node 1 []]"
  let ?inp = "\<lparr>i_error = False, i_text = ''STATE = recording'' @ nl # []\<rparr>" and ?stop = "\<lparr>i_error = False, i_text = []\<rparr>"
  have src: "from_node (nodes ?net ! 0) = Some ?inp" "from_node (nodes ?net ! 1) = Some ?stop"
    by (simp_all add: example_node_def)
  have msg: "nl \<notin> set ''STATE = recording''" "announces (''STATE = recording'' @ [nl]) dada_pwc_recording" by code_simp+
  show ?thesis
    using closed_log_repeats_an_announcement [where n = ?n and junk = "[]" and collate = False and buffer = None,
        OF src(1) _ _ msg(1) _ msg(2) src(2)] by auto
qed

end
