(* ===== verification/Disk_Array.thy ===== *)
theory Disk_Array
  imports C_String
begin

text \<open>
  The disks that data files are written to (\<^verbatim>\<open>src/disk_array.c\<close>, \<^verbatim>\<open>src/disk_array.h\<close>), and as much of the
  file system as the programs use: a file is its bytes and whether its owner may write it. What \<open>statfs\<close> and
  \<open>stat\<close> report of a path is a parameter. Memory is taken to be available, and paths to fit \<open>FILENAME_MAX\<close>.
\<close>

record disk_file =
  f_bytes :: "byte list"
  f_writable :: bool

type_synonym files = "string \<rightharpoonup> disk_file"

text \<open>Of a path: the size of its file system and the free part of it in blocks, the size of a block, the device.\<close>

record path_status =
  f_blocks :: u64
  f_bfree :: u64
  f_bsize :: u64
  st_dev :: nat

type_synonym disk_status = "string \<rightharpoonup> path_status"

section \<open>The array\<close>

record disk =
  device :: nat
  path :: string
  bsize :: u64

record disk_array =
  disks :: "disk list"
  space :: u64
  overwrite :: bool

definition disk_array_create :: disk_array where
  "disk_array_create = \<lparr>disks = [], space = 0, overwrite = False\<rparr>"

definition disk_array_add :: "disk_status \<Rightarrow> disk_array \<Rightarrow> string \<Rightarrow> int \<times> disk_array" where
  "disk_array_add statfs a p =
     (case statfs p of
        None \<Rightarrow> (- 1, a)
      | Some info \<Rightarrow>
          if st_dev info \<in> device ` set (disks a) then (- 1, a)
          else (0, a\<lparr>disks := disks a @ [\<lparr>device = st_dev info, path = p, bsize = f_bsize info\<rparr>],
                    space := space a + f_blocks info * f_bsize info\<rparr>))"

definition disk_array_set_overwrite :: "disk_array \<Rightarrow> bool \<Rightarrow> disk_array" where
  "disk_array_set_overwrite a v = a\<lparr>overwrite := v\<rparr>"

definition disk_array_get_total :: "disk_array \<Rightarrow> u64" where
  "disk_array_get_total a = space a"

definition get_available :: "disk_status \<Rightarrow> string \<Rightarrow> u64" where
  "get_available statfs p = (case statfs p of None \<Rightarrow> 0 | Some info \<Rightarrow> f_bfree info * f_bsize info)"

definition disk_array_get_available :: "disk_status \<Rightarrow> disk_array \<Rightarrow> u64" where
  "disk_array_get_available statfs a = sum_list (map (\<lambda>d. get_available statfs (path d)) (disks a))"

section \<open>Files on the array\<close>

text \<open>
  \<open>open\<close> for writing a file that is made if need be, and emptied: false when it fails. It may be there already only
  when \<open>O_EXCL\<close> is not set, and has to be writable then.
\<close>

definition open_file :: "bool \<Rightarrow> files \<Rightarrow> string \<Rightarrow> bool \<times> files" where
  "open_file over fs name =
     (case fs name of
        None \<Rightarrow> (True, fs(name \<mapsto> \<lparr>f_bytes = [], f_writable = over\<rparr>))
      | Some f \<Rightarrow> if over \<and> f_writable f then (True, fs(name \<mapsto> f\<lparr>f_bytes := []\<rparr>)) else (False, fs))"

text \<open>
  The first disk with more room than asked for. The result is whether the file is open, its name, which has the path of
  the disk in front even when it could not be opened, and the best size of a buffer, if there was such a disk.
\<close>

definition disk_array_open ::
    "disk_status \<Rightarrow> disk_array \<Rightarrow> files \<Rightarrow> string \<Rightarrow> u64 \<Rightarrow> bool \<times> string \<times> u64 option \<times> files" where
  "disk_array_open statfs a fs filename filesize =
     (case filter (\<lambda>d. filesize < get_available statfs (path d)) (disks a) of
        [] \<Rightarrow> (False, filename, None, fs)
      | d # _ \<Rightarrow>
          let fullname = path d @ ''/'' @ filename; (ok, fs) = open_file (overwrite a) fs fullname
          in (ok, fullname, Some (bsize d), fs))"

text \<open>A file that is closed, and opened again at its end without \<open>O_DIRECT\<close>.\<close>

definition disk_array_reopen :: "files \<Rightarrow> string \<Rightarrow> bool" where
  "disk_array_reopen fs filename = (case fs filename of None \<Rightarrow> False | Some f \<Rightarrow> f_writable f)"

section \<open>What is kept\<close>

text \<open>No two disks of an array are on one device.\<close>

lemma disks_on_different_devices:
  assumes "distinct (map device (disks a))" and "disk_array_add statfs a p = (rc, a')"
  shows "distinct (map device (disks a')) \<and> (rc = 0 \<longleftrightarrow> disks a' \<noteq> disks a)"
  using assms by (auto simp: disk_array_add_def split: option.splits if_splits)

text \<open>Opening a file leaves every other file alone, and one that is there only loses its bytes if overwriting was allowed.\<close>

lemma open_keeps_files:
  assumes "disk_array_open statfs a fs filename n = (ok, name, b, fs')"
  shows "(\<forall>x. x \<noteq> name \<longrightarrow> fs' x = fs x) \<and> (\<not> ok \<longrightarrow> fs' = fs)
    \<and> (ok \<longrightarrow> map_option f_bytes (fs' name) = Some [] \<and> (fs name \<noteq> None \<longrightarrow> overwrite a))"
  using assms
  by (auto simp: disk_array_open_def open_file_def Let_def split: list.splits option.splits if_splits)

end
