(* ===== verification/Dada_Diskdb.thy ===== *)
theory Dada_Diskdb
  imports Dada_Client Disk_Array
begin

text \<open>
  The program that plays files back into a unit (\<^verbatim>\<open>src/dada_diskdb.c\<close>): the functions it gives to the main
  loop of the client, and the search for files that continue each other. An open descriptor is the name of the file and
  the place in it; files stay as they are, and \<open>read\<close> gives all that there is, up to the number asked for. The arrays of
  \<open>MAX_FILES\<close> elements are functions, for runs with no more files than that. The start time and
  the offset that the program keeps of a file are never looked at again; the messages of the log, the command line and
  running in the background are left out with them.
\<close>

record dada_diskdb =
  dk_filenames :: "string list"
  dk_continues :: "nat \<Rightarrow> bool"
  dk_file_sizes :: "nat \<Rightarrow> u64"
  dk_seek_bytes :: u64
  dk_header_read :: bool
  dk_cur_file :: nat
  dk_fd :: "(string \<times> nat) option"
  dk_files :: files
  dk_header :: string

definition diskdb_init :: "string list \<Rightarrow> u64 \<Rightarrow> files \<Rightarrow> dada_diskdb" where
  "diskdb_init names seek fs =
     \<lparr>dk_filenames = names, dk_continues = (\<lambda>_. False), dk_file_sizes = (\<lambda>_. 0), dk_seek_bytes = seek,
      dk_header_read = False, dk_cur_file = 0, dk_fd = None, dk_files = fs, dk_header = []\<rparr>"

section \<open>Descriptors\<close>

definition content :: "files \<Rightarrow> string \<Rightarrow> byte list" where
  "content fs name = (case fs name of None \<Rightarrow> [] | Some f \<Rightarrow> f_bytes f)"

text \<open>\<open>open\<close> of the file with the current number; behind the last name is a null pointer.\<close>

definition open_current :: "dada_diskdb \<Rightarrow> dada_diskdb" where
  "open_current d =
     d\<lparr>dk_fd := (if dk_cur_file d < length (dk_filenames d) \<and> dk_files d (dk_filenames d ! dk_cur_file d) \<noteq> None
                then Some (dk_filenames d ! dk_cur_file d, 0) else None)\<rparr>"

definition read_current :: "u64 \<Rightarrow> dada_diskdb \<Rightarrow> int \<times> byte list \<times> dada_diskdb" where
  "read_current n d =
     (case dk_fd d of
        None \<Rightarrow> (- 1, [], d)
      | Some (name, pos) \<Rightarrow>
          let new = take (unat n) (drop pos (content (dk_files d) name))
          in (int (length new), new, d\<lparr>dk_fd := Some (name, pos + length new)\<rparr>))"

definition seek_to :: "nat \<Rightarrow> dada_diskdb \<Rightarrow> dada_diskdb" where
  "seek_to pos d = d\<lparr>dk_fd := map_option (\<lambda>(name, _). (name, pos)) (dk_fd d)\<rparr>"

definition seek_on :: "nat \<Rightarrow> dada_diskdb \<Rightarrow> dada_diskdb" where
  "seek_on n d = d\<lparr>dk_fd := map_option (\<lambda>(name, pos). (name, pos + n)) (dk_fd d)\<rparr>"

section \<open>Closing a file, and going on with the next\<close>

text \<open>A descriptor that is not open cannot be closed. Only the end of the last file makes it invalid.\<close>

definition diskdb_close :: "dada_diskdb dada_client \<Rightarrow> u64 \<Rightarrow> (int \<times> dada_diskdb dada_client) option" where
  "diskdb_close cl bytes_written =
     (let d = cl_context cl
      in if dk_fd d = None then Some (- 1, cl)
         else
           let d = d\<lparr>dk_cur_file := dk_cur_file d + 1, dk_fd := None\<rparr>
           in Some (0, cl\<lparr>cl_context := d, cl_quit := cl_quit cl \<or> length (dk_filenames d) \<le> dk_cur_file d\<rparr>))"

definition open_next_contiguous_file :: "dada_diskdb dada_client \<Rightarrow> (int \<times> dada_diskdb dada_client) option" where
  "open_next_contiguous_file cl =
     do {
       (rc, cl) \<leftarrow> diskdb_close cl 0;
       if rc < 0 then Some (- 1, cl)
       else
         let d = open_current (cl_context cl)
         in if dk_fd d = None then Some (- 1, cl\<lparr>cl_context := d\<rparr>)
            else Some (0, cl\<lparr>cl_context := seek_to (unat (cl_header_size cl)) d\<rparr>)
     }"

section \<open>Reading\<close>

text \<open>
  The first call of the program is for the header, which is printed onto itself as a format: \<open>None\<close> if there is a
  conversion in it. (Nothing is written then: the bytes are there.) Later calls read, at most from two files. What is read
  of the next file is added to a number of bytes without sign.
\<close>

definition file_read_function :: "dada_diskdb dada_client \<Rightarrow> u64 \<Rightarrow> (int \<times> byte list \<times> dada_diskdb dada_client) option" where
  "file_read_function cl data_size =
     (let d = cl_context cl
      in if \<not> dk_header_read d then
           if CHR ''%'' \<in> set (dk_header d) then None
           else Some (c_int64 data_size, [],
                      cl\<lparr>cl_context := seek_to (unat (cl_header_size cl)) (d\<lparr>dk_header_read := True\<rparr>)\<rparr>)
         else
           let d = (if 0 < dk_seek_bytes d then (seek_on (unat (dk_seek_bytes d)) d)\<lparr>dk_seek_bytes := 0\<rparr> else d);
               (k, new, d) = read_current data_size d; bytes_read = word_of_int k :: u64; cl = cl\<lparr>cl_context := d\<rparr>
           in if bytes_read < data_size \<and> dk_continues d (dk_cur_file d) then
                do {
                  (rc, cl) \<leftarrow> open_next_contiguous_file cl;
                  if rc < 0 then Some (- 1, new, cl)
                  else case read_current (data_size - bytes_read) (cl_context cl) of
                         (k, rest, d) \<Rightarrow> Some (c_int64 (bytes_read + word_of_int k), new @ rest, cl\<lparr>cl_context := d\<rparr>)
                }
              else Some (c_int64 bytes_read, new, cl))"

definition file_read_block_function ::
    "dada_diskdb dada_client \<Rightarrow> u64 \<Rightarrow> u64 \<Rightarrow> (int \<times> byte list \<times> dada_diskdb dada_client) option" where
  "file_read_block_function cl data_size block_id = file_read_function cl data_size"

section \<open>Opening a file\<close>

text \<open>
  The header goes into the sub-block of the header ring, and the size of the run of files into the header. The size of
  the header that was read is compared without sign; \<open>page\<close> is the size of a header that does not say. A start time of
  20 characters overruns its buffer.
\<close>

definition header_number :: "string \<Rightarrow> string \<Rightarrow> u64 option" where
  "header_number h w = (case ascii_header_get h w sscanf_lu of (rc, v) \<Rightarrow> if rc = 1 then v else None)"

definition header_word :: "string \<Rightarrow> string \<Rightarrow> string option" where
  "header_word h w = (case ascii_header_get h w sscanf_s of (rc, v) \<Rightarrow> if rc = 1 then v else None)"

definition fits :: "nat \<Rightarrow> string option \<Rightarrow> bool" where
  "fits n v = (case v of None \<Rightarrow> True | Some u \<Rightarrow> length u < n)"

definition diskdb_open ::
    "u64 \<Rightarrow> ring \<Rightarrow> dada_diskdb dada_client \<Rightarrow> (int \<times> ring \<times> dada_diskdb dada_client) option" where
  "diskdb_open page r cl =
     (case cl_header cl of
        Some (Shared b) \<Rightarrow>
          let d = open_current (cl_context cl)
          in if dk_fd d = None then Some (- 1, r, cl\<lparr>cl_context := d\<rparr>)
             else
               let (k, new, d) = read_current (cl_header_size cl) d; r = put_bytes b 0 new r; cl = cl\<lparr>cl_context := d\<rparr>
               in if word_of_int k < cl_header_size cl then map_option (\<lambda>(_, cl). (- 1, r, cl)) (diskdb_close cl 0)
                  else
                    let hdr_size = (case header_number (block_string r b) ''HDR_SIZE'' of Some n \<Rightarrow> n | None \<Rightarrow> page)
                    in if cl_header_size cl < hdr_size then Some (- 1, r, cl)
                       else
                         let file_size = dk_file_sizes d (dk_cur_file d);
                             (_, h) = ascii_header_set (block_string r b) ''FILE_SIZE'' (Some (decimal (unat file_size)));
                             r = put_string b h r
                         in if \<not> fits 20 (header_word h ''UTC_START'') then None
                            else Some (0, r, cl\<lparr>cl_header_size := hdr_size, optimal_bytes := 1024 * 1024,
                                             transfer_bytes := file_size - dk_seek_bytes d,
                                             cl_context := seek_to 0 (d\<lparr>dk_header := h\<rparr>)\<rparr>)
      | _ \<Rightarrow> None)"

section \<open>Files that continue each other\<close>

text \<open>
  What is known of the files so far: the arrays, and the start time, offset and size of the last file looked at, whose
  header is in the buffer still.
\<close>

record contiguity =
  cg_continues :: "nat \<Rightarrow> bool"
  cg_sizes :: "nat \<Rightarrow> u64"
  cg_utc_start :: string
  cg_obs_offset :: u64
  cg_file_size :: u64
  cg_buffer :: "byte list"

text \<open>A file that is not there leaves the buffer as it is.\<close>

definition read_header :: "files \<Rightarrow> nat \<Rightarrow> string \<Rightarrow> byte list \<Rightarrow> byte list" where
  "read_header fs hdr_size name old =
     (let new = take hdr_size (content fs name) in new @ drop (length new) old)"

text \<open>The size of a file is added to those of all files of the run before it.\<close>

fun add_to_run :: "(nat \<Rightarrow> bool) \<Rightarrow> u64 \<Rightarrow> nat \<Rightarrow> (nat \<Rightarrow> u64) \<Rightarrow> nat \<Rightarrow> u64" where
  "add_to_run co n 0 sz = (if co 0 then sz(0 := sz 0 + n) else sz)"
| "add_to_run co n (Suc i) sz = (if co (Suc i) then add_to_run co n i (sz(Suc i := sz (Suc i) + n)) else sz)"

definition extend_run :: "nat \<Rightarrow> string \<Rightarrow> u64 \<Rightarrow> u64 \<Rightarrow> contiguity \<Rightarrow> contiguity" where
  "extend_run i utc offset sz g =
     (let g = g\<lparr>cg_sizes := (cg_sizes g)(i := sz)\<rparr>;
          g = (if cg_utc_start g = utc \<and> offset = cg_obs_offset g + cg_file_size g
               then let co = (cg_continues g)(i - 1 := True)
                    in g\<lparr>cg_continues := co, cg_sizes := add_to_run co sz (i - 1) (cg_sizes g)\<rparr>
               else g)
      in g\<lparr>cg_utc_start := utc, cg_obs_offset := offset, cg_file_size := sz\<rparr>)"

text \<open>
  A later file without one of the three ends the search: the size of the file cannot be asked for then, because it has
  been closed. \<open>None\<close> is a start time that overruns its buffer, or one of 19 characters where a copy of it
  would have no end.
\<close>

fun check_later :: "files \<Rightarrow> nat \<Rightarrow> nat \<Rightarrow> nat \<Rightarrow> string list \<Rightarrow> contiguity \<Rightarrow> contiguity option" where
  "check_later fs hdr_size first_utc i [] g = Some g"
| "check_later fs hdr_size first_utc i (name # names) g =
     (let g = g\<lparr>cg_continues := (cg_continues g)(i - 1 := False), cg_buffer := read_header fs hdr_size name (cg_buffer g)\<rparr>;
          h = bytes_string (cg_buffer g)
      in case header_word h ''UTC_START'' of
           None \<Rightarrow> Some g
         | Some utc \<Rightarrow>
             if 20 \<le> length utc \<or> length utc = 19 \<and> first_utc < 19 then None
             else case (header_number h ''OBS_OFFSET'', header_number h ''FILE_SIZE'') of
                    (Some offset, Some sz) \<Rightarrow> check_later fs hdr_size first_utc (i + 1) names (extend_run i utc offset sz g)
                  | _ \<Rightarrow> Some g)"

text \<open>
  \<open>page\<close> and \<open>tail\<close> are for the size of the header (see \<open>ascii_header_get_size_fd\<close>), \<open>fresh\<close> is what is in the
  buffer before anything is read. \<open>None\<close> also stands for a first file that is not there, or has no size
  of its header. The result is not looked at beyond its sign.
\<close>

definition check_contiguity :: "u64 \<Rightarrow> string \<Rightarrow> byte list \<Rightarrow> dada_diskdb \<Rightarrow> (int \<times> dada_diskdb) option" where
  "check_contiguity page tail fresh d =
     (case dk_filenames d of
        [] \<Rightarrow> Some (0, d)
      | name # names \<Rightarrow>
          let fs = dk_files d;
              sz = ascii_header_get_size_fd (unat page) (map char_of_byte (content fs name)) tail;
              hdr_size = unat sz
          in if fs name = None \<or> sz = - 1 then None
             else
               let buffer = read_header fs hdr_size name fresh; h = bytes_string buffer
               in case header_word h ''UTC_START'' of
                    None \<Rightarrow> Some (- 1, d)
                  | Some utc \<Rightarrow>
                      if 20 \<le> length utc then None
                      else case header_number h ''OBS_OFFSET'' of
                        None \<Rightarrow> Some (- 1, d)
                      | Some offset \<Rightarrow>
                          let fsize = (case header_number h ''FILE_SIZE'' of
                                Some n \<Rightarrow> n | None \<Rightarrow> of_nat (length (content fs name)) - sz)
                          in map_option (\<lambda>g. (0, d\<lparr>dk_continues := cg_continues g, dk_file_sizes := cg_sizes g\<rparr>))
                               (check_later fs hdr_size (length utc) 1 names
                                 \<lparr>cg_continues = dk_continues d, cg_sizes = (dk_file_sizes d)(0 := fsize), cg_utc_start = utc,
                                  cg_obs_offset = offset, cg_file_size = fsize, cg_buffer = buffer\<rparr>))"

section \<open>The program\<close>

definition diskdb_functions :: "u64 \<Rightarrow> bool \<Rightarrow> dada_diskdb client_functions" where
  "diskdb_functions page zero_copy =
     \<lparr>open_function = diskdb_open page, io_take = (\<lambda>cl d. None), io_give = file_read_function, io_block_take = None,
      io_block_give = (if zero_copy then Some file_read_block_function else None), close_function = diskdb_close\<rparr>"

text \<open>One round of the loop of \<open>main\<close>: a transfer, which sets \<open>quit\<close> itself behind the last file. An error ends the program.\<close>

definition diskdb_round ::
    "u64 \<Rightarrow> bool \<Rightarrow> bool \<Rightarrow> (nat \<Rightarrow> ring \<Rightarrow> ring) \<Rightarrow> ring \<Rightarrow> ring \<Rightarrow> dada_diskdb dada_client
     \<Rightarrow> (int \<times> ring \<times> ring \<times> dada_diskdb dada_client) option" where
  "diskdb_round page zero_copy once env hr dr cl =
     map_option (\<lambda>(rc, hr, dr, cl). if rc < 0 then (- 1, hr, dr, cl) else (0, hr, dr, cl\<lparr>cl_quit := cl_quit cl \<or> once\<rparr>))
       (dada_client_write page (diskdb_functions page zero_copy) env hr dr cl)"

end
