(* ===== verification/Diskdb_Runs.thy ===== *)
theory Diskdb_Runs
  imports Dada_Diskdb
begin

text \<open>
  How large the search for files that continue each other takes a run of files to be, which is the length of the transfer
  that plays the run back.
\<close>

section \<open>Headers\<close>

text \<open>What the header of a file says: the start time, the offset and the size of the data.\<close>

definition described :: "files \<Rightarrow> nat \<Rightarrow> string \<Rightarrow> string \<times> u64 \<times> u64 \<Rightarrow> bool" where
  "described fs H name m =
     (let d = take H (content fs name); h = bytes_string d
      in length d = H \<and> 0 \<in> set d \<and> header_word h ''UTC_START'' = Some (fst m) \<and> length (fst m) = 19
         \<and> header_number h ''OBS_OFFSET'' = Some (fst (snd m)) \<and> header_number h ''FILE_SIZE'' = Some (snd (snd m)))"

text \<open>The header after the first one has the same start time, and begins where the data of the first end.\<close>

definition joined :: "(string \<times> u64 \<times> u64) list \<Rightarrow> nat \<Rightarrow> bool" where
  "joined ms i \<longleftrightarrow>
     Suc i < length ms \<and> fst (ms ! Suc i) = fst (ms ! i) \<and> fst (snd (ms ! Suc i)) = fst (snd (ms ! i)) + snd (snd (ms ! i))"

lemma read_header_text:
  assumes "described fs H name m"
  shows "bytes_string (read_header fs H name old) = bytes_string (take H (content fs name))"
proof -
  have "0 \<in> set (take H (content fs name))" using assms by (simp add: described_def Let_def)
  then have "takeWhile (\<lambda>x. x \<noteq> 0) (take H (content fs name) @ x) = takeWhile (\<lambda>x. x \<noteq> 0) (take H (content fs name))" for x
    by (auto intro: takeWhile_append1)
  then show ?thesis by (simp add: bytes_string_def read_header_def Let_def)
qed

lemma described_words:
  assumes "described fs H name m"
  defines "h \<equiv> bytes_string (take H (content fs name))"
  shows "header_word h ''UTC_START'' = Some (fst m)" and "length (fst m) = 19" and "header_number h ''OBS_OFFSET'' = Some (fst (snd m))"
    and "header_number h ''FILE_SIZE'' = Some (snd (snd m))" and "fs name \<noteq> None"
  using assms by (auto simp: described_def Let_def h_def content_def split: option.splits)

section \<open>Sizes\<close>

lemma add_to_run_at:
  "add_to_run co n k sz j = (if j \<le> k \<and> (\<forall>l. j \<le> l \<and> l \<le> k \<longrightarrow> co l) then sz j + n else sz j)"
proof (induction k arbitrary: sz)
  case (Suc k)
  have "(\<forall>l. j \<le> l \<and> l \<le> Suc k \<longrightarrow> co l) \<longleftrightarrow> co (Suc k) \<and> (\<forall>l. j \<le> l \<and> l \<le> k \<longrightarrow> co l)" if "j \<le> k"
    using that by (auto simp: le_Suc_eq)
  then show ?case using Suc by (cases "j = Suc k") (auto simp: le_Suc_eq)
qed auto

text \<open>The first \<open>k\<close> files have been looked at.\<close>

definition sized :: "(string \<times> u64 \<times> u64) list \<Rightarrow> nat \<Rightarrow> (nat \<Rightarrow> bool) \<Rightarrow> (nat \<Rightarrow> u64) \<Rightarrow> bool" where
  "sized ms k co sz \<longleftrightarrow>
     (\<forall>j. co j \<longleftrightarrow> Suc j < k \<and> joined ms j) \<and> (\<forall>j<k. sz j = snd (snd (ms ! j)) + (if co j then sz (Suc j) else 0))"

lemma sized_next:
  assumes "sized ms k co sz" and "0 < k" and "k < length ms" and "n = snd (snd (ms ! k))"
  shows "if joined ms (k - 1)
    then sized ms (Suc k) (co(k - 1 := True)) (add_to_run (co(k - 1 := True)) n (k - 1) (sz(k := n)))
    else sized ms (Suc k) (co(k - 1 := False)) (sz(k := n))"
proof -
  obtain i where i: "k = Suc i" using assms(2) by (cases k) auto
  have co: "co j \<longleftrightarrow> Suc j < k \<and> joined ms j" for j using assms(1) by (simp add: sized_def)
  have sz: "sz j = snd (snd (ms ! j)) + (if co j then sz (Suc j) else 0)" if "j < k" for j
    using assms(1) that by (simp add: sized_def)
  show ?thesis
  proof (cases "joined ms i")
    case False
    then show ?thesis using co sz assms(4) by (auto simp: i sized_def less_Suc_eq)
  next
    case True
    let ?co = "co(i := True)"
    define run where "run j \<longleftrightarrow> (\<forall>l. j \<le> l \<and> l \<le> i \<longrightarrow> ?co l)" for j
    have run: "run j \<longleftrightarrow> ?co j \<and> run (Suc j)" if "j < i" for j
      using that unfolding run_def by (metis Suc_leI le_antisym le_less_Suc_eq not_less_eq_eq order.refl nat_less_le le_trans lessI less_imp_le_nat)
    define sz' where "sz' = add_to_run ?co n i (sz(k := n))"
    have new: "sz' j = (if j = k then n else if j \<le> i \<and> run j then sz j + n else sz j)" for j
      by (auto simp: sz'_def add_to_run_at i run_def)
    have "sz' j = snd (snd (ms ! j)) + (if ?co j then sz' (Suc j) else 0)" if "j < Suc k" for j
    proof -
      consider "j = k" | "j = i" | "j < i" using \<open>j < Suc k\<close> i by linarith
      then show ?thesis
      proof cases
        case 1
        then show ?thesis using co [of k] assms(4) i by (simp add: new)
      next
        case 2
        have "run i" by (simp add: run_def)
        then show ?thesis using sz [of i] co [of i] 2 i by (simp add: new)
      next
        case 3
        then show ?thesis using sz [of j] run [OF 3] i by (auto simp: new)
      qed
    qed
    moreover have "?co j \<longleftrightarrow> Suc j < Suc k \<and> joined ms j" for j
      using True by (cases "j = i") (simp_all add: co i less_Suc_eq)
    ultimately have "sized ms (Suc k) ?co sz'" unfolding sized_def by blast
    then show ?thesis using True unfolding sz'_def by (simp add: i)
  qed
qed


text \<open>The rest of the files, when all their headers can be read.\<close>

lemma later_files_sized:
  assumes "check_later fs H first_utc k names g = Some g'" and "list_all2 (described fs H) names (drop k ms)" and "0 < k"
    and "k \<le> length ms" and "first_utc = 19" and "sized ms k (cg_continues g) (cg_sizes g)"
    and "(cg_utc_start g, cg_obs_offset g, cg_file_size g) = ms ! (k - 1)"
  shows "sized ms (length ms) (cg_continues g') (cg_sizes g')"
  using assms
proof (induction names arbitrary: k g)
  case Nil
  then show ?case by simp
next
  case (Cons name names)
  let ?g = "g\<lparr>cg_continues := (cg_continues g)(k - 1 := False), cg_buffer := read_header fs H name (cg_buffer g)\<rparr>"
  obtain m where m: "drop k ms = m # drop (Suc k) ms" "described fs H name m" "list_all2 (described fs H) names (drop (Suc k) ms)"
    and k: "k < length ms" "m = ms ! k"
    using Cons.prems(2,4) by (cases "k < length ms") (auto simp: Cons_nth_drop_Suc [symmetric] list_all2_Cons1)
  obtain utc offset n where mm: "m = (utc, offset, n)" by (cases m)
  note words = described_words [OF m(2)] and hd_text = read_header_text [OF m(2)]
  let ?g2 = "extend_run k utc offset n ?g"
  have go: "check_later fs H first_utc (k + 1) names ?g2 = Some g'"
    using Cons.prems(1,5) words hd_text mm by (simp add: Let_def)
  have last: "cg_utc_start g = fst (ms ! (k - 1))" "cg_obs_offset g = fst (snd (ms ! (k - 1)))"
      "cg_file_size g = snd (snd (ms ! (k - 1)))"
    using Cons.prems(7) [symmetric] by simp_all
  have at: "ms ! k = (utc, offset, n)" using k(2) mm by simp
  have "joined ms (k - 1) \<longleftrightarrow> cg_utc_start g = utc \<and> offset = cg_obs_offset g + cg_file_size g"
    using Cons.prems(3) k(1) last at by (auto simp: joined_def)
  then have "sized ms (Suc k) (cg_continues ?g2) (cg_sizes ?g2)"
    using sized_next [OF Cons.prems(6,3) k(1), of n] at by (auto simp: extend_run_def Let_def split: if_splits)
  moreover have "(cg_utc_start ?g2, cg_obs_offset ?g2, cg_file_size ?g2) = ms ! (k + 1 - 1)"
    using at by (simp add: extend_run_def Let_def)
  ultimately show ?case
    using Cons.IH [of "k + 1" ?g2] Cons.prems(5) go m(3) k(1) by simp
qed

text \<open>C35. The search for files that continue each other finds exactly the files that begin where the one before ends, in the
  same observation, and takes a run to be as large as its files together: the size of each file is its own and that of the run
  that continues it. It is what the transfer that plays the run back is limited to.\<close>

theorem runs_are_found_with_their_size:
  assumes "check_contiguity page tail fresh d = Some (rc, d')" and "list_all2 (described (dk_files d) H) (dk_filenames d) ms"
    and "dk_filenames d \<noteq> []" and "\<forall>j. \<not> dk_continues d j"
    and "ascii_header_get_size_fd (unat page) (map char_of_byte (content (dk_files d) (hd (dk_filenames d)))) tail = of_nat H"
    and "H < 2 ^ 64"
  shows "rc = 0 \<and> (\<forall>j<length ms. (dk_continues d' j \<longleftrightarrow> joined ms j)
     \<and> dk_file_sizes d' j = snd (snd (ms ! j)) + (if dk_continues d' j then dk_file_sizes d' (Suc j) else 0))"
proof -
  let ?fs = "dk_files d"
  obtain name names where names: "dk_filenames d = name # names" using assms(3) by (cases "dk_filenames d") auto
  obtain m ms' where ms: "ms = m # ms'" "described ?fs H name m" "list_all2 (described ?fs H) names ms'"
    using assms(2) names by (auto simp: list_all2_Cons1)
  obtain utc offset n where m: "m = (utc, offset, n)" by (cases m)
  note words = described_words [OF ms(2)] and hd_text = read_header_text [OF ms(2), of fresh]
  have H: "unat (of_nat H :: u64) = H" using assms(6) by (simp add: unat_of_nat)
  let ?g = "\<lparr>cg_continues = dk_continues d, cg_sizes = (dk_file_sizes d)(0 := n), cg_utc_start = utc,
      cg_obs_offset = offset, cg_file_size = n, cg_buffer = read_header ?fs H name fresh\<rparr>"
  obtain g where g: "check_later ?fs H 19 1 names ?g = Some g" "rc = 0"
      "d' = d\<lparr>dk_continues := cg_continues g, dk_file_sizes := cg_sizes g\<rparr>"
    using assms(1,5) words hd_text H m names
    by (auto simp: check_contiguity_def Let_def split: if_splits)
  have "sized ms 1 (cg_continues ?g) (cg_sizes ?g)" using assms(4) ms(1) m by (simp add: sized_def)
  then have "sized ms (length ms) (cg_continues g) (cg_sizes g)"
    using later_files_sized [OF g(1), of ms] ms m by simp
  then show ?thesis using g(2,3) by (auto simp: sized_def joined_def)
qed

text \<open>A sample: a file without data, given twice.\<close>

definition sample_head :: string where
  "sample_head = ''HDR_SIZE 99'' @ [nl] @ ''OBS_OFFSET 0'' @ [nl] @ ''FILE_SIZE 0'' @ [nl] @ ''UTC_START 2013-01-01-00:00:00'' @ [nl]"

definition sample_bytes :: "byte list" where
  "sample_bytes = map byte_of_char sample_head @ replicate (99 - length sample_head) 0"

definition sample_twice :: dada_diskdb where
  "sample_twice = diskdb_init [''f'', ''f''] 0 [''f'' \<mapsto> \<lparr>f_bytes = sample_bytes, f_writable = False\<rparr>]"

lemma number_behind_blank:
  assumes "n < 2 ^ 63"
  shows "sscanf_lu (CHR '' '' # decimal n @ nl # y) = (1, Some (of_nat n))"
    and "sscanf_ld (CHR '' '' # decimal n @ nl # y) = (1, Some (int n))"
proof -
  have "holds_value (CHR '' '' # decimal n @ nl # y) (decimal n)"
    unfolding holds_value_def by (rule exI [of _ "'' ''"], rule exI [of _ "nl # y"]) (simp add: c_space_def nl_def)
  then show "sscanf_lu (CHR '' '' # decimal n @ nl # y) = (1, Some (of_nat n))"
      "sscanf_ld (CHR '' '' # decimal n @ nl # y) = (1, Some (int n))"
    using sscanf_lu_value [of _ n] sscanf_ld_value [of _ n] assms by simp_all
qed

lemma get_behind_word:
  assumes "ascii_header_find h w = Some k" and "drop k h = w @ CHR '' '' # v" and "set w \<inter> set ('' '' @ [tab, nl]) = {}"
  shows "ascii_header_get h w scan = scan (CHR '' '' # v)"
proof -
  have "strcspn (drop k h) ('' '' @ [tab, nl]) = length w"
    using assms(3) unfolding assms(2) strcspn_def by (subst takeWhile_append2) auto
  moreover have "drop (k + length w) h = drop (length w) (drop k h)" by (simp add: add.commute)
  ultimately show ?thesis using assms(1,2) by (simp add: ascii_header_get_def)
qed

lemma sample_words:
  "bytes_string (take 99 sample_bytes) = sample_head"
  "header_word sample_head ''UTC_START'' = Some ''2013-01-01-00:00:00''"
  "length sample_bytes = 99"
  "ascii_header_find sample_head ''OBS_OFFSET'' = Some 12" "drop 12 sample_head = ''OBS_OFFSET'' @ CHR '' '' # ''0'' @ nl # drop 25 sample_head"
  "ascii_header_find sample_head ''FILE_SIZE'' = Some 25" "drop 25 sample_head = ''FILE_SIZE'' @ CHR '' '' # ''0'' @ nl # drop 37 sample_head"
  "ascii_header_find sample_head ''HDR_SIZE'' = Some 0" "drop 0 sample_head = ''HDR_SIZE'' @ CHR '' '' # ''99'' @ nl # drop 12 sample_head"
  "takeWhile (\<lambda>c. c \<noteq> CHR 0x00) (map char_of_byte sample_bytes @ []) = sample_head"
  "decimal 0 = ''0''" "decimal 99 = ''99''"
  unfolding sample_bytes_def sample_head_def by code_simp+

lemma sample_header_numbers:
  "header_number sample_head ''OBS_OFFSET'' = Some 0" "header_number sample_head ''FILE_SIZE'' = Some 0"
  "ascii_header_get sample_head ''HDR_SIZE'' sscanf_ld = (1, Some 99)"
  using number_behind_blank(1) [of 0, unfolded sample_words(11)] number_behind_blank(2) [of 99, unfolded sample_words(12)]
  by (simp_all add: header_number_def get_behind_word [OF sample_words(4,5)] get_behind_word [OF sample_words(6,7)]
      get_behind_word [OF sample_words(8,9)] nl_def tab_def)

lemma runs_are_found_with_their_size_witness:
  "\<exists>d'. check_contiguity 99 [] (replicate 100 0) sample_twice = Some (0, d') \<and> dk_continues d' 0 \<and> \<not> dk_continues d' 1"
proof -
  let ?fs = "dk_files sample_twice"
  have c: "content ?fs ''f'' = sample_bytes" "dk_filenames sample_twice = [''f'', ''f'']" "?fs ''f'' \<noteq> None"
      "\<forall>j. \<not> dk_continues sample_twice j"
    by (simp_all add: sample_twice_def diskdb_init_def content_def)
  let ?m = "(''2013-01-01-00:00:00'', 0, 0)"
  have "(0 :: byte) \<in> set (take 99 sample_bytes)"
    unfolding sample_bytes_def sample_head_def by code_simp
  then have desc: "described ?fs 99 ''f'' ?m"
    using sample_words(1,2,3) sample_header_numbers(1,2) c(1) by (simp add: described_def Let_def)
  have sz: "ascii_header_get_size_fd (unat (99 :: u64)) (map char_of_byte (content ?fs (hd (dk_filenames sample_twice)))) [] = of_nat 99"
    using sample_words(3,10) sample_header_numbers(3) c(1,2) by (simp add: ascii_header_get_size_fd_def)
  obtain d' rc where run: "check_contiguity 99 [] (replicate 100 0) sample_twice = Some (rc, d')"
    using c sz described_words [OF desc] read_header_text [OF desc]
    by (simp add: check_contiguity_def Let_def)
  show ?thesis
    using runs_are_found_with_their_size [OF run, of 99 "[?m, ?m]"] run desc c(2,4) sz
    by (auto simp: joined_def)
qed

end
