(* ===== verification/Dada_Dbdisk.thy ===== *)
theory Dada_Dbdisk
  imports Dada_Client Disk_Array
begin

text \<open>
  The program that records the data of a unit on disk (\<^verbatim>\<open>src/dada_dbdisk.c\<close>): the functions it gives to the
  main loop of the client. Every transfer goes to a file of its own, which starts with the header. The descriptor that
  the client keeps is the name of the open file here, and writing goes to its end. What \<open>write\<close> returns is a
  parameter: \<open>wr k n\<close> for \<open>n\<close> bytes in the \<open>k\<close>-th call. The messages of the log, the command line and running
  in the background are left out.
\<close>

record dada_dbdisk =
  db_array :: disk_array
  db_utc_start :: string
  db_obs_offset :: u64
  db_file_name :: string
  db_file_number :: u32
  db_o_direct :: bool
  db_optimal_bytes :: u64
  db_fd :: "string option"
  db_files :: files
  db_writes :: nat

definition DADA_DBDISK_INIT :: "disk_array \<Rightarrow> files \<Rightarrow> dada_dbdisk" where
  "DADA_DBDISK_INIT a fs =
     \<lparr>db_array = a, db_utc_start = [], db_obs_offset = 0, db_file_name = [], db_file_number = 0, db_o_direct = False,
      db_optimal_bytes = 0, db_fd = None, db_files = fs, db_writes = 0\<rparr>"

section \<open>Opening a file\<close>

definition zero_padded :: "nat \<Rightarrow> nat \<Rightarrow> string" where
  "zero_padded w n = replicate (w - length (decimal n)) CHR ''0'' @ decimal n"

definition dbdisk_file_name :: "string \<Rightarrow> u64 \<Rightarrow> u32 \<Rightarrow> string" where
  "dbdisk_file_name utc offset num =
     utc @ ''_'' @ zero_padded 16 (unat offset) @ ''.'' @ zero_padded 6 (unat num) @ ''.dada''"

text \<open>The number behind a keyword, or one to do without.\<close>

definition header_u64 :: "string \<Rightarrow> string \<Rightarrow> u64 \<Rightarrow> u64" where
  "header_u64 h w missing =
     (case ascii_header_get h w sscanf_lu of (rc, v) \<Rightarrow> if rc = 1 then (case v of Some n \<Rightarrow> n | None \<Rightarrow> missing) else missing)"

text \<open>
  The file ends at a byte of the observation that is a multiple of the resolution, and of 512 with \<open>O_DIRECT\<close>.
  \<open>None\<close>: the product of the two is 0, and the division by it fails.
\<close>

definition byte_multiple :: "bool \<Rightarrow> u64 \<Rightarrow> u64" where
  "byte_multiple direct resolution =
     (let m = (if direct then 512 else 1) in if 0 < resolution then m * resolution else m)"

definition rounded_file_size :: "u64 \<Rightarrow> u64 \<Rightarrow> u64 \<Rightarrow> u64 option" where
  "rounded_file_size multiple obs_offset file_size =
     (if multiple = 0 then None
      else
        let gap = (obs_offset + file_size) mod multiple; size = file_size - gap
        in Some (if multiple div 2 < gap then size + multiple else size))"

definition dbdisk_file_size :: "bool \<Rightarrow> u64 \<Rightarrow> string \<Rightarrow> u64 option" where
  "dbdisk_file_size direct offset h =
     (let size = header_u64 h ''FILE_SIZE'' 0; bytes_ps = header_u64 h ''BYTES_PER_SECOND'' 64000000;
          resolution = header_u64 h ''RESOLUTION'' 0
      in rounded_file_size (byte_multiple direct resolution) offset (if size = 0 then bytes_ps * 10 else size))"

text \<open>The file of a transfer: its number goes on as long as the observation and its offset are the same.\<close>

definition name_file :: "string \<Rightarrow> u64 \<Rightarrow> u32 \<Rightarrow> dada_dbdisk \<Rightarrow> dada_dbdisk" where
  "name_file utc offset num d =
     d\<lparr>db_file_number := num, db_utc_start := utc, db_obs_offset := offset, db_file_name := dbdisk_file_name utc offset num\<rparr>"

definition next_file_number :: "string \<Rightarrow> u64 \<Rightarrow> dada_dbdisk \<Rightarrow> u32" where
  "next_file_number utc offset d = (if utc \<noteq> db_utc_start d \<or> offset \<noteq> db_obs_offset d then 0 else db_file_number d + 1)"

definition create_file ::
    "disk_status \<Rightarrow> u64 \<Rightarrow> ring \<Rightarrow> dada_dbdisk dada_client \<Rightarrow> (int \<times> ring \<times> dada_dbdisk dada_client)" where
  "create_file statfs file_size r cl =
     (let d = cl_context cl
      in case disk_array_open statfs (db_array d) (db_files d) (db_file_name d) file_size of
           (ok, name, best, fs) \<Rightarrow>
             let d = d\<lparr>db_file_name := name, db_files := fs\<rparr>
             in if \<not> ok then (- 1, r, cl\<lparr>cl_context := d\<rparr>)
                else (0, r, cl\<lparr>cl_context := d\<lparr>db_fd := Some name\<rparr>, transfer_bytes := file_size,
                              optimal_bytes := 512 * (case best of Some b \<Rightarrow> b | None \<Rightarrow> 0)\<rparr>))"

text \<open>The header is changed step by step; a start time of 64 characters overruns its buffer.\<close>

definition dbdisk_open ::
    "disk_status \<Rightarrow> ring \<Rightarrow> dada_dbdisk dada_client \<Rightarrow> (int \<times> ring \<times> dada_dbdisk dada_client) option" where
  "dbdisk_open statfs r cl =
     (let d = cl_context cl; h = header_text cl;
          utc = (case ascii_header_get h ''UTC_START'' sscanf_s of
                   (rc, v) \<Rightarrow> if rc = 1 then (case v of Some u \<Rightarrow> u | None \<Rightarrow> []) else ''UNKNOWN'');
          offset = header_u64 h ''OBS_OFFSET'' 0;
          num = next_file_number utc offset d;
          (rc, h) = ascii_header_set h ''FILE_NUMBER'' (Some (decimal (unat num)))
      in if 64 \<le> length utc then None
         else if rc < 0 then Some (- 1, r, cl\<lparr>cl_context := d\<lparr>db_file_number := num\<rparr>\<rparr>)
         else do {
           file_size \<leftarrow> dbdisk_file_size (db_o_direct d) offset h;
           cl \<leftarrow> put_header (snd (ascii_header_set h ''FILE_SIZE'' (Some (decimal (unat file_size))))) cl;
           Some (create_file statfs file_size r (cl\<lparr>cl_context := name_file utc offset num d\<rparr>))
         })"

text \<open>A file that has got no data is removed.\<close>

definition dbdisk_close :: "dada_dbdisk dada_client \<Rightarrow> u64 \<Rightarrow> (int \<times> dada_dbdisk dada_client) option" where
  "dbdisk_close cl bytes_written =
     (let d = (cl_context cl)\<lparr>db_fd := None\<rparr>
      in Some (0, cl\<lparr>cl_context :=
                 (if bytes_written = 0 then d\<lparr>db_files := (db_files d)(db_file_name d := None)\<rparr> else d)\<rparr>))"

section \<open>Writing\<close>

text \<open>
  \<open>write\<close> of \<open>n\<close> bytes from byte \<open>at\<close> of the buffer on: the number of bytes written, or \<open>-1\<close>, as the unsigned
  number it is stored in. \<open>None\<close>: the bytes lie behind the buffer.
\<close>

definition write_fd :: "(nat \<Rightarrow> nat \<Rightarrow> int) \<Rightarrow> byte list \<Rightarrow> u64 \<Rightarrow> u64 \<Rightarrow> dada_dbdisk \<Rightarrow> (u64 \<times> dada_dbdisk) option" where
  "write_fd wr data at n d =
     (let k = wr (db_writes d) (unat n); d = d\<lparr>db_writes := db_writes d + 1\<rparr>
      in if length data < unat at + unat n then None
         else case db_fd d of
                None \<Rightarrow> Some (- 1, d)
              | Some name \<Rightarrow>
                  Some (word_of_int k,
                        d\<lparr>db_files := (db_files d)(name := map_option
                             (\<lambda>f. f\<lparr>f_bytes := f_bytes f @ take (nat k) (take (unat n) (drop (unat at) data))\<rparr>)
                             (db_files d name))\<rparr>))"

text \<open>
  The rest of a buffer that \<open>O_DIRECT\<close> cannot write goes to the file once it has been opened again, and that ends the
  call, whatever of the buffer is left.
\<close>

definition write_unaligned ::
    "(nat \<Rightarrow> nat \<Rightarrow> int) \<Rightarrow> byte list \<Rightarrow> u64 \<Rightarrow> u64 \<Rightarrow> dada_dbdisk \<Rightarrow> (u64 \<times> dada_dbdisk) option" where
  "write_unaligned wr data written to_write d =
     do {
       (wrote, d) \<leftarrow> write_fd wr data written (to_write div 512 * 512) d;
       let written = written + wrote;
       if \<not> disk_array_reopen (db_files d) (db_file_name d) then Some (written, d\<lparr>db_fd := None\<rparr>)
       else do {
         let d = d\<lparr>db_fd := Some (db_file_name d), db_o_direct := False\<rparr>;
         (more, d) \<leftarrow> write_fd wr data written (to_write - wrote) d;
         Some (written + more, d)
       }
     }"

definition next_write :: "dada_dbdisk \<Rightarrow> u64 \<Rightarrow> u64 \<Rightarrow> u64" where
  "next_write d data_size written =
     (if db_optimal_bytes d \<noteq> 0
      then (if data_size < written + db_optimal_bytes d then data_size - written else db_optimal_bytes d)
      else data_size)"

partial_function (option) dbdisk_write_loop ::
    "(nat \<Rightarrow> nat \<Rightarrow> int) \<Rightarrow> byte list \<Rightarrow> u64 \<Rightarrow> dada_dbdisk \<Rightarrow> (u64 \<times> dada_dbdisk) option" where
  "dbdisk_write_loop wr data written d =
     (let data_size = of_nat (length data)
      in if \<not> written < data_size then Some (written, d)
         else
           let to_write = next_write d data_size written
           in if db_o_direct d \<and> to_write mod 512 \<noteq> 0 then write_unaligned wr data written to_write d
              else do {
                (wrote, d) \<leftarrow> write_fd wr data written to_write d;
                dbdisk_write_loop wr data (written + wrote) d
              })"

definition dbdisk_write ::
    "(nat \<Rightarrow> nat \<Rightarrow> int) \<Rightarrow> dada_dbdisk dada_client \<Rightarrow> byte list \<Rightarrow> (int \<times> dada_dbdisk dada_client) option" where
  "dbdisk_write wr cl data =
     map_option (\<lambda>(written, d). (c_int64 written, cl\<lparr>cl_context := d\<rparr>)) (dbdisk_write_loop wr data 0 (cl_context cl))"

definition dbdisk_write_block ::
    "(nat \<Rightarrow> nat \<Rightarrow> int) \<Rightarrow> dada_dbdisk dada_client \<Rightarrow> byte list \<Rightarrow> u64 \<Rightarrow> (int \<times> dada_dbdisk dada_client) option" where
  "dbdisk_write_block wr cl data block_id = dbdisk_write wr cl data"

section \<open>The program\<close>

definition dbdisk_functions :: "disk_status \<Rightarrow> (nat \<Rightarrow> nat \<Rightarrow> int) \<Rightarrow> bool \<Rightarrow> dada_dbdisk client_functions" where
  "dbdisk_functions statfs wr zero_copy =
     \<lparr>open_function = dbdisk_open statfs, io_take = dbdisk_write wr, io_give = (\<lambda>cl n. None),
      io_block_take = (if zero_copy then Some (dbdisk_write_block wr) else None), io_block_give = None,
      close_function = dbdisk_close\<rparr>"

text \<open>One round of the loop of \<open>main\<close>: transfers until the end of data, then the next observation.\<close>

definition dbdisk_round ::
    "u64 \<Rightarrow> disk_status \<Rightarrow> (nat \<Rightarrow> nat \<Rightarrow> int) \<Rightarrow> bool \<Rightarrow> bool \<Rightarrow> (nat \<Rightarrow> nat \<Rightarrow> ring \<Rightarrow> ring) \<Rightarrow> ring \<Rightarrow> ring
     \<Rightarrow> dada_dbdisk dada_client \<Rightarrow> (bool \<times> ring \<times> ring \<times> dada_dbdisk dada_client) option" where
  "dbdisk_round page statfs wr zero_copy once env hr dr cl =
     map_option
       (\<lambda>(rc, hr, dr, cl). (once \<or> rc < 0, hr, dr, cl\<lparr>cl_quit := cl_quit cl \<or> once \<or> rc < 0\<rparr>))
       (dada_client_read page (dbdisk_functions statfs wr zero_copy) env hr dr cl)"

end
