(* ===== verification/Dbdisk_Properties.thy ===== *)
theory Dbdisk_Properties
  imports Dada_Dbdisk Client_Properties
begin

text \<open>
  What is in the files that the recording program leaves: the header and behind it the bytes of the stream.
\<close>

section \<open>Writing\<close>

text \<open>The open file, and a disk that writes all it is given.\<close>

definition recorded :: "dada_dbdisk \<Rightarrow> byte list" where
  "recorded d =
     (case db_fd d of None \<Rightarrow> [] | Some name \<Rightarrow> (case db_files d name of None \<Rightarrow> [] | Some f \<Rightarrow> f_bytes f))"

definition recording_to :: "string \<Rightarrow> dada_dbdisk \<Rightarrow> bool" where
  "recording_to name d \<longleftrightarrow>
     db_fd d = Some name \<and> db_file_name d = name
     \<and> (\<exists>f. db_files d name = Some f \<and> (db_o_direct d \<longrightarrow> f_writable f \<and> db_optimal_bytes d = 0))"

definition writes_all :: "(nat \<Rightarrow> nat \<Rightarrow> int) \<Rightarrow> bool" where
  "writes_all wr \<longleftrightarrow> (\<forall>k n. wr k n = int n)"

lemma write_fd_all:
  assumes "writes_all wr" and "recording_to name d" and "unat at + unat n \<le> length data"
  obtains d' where "write_fd wr data at n d = Some (n, d')" and "recording_to name d'"
    and "recorded d' = recorded d @ take (unat n) (drop (unat at) data)"
    and "db_o_direct d' = db_o_direct d" and "db_optimal_bytes d' = db_optimal_bytes d"
proof -
  obtain f where f: "db_fd d = Some name" "db_file_name d = name" "db_files d name = Some f"
      "db_o_direct d \<longrightarrow> f_writable f \<and> db_optimal_bytes d = 0"
    using assms(2) by (auto simp: recording_to_def)
  let ?d = "d\<lparr>db_writes := db_writes d + 1,
    db_files := (db_files d)(name \<mapsto> f\<lparr>f_bytes := f_bytes f @ take (unat n) (drop (unat at) data)\<rparr>)\<rparr>"
  have "wr (db_writes d) (unat n) = int (unat n)" using assms(1) by (simp only: writes_all_def)
  then have "write_fd wr data at n d = Some (n, ?d)"
    using assms(3) f by (simp add: write_fd_def Let_def)
  then show ?thesis
    by (rule that) (use f in \<open>auto simp: recording_to_def recorded_def\<close>)
qed

lemma write_unaligned_all:
  assumes "writes_all wr" and "recording_to name d" and "length data < 2 ^ 63" and "db_o_direct d"
  obtains d' where "write_unaligned wr data 0 (of_nat (length data)) d = Some (of_nat (length data), d')"
    and "recording_to name d'" and "recorded d' = recorded d @ data"
proof -
  let ?n = "of_nat (length data) :: u64" and ?k = "of_nat (length data) div 512 * 512 :: u64"
  have n: "unat ?n = length data" using assms(3) by (simp add: unat_of_nat)
  have k: "unat ?k = length data div 512 * 512"
  proof -
    have "unat (?n div 512) = length data div 512" using n by (simp add: unat_div)
    moreover have "length data div 512 * 512 < 2 ^ 64"
      using div_times_less_eq_dividend [of "length data" 512] assms(3) by simp
    ultimately have "unat (?n div 512) * unat (512 :: u64) < 2 ^ LENGTH(64)" by simp
    then have "unat ?k = unat (?n div 512) * unat (512 :: u64)" by (rule unat_mult_lem [THEN iffD1])
    then show ?thesis by (simp add: \<open>unat (?n div 512) = length data div 512\<close>)
  qed
  then have kn: "unat ?k \<le> length data" by simp
  have le: "unat (0 :: u64) + unat ?k \<le> length data" using kn by simp
  obtain d1 where d1: "write_fd wr data 0 ?k d = Some (?k, d1)" "recording_to name d1"
      "recorded d1 = recorded d @ take (unat ?k) (drop (unat (0 :: u64)) data)" "db_o_direct d1 = db_o_direct d"
      "db_optimal_bytes d1 = db_optimal_bytes d"
    using write_fd_all [OF assms(1,2) le] .
  have again: "disk_array_reopen (db_files d1) (db_file_name d1)"
    using d1(2,4) assms(4) by (auto simp: recording_to_def disk_array_reopen_def)
  let ?d2 = "d1\<lparr>db_fd := Some (db_file_name d1), db_o_direct := False\<rparr>"
  have d2: "recording_to name ?d2" "recorded ?d2 = recorded d1" using d1(2) by (auto simp: recording_to_def recorded_def)
  have rest: "unat (?n - ?k) = length data - unat ?k" using n kn by (simp add: unat_sub word_le_nat_alt)
  have le': "unat ?k + unat (?n - ?k) \<le> length data" using kn rest by simp
  obtain d3 where d3: "write_fd wr data ?k (?n - ?k) ?d2 = Some (?n - ?k, d3)" "recording_to name d3"
      "recorded d3 = recorded ?d2 @ take (unat (?n - ?k)) (drop (unat ?k) data)"
    using write_fd_all [OF assms(1) d2(1) le'] .
  have "take (unat ?k) data @ take (unat (?n - ?k)) (drop (unat ?k) data) = data" using rest by simp
  then have "recorded d3 = recorded d @ data" using d3(3) d2(2) d1(3) by simp
  moreover have "write_unaligned wr data 0 ?n d = Some (?n, d3)"
    using d1(1) again d3(1) by (simp add: write_unaligned_def)
  ultimately show ?thesis using that d3(2) by blast
qed


text \<open>The loop, from any place of the buffer when the bytes go out in pieces.\<close>

lemma write_loop_all:
  assumes "writes_all wr" and "recording_to name d" and "length data < 2 ^ 62" and "unat written \<le> length data"
    and "\<not> db_o_direct d" and "db_optimal_bytes d = 0 \<longrightarrow> written = 0 \<or> unat written = length data"
    and "unat (db_optimal_bytes d) < 2 ^ 62"
  shows "\<exists>d'. dbdisk_write_loop wr data written d = Some (of_nat (length data), d') \<and> recording_to name d'
     \<and> recorded d' = recorded d @ drop (unat written) data
     \<and> db_o_direct d' = db_o_direct d \<and> db_optimal_bytes d' = db_optimal_bytes d"
  using assms(2,4-7)
proof (induction "length data - unat written" arbitrary: written d rule: less_induct)
  case less
  let ?n = "of_nat (length data) :: u64"
  have n: "unat ?n = length data" using assms(3) by (simp add: unat_of_nat)
  show ?case
  proof (cases "unat written = length data")
    case True
    then have "written = ?n" by (simp add: word_unat_eq_iff n)
    then show ?thesis using less.prems(1) n by (subst dbdisk_write_loop.simps) simp
  next
    case False
    then have lt: "unat written < length data" using less.prems(2) by simp
    then have more: "written < ?n" by (simp add: word_less_nat_alt n)
    let ?w = "next_write d ?n written"
    have w: "0 < unat ?w" "unat written + unat ?w \<le> length data" "db_optimal_bytes d = 0 \<longrightarrow> unat written + unat ?w = length data"
    proof -
      have sub: "unat (?n - written) = length data - unat written" using lt n by (simp add: unat_sub word_le_nat_alt)
      have sum: "unat (written + db_optimal_bytes d) = unat written + unat (db_optimal_bytes d)"
        using lt assms(3) less.prems(5) by (intro unat_add_lem [THEN iffD1]) simp
      consider "db_optimal_bytes d = 0" | "db_optimal_bytes d \<noteq> 0" "length data < unat written + unat (db_optimal_bytes d)"
        | "db_optimal_bytes d \<noteq> 0" "unat written + unat (db_optimal_bytes d) \<le> length data" by linarith
      then show "0 < unat ?w" "unat written + unat ?w \<le> length data" "db_optimal_bytes d = 0 \<longrightarrow> unat written + unat ?w = length data"
        using less.prems(4) lt False n sub sum
        by (cases; simp add: next_write_def word_less_nat_alt unat_eq_zero unat_gt_0)+
    qed
    obtain d1 where d1: "write_fd wr data written ?w d = Some (?w, d1)" "recording_to name d1"
        "recorded d1 = recorded d @ take (unat ?w) (drop (unat written) data)"
        "db_o_direct d1 = db_o_direct d" "db_optimal_bytes d1 = db_optimal_bytes d"
      using write_fd_all [OF assms(1) less.prems(1) w(2)] .
    have sum: "unat (written + ?w) = unat written + unat ?w"
      using w(2) assms(3) by (intro unat_add_lem [THEN iffD1]) simp
    have "\<exists>d'. dbdisk_write_loop wr data (written + ?w) d1 = Some (?n, d') \<and> recording_to name d'
     \<and> recorded d' = recorded d1 @ drop (unat (written + ?w)) data
     \<and> db_o_direct d' = db_o_direct d1 \<and> db_optimal_bytes d' = db_optimal_bytes d1"
      by (rule less.hyps) (use d1 w lt sum less.prems in simp_all)
    moreover have "dbdisk_write_loop wr data written d = dbdisk_write_loop wr data (written + ?w) d1"
      using more less.prems(3) d1(1) by (subst dbdisk_write_loop.simps) (simp add: Let_def)
    moreover have "take (unat ?w) (drop (unat written) data) @ drop (unat (written + ?w)) data = drop (unat written) data"
      by (simp add: sum add.commute [of "unat written"] flip: drop_drop)
    ultimately show ?thesis using d1(3-5) by auto
  qed
qed


lemma write_loop_start:
  assumes "writes_all wr" and "recording_to name d" and "length data < 2 ^ 62" and "unat (db_optimal_bytes d) < 2 ^ 62"
  obtains d' where "dbdisk_write_loop wr data 0 d = Some (of_nat (length data), d')" and "recording_to name d'"
    and "recorded d' = recorded d @ data" and "db_optimal_bytes d' = db_optimal_bytes d"
proof (cases "db_o_direct d")
  case False
  then show ?thesis using write_loop_all [OF assms(1,2,3), of 0] assms(4) that by auto
next
  case True
  let ?n = "of_nat (length data) :: u64"
  have n: "unat ?n = length data" using assms(3) by (simp add: unat_of_nat)
  have opt: "db_optimal_bytes d = 0" using assms(2) True by (auto simp: recording_to_def)
  show ?thesis
  proof (cases "data = []")
    case True
    then have "dbdisk_write_loop wr data 0 d = Some (of_nat (length data), d)" by (subst dbdisk_write_loop.simps) simp
    then show ?thesis using that [of d] assms(2) True by simp
  next
    case False
    then have go: "(0 :: u64) < ?n" using n by (simp add: word_less_nat_alt)
    show ?thesis
    proof (cases "?n mod 512 = 0")
      case True
      have le: "unat (0 :: u64) + unat ?n \<le> length data" using n by simp
      obtain d1 where d1: "write_fd wr data 0 ?n d = Some (?n, d1)" "recording_to name d1"
          "recorded d1 = recorded d @ take (unat ?n) (drop (unat (0 :: u64)) data)" "db_optimal_bytes d1 = db_optimal_bytes d"
        using write_fd_all [OF assms(1,2) le] .
      have "dbdisk_write_loop wr data (0 + ?n) d1 = Some (?n, d1)" by (subst dbdisk_write_loop.simps) simp
      then have "dbdisk_write_loop wr data 0 d = Some (?n, d1)"
        using go True d1(1) opt by (subst dbdisk_write_loop.simps) (simp add: Let_def next_write_def)
      then show ?thesis using that d1 n by simp
    next
      case unaligned: False
      have "length data < 2 ^ 63" using assms(3) by simp
      then obtain d1 where d1: "write_unaligned wr data 0 ?n d = Some (?n, d1)" "recording_to name d1" "recorded d1 = recorded d @ data"
        using write_unaligned_all [OF assms(1,2) _ True] by blast
      have "db_optimal_bytes d1 = db_optimal_bytes d"
        using d1(1) by (auto simp: write_unaligned_def write_fd_def Let_def split: bind_splits option.splits if_splits)
      moreover have "dbdisk_write_loop wr data 0 d = Some (?n, d1)"
        using go True unaligned d1(1) opt by (subst dbdisk_write_loop.simps) (simp add: Let_def next_write_def)
      ultimately show ?thesis using that d1(2,3) by blast
    qed
  qed
qed

lemma dbdisk_takes:
  assumes "writes_all wr" and "B < 2 ^ 62"
  shows "takes_while B (\<lambda>d. recording_to name d \<and> unat (db_optimal_bytes d) < 2 ^ 62) (dbdisk_functions statfs wr z) recorded"
  unfolding takes_while_def
proof (intro allI impI)
  fix cl :: "dada_dbdisk dada_client" and data :: "byte list"
  assume I: "recording_to name (cl_context cl) \<and> unat (db_optimal_bytes (cl_context cl)) < 2 ^ 62" and "length data \<le> B"
  then have len: "length data < 2 ^ 62" using assms(2) by simp
  obtain d' where d': "dbdisk_write_loop wr data 0 (cl_context cl) = Some (of_nat (length data), d')" "recording_to name d'"
      "recorded d' = recorded (cl_context cl) @ data" "db_optimal_bytes d' = db_optimal_bytes (cl_context cl)"
    using write_loop_start [OF assms(1) _ len] I by blast
  have "c_int64 (of_nat (length data)) = int (length data)"
    using len by (simp add: c_int64_def signed_of_nat signed_take_bit_int_eq_self)
  then show "\<exists>cl'. io_take (dbdisk_functions statfs wr z) cl data = Some (int (length data), cl')
      \<and> recorded (cl_context cl') = recorded (cl_context cl) @ data
      \<and> (recording_to name (cl_context cl') \<and> unat (db_optimal_bytes (cl_context cl')) < 2 ^ 62)
      \<and> cl_data cl' = cl_data cl \<and> transfer_bytes cl' = transfer_bytes cl"
    using d' I by (intro exI [of _ "cl\<lparr>cl_context := d'\<rparr>"]) (simp add: dbdisk_functions_def dbdisk_write_def)
qed

section \<open>Files\<close>

text \<open>The size of a file is rounded to the nearest byte of the observation that is a multiple of the resolution (and of
  512 with \<open>O_DIRECT\<close>): the next file starts at such a byte, if the size is not so small that rounding down goes below zero.\<close>

lemma file_ends_on_the_resolution:
  assumes "rounded_file_size m off want = Some n" and "unat off + unat want + unat m < 2 ^ 64" and "unat m \<le> unat want"
  shows "(unat off + unat n) mod unat m = 0 \<and> unat n \<le> unat want + unat m div 2 \<and> unat want \<le> unat n + unat m div 2"
proof -
  define M S O' where "M = unat m" and "S = unat want" and "O' = unat off"
  have M: "0 < M" using assms(1) by (simp add: M_def rounded_file_size_def unat_gt_0 split: if_splits)
  define g where "g = (O' + S) mod M"
  have "unat (off + want) = O' + S" using assms(2) by (simp add: O'_def S_def unat_word_ariths)
  then have gap: "unat ((off + want) mod m) = g" by (simp add: unat_mod g_def M_def)
  have "g < M" using M by (simp add: g_def)
  moreover have "M \<le> S" using assms(3) by (simp add: M_def S_def)
  ultimately have g: "g < M" "g \<le> S" by simp_all
  have sub: "unat (want - (off + want) mod m) = S - g"
    using g gap by (simp add: unat_sub word_le_nat_alt S_def)
  have half: "m div 2 < (off + want) mod m \<longleftrightarrow> M div 2 < g" by (simp add: word_less_nat_alt unat_div gap M_def)
  have "unat (want - (off + want) mod m + m) = S - g + M"
    using sub assms(2) by (simp add: unat_word_ariths M_def S_def)
  then have n: "unat n = (if M div 2 < g then S - g + M else S - g)"
    using assms(1) half sub by (auto simp: rounded_file_size_def Let_def split: if_splits)
  have "(O' + (S - g)) mod M = 0"
  proof -
    have "O' + (S - g) = (O' + S) - (O' + S) mod M" using g by (simp add: g_def)
    then show ?thesis by (simp add: minus_mod_eq_mult_div)
  qed
  moreover from this have "(O' + (S - g + M)) mod M = 0" by (metis add.assoc mod_add_self2)
  moreover have "S - g \<le> S + M div 2" "M div 2 < g \<Longrightarrow> S - g + M \<le> S + M div 2" using g by linarith+
  moreover have "\<not> M div 2 < g \<Longrightarrow> S \<le> S - g + M div 2" "S \<le> S - g + M + M div 2" using g by linarith+
  ultimately show ?thesis using n unfolding M_def [symmetric] S_def [symmetric] O'_def [symmetric] by (simp split: if_splits)
qed

lemma file_ends_on_the_resolution_witness:
  "rounded_file_size 512 100 2000 = Some 1948 \<and> (100 + 1948) mod (512 :: nat) = 0"
proof -
  have r: "rounded_file_size 512 100 2000 = Some 1948" by (simp add: rounded_file_size_def)
  then show ?thesis using file_ends_on_the_resolution [OF r] by simp
qed


text \<open>A program that is set up as \<open>main\<close> does it: with \<open>O_DIRECT\<close> files may be written again.\<close>

definition dbdisk_ready :: "dada_dbdisk \<Rightarrow> bool" where
  "dbdisk_ready d \<longleftrightarrow>
     (db_o_direct d \<longrightarrow> overwrite (db_array d) \<and> db_optimal_bytes d = 0) \<and> unat (db_optimal_bytes d) < 2 ^ 62
     \<and> (\<forall>k\<in>set (disks (db_array d)). unat (bsize k) < 2 ^ 50)"

lemma disk_array_open_writable:
  assumes "disk_array_open statfs a fs filename n = (True, name, b, fs')"
  shows "\<exists>f. fs' name = Some f \<and> f_bytes f = [] \<and> (overwrite a \<longrightarrow> f_writable f) \<and> (\<exists>k\<in>set (disks a). b = Some (bsize k))"
  using assms
  by (auto simp: disk_array_open_def open_file_def Let_def filter_eq_Cons_iff split: list.splits option.splits if_splits)

lemma create_file_ok:
  assumes "create_file statfs n r cl = (0, r', cl')" and "dbdisk_ready (cl_context cl)"
  shows "r' = r" and "recording_to (db_file_name (cl_context cl')) (cl_context cl')" and "recorded (cl_context cl') = []"
    and "unat (db_optimal_bytes (cl_context cl')) < 2 ^ 62" and "unat (optimal_bytes cl') < 2 ^ 59"
    and "cl_data cl' = cl_data cl" and "direction cl' = direction cl" and "header_transfer cl' = header_transfer cl"
    and "cl_header cl' = cl_header cl" and "cl_header_size cl' = cl_header_size cl" and "transfer_bytes cl' = n"
proof -
  let ?d = "cl_context cl"
  obtain name best fs where
    opened: "disk_array_open statfs (db_array ?d) (db_files ?d) (db_file_name ?d) n = (True, name, best, fs)" and
    res: "r' = r" "cl' = cl\<lparr>cl_context := ?d\<lparr>db_file_name := name, db_files := fs, db_fd := Some name\<rparr>,
        transfer_bytes := n, optimal_bytes := 512 * (case best of Some b \<Rightarrow> b | None \<Rightarrow> 0)\<rparr>"
    using assms(1)
    by (cases "disk_array_open statfs (db_array ?d) (db_files ?d) (db_file_name ?d) n")
      (simp add: create_file_def Let_def split: if_splits)
  obtain f k where f: "fs name = Some f" "f_bytes f = []" "overwrite (db_array ?d) \<longrightarrow> f_writable f"
      "k \<in> set (disks (db_array ?d))" "best = Some (bsize k)"
    using disk_array_open_writable [OF opened] by blast
  have ready: "db_o_direct ?d \<longrightarrow> overwrite (db_array ?d) \<and> db_optimal_bytes ?d = 0"
      "unat (db_optimal_bytes ?d) < 2 ^ 62" "unat (bsize k) < 2 ^ 50"
    using assms(2) f(4) by (auto simp: dbdisk_ready_def)
  then have "unat (512 :: u64) * unat (bsize k) < 2 ^ LENGTH(64)" by simp
  then have "unat (512 * bsize k) = unat (512 :: u64) * unat (bsize k)" by (rule unat_mult_lem [THEN iffD1])
  then show "unat (optimal_bytes cl') < 2 ^ 59" using ready(3) f(5) by (simp add: res)
qed (use assms in \<open>auto simp: create_file_def Let_def split: prod.splits if_splits
      dest!: disk_array_open_writable simp: recording_to_def recorded_def dbdisk_ready_def\<close>)

lemma dbdisk_open_creates:
  assumes "dbdisk_open statfs r cl = Some (0, r', cl')"
  shows "\<exists>s n d cl1. put_header s cl = Some cl1 \<and> create_file statfs n r (cl1\<lparr>cl_context := d\<rparr>) = (0, r', cl')
    \<and> db_array d = db_array (cl_context cl) \<and> db_o_direct d = db_o_direct (cl_context cl)
    \<and> db_optimal_bytes d = db_optimal_bytes (cl_context cl)"
  using assms unfolding dbdisk_open_def Let_def
  by (fastforce simp: name_file_def split: bind_splits prod.splits if_splits)

lemma put_header_keeps:
  assumes "put_header s cl = Some cl1"
  shows "\<exists>hb. cl_header cl1 = Some (Private hb)" and "cl_data cl1 = cl_data cl" and "direction cl1 = direction cl"
    and "header_transfer cl1 = header_transfer cl" and "cl_header_size cl1 = cl_header_size cl"
  using assms by (auto simp: put_header_def split: option.splits client_header.splits)

lemma dbdisk_open_ok:
  assumes "dbdisk_open statfs r cl = Some (0, r', cl')" and "dbdisk_ready (cl_context cl)"
  shows "r' = r" and "recording_to (db_file_name (cl_context cl')) (cl_context cl')" and "recorded (cl_context cl') = []"
    and "unat (db_optimal_bytes (cl_context cl')) < 2 ^ 62" and "unat (optimal_bytes cl') < 2 ^ 59"
    and "cl_data cl' = cl_data cl" and "direction cl' = direction cl" and "header_transfer cl' = header_transfer cl"
    and "\<exists>hb. cl_header cl' = Some (Private hb)" and "cl_header_size cl' = cl_header_size cl"
proof -
  obtain s n d cl1 where c: "put_header s cl = Some cl1" "create_file statfs n r (cl1\<lparr>cl_context := d\<rparr>) = (0, r', cl')"
    and d: "db_array d = db_array (cl_context cl)" "db_o_direct d = db_o_direct (cl_context cl)"
      "db_optimal_bytes d = db_optimal_bytes (cl_context cl)"
    using dbdisk_open_creates [OF assms(1)] by blast
  have ready: "dbdisk_ready (cl_context (cl1\<lparr>cl_context := d\<rparr>))" using assms(2) d by (simp add: dbdisk_ready_def)
  note ok = create_file_ok [OF c(2) ready] and keeps = put_header_keeps [OF c(1)]
  show "r' = r" and "recording_to (db_file_name (cl_context cl')) (cl_context cl')" and "recorded (cl_context cl') = []"
    and "unat (db_optimal_bytes (cl_context cl')) < 2 ^ 62" and "unat (optimal_bytes cl') < 2 ^ 59"
    and "cl_data cl' = cl_data cl" and "direction cl' = direction cl" and "header_transfer cl' = header_transfer cl"
    and "\<exists>hb. cl_header cl' = Some (Private hb)" and "cl_header_size cl' = cl_header_size cl"
    using ok keeps by simp_all
qed

section \<open>A transfer\<close>

text \<open>The bytes of the file \<open>name\<close>, open or not.\<close>

definition file_bytes :: "string \<Rightarrow> dada_dbdisk \<Rightarrow> byte list" where
  "file_bytes name d = (case db_files d name of None \<Rightarrow> [] | Some f \<Rightarrow> f_bytes f)"

lemma recorded_file: "recording_to name d \<Longrightarrow> recorded d = file_bytes name d"
  by (simp add: recording_to_def recorded_def file_bytes_def)

lemma dbdisk_takes_file:
  assumes "writes_all wr" and "B < 2 ^ 62"
  shows "takes_while B (\<lambda>d. recording_to name d \<and> unat (db_optimal_bytes d) < 2 ^ 62) (dbdisk_functions statfs wr z)
    (file_bytes name)"
  unfolding takes_while_def
proof (intro allI impI)
  fix cl :: "dada_dbdisk dada_client" and data :: "byte list"
  assume I: "recording_to name (cl_context cl) \<and> unat (db_optimal_bytes (cl_context cl)) < 2 ^ 62" and "length data \<le> B"
  from takes_whileD [OF dbdisk_takes [OF assms] this]
  show "\<exists>cl'. io_take (dbdisk_functions statfs wr z) cl data = Some (int (length data), cl')
      \<and> file_bytes name (cl_context cl') = file_bytes name (cl_context cl) @ data
      \<and> (recording_to name (cl_context cl') \<and> unat (db_optimal_bytes (cl_context cl')) < 2 ^ 62)
      \<and> cl_data cl' = cl_data cl \<and> transfer_bytes cl' = transfer_bytes cl"
    using I by (metis (no_types, lifting) recorded_file)
qed

lemma dbdisk_functions_sel [simp]:
  "open_function (dbdisk_functions statfs wr z) = dbdisk_open statfs"
  "io_take (dbdisk_functions statfs wr z) = dbdisk_write wr"
  "io_block_take (dbdisk_functions statfs wr False) = None"
  "io_block_give (dbdisk_functions statfs wr z) = None"
  "close_function (dbdisk_functions statfs wr z) = dbdisk_close"
  by (simp_all add: dbdisk_functions_def)

lemma dbdisk_write_keeps:
  assumes "dbdisk_write wr cl data = Some (rc, cl')"
  obtains x where "cl' = cl\<lparr>cl_context := x\<rparr>"
  using assms by (auto simp: dbdisk_write_def)

lemma bind_3E:
  assumes "Option.bind m (\<lambda>(x, y, z). f x y z) = Some w"
  obtains x y z where "m = Some (x, y, z)" and "f x y z = Some w"
  using assms by (cases m) auto

text \<open>The parts of a transfer that has moved something.\<close>

lemma dbdisk_transfer_parts:
  assumes "dada_client_transfer page (dbdisk_functions statfs wr False) env hr dr cl = Some (n, hr', dr', cl')"
    and "dbdisk_open statfs hr cl = Some (0, hr1, cl1)" and "0 < n" and "direction cl = Reading"
    and "header_transfer cl" and "dbdisk_ready (cl_context cl)" and "cl_header cl1 = Some (Private hb)"
  obtains rc cl2 opt cl3 where "dbdisk_write wr cl1 (take (unat (cl_header_size cl1)) hb) = Some (rc, cl2)"
    and "opt = (if optimal_bytes cl1 = 0 then page * 128 else optimal_bytes cl1)"
    and "io_loop_read (dbdisk_functions statfs wr False) env opt 0 0 dr (cl2\<lparr>optimal_bytes := opt\<rparr>) = Some (n, dr', cl3)"
    and "dbdisk_close cl3 (word_of_int n) = Some (0, cl')"
proof -
  have cl1: "direction cl1 = Reading" "header_transfer cl1" using dbdisk_open_ok [OF assms(2,6)] assms(4,5) by simp_all
  from assms(1,2,3,7) cl1 obtain rc cl2 where w: "dbdisk_write wr cl1 (take (unat (cl_header_size cl1)) hb) = Some (rc, cl2)"
    by (auto simp: dada_client_transfer_def transfer_header_def split: bind_splits if_splits)
  have keep: "direction cl2 = Reading" "optimal_bytes cl2 = optimal_bytes cl1"
    using cl1(1) by (rule_tac [!] dbdisk_write_keeps [OF w]) simp_all
  let ?opt = "if optimal_bytes cl1 = 0 then page * 128 else optimal_bytes cl1"
  have same: "cl2\<lparr>optimal_bytes := optimal_bytes cl1\<rparr> = cl2" by (simp flip: keep(2))
  have "Option.bind (io_loop_read (dbdisk_functions statfs wr False) env ?opt 0 0 dr (cl2\<lparr>optimal_bytes := ?opt\<rparr>))
      (\<lambda>(n, dr, cl). Option.bind (dbdisk_close cl (word_of_int n)) (\<lambda>(rc, cl).
         if rc < 0 then Some (- 1, hr1, dr, cl) else Some (n, hr1, dr, cl))) = Some (n, hr', dr', cl')"
    using assms(1,2,3,7) cl1 w keep
    by (simp add: same dada_client_transfer_def transfer_header_def dada_client_io_loop_def split: if_splits)
  then obtain m dr3 cl3 where loop:
      "io_loop_read (dbdisk_functions statfs wr False) env ?opt 0 0 dr (cl2\<lparr>optimal_bytes := ?opt\<rparr>) = Some (m, dr3, cl3)"
      "Option.bind (dbdisk_close cl3 (word_of_int m)) (\<lambda>(rc, cl).
         if rc < 0 then Some (- 1, hr1, dr3, cl) else Some (m, hr1, dr3, cl)) = Some (n, hr', dr', cl')"
    by (rule bind_3E)
  obtain cl4 where "dbdisk_close cl3 (word_of_int m) = Some (0, cl4)" by (simp add: dbdisk_close_def Let_def)
  with loop show ?thesis by (intro that [OF w refl, of cl3]) simp_all
qed

lemma transfer_is_recorded:
  assumes "dada_client_transfer page (dbdisk_functions statfs wr False) env hr (the_ring s) cl = Some (n, hr', dr', cl')"
    and "dbdisk_open statfs hr cl = Some (0, hr1, cl1)" and "cl_header cl1 = Some (Private hb)"
    and "0 < n" and "direction cl = Reading" and "header_transfer cl" and "dbdisk_ready (cl_context cl)"
    and "writes_all wr" and "unat page < 2 ^ 50" and "length hb < 2 ^ 62"
    and "reading_at s i (cl_data cl)" and "leaves_reader env i"
  shows "\<exists>s' d f. stream_step\<^sup>*\<^sup>* s s' \<and> the_ring s' = dr'
     \<and> taken_bytes s' i (cl_data cl') = taken_bytes s i (cl_data cl) @ d \<and> n = c_int64 (of_nat (length d))
     \<and> db_files (cl_context cl') (db_file_name (cl_context cl1)) = Some f
     \<and> f_bytes f = take (unat (cl_header_size cl)) hb @ d"
proof -
  let ?F = "dbdisk_functions statfs wr False" and ?name = "db_file_name (cl_context cl1)"
  let ?I = "\<lambda>d. recording_to ?name d \<and> unat (db_optimal_bytes d) < 2 ^ 62"
  note ok = dbdisk_open_ok [OF assms(2,7)]
  obtain rc cl2 opt cl3 where parts: "dbdisk_write wr cl1 (take (unat (cl_header_size cl1)) hb) = Some (rc, cl2)"
      "opt = (if optimal_bytes cl1 = 0 then page * 128 else optimal_bytes cl1)"
      "io_loop_read ?F env opt 0 0 (the_ring s) (cl2\<lparr>optimal_bytes := opt\<rparr>) = Some (n, dr', cl3)"
      "dbdisk_close cl3 (word_of_int n) = Some (0, cl')"
    using dbdisk_transfer_parts [OF assms(1,2,4-7,3)] .
  have takes: "takes_while B ?I ?F (file_bytes ?name)" if "B < 2 ^ 62" for B
    using dbdisk_takes_file [OF assms(8) that] .
  have I1: "?I (cl_context cl1)" using ok by simp
  obtain cl2' where "io_take ?F cl1 (take (unat (cl_header_size cl1)) hb)
        = Some (int (length (take (unat (cl_header_size cl1)) hb)), cl2')"
      and c2: "file_bytes ?name (cl_context cl2') = file_bytes ?name (cl_context cl1) @ take (unat (cl_header_size cl1)) hb"
      "?I (cl_context cl2')" "cl_data cl2' = cl_data cl1" "transfer_bytes cl2' = transfer_bytes cl1"
    using takes_whileD [OF takes [OF assms(10)] I1, of "take (unat (cl_header_size cl1)) hb"] by auto
  then have "cl2' = cl2" using parts(1) by simp
  have small: "unat opt < 2 ^ 62"
  proof -
    have "unat page * unat (128 :: u64) < 2 ^ LENGTH(64)" using assms(9) by simp
    then have "unat (page * 128) = unat page * unat (128 :: u64)" by (rule unat_mult_lem [THEN iffD1])
    then show ?thesis using ok(5) assms(9) by (simp add: parts(2))
  qed
  have data: "cl_data cl2 = cl_data cl" using c2(3) ok(6) \<open>cl2' = cl2\<close> by simp
  have "delivered (file_bytes ?name) i s 0 0 (cl2\<lparr>optimal_bytes := opt\<rparr>) (n, dr', cl3)"
    by (rule read_loop_delivers [OF parts(3) takes [OF small] order.refl])
      (use c2(2) \<open>cl2' = cl2\<close> assms(4,11,12) data in \<open>simp_all add: counted_0\<close>)
  then obtain s' d where run: "stream_step\<^sup>*\<^sup>* s s'" "the_ring s' = dr'"
      "taken_bytes s' i (cl_data cl3) = taken_bytes s i (cl_data cl) @ d"
      "file_bytes ?name (cl_context cl3) = file_bytes ?name (cl_context cl2) @ d" "n = c_int64 (of_nat (length d))"
    unfolding delivered_def delivered_along_def using data by auto
  have start: "file_bytes ?name (cl_context cl2) = take (unat (cl_header_size cl)) hb"
    using c2(1) ok(3,10) recorded_file [OF ok(2)] \<open>cl2' = cl2\<close> by simp
  have "word_of_int n \<noteq> (0 :: u64)" using assms(4) run(5) by (auto simp: c_int64_def)
  then have c': "cl_data cl' = cl_data cl3" "db_files (cl_context cl') = db_files (cl_context cl3)"
    using parts(4) by (auto simp: dbdisk_close_def Let_def)
  have "d \<noteq> []" using assms(4) run(5) by (auto simp: c_int64_def)
  then obtain f where "db_files (cl_context cl3) ?name = Some f" "f_bytes f = take (unat (cl_header_size cl)) hb @ d"
    using run(4) start by (auto simp: file_bytes_def split: option.splits)
  then show ?thesis using run c' by auto
qed

text \<open>C32. A transfer of the recording program leaves a file that holds the header, as the open function completed it, and
  behind it the next bytes of the stream, without a gap, whatever the other processes do to the ring meanwhile and in
  whatever pieces the bytes go out; the number of bytes is the result. (The disk writes all it is given; what happens when
  it does not is shown below.)\<close>

theorem recorded_file_is_header_and_stream:
  assumes "dada_client_transfer page (dbdisk_functions statfs wr False) env hr (the_ring s) cl = Some (n, hr', dr', cl')"
    and "dbdisk_open statfs hr cl = Some (0, hr1, cl1)" and "cl_header cl1 = Some (Private hb)"
    and "0 < n" and "direction cl = Reading" and "header_transfer cl" and "dbdisk_ready (cl_context cl)"
    and "writes_all wr" and "unat page < 2 ^ 50" and "length hb < 2 ^ 62"
    and "reading_at s i (cl_data cl)" and "leaves_reader env i"
  shows "\<exists>s' d f. stream_step\<^sup>*\<^sup>* s s' \<and> the_ring s' = dr'
     \<and> taken_bytes s' i (cl_data cl') = taken_bytes s i (cl_data cl) @ d \<and> n = c_int64 (of_nat (length d))
     \<and> db_files (cl_context cl') (db_file_name (cl_context cl1)) = Some f
     \<and> f_bytes f = take (unat (cl_header_size cl)) hb @ d"
  using transfer_is_recorded [OF assms] .

text \<open>A sample: a disk, and a client whose header asks for files of five bytes.\<close>

definition sample_statfs :: disk_status where
  "sample_statfs p = Some \<lparr>f_blocks = 20, f_bfree = 10, f_bsize = 1, st_dev = 1\<rparr>"

definition sample_array :: disk_array where
  "sample_array = snd (disk_array_add sample_statfs disk_array_create ''d'')"

definition sample_start :: string where
  "sample_start = ''FILE_SIZE 5'' @ [nl]"

definition sample_client :: "dada_dbdisk dada_client" where
  "sample_client = (dada_client_create small_reading IPCBUF_INIT (DADA_DBDISK_INIT sample_array (\<lambda>_. None)))
     \<lparr>direction := Reading, cl_header := Some (Private (map byte_of_char sample_start @ [0])), cl_header_size := 4\<rparr>"

definition sample_text :: string where
  "sample_text = ''FILE_SIZE 5'' @ [nl] @ ''FILE_NUMBER  0                      '' @ [nl]"

lemma sample_size_text: "sscanf_lu (CHR '' '' # CHR ''5'' # nl # x) = (1, Some 5)"
proof -
  have "(char_of (53 :: nat) :: char) = CHR ''5''" by code_simp
  then have dec: "decimal 5 = ''5''" by (simp add: decimal.simps)
  have "holds_value (CHR '' '' # CHR ''5'' # nl # x) (decimal 5)"
    unfolding holds_value_def by (rule exI [of _ "'' ''"], rule exI [of _ "nl # x"]) (simp add: dec c_space_def nl_def)
  then show ?thesis using sscanf_lu_value by fastforce
qed

lemma sample_header:
  "header_text sample_client = sample_start"
  "ascii_header_get sample_start ''UTC_START'' sscanf_s = (- 1, None)"
  "header_u64 sample_start ''OBS_OFFSET'' 0 = 0"
  "ascii_header_set sample_start ''FILE_NUMBER'' (Some ''0'') = (0, sample_text)"
  "ascii_header_get sample_text ''BYTES_PER_SECOND'' sscanf_lu = (- 1, None)"
  "ascii_header_get sample_text ''RESOLUTION'' sscanf_lu = (- 1, None)"
  "dbdisk_file_name ''UNKNOWN'' 0 0 = ''UNKNOWN_0000000000000000.000000.dada''"
  unfolding sample_client_def sample_start_def sample_text_def by code_simp+

lemma sample_size: "dbdisk_file_size False 0 sample_text = Some 5"
proof -
  have "ascii_header_find sample_text ''FILE_SIZE'' = Some 0" unfolding sample_text_def by code_simp
  moreover have "strcspn sample_text ('' '' @ [tab, nl]) = 9" unfolding sample_text_def by code_simp
  moreover have "drop 9 sample_text = CHR '' '' # CHR ''5'' # nl # drop 12 sample_text" by (simp add: sample_text_def)
  ultimately have "ascii_header_get sample_text ''FILE_SIZE'' sscanf_lu = (1, Some 5)"
    by (simp add: ascii_header_get_def sample_size_text)
  then show ?thesis
    using sample_header(5,6)
    by (simp add: dbdisk_file_size_def header_u64_def Let_def byte_multiple_def rounded_file_size_def)
qed


definition sample_name :: string where
  "sample_name = ''d/UNKNOWN_0000000000000000.000000.dada''"

definition sample_written :: string where
  "sample_written = ''FILE_SIZE    5                      '' @ drop 11 sample_text"

definition sample_opened :: "dada_dbdisk dada_client" where
  "sample_opened = sample_client
     \<lparr>cl_context := (DADA_DBDISK_INIT sample_array [sample_name \<mapsto> \<lparr>f_bytes = [], f_writable = False\<rparr>])
        \<lparr>db_utc_start := ''UNKNOWN'', db_file_name := sample_name, db_fd := Some sample_name\<rparr>,
      cl_header := Some (Private (map byte_of_char sample_written @ [0])),
      transfer_bytes := 5, optimal_bytes := 512\<rparr>"

lemma sample_fields:
  "cl_header sample_client = Some (Private (map byte_of_char sample_start @ [0]))"
  "cl_context sample_client = DADA_DBDISK_INIT sample_array (\<lambda>_. None)"
  "db_array (DADA_DBDISK_INIT sample_array fs) = sample_array" "db_files (DADA_DBDISK_INIT sample_array fs) = fs"
  "db_utc_start (DADA_DBDISK_INIT sample_array fs) = []" "db_o_direct (DADA_DBDISK_INIT sample_array fs) = False"
  "(DADA_DBDISK_INIT sample_array fs)\<lparr>db_file_number := 0, db_utc_start := u, db_obs_offset := 0, db_file_name := x,
      db_files := gs, db_fd := y\<rparr>
     = (DADA_DBDISK_INIT sample_array gs)\<lparr>db_utc_start := u, db_file_name := x, db_fd := y\<rparr>"
  by (simp_all add: sample_client_def dada_client_create_def DADA_DBDISK_INIT_def)

lemma sample_open: "dbdisk_open sample_statfs r sample_client = Some (0, r, sample_opened)"
proof -
  have zero: "decimal 0 = ''0''" by code_simp
  have "ascii_header_set sample_text ''FILE_SIZE'' (Some (decimal 5)) = (0, sample_written)"
    unfolding sample_written_def sample_text_def by code_simp
  moreover have "disk_array_open sample_statfs sample_array (\<lambda>_. None) ''UNKNOWN_0000000000000000.000000.dada'' 5
      = (True, sample_name, Some 1, [sample_name \<mapsto> \<lparr>f_bytes = [], f_writable = False\<rparr>])"
    by (simp add: disk_array_open_def sample_array_def disk_array_add_def disk_array_create_def sample_statfs_def
        get_available_def open_file_def Let_def sample_name_def)
  moreover have "length sample_start = 12" by (simp add: sample_start_def)
  moreover have "13 \<le> length sample_written" by (simp add: sample_written_def)
  ultimately show ?thesis
    using sample_fields
    by (simp add: sample_opened_def dbdisk_open_def Let_def sample_header sample_size zero next_file_number_def name_file_def put_header_def create_file_def)
qed

text \<open>Its transfer.\<close>

lemma sample_ready: "dbdisk_ready (cl_context sample_client)"
  by (simp add: dbdisk_ready_def sample_client_def dada_client_create_def DADA_DBDISK_INIT_def sample_array_def
      disk_array_add_def disk_array_create_def sample_statfs_def)

lemma all_written: "writes_all (\<lambda>_. int)"
  by (simp add: writes_all_def)

lemma sample_loop:
  assumes "takes_while 100 I F h" and "I (cl_context cl)" and "cl_data cl = small_reading" and "transfer_bytes cl = 5"
  obtains r' cl' where "io_loop_read F (\<lambda>_ r. r) 512 0 0 small_filled cl = Some (2, r', cl')"
    and "h (cl_context cl') = h (cl_context cl) @ [7, 8]"
proof -
  obtain r' c' where rd: "ipcio_read small_filled small_reading 5 = Some ((2, [7, 8]), r', c')" using small_read by blast
  have eod: "ipcbuf_eod (buf c')" using ipcio_read_refines [OF small_reading_at, of 5] rd by (simp add: small_waiting_def)
  have go: "\<not> ipcbuf_eod (buf small_reading)"
    by (simp add: small_reading_def IPCIO_INIT_def locked_handle_def ipcbuf_eod_def)
  obtain cl' where tk: "io_take F (cl\<lparr>cl_data := c'\<rparr>) [7, 8] = Some (2, cl')" "cl_data cl' = c'" "transfer_bytes cl' = 5"
      "h (cl_context cl') = h (cl_context cl) @ [7, 8]"
    using takes_whileD [OF assms(1), of "cl\<lparr>cl_data := c'\<rparr>" "[7, 8]"] assms(2,4) by auto
  have "io_loop_read F (\<lambda>_ r. r) 512 1 2 r' cl' = Some (2, r', cl')"
    using tk eod by (subst io_loop_read.simps) (simp add: more_to_transfer_def c_int64_def)
  then have "io_loop_read F (\<lambda>_ r. r) 512 0 0 small_filled cl = Some (2, r', cl')"
    using rd go tk assms(3,4)
    by (subst io_loop_read.simps) (simp add: more_to_transfer_def next_bytes_def on_cl_data_def)
  then show ?thesis by (rule that) (rule tk(4))
qed

lemma sample_transfer:
  obtains hr dr cl where "dada_client_transfer 4096 (dbdisk_functions sample_statfs (\<lambda>_. int) False) (\<lambda>_ r. r) small_ring
    small_filled sample_client = Some (2, hr, dr, cl)"
    and "file_bytes sample_name (cl_context cl) = map byte_of_char ''FILE'' @ [7, 8]"
proof -
  let ?F = "dbdisk_functions sample_statfs (\<lambda>_. int) False" and ?name = "db_file_name (cl_context sample_opened)"
  let ?I = "\<lambda>d. recording_to ?name d \<and> unat (db_optimal_bytes d) < 2 ^ 62"
  have cl1: "transfer_bytes sample_opened = 5" "\<not> cl_quit sample_opened" "cl_data sample_opened = small_reading"
      "cl_header_size sample_opened = 4" "direction sample_opened = Reading" "optimal_bytes sample_opened = 512"
    by (simp_all add: sample_opened_def sample_client_def dada_client_create_def)
  obtain hb where hb: "cl_header sample_opened = Some (Private hb)" "take 4 hb = map byte_of_char ''FILE''"
    by (simp add: sample_opened_def sample_written_def)
  have takes: "takes_while 100 ?I ?F (file_bytes ?name)" by (rule dbdisk_takes_file [OF all_written]) simp
  have "?I (cl_context sample_opened)" using dbdisk_open_ok [OF sample_open sample_ready] by simp
  from takes_whileD [OF takes this, of "take 4 hb"]
  obtain cl2 where w: "dbdisk_write (\<lambda>_. int) sample_opened (take 4 hb) = Some (4, cl2)" "?I (cl_context cl2)"
      "cl_data cl2 = small_reading" "transfer_bytes cl2 = 5"
      "file_bytes ?name (cl_context cl2) = file_bytes ?name (cl_context sample_opened) @ take 4 hb" using cl1 hb(2) by auto
  have keep: "direction cl2 = Reading" "optimal_bytes cl2 = 512"
    using cl1 by (rule_tac [!] dbdisk_write_keeps [OF w(1)]) simp_all
  obtain dr cl3 where l: "io_loop_read ?F (\<lambda>_ r. r) 512 0 0 small_filled cl2 = Some (2, dr, cl3)"
      "file_bytes ?name (cl_context cl3) = file_bytes ?name (cl_context cl2) @ [7, 8]"
    by (rule sample_loop [OF takes w(2-4)])
  have "header_transfer sample_opened" "?name = sample_name" "file_bytes ?name (cl_context sample_opened) = []"
    by (simp_all add: sample_opened_def sample_client_def dada_client_create_def file_bytes_def DADA_DBDISK_INIT_def)
  then show ?thesis
    using cl1 w(1,5) keep l that hb(2)
    by (simp add: dada_client_transfer_def transfer_header_def dada_client_io_loop_def sample_open hb(1) dbdisk_close_def file_bytes_def)
qed

lemma recorded_file_is_header_and_stream_witness:
  "\<exists>(cl :: dada_dbdisk dada_client) d f. db_files (cl_context cl) sample_name = Some f \<and> f_bytes f = map byte_of_char ''FILE'' @ d \<and> d \<noteq> []"
proof -
  obtain hr dr cl where t: "dada_client_transfer 4096 (dbdisk_functions sample_statfs (\<lambda>_. int) False) (\<lambda>_ r. r) small_ring
      (the_ring small_waiting) sample_client = Some (2, hr, dr, cl)"
    by (rule sample_transfer) (simp add: small_waiting_def)
  define hb where "hb = map byte_of_char sample_written @ [0 :: byte]"
  have o: "cl_header sample_opened = Some (Private hb)" "db_file_name (cl_context sample_opened) = sample_name"
    by (simp_all add: sample_opened_def hb_def)
  have c: "direction sample_client = Reading" "header_transfer sample_client" "cl_header_size sample_client = 4"
      "cl_data sample_client = small_reading"
    by (simp_all add: sample_client_def dada_client_create_def)
  have len: "length hb < 2 ^ 62" "take 4 hb = map byte_of_char ''FILE''" by (simp_all add: hb_def sample_written_def sample_text_def)
  obtain d f where "2 = c_int64 (of_nat (length d))" "db_files (cl_context cl) sample_name = Some f"
      "f_bytes f = map byte_of_char ''FILE'' @ d"
    using recorded_file_is_header_and_stream [OF t sample_open o(1) _ c(1,2) sample_ready all_written _ len(1) _ alone(1) [of 0]]
      small_reading_at c(3,4) o(2) len(2) by fastforce
  moreover have "d \<noteq> []" using calculation(1) by (auto simp: c_int64_def)
  ultimately show ?thesis by blast
qed
section \<open>What the disk does not take\<close>

text \<open>A write that takes a part of the buffer is followed by one of as many bytes as before, from the byte that was
  reached: they are not all in the buffer. (Unless the pieces are limited by \<open>-t\<close>.)\<close>

theorem short_write_goes_beyond_the_buffer:
  assumes "db_fd d = Some name" and "db_optimal_bytes d = 0" and "\<not> db_o_direct d"
    and "wr (db_writes d) (length data) = int k" and "0 < k" and "k < length data" and "length data < 2 ^ 63"
  shows "dbdisk_write_loop wr data 0 d = None"
proof -
  let ?n = "of_nat (length data) :: u64"
  have n: "unat ?n = length data" and k: "unat (of_nat k :: u64) = k" using assms(6,7) by (simp_all add: unat_of_nat)
  obtain d1 where d1: "write_fd wr data 0 ?n d = Some (of_nat k, d1)" "db_optimal_bytes d1 = 0" "\<not> db_o_direct d1"
    using assms(1-4) n by (simp add: write_fd_def)
  have "(0 :: u64) < ?n" "(of_nat k :: u64) < ?n" using n k assms(5,6) by (auto simp: word_less_nat_alt)
  moreover have "write_fd wr data (of_nat k) ?n d1 = None" using n k assms(5) by (simp add: write_fd_def)
  ultimately have "dbdisk_write_loop wr data (of_nat k) d1 = None"
    using d1 by (subst dbdisk_write_loop.simps) (simp add: next_write_def)
  then show ?thesis
    using d1 assms(2,3) \<open>(0 :: u64) < ?n\<close> by (subst dbdisk_write_loop.simps) (simp add: next_write_def)
qed

lemma short_write_goes_beyond_the_buffer_witness:
  "dbdisk_write_loop (\<lambda>k n. if k = 0 then 1 else int n) [1, 2] 0
     ((DADA_DBDISK_INIT disk_array_create (\<lambda>_. None))\<lparr>db_fd := Some ''f''\<rparr>) = None"
  by (rule short_write_goes_beyond_the_buffer [where k = 1 and name = "''f''"]) (simp_all add: DADA_DBDISK_INIT_def)

end
