(* ===== verification/Diskdb_Properties.thy ===== *)
theory Diskdb_Properties
  imports Diskdb_Runs Dbdisk_Properties
begin

text \<open>
  What is played back: the data of a run of files, and of what was recorded. How large the search for runs takes a run
  to be.
\<close>

section \<open>The data of a run\<close>

text \<open>The data of the files behind file \<open>i\<close>, as long as they continue each other; headers have \<open>H\<close> bytes.\<close>

fun run_data :: "files \<Rightarrow> nat \<Rightarrow> (nat \<Rightarrow> bool) \<Rightarrow> nat \<Rightarrow> string list \<Rightarrow> byte list" where
  "run_data fs H co i [] = []"
| "run_data fs H co i (name # names) =
     (if co i then drop H (content fs name) @ run_data fs H co (Suc i) names else [])"

definition source :: "nat \<Rightarrow> dada_diskdb \<Rightarrow> byte list" where
  "source H d =
     (case dk_fd d of None \<Rightarrow> [] | Some (name, pos) \<Rightarrow> drop pos (content (dk_files d) name))
     @ run_data (dk_files d) H (dk_continues d) (dk_cur_file d) (drop (Suc (dk_cur_file d)) (dk_filenames d))"

text \<open>A file is open, and those that continue it are there and have data.\<close>

definition playing :: "nat \<Rightarrow> u64 \<Rightarrow> dada_diskdb \<Rightarrow> bool" where
  "playing H hsz d \<longleftrightarrow>
     unat hsz = H \<and> dk_header_read d \<and> dk_seek_bytes d = 0 \<and> dk_fd d \<noteq> None \<and> length (source H d) < 2 ^ 63
     \<and> (\<forall>j. dk_cur_file d \<le> j \<longrightarrow> dk_continues d j \<longrightarrow> Suc j < length (dk_filenames d)
          \<and> dk_files d (dk_filenames d ! Suc j) \<noteq> None \<and> H < length (content (dk_files d) (dk_filenames d ! Suc j)))"

lemma c_int64_of_nat: "k < 2 ^ 63 \<Longrightarrow> c_int64 (of_nat k) = int k"
  by (simp add: c_int64_def signed_of_nat signed_take_bit_int_eq_self)

lemma take_then_drop: "xs = take n xs @ drop (length (take n xs)) xs"
  by (cases "n \<le> length xs") simp_all

lemma open_next_ok:
  assumes "playing H (cl_header_size cl) (cl_context cl)" and "dk_continues (cl_context cl) (dk_cur_file (cl_context cl))"
  defines "d \<equiv> cl_context cl"
  defines "c \<equiv> dk_filenames d ! Suc (dk_cur_file d)"
  shows "open_next_contiguous_file cl
      = Some (0, cl\<lparr>cl_context := d\<lparr>dk_cur_file := Suc (dk_cur_file d), dk_fd := Some (c, H)\<rparr>\<rparr>)"
    and "H < length (content (dk_files d) c)"
    and "drop (Suc (dk_cur_file d)) (dk_filenames d) = c # drop (Suc (Suc (dk_cur_file d))) (dk_filenames d)"
proof -
  have now: "Suc (dk_cur_file d) < length (dk_filenames d)" "dk_files d c \<noteq> None" "H < length (content (dk_files d) c)"
      "unat (cl_header_size cl) = H" "dk_fd d \<noteq> None"
    using assms(1,2) by (auto simp: playing_def d_def c_def)
  moreover have "drop (Suc (dk_cur_file d)) (dk_filenames d) = c # drop (Suc (Suc (dk_cur_file d))) (dk_filenames d)"
    using now(1) by (simp add: Cons_nth_drop_Suc c_def)
  ultimately show "open_next_contiguous_file cl = Some (0, cl\<lparr>cl_context := d\<lparr>dk_cur_file := Suc (dk_cur_file d), dk_fd := Some (c, H)\<rparr>\<rparr>)"
    and "H < length (content (dk_files d) c)"
    and "drop (Suc (dk_cur_file d)) (dk_filenames d) = c # drop (Suc (Suc (dk_cur_file d))) (dk_filenames d)"
    by (auto simp: open_next_contiguous_file_def diskdb_close_def open_current_def seek_to_def c_def d_def Let_def)
qed

lemma file_read_gives:
  assumes P: "playing H (cl_header_size cl) (cl_context cl)"
  shows "\<exists>cl' d. file_read_function cl n = Some (int (length d), d, cl') \<and> source H (cl_context cl) = d @ source H (cl_context cl')
     \<and> length d \<le> unat n \<and> (d = [] \<longrightarrow> source H (cl_context cl) = [] \<or> n = 0)
     \<and> playing H (cl_header_size cl') (cl_context cl') \<and> cl_data cl' = cl_data cl \<and> transfer_bytes cl' = transfer_bytes cl"
proof -
  let ?d = "cl_context cl"
  obtain name pos where fd: "dk_fd ?d = Some (name, pos)" using P by (auto simp: playing_def)
  define new where "new = take (unat n) (drop pos (content (dk_files ?d) name))"
  let ?d1 = "?d\<lparr>dk_fd := Some (name, pos + length new)\<rparr>"
  have rd: "read_current n ?d = (int (length new), new, ?d1)" using fd by (simp add: read_current_def new_def Let_def)
  have left: "drop pos (content (dk_files ?d) name) = new @ drop (pos + length new) (content (dk_files ?d) name)"
    using take_then_drop [of "drop pos (content (dk_files ?d) name)" "unat n"] unfolding new_def by (simp only: drop_drop add.commute)
  have src: "source H ?d = new @ source H ?d1" using left fd by (simp add: source_def)
  have len: "length new \<le> unat n" "length new < 2 ^ 63" using P src by (simp_all add: new_def playing_def)
  then have unew: "unat (of_nat (length new) :: u64) = length new" by (simp add: unat_of_nat)
  have play1: "playing H (cl_header_size cl) ?d1" using P src fd by (simp add: playing_def)
  let ?cl1 = "cl\<lparr>cl_context := ?d1\<rparr>"
  have hr: "dk_header_read ?d" "dk_seek_bytes ?d = 0" using P by (simp_all add: playing_def)
  show ?thesis
  proof (cases "(of_nat (length new) :: u64) < n \<and> dk_continues ?d (dk_cur_file ?d)")
    case False
    then have "file_read_function cl n = Some (c_int64 (of_nat (length new)), new, ?cl1)"
      using hr rd by (auto simp: file_read_function_def Let_def)
    moreover have "source H ?d = []" if "new = []" "n \<noteq> 0"
    proof -
      have "(0 :: u64) < n" using that(2) by (simp add: word_gt_0)
      then have "\<not> dk_continues ?d (dk_cur_file ?d)" using False that(1) by simp
      moreover have "0 < unat n" using that(2) by (simp add: unat_gt_0)
      then have "drop pos (content (dk_files ?d) name) = []" using that(1) by (simp add: new_def)
      ultimately show ?thesis using fd
        by (cases "drop (Suc (dk_cur_file ?d)) (dk_filenames ?d)") (simp_all add: source_def)
    qed
    ultimately show ?thesis
      using src len play1 by (intro exI [of _ ?cl1] exI [of _ new]) (auto simp: c_int64_of_nat)
  next
    case True
    then have short: "length new < unat n" using unew by (simp add: word_less_nat_alt)
    define c where "c = dk_filenames ?d ! Suc (dk_cur_file ?d)"
    have co: "playing H (cl_header_size ?cl1) (cl_context ?cl1)" "dk_continues (cl_context ?cl1) (dk_cur_file (cl_context ?cl1))"
      using play1 True by simp_all
    note nx = open_next_ok [OF co, simplified, folded c_def]
    let ?d2 = "?d\<lparr>dk_cur_file := Suc (dk_cur_file ?d), dk_fd := Some (c, H)\<rparr>"
    let ?m = "n - of_nat (length new)"
    define rest where "rest = take (unat ?m) (drop H (content (dk_files ?d) c))"
    let ?d3 = "?d2\<lparr>dk_fd := Some (c, H + length rest)\<rparr>"
    let ?cl3 = "cl\<lparr>cl_context := ?d3\<rparr>"
    have rd2: "read_current ?m ?d2 = (int (length rest), rest, ?d3)"
      by (simp add: read_current_def rest_def Let_def)
    have m: "unat ?m = unat n - length new" using short unew by (simp add: unat_sub word_le_nat_alt)
    have behind: "drop (pos + length new) (content (dk_files ?d) name) = []" using short by (simp add: new_def)
    have "drop H (content (dk_files ?d) c) = rest @ drop (H + length rest) (content (dk_files ?d) c)"
      using take_then_drop [of "drop H (content (dk_files ?d) c)" "unat ?m"] unfolding rest_def
      by (simp only: drop_drop add.commute)
    then have src3: "source H ?d = (new @ rest) @ source H ?d3"
      using src behind True nx(3) by (simp add: source_def)
    then have len3: "length (new @ rest) < 2 ^ 63" using P by (simp add: playing_def)
    have "length (new @ rest) \<le> unat n" using short m by (simp add: rest_def)
    moreover have "rest \<noteq> []" using m short nx(2) by (simp add: rest_def)
    moreover have "playing H (cl_header_size cl) ?d3" using P src3 by (simp add: playing_def)
    moreover have "file_read_function cl n = Some (c_int64 (of_nat (length (new @ rest))), new @ rest, ?cl3)"
      using hr rd True nx(1) rd2 by (simp add: file_read_function_def Let_def)
    ultimately show ?thesis
      using src3 len3 by (intro exI [of _ ?cl3] exI [of _ "new @ rest"]) (simp add: c_int64_of_nat del: length_append)
  qed
qed

lemma diskdb_gives: "gives_while (playing H) (diskdb_functions page z) (source H)"
  using file_read_gives by (simp add: gives_while_def diskdb_functions_def)

section \<open>Playing back\<close>

lemma run_is_appended:
  assumes "dada_client_io_loop (diskdb_functions page False) env (the_ring s) cl = Some (n, r', cl')"
    and "direction cl = Writing_direction" and "n \<noteq> - 1" and "optimal_bytes cl \<noteq> 0" and "playing H (cl_header_size cl) (cl_context cl)"
    and "writing_at s (cl_data cl)" and "leaves_writer env"
    and "N_of (the_ring s) + length (source H (cl_context cl)) < 2 ^ 64"
    and "d = (if transfer_bytes cl = 0 then source H (cl_context cl)
              else take (unat (transfer_bytes cl)) (source H (cl_context cl)))"
  shows "\<exists>s'. stream_step\<^sup>*\<^sup>* s s' \<and> the_ring s' = r' \<and> writing_at s' (cl_data cl')
     \<and> stream_bytes s' (cl_data cl') = stream_bytes s (cl_data cl) @ d \<and> n = int (length d)"
proof -
  have "appended (source H) s 0 0 cl (n, r', cl')"
    using write_loop_appends [of "diskdb_functions page False" env "optimal_bytes cl" 0 0 "the_ring s" cl "(n, r', cl')" "playing H"
        "source H" s 0] assms(1-8) diskdb_gives
    by (simp add: dada_client_io_loop_def counted_0)
  then obtain s' d' where run: "stream_step\<^sup>*\<^sup>* s s'" "the_ring s' = r'" "writing_at s' (cl_data cl')"
      "stream_bytes s' (cl_data cl') = stream_bytes s (cl_data cl) @ d'" "source H (cl_context cl) = d' @ source H (cl_context cl')"
      "n = c_int64 (of_nat (length d'))"
      "source H (cl_context cl') = [] \<or> transfer_bytes cl \<noteq> 0 \<and> length d' = unat (transfer_bytes cl)"
      "transfer_bytes cl \<noteq> 0 \<longrightarrow> length d' \<le> unat (transfer_bytes cl)"
    unfolding appended_def by auto
  have "length d' < 2 ^ 63" using assms(5) run(5) by (simp add: playing_def)
  then have "n = int (length d')" using run(6) by (simp add: c_int64_of_nat)
  moreover have "d' = d" using run(5,7,8) assms(9) by auto
  ultimately show ?thesis using run by auto
qed

text \<open>C33. The program that plays files back appends to the stream the data of the file that is open and of all files that
  continue it, without their headers, in order and without a gap, up to the length of the transfer, whatever the other
  processes do to the ring meanwhile and in whatever pieces the bytes are read.\<close>

theorem run_of_files_is_played_back:
  assumes "dada_client_io_loop (diskdb_functions page False) env (the_ring s) cl = Some (n, r', cl')"
    and "direction cl = Writing_direction" and "n \<noteq> - 1" and "optimal_bytes cl \<noteq> 0" and "playing H (cl_header_size cl) (cl_context cl)"
    and "writing_at s (cl_data cl)" and "leaves_writer env"
    and "N_of (the_ring s) + length (source H (cl_context cl)) < 2 ^ 64"
    and "d = (if transfer_bytes cl = 0 then source H (cl_context cl)
              else take (unat (transfer_bytes cl)) (source H (cl_context cl)))"
  shows "\<exists>s'. stream_step\<^sup>*\<^sup>* s s' \<and> the_ring s' = r' \<and> writing_at s' (cl_data cl')
     \<and> stream_bytes s' (cl_data cl') = stream_bytes s (cl_data cl) @ d \<and> n = int (length d)"
  using run_is_appended [OF assms] .

text \<open>A sample: two files, the second of which continues the first; each has a header of one byte.\<close>

definition sample_diskdb :: dada_diskdb where
  "sample_diskdb = (diskdb_init [''a'', ''b''] 0
       [''a'' \<mapsto> \<lparr>f_bytes = [65, 7], f_writable = False\<rparr>, ''b'' \<mapsto> \<lparr>f_bytes = [66, 8], f_writable = False\<rparr>])
     \<lparr>dk_header_read := True, dk_continues := (\<lambda>i. i = 0), dk_fd := Some (''a'', 1)\<rparr>"

definition sample_player :: "dada_diskdb dada_client" where
  "sample_player = (dada_client_create small_writer IPCBUF_INIT sample_diskdb)
     \<lparr>direction := Writing_direction, optimal_bytes := 5, cl_header_size := 1\<rparr>"

lemma sample_source: "source 1 sample_diskdb = [7, 8]"
  by (simp add: source_def sample_diskdb_def diskdb_init_def content_def)

lemma sample_playing: "playing 1 (cl_header_size sample_player) (cl_context sample_player)"
  using sample_source
  by (auto simp: playing_def sample_player_def dada_client_create_def sample_diskdb_def diskdb_init_def content_def)

lemma sample_plays:
  obtains r' cl' where "dada_client_io_loop (diskdb_functions page False) (\<lambda>_ r. r) small_ring sample_player = Some (2, r', cl')"
proof -
  obtain r' c' where wr: "ipcio_write small_ring small_writer [7, 8] = Some (2, r', c')" using small_write by blast
  have sel: "io_give (diskdb_functions page False) = file_read_function" by (simp add: diskdb_functions_def)
  define d2 where "d2 = sample_diskdb\<lparr>dk_cur_file := 1, dk_fd := Some (''b'', 2)\<rparr>"
  have one: "file_read_function sample_player 5 = Some (2, [7, 8], sample_player\<lparr>cl_context := d2\<rparr>)"
    by (simp add: file_read_function_def read_current_def open_next_contiguous_file_def diskdb_close_def open_current_def seek_to_def
        content_def d2_def sample_player_def sample_diskdb_def diskdb_init_def dada_client_create_def Let_def c_int64_def)
  have two: "file_read_function (sample_player\<lparr>cl_context := d2, cl_data := c'\<rparr>) 5
      = Some (0, [], sample_player\<lparr>cl_context := d2, cl_data := c'\<rparr>)"
    by (simp add: file_read_function_def read_current_def open_next_contiguous_file_def diskdb_close_def open_current_def seek_to_def
        content_def d2_def sample_player_def sample_diskdb_def diskdb_init_def dada_client_create_def Let_def c_int64_def)
  have loop2: "io_loop_write (diskdb_functions page False) (\<lambda>_ r. r) 5 1 2 r' (sample_player\<lparr>cl_context := d2, cl_data := c'\<rparr>)
      = Some (2, r', sample_player\<lparr>cl_context := d2, cl_data := c'\<rparr>)"
    using two
    by (subst io_loop_write.simps)
      (simp add: sel more_to_transfer_def next_bytes_def sample_player_def dada_client_create_def c_int64_def)
  have "io_loop_write (diskdb_functions page False) (\<lambda>_ r. r) 5 0 0 small_ring sample_player
      = Some (2, r', sample_player\<lparr>cl_context := d2, cl_data := c'\<rparr>)"
    using one wr loop2
    by (subst io_loop_write.simps)
      (simp add: sel more_to_transfer_def next_bytes_def on_cl_data_def sample_player_def dada_client_create_def)
  then show ?thesis
    using that by (simp add: dada_client_io_loop_def sample_player_def)
qed

lemma run_of_files_is_played_back_witness:
  "\<exists>s' (cl' :: dada_diskdb dada_client). stream_step\<^sup>*\<^sup>* (stream_start small_ring) s' \<and> writing_at s' (cl_data cl')
     \<and> stream_bytes s' (cl_data cl') = [7, 8]"
proof -
  obtain r' cl' where go: "dada_client_io_loop (diskdb_functions 4096 False) (\<lambda>_ r. r) (the_ring (stream_start small_ring)) sample_player
      = Some (2, r', cl')"
    using sample_plays [of 4096] by (auto simp: stream_start_def)
  have player: "direction sample_player = Writing_direction" "optimal_bytes sample_player \<noteq> 0" "cl_data sample_player = small_writer"
      "transfer_bytes sample_player = 0" "source 1 (cl_context sample_player) = [7, 8]"
    using sample_source by (simp_all add: sample_player_def dada_client_create_def)
  have "stream_bytes (stream_start small_ring) small_writer = []"
    by (simp add: stream_bytes_def small_writer_def IPCIO_INIT_def stream_start_def)
  moreover obtain s' where "stream_step\<^sup>*\<^sup>* (stream_start small_ring) s'" "writing_at s' (cl_data cl')"
      "stream_bytes s' (cl_data cl') = stream_bytes (stream_start small_ring) small_writer @ [7, 8]"
    using run_of_files_is_played_back [OF go player(1) _ player(2) sample_playing _ alone(2)] small_writing player(3-5)
    by (auto simp: stream_start_def)
  ultimately show ?thesis by (metis append_Nil)
qed

section \<open>Recording and playing back\<close>

text \<open>The file \<open>name\<close> is open behind its header, and no other file continues it.\<close>

definition opened_behind_header :: "files \<Rightarrow> string \<Rightarrow> nat \<Rightarrow> dada_diskdb \<Rightarrow> bool" where
  "opened_behind_header fs name H d \<longleftrightarrow>
     dk_files d = fs \<and> dk_fd d = Some (name, H) \<and> dk_header_read d \<and> dk_seek_bytes d = 0
     \<and> (\<forall>j. dk_cur_file d \<le> j \<longrightarrow> \<not> dk_continues d j) \<and> length (content fs name) < 2 ^ 63"

text \<open>C34. What was recorded is played back: if a file written by a transfer of the recording program is opened by the
  program that plays files, behind its header, then the bytes appended to the second stream are those that the
  recorder took from the first one, whatever the other processes of either unit do meanwhile.\<close>

theorem recording_is_played_back:
  assumes "dada_client_transfer page (dbdisk_functions statfs wr False) env hr (the_ring s) cl = Some (n, hr', dr', cl')"
    and "dbdisk_open statfs hr cl = Some (0, hr1, cl1)" and "cl_header cl1 = Some (Private hb)"
    and "0 < n" and "direction cl = Reading" and "header_transfer cl" and "dbdisk_ready (cl_context cl)"
    and "writes_all wr" and "unat page < 2 ^ 50" and "length hb < 2 ^ 62" and "unat (cl_header_size cl) \<le> length hb"
    and "reading_at s i (cl_data cl)" and "leaves_reader env i"
    and "dada_client_io_loop (diskdb_functions page False) env' (the_ring t) pl = Some (m, r', pl')"
    and "direction pl = Writing_direction" and "m \<noteq> - 1" and "optimal_bytes pl \<noteq> 0"
    and "cl_header_size pl = cl_header_size cl" and "transfer_bytes pl = 0 \<or> nat n \<le> unat (transfer_bytes pl)"
    and "opened_behind_header (db_files (cl_context cl')) (db_file_name (cl_context cl1)) (unat (cl_header_size cl)) (cl_context pl)"
    and "writing_at t (cl_data pl)" and "leaves_writer env'"
    and "N_of (the_ring t) < 2 ^ 63"
  shows "\<exists>s' t' d. stream_step\<^sup>*\<^sup>* s s' \<and> the_ring s' = dr' \<and> taken_bytes s' i (cl_data cl') = taken_bytes s i (cl_data cl) @ d
     \<and> stream_step\<^sup>*\<^sup>* t t' \<and> the_ring t' = r' \<and> stream_bytes t' (cl_data pl') = stream_bytes t (cl_data pl) @ d
     \<and> m = int (length d)"
proof -
  let ?H = "unat (cl_header_size cl)" and ?d = "cl_context pl" and ?name = "db_file_name (cl_context cl1)"
  obtain s' d f where rec: "stream_step\<^sup>*\<^sup>* s s'" "the_ring s' = dr'" "taken_bytes s' i (cl_data cl') = taken_bytes s i (cl_data cl) @ d"
      "n = c_int64 (of_nat (length d))" "db_files (cl_context cl') ?name = Some f" "f_bytes f = take ?H hb @ d"
    using transfer_is_recorded [OF assms(1-10,12,13)] by blast
  note op = assms(20) [unfolded opened_behind_header_def]
  have "length (take ?H hb) = ?H" using assms(11) by simp
  then have src: "source ?H ?d = d"
    using rec(5,6) op
    by (cases "drop (Suc (dk_cur_file ?d)) (dk_filenames ?d)") (simp_all add: source_def content_def)
  have small: "length d < 2 ^ 63" using op rec(5,6) by (simp add: content_def)
  then have n: "nat n = length d" using rec(4) by (simp add: c_int64_of_nat)
  have "playing ?H (cl_header_size pl) ?d"
    using assms(18) op src small by (simp add: playing_def)
  moreover have "d = (if transfer_bytes pl = 0 then source ?H ?d else take (unat (transfer_bytes pl)) (source ?H ?d))"
    using assms(19) src n by auto
  moreover have "N_of (the_ring t) + length (source ?H ?d) < 2 ^ 64" using assms(23) small src by simp
  ultimately obtain t' where "stream_step\<^sup>*\<^sup>* t t'" "the_ring t' = r'" "stream_bytes t' (cl_data pl') = stream_bytes t (cl_data pl) @ d"
      "m = int (length d)"
    using run_is_appended [OF assms(14-17) _ assms(21,22)] by blast
  then show ?thesis using rec by blast
qed

text \<open>The file of the sample of the recorder, played back.\<close>

definition sample_replay :: "files \<Rightarrow> dada_diskdb dada_client" where
  "sample_replay fs =
     (dada_client_create small_writer IPCBUF_INIT
       ((diskdb_init [sample_name] 0 fs)\<lparr>dk_header_read := True, dk_fd := Some (sample_name, 4)\<rparr>))
     \<lparr>direction := Writing_direction, optimal_bytes := 5, cl_header_size := 4\<rparr>"

lemma sample_replays:
  assumes "content fs sample_name = map byte_of_char ''FILE'' @ [7, 8]"
  obtains r' cl' where "dada_client_io_loop (diskdb_functions page False) (\<lambda>_ r. r) small_ring (sample_replay fs) = Some (2, r', cl')"
proof -
  let ?cl = "sample_replay fs"
  obtain r' c' where wr: "ipcio_write small_ring small_writer [7, 8] = Some (2, r', c')" using small_write by blast
  have sel: "io_give (diskdb_functions page False) = file_read_function" by (simp add: diskdb_functions_def)
  define d2 where "d2 = (cl_context ?cl)\<lparr>dk_fd := Some (sample_name, 6)\<rparr>"
  note defs = file_read_function_def read_current_def d2_def sample_replay_def diskdb_init_def dada_client_create_def Let_def c_int64_def
  have one: "file_read_function ?cl 5 = Some (2, [7, 8], ?cl\<lparr>cl_context := d2\<rparr>)"
    using assms by (simp add: defs)
  have two: "file_read_function (?cl\<lparr>cl_context := d2, cl_data := c'\<rparr>) 5 = Some (0, [], ?cl\<lparr>cl_context := d2, cl_data := c'\<rparr>)"
    using assms by (simp add: defs)
  have loop2: "io_loop_write (diskdb_functions page False) (\<lambda>_ r. r) 5 1 2 r' (?cl\<lparr>cl_context := d2, cl_data := c'\<rparr>)
      = Some (2, r', ?cl\<lparr>cl_context := d2, cl_data := c'\<rparr>)"
    using two
    by (subst io_loop_write.simps)
      (simp add: sel more_to_transfer_def next_bytes_def sample_replay_def dada_client_create_def c_int64_def)
  have "io_loop_write (diskdb_functions page False) (\<lambda>_ r. r) 5 0 0 small_ring ?cl
      = Some (2, r', ?cl\<lparr>cl_context := d2, cl_data := c'\<rparr>)"
    using one wr loop2
    by (subst io_loop_write.simps)
      (simp add: sel more_to_transfer_def next_bytes_def on_cl_data_def sample_replay_def dada_client_create_def)
  then show ?thesis
    using that by (simp add: dada_client_io_loop_def sample_replay_def)
qed

lemma recording_is_played_back_witness:
  "\<exists>s' t' c c' d. stream_step\<^sup>*\<^sup>* small_waiting s' \<and> taken_bytes s' 0 c = d
     \<and> stream_step\<^sup>*\<^sup>* (stream_start small_ring) t' \<and> stream_bytes t' c' = d \<and> length d = 2"
proof -
  obtain hr dr cl where rec: "dada_client_transfer 4096 (dbdisk_functions sample_statfs (\<lambda>_. int) False) (\<lambda>_ r. r) small_ring
      (the_ring small_waiting) sample_client = Some (2, hr, dr, cl)"
    and bytes0: "file_bytes sample_name (cl_context cl) = map byte_of_char ''FILE'' @ [7, 8]"
    by (rule sample_transfer) (simp add: small_waiting_def)
  let ?fs = "db_files (cl_context cl)" and ?pl = "sample_replay (db_files (cl_context cl))"
  have bytes: "content ?fs sample_name = map byte_of_char ''FILE'' @ [7, 8]" using bytes0 by (simp add: file_bytes_def content_def)
  obtain r' pl' where play: "dada_client_io_loop (diskdb_functions 4096 False) (\<lambda>_ r. r) (the_ring (stream_start small_ring)) ?pl
      = Some (2, r', pl')"
    by (rule sample_replays [OF bytes, of 4096]) (simp add: stream_start_def)
  define hb where "hb = map byte_of_char sample_written @ [0 :: byte]"
  have o: "cl_header sample_opened = Some (Private hb)" "db_file_name (cl_context sample_opened) = sample_name"
      "length hb < 2 ^ 62" "4 \<le> length hb"
    by (simp_all add: sample_opened_def hb_def sample_written_def sample_text_def)
  have c: "direction sample_client = Reading" "header_transfer sample_client" "cl_header_size sample_client = 4"
      "cl_data sample_client = small_reading"
    by (simp_all add: sample_client_def dada_client_create_def)
  have p: "direction ?pl = Writing_direction" "optimal_bytes ?pl \<noteq> 0" "cl_header_size ?pl = cl_header_size sample_client"
      "transfer_bytes ?pl = 0 \<or> nat 2 \<le> unat (transfer_bytes ?pl)" "cl_data ?pl = small_writer"
      "opened_behind_header ?fs (db_file_name (cl_context sample_opened)) (unat (cl_header_size sample_client)) (cl_context ?pl)"
    using bytes c(3) o(2) by (simp_all add: sample_replay_def dada_client_create_def opened_behind_header_def diskdb_init_def)
  have start: "taken_bytes small_waiting 0 small_reading = []" "stream_bytes (stream_start small_ring) small_writer = []"
    by (simp_all add: taken_bytes_def small_reading_def IPCIO_INIT_def small_waiting_def stream_start_def stream_bytes_def small_writer_def)
  have "N_of (the_ring (stream_start small_ring)) < 2 ^ 63"
    by (simp add: stream_start_def small_ring_def create_sync_def zero_sync_def)
  then obtain s' t' d where "stream_step\<^sup>*\<^sup>* small_waiting s'" "taken_bytes s' 0 (cl_data cl) = d"
      "stream_step\<^sup>*\<^sup>* (stream_start small_ring) t'" "stream_bytes t' (cl_data pl') = d" "2 = int (length d)"
    using recording_is_played_back [OF rec sample_open o(1) _ c(1,2) sample_ready all_written _ o(3) _ _ alone(1) [of 0] play p(1) _ p(2,3,4,6)
        _ alone(2)] o(4) c(3,4) small_reading_at small_writing p(5) start
    by fastforce
  moreover have "length d = 2" using calculation by simp
  ultimately show ?thesis by blast
qed

end
