(* ===== verification/Stream_Roles.thy ===== *)
theory Stream_Roles
  imports Ipcio Ring_Properties
begin

text \<open>
  The mode of a stream and the state of its handle: a stream that is open for writing has the handle of the ring's writer, one
  that is open for reading that of a reader, one that is open for viewing that of a viewer.
\<close>

section \<open>Roles\<close>

datatype role = Nobody | Views | Writes | Reads

fun state_role :: "ipcstate \<Rightarrow> role" where
  "state_role DISCON = Nobody"
| "state_role VIEWER = Views"
| "state_role VIEWING = Views"
| "state_role VSTOP = Views"
| "state_role WRITER = Writes"
| "state_role WRITING = Writes"
| "state_role WCHANGE = Writes"
| "state_role READER = Reads"
| "state_role READING = Reads"
| "state_role RSTOP = Reads"

definition role :: "ipcbuf \<Rightarrow> role" where
  "role p = state_role (state p)"

definition mode_role :: "char \<Rightarrow> role option" where
  "mode_role m =
     (if m = CHR ''w'' \<or> m = CHR ''W'' then Some Writes else if m = CHR ''R'' then Some Reads
      else if m = CHR ''r'' then Some Views else None)"

text \<open>The type of a stream: its mode is one of the five, and goes with the role of the handle.\<close>

definition typed :: "ipcio \<Rightarrow> bool" where
  "typed c \<longleftrightarrow> rdwrt c = CLOSED \<or> mode_role (rdwrt c) = Some (role (buf c))"

lemma role_writer: "ipcbuf_is_writer p \<longleftrightarrow> role p = Writes"
  by (cases "state p") (simp_all add: role_def ipcbuf_is_writer_def)

lemma role_reader: "ipcbuf_is_reader p \<longleftrightarrow> role p = Reads"
  by (cases "state p") (simp_all add: role_def ipcbuf_is_reader_def)

section \<open>Operations of the ring\<close>

lemma role_enable_sod: "ipcbuf_enable_sod r p a b = Some (x, r', p') \<Longrightarrow> role p' = role p"
  by (auto simp: ipcbuf_enable_sod_def sod_allowed_def Let_def role_def split: bind_splits if_splits)

lemma role_get_next_write: "ipcbuf_get_next_write r p = Some (x, r', p') \<Longrightarrow> role p' = role p"
  by (auto simp: ipcbuf_get_next_write_def Let_def dest!: role_enable_sod split: bind_splits if_splits)

lemma role_end_transfer: "end_transfer r p n = Some (x, r', p') \<Longrightarrow> role p = Writes \<Longrightarrow> role p' = role p"
  by (auto simp: end_transfer_def Let_def role_def dest!: role_get_next_write split: bind_splits if_splits)

lemma role_mark_filled: "ipcbuf_mark_filled r p n = Some (x, r', p') \<Longrightarrow> role p' = role p"
  by (auto simp: ipcbuf_mark_filled_def role_writer dest!: role_end_transfer split: bind_splits if_splits)

lemma role_mark_cleared: "ipcbuf_mark_cleared r p = Some (x, r', p') \<Longrightarrow> role p' = role p"
  by (auto simp: ipcbuf_mark_cleared_def Let_def role_def split: bind_splits if_splits)

lemma role_zero_next: "ipcbuf_zero_next_write r p = Some (x, r', p') \<Longrightarrow> role p' = role p"
  by (auto simp: ipcbuf_zero_next_write_def Let_def split: if_splits)

lemma role_enable_eod: "ipcbuf_enable_eod p = (x, p') \<Longrightarrow> role p' = role p"
  by (auto simp: ipcbuf_enable_eod_def role_def split: if_splits)

lemma role_disable_sod: "ipcbuf_disable_sod p = (x, p') \<Longrightarrow> role p' = role p"
  by (auto simp: ipcbuf_disable_sod_def role_def split: if_splits)

lemma role_next_read_reader: "next_read_reader r p = Some (x, r', p') \<Longrightarrow> role p' = role p"
  by (auto simp: next_read_reader_def Let_def role_def split: bind_splits if_splits)

lemma role_next_read_viewer:
  assumes "next_read_viewer r p = Some (x, r', p')" and "role p = Views"
  shows "role p' = Views"
  using assms unfolding next_read_viewer_def Let_def
  by (cases "state p") (auto simp: role_def split: if_splits)

lemma role_get_next_read:
  assumes "ipcbuf_get_next_read r p = Some (x, r', p')" and "role p = Reads \<or> role p = Views"
  shows "role p' = role p"
  using assms
  by (auto simp: ipcbuf_get_next_read_def ipcbuf_get_next_read_work_def role_reader Let_def
      dest: role_next_read_reader role_next_read_viewer split: bind_splits option.splits if_splits)

lemma role_lock_write: "ipcbuf_lock_write r p = Some (x, r', p') \<Longrightarrow> if x < 0 then p' = p else role p' = Writes"
  by (auto simp: ipcbuf_lock_write_def role_def split: bind_splits if_splits)

lemma role_lock_read: "ipcbuf_lock_read r p = Some (x, r', p') \<Longrightarrow> if x < 0 then p' = p else role p' = Reads"
  by (auto simp: ipcbuf_lock_read_def role_def split: bind_splits prod.splits if_splits)

lemma role_unlock_write: "ipcbuf_unlock_write r p = Some (x, r', p') \<Longrightarrow> if x < 0 then p' = p else role p' = Views"
  by (auto simp: ipcbuf_unlock_write_def role_def split: bind_splits if_splits)

lemma role_unlock_read: "ipcbuf_unlock_read r p = Some (x, r', p') \<Longrightarrow> if x < 0 then p' = p else role p' = Views"
  by (auto simp: ipcbuf_unlock_read_def role_def split: bind_splits if_splits)

section \<open>Operations of the stream\<close>

text \<open>Neither the role of the handle nor the mode of the stream changes.\<close>

definition keeps :: "ipcio \<Rightarrow> ipcio \<Rightarrow> bool" where
  "keeps c c' \<longleftrightarrow> role (buf c') = role (buf c) \<and> rdwrt c' = rdwrt c"

lemma keeps_refl [simp]: "keeps c c" by (simp add: keeps_def)

lemma keeps_trans: "keeps a b \<Longrightarrow> keeps b c \<Longrightarrow> keeps a c" by (simp add: keeps_def)

lemma typed_keeps: "typed c \<Longrightarrow> keeps c c' \<Longrightarrow> typed c'" by (simp add: typed_def keeps_def)

lemma on_bufE:
  assumes "on_buf f r c = Some (x, r', c')"
  obtains p where "f r (buf c) = Some (x, r', p)" and "c' = c\<lparr>buf := p\<rparr>"
  using assms by (auto simp: on_buf_def split: option.splits)

lemma on_buf_keeps:
  assumes "on_buf f r c = Some (x, r', c')" and "\<And>p. f r (buf c) = Some (x, r', p) \<Longrightarrow> role p = role (buf c)"
  shows "keeps c c'"
  using assms by (auto simp: keeps_def elim: on_bufE)

lemmas on_buf_ops =
  on_buf_keeps [OF _ role_enable_sod] on_buf_keeps [OF _ role_mark_filled] on_buf_keeps [OF _ role_get_next_write]
  on_buf_keeps [OF _ role_mark_cleared] on_buf_keeps [OF _ role_zero_next]

lemma check_pending_keeps: "ipcio_check_pending_sod r c = Some (x, r', c') \<Longrightarrow> keeps c c'"
  by (auto simp: ipcio_check_pending_sod_def keeps_def elim!: on_bufE dest!: role_enable_sod split: bind_splits if_splits)

lemma flush_full_keeps: "flush_full r c = Some (x, r', c') \<Longrightarrow> keeps c c'"
  by (auto simp: flush_full_def keeps_def elim!: on_bufE dest!: role_mark_filled check_pending_keeps split: bind_splits if_splits)

lemma write_prepare_keeps: "write_prepare r c = Some (x, r', c') \<Longrightarrow> keeps c c'"
  by (auto simp: write_prepare_def keeps_def elim!: on_bufE dest!: role_get_next_write flush_full_keeps
      split: bind_splits option.splits if_splits)

lemma write_loop_keeps:
  assumes "write_loop d r c = Some (x, r', c')"
  shows "keeps c c'"
proof -
  have "\<forall>x r' c'. y = (x, r', c') \<longrightarrow> keeps c c'" if "write_loop d r c = Some y" for y
  proof (rule write_loop.raw_induct [OF _ that], goal_cases)
    case (1 loop d r c y)
    then show ?case
      by (fastforce simp: Let_def keeps_def dest!: write_prepare_keeps split: bind_splits if_splits)
  qed
  with assms show ?thesis by blast
qed

lemma close_block_write_keeps: "ipcio_close_block_write r c n = Some (x, r', c') \<Longrightarrow> keeps c c'"
  by (auto simp: ipcio_close_block_write_def ipcio_update_block_write_def shift_open_def Let_def keeps_def
      elim!: on_bufE dest!: role_mark_filled check_pending_keeps split: bind_splits if_splits)

lemma close_open_blocks_keeps:
  assumes "close_open_blocks r c = Some (r', c')"
  shows "keeps c c'"
proof -
  have "\<forall>r' c'. y = (r', c') \<longrightarrow> keeps c c'" if "close_open_blocks r c = Some y" for y
  proof (rule close_open_blocks.raw_induct [OF _ that], goal_cases)
    case (1 loop r c y)
    then show ?case
      by (auto dest!: close_block_write_keeps intro: keeps_trans split: bind_splits if_splits)
  qed
  with assms show ?thesis by blast
qed

lemma end_writing_keeps: "end_writing r c = Some (x, r', c') \<Longrightarrow> keeps c c'"
  by (auto simp: end_writing_def Let_def keeps_def elim!: on_bufE
      dest!: close_open_blocks_keeps role_enable_eod role_mark_filled check_pending_keeps split: bind_splits prod.splits if_splits)

text \<open>Reading keeps them when the handle is that of a reader or a viewer.\<close>

definition may_read :: "ipcio \<Rightarrow> bool" where
  "may_read c \<longleftrightarrow> role (buf c) = Reads \<or> role (buf c) = Views"

lemma read_open_keeps: "read_open r c = Some (x, r', c') \<Longrightarrow> may_read c \<Longrightarrow> keeps c c'"
  by (auto simp: read_open_def keeps_def may_read_def elim!: on_bufE dest!: role_get_next_read split: bind_splits option.splits if_splits)

lemma read_done_keeps: "read_done r c n = Some (x, r', c') \<Longrightarrow> keeps c c'"
  by (auto simp: read_done_def keeps_def elim!: on_bufE dest!: role_mark_cleared split: bind_splits if_splits)

lemma read_loop_keeps:
  assumes "read_loop n d r c = Some (x, r', c')" and "may_read c"
  shows "keeps c c'"
proof -
  have "\<forall>x r' c'. y = (x, r', c') \<longrightarrow> may_read c \<longrightarrow> keeps c c'" if "read_loop n d r c = Some y" for y
  proof (rule read_loop.raw_induct [OF _ that], goal_cases)
    case (1 loop n d r c y)
    show ?case
    proof (cases "ipcbuf_eod (buf c)")
      case True
      then show ?thesis using 1(2) by auto
    next
      case False
      then obtain ok r1 c1 where op: "read_open r c = Some (ok, r1, c1)"
        using 1(2) by (auto split: bind_splits)
      show ?thesis
      proof (intro allI impI)
        fix x r' c'
        assume y: "y = (x, r', c')" and may: "may_read c"
        note k1 = read_open_keeps [OF op may]
        show "keeps c c'"
        proof (cases ok)
          case no: False
          then show ?thesis using 1(2) False op y k1 by simp
        next
          case True
          define c2 where "c2 = c1\<lparr>bytes := bytes c1 + min (curbufsz c1 - bytes c1) n\<rparr>"
          have k2: "keeps c c2" using k1 by (simp add: keeps_def c2_def)
          obtain res r3 c3 where dn: "read_done r1 c2 (n - min (curbufsz c1 - bytes c1) n) = Some (res, r3, c3)"
            using 1(2) False op True by (auto simp: Let_def c2_def split: bind_splits)
          have k3: "keeps c c3" using keeps_trans [OF k2 read_done_keeps [OF dn]] .
          show ?thesis
          proof (cases res)
            case (Inl a)
            then show ?thesis using 1(2) False op True dn y k3 by (simp add: Let_def c2_def)
          next
            case (Inr m)
            have "loop m (d @ get_bytes (the (curbuf c1)) (bytes c1) (min (curbufsz c1 - bytes c1) n) r1) r3 c3 = Some y"
              using 1(2) False op True dn Inr by (simp add: Let_def c2_def)
            from 1(1) [OF this] have "may_read c3 \<longrightarrow> keeps c3 c'" using y by blast
            moreover have "may_read c3" using k3 may by (simp add: keeps_def may_read_def)
            ultimately show ?thesis using keeps_trans [OF k3] by blast
          qed
        qed
      qed
    qed
  qed
  with assms show ?thesis by blast
qed

section \<open>Calls\<close>

text \<open>
  A call of the library on a stream, whatever the ring holds then. A stream may be opened for viewing only on a handle that is
  not locked: nothing in \<open>ipcio_open\<close> asks for that.
\<close>

inductive stream_call :: "ipcio \<Rightarrow> ipcio \<Rightarrow> bool" where
  open_call: "ipcio_open r c m = Some (x, r', c') \<Longrightarrow> (m = CHR ''r'' \<Longrightarrow> role (buf c) = Views) \<Longrightarrow> stream_call c c'"
| start_call: "ipcio_start r c b = Some (x, r', c') \<Longrightarrow> stream_call c c'"
| stop_call: "ipcio_stop r c = Some (x, r', c') \<Longrightarrow> stream_call c c'"
| close_call: "ipcio_close r c = Some (x, r', c') \<Longrightarrow> stream_call c c'"
| write_call: "ipcio_write r c d = Some (x, r', c') \<Longrightarrow> stream_call c c'"
| read_call: "ipcio_read r c n = Some (y, r', c') \<Longrightarrow> stream_call c c'"
| seek_call: "ipcio_seek r c off cur = Some (x, r', c') \<Longrightarrow> stream_call c c'"
| open_block_read_call: "ipcio_open_block_read r c = Some (z, r', c') \<Longrightarrow> stream_call c c'"
| close_block_read_call: "ipcio_close_block_read r c n = Some (x, r', c') \<Longrightarrow> stream_call c c'"
| open_block_write_call: "ipcio_open_block_write r c = Some (v, r', c') \<Longrightarrow> stream_call c c'"
| update_block_write_call: "ipcio_update_block_write r c n = (x, c') \<Longrightarrow> stream_call c c'"
| zero_next_block_call: "ipcio_zero_next_block r c = Some (x, r', c') \<Longrightarrow> stream_call c c'"
| close_block_write_call: "ipcio_close_block_write r c n = Some (x, r', c') \<Longrightarrow> stream_call c c'"

lemma lock_write_call:
  assumes "on_buf ipcbuf_lock_write r c = Some (x, r', c')"
  shows "rdwrt c' = rdwrt c" and "\<not> x < 0 \<Longrightarrow> role (buf c') = Writes"
  using assms by (auto elim!: on_bufE dest!: role_lock_write split: if_splits)

lemma lock_read_call:
  assumes "on_buf ipcbuf_lock_read r c = Some (x, r', c')"
  shows "rdwrt c' = rdwrt c" and "\<not> x < 0 \<Longrightarrow> role (buf c') = Reads"
  using assms by (auto elim!: on_bufE dest!: role_lock_read split: if_splits)

lemma alloc_typed: "mode_role m = Some (role (buf c)) \<Longrightarrow> typed (ipcio_alloc r (c\<lparr>rdwrt := m\<rparr>))"
  by (simp add: typed_def ipcio_alloc_def)

lemma open_typed:
  assumes "ipcio_open r c m = Some (x, r', c')" and "m = CHR ''r'' \<Longrightarrow> role (buf c) = Views" and "typed c"
  shows "typed c'"
proof -
  let ?c = "c\<lparr>rdwrt := CLOSED, bytes := 0, curbuf := None\<rparr>"
  consider "m \<notin> {CHR ''R'', CHR ''r'', CHR ''w'', CHR ''W''}" | "m = CHR ''w'' \<or> m = CHR ''W''" | "m = CHR ''R''" | "m = CHR ''r''"
    by blast
  then show ?thesis
  proof cases
    case 1
    then show ?thesis using assms(1,3) by (simp add: ipcio_open_def)
  next
    case 2
    then obtain e r1 c1 where l: "on_buf ipcbuf_lock_write r ?c = Some (e, r1, c1)"
      using assms(1) by (auto simp: ipcio_open_def Let_def split: bind_splits)
    note lc = lock_write_call [OF l]
    show ?thesis
    proof (cases "e < 0")
      case True
      then show ?thesis using assms(1) 2 l lc(1) by (auto simp: ipcio_open_def Let_def typed_def)
    next
      case False
      obtain e2 p where d: "ipcbuf_disable_sod (buf c1) = (e2, p)" by fastforce
      have "role p = Writes" using role_disable_sod [OF d] lc(2) False by simp
      then show ?thesis
        using assms(1) 2 l lc False d
        by (auto simp: ipcio_open_def Let_def typed_def mode_role_def ipcio_alloc_def split: if_splits)
    qed
  next
    case 3
    then obtain e r1 c1 where l: "on_buf ipcbuf_lock_read r ?c = Some (e, r1, c1)"
      using assms(1) by (auto simp: ipcio_open_def Let_def split: bind_splits)
    note lc = lock_read_call [OF l]
    show ?thesis
    proof (cases "e < 0")
      case True
      then show ?thesis using assms(1) 3 l lc(1) by (simp add: ipcio_open_def Let_def typed_def)
    next
      case False
      then show ?thesis using assms(1) 3 l lc(2) by (auto simp: ipcio_open_def Let_def typed_def mode_role_def ipcio_alloc_def)
    qed
  next
    case 4
    then show ?thesis using assms(1,2) by (auto simp: ipcio_open_def Let_def typed_def mode_role_def ipcio_alloc_def)
  qed
qed

lemma typed_bytes [simp]: "typed (c\<lparr>bytes := n\<rparr>) = typed c"
  by (simp add: typed_def)

lemma may_read_typed: "typed c \<Longrightarrow> rdwrt c = CHR ''r'' \<or> rdwrt c = CHR ''R'' \<Longrightarrow> may_read c"
  by (auto simp: typed_def mode_role_def may_read_def)

lemma read_typed:
  assumes "ipcio_read r c n = Some (y, r', c')" and "typed c"
  shows "typed c'"
proof (cases "rdwrt c = CHR ''r'' \<or> rdwrt c = CHR ''R''")
  case True
  then obtain z where "read_loop n [] r c = Some (z, r', c')"
    using assms(1) by (auto simp: ipcio_read_def split: bind_splits)
  then show ?thesis using read_loop_keeps may_read_typed [OF assms(2) True] typed_keeps [OF assms(2)] by blast
qed (use assms in \<open>simp add: ipcio_read_def\<close>)

lemma seek_typed:
  assumes "ipcio_seek r c off cur = Some (x, r', c')" and "typed c"
  shows "typed c'"
  using assms by (auto simp: ipcio_seek_def Let_def split: bind_splits if_splits dest: read_typed)

lemma open_block_read_typed:
  assumes "ipcio_open_block_read r c = Some (z, r', c')" and "typed c"
  shows "typed c'"
proof (cases "rdwrt c = CHR ''r'' \<or> rdwrt c = CHR ''R''")
  case True
  then have "role (buf c) = Reads \<or> role (buf c) = Views" using may_read_typed [OF assms(2)] by (simp add: may_read_def)
  then have "keeps c c'"
    using assms(1)
    by (auto simp: ipcio_open_block_read_def keeps_def elim!: on_bufE dest!: role_get_next_read split: bind_splits option.splits if_splits)
  then show ?thesis using typed_keeps [OF assms(2)] by blast
qed (use assms in \<open>auto simp: ipcio_open_block_read_def split: if_splits\<close>)

lemma close_block_read_keeps: "ipcio_close_block_read r c n = Some (x, r', c') \<Longrightarrow> keeps c c'"
  by (auto simp: ipcio_close_block_read_def keeps_def Let_def elim!: on_bufE dest!: role_mark_cleared split: bind_splits if_splits)

lemma open_block_write_keeps: "ipcio_open_block_write r c = Some (v, r', c') \<Longrightarrow> keeps c c'"
  by (auto simp: ipcio_open_block_write_def keeps_def Let_def elim!: on_bufE dest!: role_get_next_write
      split: bind_splits option.splits if_splits)

lemma update_block_write_keeps: "ipcio_update_block_write r c n = (x, c') \<Longrightarrow> keeps c c'"
  by (auto simp: ipcio_update_block_write_def keeps_def split: if_splits)

lemma zero_next_block_keeps: "ipcio_zero_next_block r c = Some (x, r', c') \<Longrightarrow> keeps c c'"
  by (auto simp: ipcio_zero_next_block_def keeps_def elim!: on_bufE dest!: role_zero_next split: if_splits)

lemma write_keeps: "ipcio_write r c d = Some (x, r', c') \<Longrightarrow> keeps c c'"
  by (auto simp: ipcio_write_def keeps_def dest!: write_loop_keeps split: bind_splits if_splits)

lemma start_typed: "ipcio_start r c b = Some (x, r', c') \<Longrightarrow> typed c \<Longrightarrow> typed c'"
  by (auto simp: ipcio_start_def Let_def typed_def mode_role_def keeps_def dest!: check_pending_keeps split: if_splits)

lemma unlock_writer_call:
  "on_buf ipcbuf_unlock_write r c = Some (x, r', c') \<Longrightarrow> x < 0 \<Longrightarrow> keeps c c'"
  "on_buf ipcbuf_unlock_read r c = Some (x, r', c') \<Longrightarrow> x < 0 \<Longrightarrow> keeps c c'"
  by (auto simp: keeps_def elim!: on_bufE dest!: role_unlock_write role_unlock_read)

lemma closed_typed [simp]: "typed (c\<lparr>rdwrt := CLOSED\<rparr>)"
  by (simp add: typed_def)

lemma close_writer_typed:
  assumes "close_writer r c = Some (x, r', c')" and "typed c"
  shows "typed c'"
  using assms by (auto simp: close_writer_def intro: typed_keeps [OF _ unlock_writer_call(1)] split: bind_splits if_splits)

lemma stop_close_typed:
  assumes "ipcio_stop_close r c u = Some (x, r', c')" and "typed c"
  shows "typed c'"
proof -
  consider "rdwrt c = CHR ''W''" | "rdwrt c = CHR ''w''" | "rdwrt c = CHR ''R''"
    | "rdwrt c \<notin> {CHR ''W'', CHR ''w'', CHR ''R''}" by blast
  then show ?thesis
  proof cases
    case 1
    then obtain ok r1 c1 where e: "end_writing r c = Some (ok, r1, c1)"
      using assms(1) by (auto simp: ipcio_stop_close_def split: bind_splits)
    have t1: "typed c1" using typed_keeps [OF assms(2) end_writing_keeps [OF e]] .
    moreover have "role (buf c1) = Writes"
      using assms(2) end_writing_keeps [OF e] 1 by (simp add: typed_def mode_role_def keeps_def)
    then have "typed (c1\<lparr>rdwrt := CHR ''w''\<rparr>)" by (simp add: typed_def mode_role_def)
    ultimately show ?thesis
      using assms(1) 1 e close_writer_typed by (auto simp: ipcio_stop_close_def Let_def split: if_splits)
  next
    case 2
    then show ?thesis using assms close_writer_typed by (simp add: ipcio_stop_close_def)
  next
    case 3
    then show ?thesis
      using assms by (auto simp: ipcio_stop_close_def intro: typed_keeps [OF _ unlock_writer_call(2)] split: bind_splits if_splits)
  next
    case 4
    then show ?thesis using assms by (simp add: ipcio_stop_close_def)
  qed
qed

lemmas call_keeps = close_block_read_keeps open_block_write_keeps update_block_write_keeps zero_next_block_keeps write_keeps
  close_block_write_keeps

lemma stream_call_typed:
  assumes "stream_call c c'" and "typed c"
  shows "typed c'"
  using assms
proof cases
  case open_call
  then show ?thesis using open_typed assms(2) by blast
next
  case start_call
  then show ?thesis using start_typed assms(2) by blast
next
  case stop_call
  then show ?thesis using stop_close_typed assms(2) by (auto simp: ipcio_stop_def split: if_splits)
next
  case close_call
  then show ?thesis using stop_close_typed assms(2) by (simp add: ipcio_close_def)
next
  case read_call
  then show ?thesis using read_typed assms(2) by blast
next
  case seek_call
  then show ?thesis using seek_typed assms(2) by blast
next
  case open_block_read_call
  then show ?thesis using open_block_read_typed assms(2) by blast
qed (auto intro: typed_keeps [OF assms(2)] call_keeps)




end
