(* ===== verification/Spec2Isabelle.thy ===== *)
theory Spec2Isabelle
  imports Dbcopydb_Properties Udp_Headers Bpsr_Properties Ring_Admin_Properties String_Array Command_Parse Pwc_Properties Hdu_Properties Client_Properties Pwc_Main_Properties Dada_Num Dbevent_Properties Monitor Diskdb_Properties Stream_Roles
begin

text \<open>
  PSRDADA moves the data of a radio telescope between processes of one machine. The data pass
  through rings of sub-blocks in System V shared memory, with an ASCII header in a second ring;
  clients of the rings acquire, copy, store and inspect the stream, and take their orders
  from text commands. This development models that core, the library under
  \<^verbatim>\<open>src/src\<close>, and proves what the programs above it rely on.

  \<^bold>\<open>Parts and how they interact.\<close>
  \<^item> \<^verbatim>\<open>ipcutil.c\<close> wraps semaphores and shared memory (\<open>Semaphores\<close>,
    \<open>Ipcbuf_Create\<close>).
  \<^item> \<^verbatim>\<open>ipcbuf.c\<close> is the ring. The shared record \<open>ipcsync\<close> and the pending counts, semaphores and
    sub-blocks make up the record \<open>ring\<close>; the private \<open>ipcbuf_t\<close> of one process is the record
    \<open>ipcbuf\<close> (\<open>Ring_State\<close>). The writer's operations are in \<open>Ipcbuf_Write\<close>,
    the readers' and viewers' in \<open>Ipcbuf_Read\<close>, resets and getters in
    \<open>Ipcbuf_Admin\<close>, creation to destruction in \<open>Ipcbuf_Create\<close>.
  \<^item> \<^verbatim>\<open>ipcio.c\<close> is a byte stream over a ring (\<open>Ipcio\<close>).
  \<^item> \<^verbatim>\<open>ascii_header.c\<close>, \<^verbatim>\<open>string_array.c\<close>, \<^verbatim>\<open>command_parse.c\<close> and \<^verbatim>\<open>tmutil.c\<close> handle text
    (\<open>Ascii_Header\<close>, \<open>String_Array\<close>, \<open>Command_Parse\<close>, \<open>Tmutil\<close>, over the C library's
    string functions in \<open>C_String\<close>).
  \<^item> \<^verbatim>\<open>dada_hdu.c\<close> joins the two rings of a unit in one handle (\<open>Dada_Hdu\<close>), \<^verbatim>\<open>dada_db.c\<close>
    makes and removes them (\<open>Dada_Db\<close>).
  \<^item> \<^verbatim>\<open>dada_client.c\<close> is the main loop of a program that reads or writes a unit
    (\<open>Dada_Client\<close>); the program is a set of functions.
  \<^item> \<^verbatim>\<open>dada_pwc.c\<close> is the control interface of a program that acquires data, and
    \<^verbatim>\<open>dada_pwc_main.c\<close> its main loop (\<open>Pwc\<close>, \<open>Pwc_Main\<close>). The interface checks a
    command against the state and queues it; the loop takes it and moves from state to state.
  \<^item> \<^verbatim>\<open>dada_numdb.c\<close> and \<^verbatim>\<open>dada_dbnum.c\<close> write and check a stream of numbers to test a chain of
    rings (\<open>Dada_Num\<close>); \<^verbatim>\<open>dada_dbevent.c\<close> copies stretches of a stream that are asked for over a
    socket to a second unit (\<open>Dada_Dbevent\<close>).
  \<^item> \<^verbatim>\<open>dada_dbdisk.c\<close> is a reading client that records every transfer in a file, on a disk that
    \<^verbatim>\<open>disk_array.c\<close> finds; \<^verbatim>\<open>dada_diskdb.c\<close> is a writing client that plays files back, runs of files that
    continue each other as one transfer (\<open>Dada_Dbdisk\<close>, \<open>Disk_Array\<close>, \<open>Dada_Diskdb\<close>).
  \<^item> \<^verbatim>\<open>dada_dbcopydb.c\<close> is a reading client that copies its stream to any number of other units, whose rings
    are part of its state (\<open>Dada_Dbcopydb\<close>).
  \<^item> The telescopes send packets: \<open>Udp_Headers\<close> holds the functions that write and read their headers
    (\<^verbatim>\<open>bpsr/src/bpsr_udp.h\<close>, \<^verbatim>\<open>caspsr_udp.c\<close>, \<^verbatim>\<open>gmrt_udp.c\<close>, \<^verbatim>\<open>comap_udp.c\<close>, \<^verbatim>\<open>leda_udp.c\<close>,
    \<^verbatim>\<open>ska1_udp.c\<close>, \<^verbatim>\<open>hispec_udp.c\<close>, \<^verbatim>\<open>mopsr_udp.c\<close>, \<^verbatim>\<open>snapsr_udp.c\<close>, \<^verbatim>\<open>dada_ib_datagram.c\<close>), \<open>Bpsr_Udpdb\<close> the
    functions of \<^verbatim>\<open>bpsr/src/bpsr_udpdb.c\<close> that give the main loop of an acquiring program its blocks.
    What a socket brings is a list of events.
  \<^item> \<^verbatim>\<open>command_parse_server.c\<close> puts the parser behind a port (\<open>Command_Server\<close>), \<^verbatim>\<open>nexus.c\<close> keeps the
    connections to a network of such servers (\<open>Nexus\<close>), \<^verbatim>\<open>dada_pwc_nexus.c\<close> with its configuration
    controls a network of acquiring programs (\<open>Pwc_Nexus\<close>), and \<^verbatim>\<open>monitor.c\<close> collects their logs
    (\<open>Monitor\<close>). A connection is the lines sent and the bytes still to be read.
  A definition has the name of the function it translates; where one C function is several
  definitions, these are a loop or a branch of it each. State is passed
  explicitly: an operation takes the ring and the handle and returns them changed.

  \<^bold>\<open>What a result means.\<close> A call that does not return in the given state gives \<open>None\<close>: it sleeps
  in a semaphore operation, loops for ever, fails an assertion or goes through a null pointer.
  Whatever a sleeping call has changed before it went to sleep is not modelled;
  the step relations take only calls that complete. Errors are values (a negative result, an error
  number, \<open>Inl\<close>). Calls on the shared record are atomic; the theories on
  concurrency interleave whole calls. In the loops of the clients, \<open>env k\<close> stands for
  what the other processes do to the rings before round \<open>k\<close>.

  \<^bold>\<open>What is shown.\<close>
  \<^item> Ring: \<open>Ring_Ledger\<close> shows in both writing modes that the semaphores account for every
    sub-block and every transfer; \<open>Ring_Stream\<close> and \<open>Ring_Stream_Steps\<close> that every
    reader sees every sub-block of every transfer once, whole and in order. Both are invariants of a
    step relation, instances of the locale of \<open>Prelude\<close>. \<open>Ring_Properties\<close> and
    \<open>Ring_Admin_Properties\<close> draw the consequences: exclusion, bounds, nobody is blocked
    for ever, one writer, creation, resets.
  \<^item> Byte stream: \<open>Ipcio_Stream\<close> shows that the byte operations are runs of the stream system,
    so that the bytes read are the bytes written; \<open>Stream_Room\<close> that a write which finds
    room returns.
  \<^item> Text: round trips of the header, arrays of strings, times, and the dispatch of commands.
  \<^item> Units and clients: \<open>Hdu_Properties\<close> and \<open>Client_Properties\<close> carry the stream theorems
    through the handle and the loops, and show the errors that are lost on the way.
  \<^item> Acquisition: \<open>Pwc_Properties\<close> shows that commands are delivered in order, once, in a state
    that admits them; \<open>Pwc_Main_Properties\<close> that changes of state happen at the byte the
    command asked for, with the exceptions the loop has.
  \<^item> Positions: \<open>Stream_Position\<close> shows that a reader is told, and can seek to, the byte of the
    transfer it is at; \<open>Stream_Roles\<close> that the mode of a stream always goes with the state of
    its handle and the lock it holds.
  \<^item> Programs: \<open>Dada_Num\<close> shows that the checking program accepts the numbers of the other and
    nothing else; \<open>Dbevent_Properties\<close> follows an event from its line to the bytes of the stream that
    are copied; \<open>Dbdisk_Properties\<close> shows what is in a recorded file, \<open>Diskdb_Properties\<close> that it is played
    back without a change, \<open>Diskdb_Runs\<close> how long a run of files is taken to be.
  \<^item> Copies and packets: \<open>Dbcopydb_Properties\<close> shows that every output gets the bytes of the stream; \<open>Udp_Headers\<close> that
    every format of a header is an interpretation of one contract and packets are read back, and where two layouts of MOPSR
    are not; \<open>Bpsr_Properties\<close> that a block is complete when its packets have come in any order, what an early packet does
    to it, and that the error of a packet of the wrong size is lost.
  \<^item> Networks: \<open>Nexus_Properties\<close> shows that a command reaches every node and that replies are read as they
    were sent; \<open>Pwc_Nexus_Properties\<close> joins the controller, the server and the acquiring program: the
    states, commands and headers that arrive are those that were sent.

  \<^bold>\<open>Bounds.\<close> Counters of bytes and sub-blocks are 64-bit words, as in the sources. The transfer
  table has 8 entries and there are at most 8 readers (\<open>IPCBUF_XFERS\<close>, \<open>IPCBUF_READERS\<close>). The stream
  theorems hold while fewer than $2^{64}$ sub-blocks are written; their statements
  say so where they need it. No fuel is used: loops that may not end are partial functions in the
  option monad, and where a call is claimed to return, that is a theorem.

  \<^bold>\<open>Parameters.\<close> Arithmetic on floating point numbers and their text, the page size, the
  functions of the programs (the fields of \<open>client_functions\<close> and \<open>pwc_main_functions\<close>), the
  uninitialised memory a broken-down time starts with, and the other processes.

  \<^bold>\<open>Not modelled.\<close> Everything is read as built without CUDA. Log messages, sockets, threads beside the
  queue of commands, and the contents of the pages pinned by \<open>ipcbuf_lock\<close> are left
  out.
  Opening ports, accepting connections and starting threads (\<^verbatim>\<open>sock.c\<close>, \<open>dada_pwc_serve\<close>, the listening loop of
  the command server) are calls of the system with nothing of the program's own between them; of \<^verbatim>\<open>tmutil.c\<close>
  only what the headers use is modelled. Not modelled at all are the main loop for several
  units at once (\<^verbatim>\<open>dada_pwc_main_multi.c\<close>), \<^verbatim>\<open>node_array.c\<close>, \<^verbatim>\<open>multilog.c\<close>, and the remaining
  programs of \<^verbatim>\<open>src/src\<close>: those that inspect, edit or plot a stream, make test data, and measure rates. Of the
  telescopes only the headers of the packets and the collecting of BPSR are modelled; statistics, delays and beams are computed
  in floating point or on GPUs, and the first layout of MOPSR (\<open>v1\<close>) is left out.
  Apart from these, the network programs (InfiniBand, UDP) and the telescopes' own directories (apsr, bpsr, caspsr,
  mopsr, hispec, leda, comap, ska1, gmrt, puma2, psrix) drive hardware, sockets and GPUs through the
  library modelled here.
\<close>

end
